(* ===== verification/Prelude.thy ===== *)
theory Prelude
  imports Main "HOL-Library.Word"
begin

text \<open>
  The vocabulary every component of the development shares: Python's byte strings, the
  exceptions the library raises, results that are either an exception or a value, big-endian
  integers, slices, and the generic theory of wire formats (what it means that a reader reads
  back what a writer wrote, how such facts compose, and the loop that reads a vector).
\<close>

unbundle bit_operations_syntax

named_theorems rt_intros \<open>round-trip facts, one per wire format, composed by \<open>intro\<close>\<close>
named_theorems halt_intros \<open>facts that a reader returns or raises on every input\<close>
named_theorems progress_intros \<open>facts that a reader moves its offset forward\<close>

section \<open>Bytes, exceptions, results\<close>

type_synonym byte = "8 word"
type_synonym bytes = "byte list"

text \<open>
  The exceptions the library raises or lets through. A \<open>ValueError\<close> carries the constant part
  of its message. \<open>Nontermination\<close> is no exception: it is the outcome of a call whose loop
  never ends, kept apart so that a theorem about the result of a call also says that the call
  returns. No handler of the program catches it.
\<close>

datatype py_error =
    ValueError string
  | StructError
  | IndexError
  | KeyError
  | TypeError string
  | OverflowError
  | RuntimeError string
  | AssertionError
  | AttributeError
  | InvalidSignature
  | InvalidTag
  | FileNotFoundError
  | Nontermination

type_synonym 'a res = "py_error + 'a"

fun bindR :: "'a res \<Rightarrow> ('a \<Rightarrow> 'b res) \<Rightarrow> 'b res" where
  "bindR (Inl e) f = Inl e"
| "bindR (Inr x) f = f x"

text \<open>A call whose loop is a \<open>partial_function\<close>: no value means that it does not return.\<close>

definition returned :: "'a res option \<Rightarrow> 'a res" where
  "returned r = (case r of None \<Rightarrow> Inl Nontermination | Some x \<Rightarrow> x)"

text \<open>\<open>a + b + c\<close> on byte strings whose parts may raise: left to right, first error wins.\<close>

fun cat_res :: "bytes res list \<Rightarrow> bytes res" where
  "cat_res [] = Inr []"
| "cat_res (e # es) = bindR e (\<lambda>b. bindR (cat_res es) (\<lambda>bs. Inr (b @ bs)))"

text \<open>\<open>raise e\<close> under a condition, used as a statement.\<close>

definition guard :: "bool \<Rightarrow> py_error \<Rightarrow> unit res" where
  "guard ok e = (if ok then Inr () else Inl e)"

fun mapR :: "('a \<Rightarrow> 'b res) \<Rightarrow> 'a list \<Rightarrow> 'b list res" where
  "mapR f [] = Inr []"
| "mapR f (x # xs) = bindR (f x) (\<lambda>y. bindR (mapR f xs) (\<lambda>ys. Inr (y # ys)))"

lemma bindR_cong [fundef_cong]:
  "m = m' \<Longrightarrow> (\<And>x. m' = Inr x \<Longrightarrow> f x = g x) \<Longrightarrow> bindR m f = bindR m' g"
  by (cases m') auto

lemma bindR_eq_Inr [simp]: "bindR m f = Inr y \<longleftrightarrow> (\<exists>x. m = Inr x \<and> f x = Inr y)"
  by (cases m) auto

lemma bindR_eq_Inl: "bindR m f = Inl e \<longleftrightarrow> m = Inl e \<or> (\<exists>x. m = Inr x \<and> f x = Inl e)"
  by (cases m) auto

lemma bindR_assoc: "bindR (bindR m f) g = bindR m (\<lambda>x. bindR (f x) g)"
  by (cases m) auto

lemma bindR_case: "bindR m f = (case m of Inl e \<Rightarrow> Inl e | Inr x \<Rightarrow> f x)"
  by (cases m) auto

lemma bindR_Inr_right [simp]: "bindR m Inr = m"
  by (cases m) auto

lemma pred_bindR: "(\<And>x. m = Inr x \<Longrightarrow> pred_sum (\<lambda>_. True) P (f x)) \<Longrightarrow> pred_sum (\<lambda>_. True) P (bindR m f)"
  by (cases m) simp_all

lemma guard_eq [simp]: "guard ok e = Inr u \<longleftrightarrow> ok" "guard ok e = Inl f \<longleftrightarrow> \<not> ok \<and> f = e"
  by (auto simp: guard_def)

lemma guard_True [simp]: "guard True e = Inr ()" and guard_False [simp]: "guard False e = Inl e"
  by (simp_all add: guard_def)

lemma not_isl_Inr: "\<not> isl r \<Longrightarrow> \<exists>x. r = Inr x"
  by (cases r) auto

lemma returned_simps [simp]: "returned (Some r) = r" "returned None = Inl Nontermination"
  by (simp_all add: returned_def)

lemma cat_res_append:
  "cat_res (es @ fs) = bindR (cat_res es) (\<lambda>a. bindR (cat_res fs) (\<lambda>b. Inr (a @ b)))"
  by (induction es) (auto simp: bindR_assoc)

lemma cat_res_Inr_map [simp]: "cat_res (map (\<lambda>x. Inr (f x)) xs) = Inr (concat (map f xs))"
  by (induction xs) auto

lemma mapR_Inr_length: "mapR f xs = Inr ys \<Longrightarrow> length ys = length xs"
  by (induction xs arbitrary: ys) auto

section \<open>Python strings, slices and big-endian integers\<close>

text \<open>\<open>label.encode()\<close> on ASCII text.\<close>

definition encode_str :: "string \<Rightarrow> bytes" where
  "encode_str s = map (\<lambda>c. word_of_nat (of_char c)) s"

text \<open>\<open>buf[i:j]\<close> for non-negative \<open>i\<close> and \<open>j\<close>: clamped to the buffer, never raising.\<close>

definition slice :: "'a list \<Rightarrow> nat \<Rightarrow> nat \<Rightarrow> 'a list" where
  "slice buf i j = take (j - i) (drop i buf)"

text \<open>\<open>buf[i]\<close>.\<close>

definition byte_at :: "bytes \<Rightarrow> nat \<Rightarrow> int res" where
  "byte_at buf i = (if i < length buf then Inr (uint (buf ! i)) else Inl IndexError)"

fun be_bytes :: "nat \<Rightarrow> int \<Rightarrow> bytes" where
  "be_bytes 0 v = []"
| "be_bytes (Suc n) v = be_bytes n (v div 256) @ [word_of_int v]"

text \<open>\<open>int.from_bytes(bs, "big")\<close>.\<close>

definition from_be :: "bytes \<Rightarrow> int" where
  "from_be bs = foldl (\<lambda>acc b. acc * 256 + uint b) 0 bs"

text \<open>\<open>struct.pack\<close> with an unsigned big-endian format of \<open>n\<close> bytes.\<close>

definition struct_pack :: "nat \<Rightarrow> int \<Rightarrow> bytes res" where
  "struct_pack n v = (if 0 \<le> v \<and> v < 256 ^ n then Inr (be_bytes n v) else Inl StructError)"

text \<open>\<open>v.to_bytes(n, "big")\<close>.\<close>

definition int_to_bytes :: "nat \<Rightarrow> int \<Rightarrow> bytes res" where
  "int_to_bytes n v = (if 0 \<le> v \<and> v < 256 ^ n then Inr (be_bytes n v) else Inl OverflowError)"

text \<open>\<open>struct.unpack_from\<close> with the same formats.\<close>

definition struct_unpack_from :: "nat \<Rightarrow> bytes \<Rightarrow> nat \<Rightarrow> int res" where
  "struct_unpack_from n buf off =
     (if off + n \<le> length buf then Inr (from_be (slice buf off (off + n))) else Inl StructError)"

lemma length_be_bytes [simp]: "length (be_bytes n v) = n"
  by (induction n arbitrary: v) auto

lemma be_bytes_Nil_iff [simp]: "be_bytes n v = [] \<longleftrightarrow> n = 0"
  by (metis length_0_conv length_be_bytes)

lemma from_be_Nil [simp]: "from_be [] = 0"
  by (simp add: from_be_def)

lemma from_be_snoc [simp]: "from_be (bs @ [b]) = from_be bs * 256 + uint b"
  by (simp add: from_be_def)

lemma from_be_nonneg [simp]: "0 \<le> from_be bs"
  by (induction bs rule: rev_induct) auto

lemma from_be_less: "from_be bs < 256 ^ length bs"
proof (induction bs rule: rev_induct)
  case (snoc b bs)
  have "uint b < 256" using uint_lt2p [of b] by simp
  with snoc show ?case by simp
qed simp

lemma from_be_be_bytes [simp]: "0 \<le> v \<Longrightarrow> v < 256 ^ n \<Longrightarrow> from_be (be_bytes n v) = v"
proof (induction n arbitrary: v)
  case (Suc n)
  have "v < 256 * m \<Longrightarrow> v div 256 < m" for m :: int by linarith
  with Suc.prems(2) have "v div 256 < 256 ^ n" by simp
  then have "from_be (be_bytes n (v div 256)) = v div 256" using Suc by simp
  moreover have "uint (word_of_int v :: 8 word) = v mod 256"
    by (simp add: unsigned_word_eqI take_bit_eq_mod uint_word_of_int)
  ultimately show ?case by simp
qed simp

lemma be_bytes_from_be: "be_bytes (length bs) (from_be bs) = bs"
proof (induction bs rule: rev_induct)
  case (snoc b bs)
  have b: "uint b < 256" using uint_lt2p [of b] by simp
  then have "(from_be bs * 256 + uint b) div 256 = from_be bs" by simp
  moreover have z: "(256 :: byte) = 0" by simp
  have "word_of_int (from_be bs * 256 + uint b) = b" by (simp add: z)
  ultimately show ?case using snoc by simp
qed simp

lemma struct_pack_eq_Inr [simp]:
  "struct_pack n v = Inr bs \<longleftrightarrow> 0 \<le> v \<and> v < 256 ^ n \<and> bs = be_bytes n v"
  by (auto simp: struct_pack_def)

lemma int_to_bytes_eq_Inr [simp]:
  "int_to_bytes n v = Inr bs \<longleftrightarrow> 0 \<le> v \<and> v < 256 ^ n \<and> bs = be_bytes n v"
  by (auto simp: int_to_bytes_def)

lemma slice_length_le: "length (slice buf i j) \<le> j - i"
  by (simp add: slice_def)

lemma length_slice: "j \<le> length buf \<Longrightarrow> length (slice buf i j) = j - i"
  by (simp add: slice_def)

lemma slice_all [simp]: "slice buf 0 (length buf) = buf"
  by (simp add: slice_def)

lemma slice_prefix: "drop off buf = bs @ rest \<Longrightarrow> slice buf off (off + length bs) = bs"
  by (simp add: slice_def)

lemma slice_append:
  assumes "i \<le> j" "j \<le> k"
  shows "slice buf i j @ slice buf j k = slice buf i k"
proof -
  have k: "k - i = (j - i) + (k - j)" using assms by simp
  show ?thesis unfolding slice_def k take_add using assms by simp
qed

lemma length_encode_str [simp]: "length (encode_str s) = length s"
  by (simp add: encode_str_def)

section \<open>Shifts, masks and the bytes of an integer\<close>

lemma or_shift: "0 \<le> b \<Longrightarrow> b < 2 ^ k \<Longrightarrow> push_bit k a OR b = a * 2 ^ k + (b::int)"
proof -
  assume b: "0 \<le> b" "b < 2 ^ k"
  then have "b = take_bit k b" by (simp add: take_bit_int_eq_self)
  moreover have "push_bit k a AND take_bit k b = 0"
    by (rule bit_eqI) (auto simp: bit_simps)
  ultimately show ?thesis
    by (metis disjunctive_add_eq_or push_bit_eq_mult)
qed

lemma and_mask_mod: "x AND (2 ^ k - 1) = x mod (2 ^ k :: int)"
  by (simp add: take_bit_eq_mod [symmetric] take_bit_eq_mask mask_eq_exp_minus_1)

lemmas and_masks =
  and_mask_mod [of _ 2, simplified] and_mask_mod [of _ 6, simplified]
  and_mask_mod [of _ 16, simplified] and_mask_mod [of _ 32, simplified]

lemma uint_byte: "uint (word_of_int v :: byte) = v mod 256"
  by (simp add: unsigned_word_eqI take_bit_eq_mod uint_word_of_int)

lemma uint_nth_be_bytes:
  "i < n \<Longrightarrow> uint (be_bytes n v ! i) = v div 256 ^ (n - 1 - i) mod 256"
proof (induction n arbitrary: v)
  case (Suc n)
  show ?case
  proof (cases "i = n")
    case False
    with Suc.prems have i: "i < n" "n - i = Suc (n - 1 - i)" by auto
    have "v div 256 div 256 ^ (n - 1 - i) = v div 256 ^ (n - i)"
      by (simp only: i(2) power_Suc zdiv_zmult2_eq [symmetric] zero_le_power zero_le_numeral)
    with Suc.IH [OF i(1), of "v div 256"] i(1) show ?thesis by (simp add: nth_append)
  qed (simp add: nth_append uint_byte del: of_int_add of_int_diff)
qed simp

lemma drop_eq_append_le: "off \<le> length buf \<Longrightarrow> drop off buf = bs @ rest \<Longrightarrow> off + length bs \<le> length buf"
  by (drule arg_cong [of _ _ length]) simp

lemma byte_at_head:
  assumes "off \<le> length buf" "drop off buf = bs @ rest" "i < length bs"
  shows "byte_at buf (off + i) = Inr (uint (bs ! i))"
proof -
  from arg_cong [OF assms(2), of length] assms(1,3) have "off + i < length buf" by simp
  moreover from this have "buf ! (off + i) = drop off buf ! i" using assms(1) by simp
  ultimately show ?thesis using assms(2,3) by (simp add: nth_append byte_at_def)
qed

lemma byte_at_be_bytes:
  assumes "off \<le> length buf" "drop off buf = be_bytes n v @ rest" "i < n"
  shows "byte_at buf (off + i) = Inr (v div 256 ^ (n - 1 - i) mod 256)"
  using byte_at_head [OF assms(1,2)] assms(3) by (simp add: uint_nth_be_bytes)

lemma unpack_head:
  assumes "off \<le> length buf" "drop off buf = be_bytes n v @ rest" "0 \<le> v" "v < 256 ^ n"
  shows "struct_unpack_from n buf off = Inr v"
proof -
  have "off + n \<le> length buf" using arg_cong [OF assms(2), of length] assms(1) by simp
  moreover have "slice buf off (off + n) = be_bytes n v" using slice_prefix [OF assms(2)] by simp
  ultimately show ?thesis using assms(3,4) by (simp add: struct_unpack_from_def)
qed

section \<open>Readers and writers of wire formats\<close>

text \<open>
  A reader takes the buffer and an offset and returns the value with the offset after it, as
  every \<open>read_*\<close> and \<open>from_bytes_at\<close> of the library does. \<open>reads d bs x\<close>: wherever the
  bytes \<open>bs\<close> stand in a buffer, whatever follows them, the reader \<open>d\<close> returns \<open>x\<close> and has
  consumed exactly \<open>bs\<close>. \<open>roundtrips e d x\<close>: when the writer's result \<open>e\<close> is a byte string,
  the reader \<open>d\<close> reads it back to \<open>x\<close>.
\<close>

type_synonym 'a reader = "bytes \<Rightarrow> nat \<Rightarrow> ('a \<times> nat) res"

definition reads :: "'a reader \<Rightarrow> bytes \<Rightarrow> 'a \<Rightarrow> bool" where
  "reads d bs x \<longleftrightarrow>
     (\<forall>buf off rest. off \<le> length buf \<longrightarrow> drop off buf = bs @ rest \<longrightarrow>
        d buf off = Inr (x, off + length bs))"

definition roundtrips :: "bytes res \<Rightarrow> 'a reader \<Rightarrow> 'a \<Rightarrow> bool" where
  "roundtrips e d x \<longleftrightarrow> (\<forall>bs. e = Inr bs \<longrightarrow> reads d bs x)"

text \<open>A reader makes progress when every successful read moves the offset forward.\<close>

definition progresses :: "'a reader \<Rightarrow> bool" where
  "progresses d \<longleftrightarrow> (\<forall>buf off x off'. d buf off = Inr (x, off') \<longrightarrow> off < off')"

text \<open>A reader halts when on every input it returns or raises.\<close>

definition halts :: "'a reader \<Rightarrow> bool" where
  "halts d \<longleftrightarrow> (\<forall>buf off. d buf off \<noteq> Inl Nontermination)"

definition moves_on :: "'a reader \<Rightarrow> bool" where
  "moves_on d \<longleftrightarrow> (\<forall>buf off x off'. d buf off = Inr (x, off') \<longrightarrow> off \<le> off')"

lemma readsI:
  "(\<And>buf off rest. off \<le> length buf \<Longrightarrow> drop off buf = bs @ rest \<Longrightarrow>
      d buf off = Inr (x, off + length bs)) \<Longrightarrow> reads d bs x"
  by (simp add: reads_def)

lemma readsD:
  "reads d bs x \<Longrightarrow> off \<le> length buf \<Longrightarrow> drop off buf = bs @ rest \<Longrightarrow>
     d buf off = Inr (x, off + length bs)"
  by (simp add: reads_def)

lemma reads_start: "reads d bs x \<Longrightarrow> d (bs @ rest) 0 = Inr (x, length bs)"
  using readsD [of d bs x 0 "bs @ rest" rest] by simp

lemma reads_return: "reads (\<lambda>buf off. Inr (y, off)) [] y"
  by (simp add: reads_def)

lemma reads_bind:
  assumes "reads d1 b1 x1" and "reads (d2 x1) b2 y"
  shows "reads (\<lambda>buf off. bindR (d1 buf off) (\<lambda>(x, off'). d2 x buf off')) (b1 @ b2) y"
proof (rule readsI)
  fix buf :: bytes and off rest
  assume off: "off \<le> length buf" and drop: "drop off buf = (b1 @ b2) @ rest"
  from drop off have le: "off + length b1 \<le> length buf"
    by (auto intro: drop_eq_append_le)
  have "drop (off + length b1) buf = drop (length b1) (drop off buf)"
    by (simp add: add.commute)
  with drop have "drop (off + length b1) buf = b2 @ rest" by simp
  with readsD [OF assms(2) le] readsD [OF assms(1) off, of "b2 @ rest"] drop
  show "bindR (d1 buf off) (\<lambda>(x, off'). d2 x buf off') = Inr (y, off + length (b1 @ b2))"
    by (simp add: add.assoc)
qed

lemma roundtripsI: "(\<And>bs. e = Inr bs \<Longrightarrow> reads d bs x) \<Longrightarrow> roundtrips e d x"
  by (simp add: roundtrips_def)

lemma roundtripsD: "roundtrips e d x \<Longrightarrow> e = Inr bs \<Longrightarrow> reads d bs x"
  by (simp add: roundtrips_def)

lemma rt_return [rt_intros]: "roundtrips (cat_res []) (\<lambda>buf off. Inr (y, off)) y"
  by (auto intro!: roundtripsI reads_return)

lemma rt_seq [rt_intros]:
  assumes "roundtrips e d1 x1" and "roundtrips (cat_res es) (d2 x1) y"
  shows "roundtrips (cat_res (e # es))
           (\<lambda>buf off. bindR (d1 buf off) (\<lambda>(x, off'). d2 x buf off')) y"
  using assms by (auto simp: roundtrips_def intro!: reads_bind)

lemma roundtrips_inj:
  "roundtrips e d x \<Longrightarrow> roundtrips e' d y \<Longrightarrow> e = Inr bs \<Longrightarrow> e' = Inr bs \<Longrightarrow> x = y"
  by (drule (1) roundtripsD)+ (auto dest!: reads_start [where rest = "[]"])

lemma rt_check [rt_intros]:
  "roundtrips e d y \<Longrightarrow> roundtrips e (\<lambda>buf off. if v \<noteq> v then Inl err else d buf off) y"
  by simp

lemma rt_if_true:
  "roundtrips e d1 y \<Longrightarrow> c \<Longrightarrow> roundtrips e (\<lambda>buf off. if c then d1 buf off else d2 buf off) y"
  by simp

lemma rt_if_false:
  "roundtrips e d2 y \<Longrightarrow> \<not> c \<Longrightarrow> roundtrips e (\<lambda>buf off. if c then d1 buf off else d2 buf off) y"
  by simp

lemma reads_prefix_bytes:
  assumes "off \<le> length buf" "drop off buf = (b # bs) @ rest"
  shows "byte_at buf off = Inr (uint b)" "Suc off \<le> length buf" "drop (Suc off) buf = bs @ rest"
proof -
  show "byte_at buf off = Inr (uint b)" using byte_at_head [OF assms, of 0] by simp
  show "Suc off \<le> length buf" using arg_cong [OF assms(2), of length] assms(1) by simp
  have "drop (Suc off) buf = tl (drop off buf)" by (simp add: drop_Suc tl_drop)
  with assms(2) show "drop (Suc off) buf = bs @ rest" by simp
qed

text \<open>A value behind a tag byte.\<close>

lemma reads_tag:
  assumes "reads d bs y"
    and "\<And>raw i. byte_at raw i = Inr (uint tag) \<Longrightarrow>
      s raw i = bindR (d raw (Suc i)) (\<lambda>(v, j). Inr (f v, j))"
  shows "reads s (tag # bs) (f y)"
proof (rule readsI)
  fix buf :: bytes and off rest assume o: "off \<le> length buf" "drop off buf = (tag # bs) @ rest"
  note a = reads_prefix_bytes [OF o]
  from assms(2) [OF a(1)] readsD [OF assms(1) a(2,3)]
  show "s buf off = Inr (f y, off + length (tag # bs))" by simp
qed

lemma rt_struct:
  "roundtrips (struct_pack n v)
     (\<lambda>buf off. bindR (struct_unpack_from n buf off) (\<lambda>v. Inr (v, off + n))) v"
  by (auto intro!: roundtripsI readsI simp: unpack_head)

lemma rt_prefixed:
  assumes "roundtrips e d (int (length data))"
  shows "roundtrips (cat_res [e, Inr data])
     (\<lambda>buf off0. bindR (d buf off0) (\<lambda>(len, off).
        if off + nat len > length buf then Inl err
        else Inr (slice buf off (off + nat len), off + nat len))) data"
proof -
  have "reads (\<lambda>buf off. if off + nat (int (length data)) > length buf then Inl err
        else Inr (slice buf off (off + nat (int (length data))), off + nat (int (length data)))) data data"
  proof (rule readsI)
    fix buf :: bytes and off rest assume *: "off \<le> length buf" "drop off buf = data @ rest"
    then have "off + length data \<le> length buf" by (rule drop_eq_append_le)
    with slice_prefix [OF *(2)] show "(if off + nat (int (length data)) > length buf then Inl err
        else Inr (slice buf off (off + nat (int (length data))), off + nat (int (length data)))) = Inr (data, off + length data)"
      by simp
  qed
  with assms show ?thesis by (auto simp: roundtrips_def intro!: reads_bind)
qed

lemma progressesI:
  "(\<And>buf off x off'. d buf off = Inr (x, off') \<Longrightarrow> off < off') \<Longrightarrow> progresses d"
  by (auto simp: progresses_def)

lemma progressesD: "progresses d \<Longrightarrow> d buf off = Inr (x, off') \<Longrightarrow> off < off'"
  by (auto simp: progresses_def)

lemma progresses_moves_on [progress_intros]: "progresses d \<Longrightarrow> moves_on d"
  by (fastforce simp: progresses_def moves_on_def)

lemma moves_on_return [progress_intros]: "moves_on (\<lambda>buf off. Inr (y, off))"
  by (simp add: moves_on_def)

lemma moves_on_fail [progress_intros]: "moves_on (\<lambda>buf off. Inl e)"
  by (simp add: moves_on_def)

lemma moves_on_if [progress_intros]:
  "moves_on d1 \<Longrightarrow> moves_on d2 \<Longrightarrow> moves_on (\<lambda>buf off. if c then d1 buf off else d2 buf off)"
  by (simp add: moves_on_def)

lemma moves_on_bind [progress_intros]:
  assumes "moves_on d1" and "\<And>x. moves_on (d2 x)"
  shows "moves_on (\<lambda>buf off. bindR (d1 buf off) (\<lambda>(x, off'). d2 x buf off'))"
  using assms unfolding moves_on_def by (fastforce dest: le_trans)

lemma progresses_bind [progress_intros]:
  assumes "progresses d1" and "\<And>x. moves_on (d2 x)"
  shows "progresses (\<lambda>buf off. bindR (d1 buf off) (\<lambda>(x, off'). d2 x buf off'))"
  using assms unfolding moves_on_def progresses_def by (fastforce dest: less_le_trans)

lemma haltsI: "(\<And>buf off. d buf off \<noteq> Inl Nontermination) \<Longrightarrow> halts d"
  by (simp add: halts_def)

lemma haltsD: "halts d \<Longrightarrow> d buf off \<noteq> Inl Nontermination"
  by (simp add: halts_def)

lemma halts_return [halt_intros]: "halts (\<lambda>buf off. Inr (f buf off))"
  by (simp add: halts_def)

lemma halts_fail [halt_intros]: "e \<noteq> Nontermination \<Longrightarrow> halts (\<lambda>buf off. Inl e)"
  by (simp add: halts_def)

lemma halts_if [halt_intros]:
  "halts d1 \<Longrightarrow> halts d2 \<Longrightarrow> halts (\<lambda>buf off. if c buf off then d1 buf off else d2 buf off)"
  by (simp add: halts_def)

lemma halts_bind [halt_intros]:
  assumes "halts d1" and "\<And>x. halts (d2 x)"
  shows "halts (\<lambda>buf off. bindR (d1 buf off) (\<lambda>(x, off'). d2 x buf off'))"
  using assms unfolding halts_def by (auto simp: bindR_eq_Inl)

section \<open>Sizes\<close>

text \<open>
  \<open>fits n r\<close>: the writer's result \<open>r\<close> is a byte string of at most \<open>n\<close> bytes. Where a theorem says that
  an operation returns, the sizes of the structures it writes are bounded with these rules.
\<close>

definition fits :: "nat \<Rightarrow> bytes res \<Rightarrow> bool" where
  "fits n r \<longleftrightarrow> (\<exists>bs. r = Inr bs \<and> length bs \<le> n)"

lemma fitsI: "r = Inr bs \<Longrightarrow> length bs \<le> n \<Longrightarrow> fits n r"
  by (auto simp: fits_def)

lemma fitsE: "fits n r \<Longrightarrow> (\<And>bs. r = Inr bs \<Longrightarrow> length bs \<le> n \<Longrightarrow> P) \<Longrightarrow> P"
  by (auto simp: fits_def)

lemma fits_mono: "fits m r \<Longrightarrow> m \<le> n \<Longrightarrow> fits n r"
  by (auto simp: fits_def intro: le_trans)

lemma fits_Inr: "length b \<le> n \<Longrightarrow> fits n (Inr b)"
  by (simp add: fits_def)

lemma fits_cat_Nil: "fits 0 (cat_res [])"
  by (simp add: fits_def)

lemma fits_cat_Cons: "fits m e \<Longrightarrow> fits n (cat_res es) \<Longrightarrow> fits (m + n) (cat_res (e # es))"
  by (fastforce simp: fits_def)

lemma fits_bind: "fits m r \<Longrightarrow> (\<And>b. length b \<le> m \<Longrightarrow> fits n (f b)) \<Longrightarrow> fits n (bindR r f)"
  by (auto elim!: fitsE)

lemma fits_map: "(\<And>x. x \<in> set xs \<Longrightarrow> fits n (enc x)) \<Longrightarrow> fits (length xs * n) (cat_res (map enc xs))"
proof (induction xs)
  case (Cons x xs)
  have "fits (n + length xs * n) (cat_res (enc x # map enc xs))"
    by (rule fits_cat_Cons) (use Cons in auto)
  then show ?case by simp
qed (simp add: fits_def)

section \<open>The vector loop\<close>

text \<open>
  \<open>while offset < stop: x, offset = d(buf, offset); out.append(x)\<close>: the loop that reads a
  vector everywhere in the library, with the final offset. Nothing in it forces a reader to
  move forward, so it is a partial function.
\<close>

partial_function (option) while_read ::
    "'a reader \<Rightarrow> bytes \<Rightarrow> nat \<Rightarrow> nat \<Rightarrow> ('a list \<times> nat) res option" where
  "while_read d buf stop off =
     (if off < stop then
        (case d buf off of
           Inl e \<Rightarrow> Some (Inl e)
         | Inr (x, off') \<Rightarrow>
             Option.bind (while_read d buf stop off')
               (\<lambda>r. Some (bindR r (\<lambda>(xs, o'). Inr (x # xs, o')))))
      else Some (Inr ([], off)))"

text \<open>With a reader that makes progress the loop ends, on every buffer.\<close>

lemma while_read_returns:
  assumes "progresses d"
  shows "\<exists>r. while_read d buf stop off = Some r"
proof (induction "stop - off" arbitrary: off rule: less_induct)
  case less
  show ?case
  proof (cases "off < stop \<and> (\<exists>x off'. d buf off = Inr (x, off'))")
    case True
    then obtain x off' where d: "d buf off = Inr (x, off')" by blast
    with assms have "off < off'" by (rule progressesD)
    with True have "stop - off' < stop - off" by arith
    then obtain r where "while_read d buf stop off' = Some r" using less by blast
    with d True show ?thesis by (subst while_read.simps) auto
  next
    case False
    then show ?thesis by (subst while_read.simps) (auto split: sum.splits)
  qed
qed

lemma while_read_no_divergence:
  assumes "progresses d" and "halts d"
  shows "returned (while_read d buf stop off) \<noteq> Inl Nontermination"
proof (induction "stop - off" arbitrary: off rule: less_induct)
  case less
  show ?case
  proof (cases "off < stop \<and> (\<exists>x off'. d buf off = Inr (x, off'))")
    case True
    then obtain x off' where d: "d buf off = Inr (x, off')" by blast
    with assms(1) have "off < off'" by (rule progressesD)
    with True have "stop - off' < stop - off" by arith
    then have "returned (while_read d buf stop off') \<noteq> Inl Nontermination" by (rule less)
    moreover obtain r where "while_read d buf stop off' = Some r"
      using while_read_returns [OF assms(1)] by blast
    ultimately show ?thesis using d True
      by (subst while_read.simps) (auto simp: bindR_eq_Inl split: sum.splits)
  next
    case False
    then show ?thesis using haltsD [OF assms(2), of buf off]
      by (subst while_read.simps) (auto split: sum.splits)
  qed
qed

text \<open>On the concatenation of written elements the loop returns exactly these elements.\<close>

lemma while_read_concat:
  assumes "list_all2 (\<lambda>bs x. bs \<noteq> [] \<and> reads d bs x) bss xs"
    and "off \<le> length buf" and "drop off buf = concat bss @ rest"
    and "stop = off + length (concat bss)"
  shows "while_read d buf stop off = Some (Inr (xs, stop))"
  using assms
proof (induction bss xs arbitrary: off rule: list_all2_induct)
  case Nil
  then show ?case by (simp add: while_read.simps)
next
  case (Cons bs bss x xs)
  have d: "d buf off = Inr (x, off + length bs)"
    using Cons.hyps(1) Cons.prems by (auto intro: readsD)
  have "drop (off + length bs) buf = drop (length bs) (drop off buf)" by (simp add: add.commute)
  with Cons.prems(2) have "drop (off + length bs) buf = concat bss @ rest" by simp
  moreover have "off + length bs \<le> length buf"
    using arg_cong [OF Cons.prems(2), of length] Cons.prems(1) by simp
  ultimately have "while_read d buf stop (off + length bs) = Some (Inr (xs, stop))"
    using Cons.prems(3) by (intro Cons.IH) auto
  moreover have "off < stop" using Cons.hyps(1) Cons.prems(3) by auto
  ultimately show ?case using d by (subst while_read.simps) simp
qed

lemma cat_res_map_pieces:
  assumes "cat_res (map enc xs) = Inr bs"
    and "\<And>x b. x \<in> set xs \<Longrightarrow> enc x = Inr b \<Longrightarrow> P b x"
  shows "\<exists>bss. bs = concat bss \<and> list_all2 P bss xs"
  using assms
proof (induction xs arbitrary: bs)
  case (Cons x xs)
  then obtain b bs' where b: "enc x = Inr b" and bs': "cat_res (map enc xs) = Inr bs'" "bs = b @ bs'"
    by auto
  from Cons.IH [OF bs'(1)] Cons.prems(2) obtain bss where "bs' = concat bss" "list_all2 P bss xs"
    by auto
  with b bs'(2) Cons.prems(2) [of x] have "bs = concat (b # bss) \<and> list_all2 P (b # bss) (x # xs)"
    by simp
  then show ?case by blast
qed simp

lemma while_read_cat_res:
  assumes "cat_res (map enc xs) = Inr bs"
    and "\<And>x. x \<in> set xs \<Longrightarrow> roundtrips (enc x) d x"
    and "progresses d"
    and "off \<le> length buf" and "drop off buf = bs @ rest" and "stop = off + length bs"
  shows "while_read d buf stop off = Some (Inr (xs, stop))"
proof -
  have "b \<noteq> [] \<and> reads d b x" if "x \<in> set xs" "enc x = Inr b" for x b
  proof -
    from assms(2) that have "reads d b x" by (blast dest: roundtripsD)
    moreover from reads_start [OF this, of "[]"] assms(3) have "b \<noteq> []"
      by (auto dest: progressesD)
    ultimately show ?thesis by simp
  qed
  with cat_res_map_pieces [OF assms(1), of "\<lambda>b x. b \<noteq> [] \<and> reads d b x"]
  obtain bss where "bs = concat bss" "list_all2 (\<lambda>b x. b \<noteq> [] \<and> reads d b x) bss xs" by blast
  with assms(4-6) show ?thesis by (intro while_read_concat) auto
qed

text \<open>
  The other direction: when every element read is the writer's image of the bytes it stood in,
  so is the whole vector.
\<close>

lemma while_read_canonical:
  assumes "progresses d"
    and step: "\<And>off x off'. d buf off = Inr (x, off') \<Longrightarrow>
                 off' \<le> length buf \<and> enc x = Inr (slice buf off off')"
    and "while_read d buf (length buf) off = Some (Inr (xs, o'))"
  shows "cat_res (map enc xs) = Inr (drop off buf)"
  using assms(3)
proof (induction "length buf - off" arbitrary: off xs rule: less_induct)
  case less
  show ?case
  proof (cases "off < length buf")
    case True
    with less.prems obtain x off' xs' where d: "d buf off = Inr (x, off')"
      and w: "while_read d buf (length buf) off' = Some (Inr (xs', o'))" and xs: "xs = x # xs'"
      by (subst (asm) while_read.simps)
        (auto split: sum.splits simp: Option.bind_eq_Some_conv)
    from d assms(1) have "off < off'" by (rule progressesD [rotated])
    with w True have "cat_res (map enc xs') = Inr (drop off' buf)" by (intro less.hyps) auto
    moreover have "slice buf off off' @ drop off' buf = drop off buf"
      using \<open>off < off'\<close> append_take_drop_id [of "off' - off" "drop off buf"]
      by (simp add: slice_def)
    ultimately show ?thesis using step [OF d] xs by simp
  next
    case False
    with less.prems show ?thesis by (subst (asm) while_read.simps) auto
  qed
qed

text \<open>A vector behind a length prefix: \<open>pw\<close> writes the prefixed body, \<open>pr\<close> reads it.\<close>

lemma rt_prefixed_vector:
  assumes "\<And>body. roundtrips (pw body) pr body"
    and "\<And>x. x \<in> set xs \<Longrightarrow> roundtrips (enc x) d x" and "progresses d"
  shows "roundtrips (bindR (cat_res (map enc xs)) pw)
     (\<lambda>buf off0. bindR (pr buf off0) (\<lambda>(raw, off).
        bindR (returned (while_read d raw (length raw) 0)) (\<lambda>(out, sub). Inr (out, off)))) xs"
proof (rule roundtripsI)
  fix bs assume "bindR (cat_res (map enc xs)) pw = Inr bs"
  then obtain body where body: "cat_res (map enc xs) = Inr body" "pw body = Inr bs" by auto
  have "while_read d body (length body) 0 = Some (Inr (xs, length body))"
    using assms(2,3) by (intro while_read_cat_res [where rest = "[]", OF body(1)]) auto
  moreover have "reads pr bs body" using assms(1) body(2) by (rule roundtripsD)
  ultimately show "reads (\<lambda>buf off0. bindR (pr buf off0) (\<lambda>(raw, off).
        bindR (returned (while_read d raw (length raw) 0)) (\<lambda>(out, sub). Inr (out, off)))) bs xs"
    by (intro readsI) (auto dest: readsD)
qed

text \<open>The same where the loop runs on the buffer itself.\<close>

lemma rt_inline_vector:
  assumes "\<And>n. roundtrips (pw n) pr n"
    and "\<And>x. x \<in> set xs \<Longrightarrow> roundtrips (enc x) d x" and "progresses d"
  shows "roundtrips (bindR (cat_res (map enc xs)) (\<lambda>body. cat_res [pw (int (length body)), Inr body]))
     (\<lambda>buf off0. bindR (pr buf off0) (\<lambda>(len, off). returned (while_read d buf (off + nat len) off))) xs"
proof (rule roundtripsI)
  fix bs assume "bindR (cat_res (map enc xs)) (\<lambda>body. cat_res [pw (int (length body)), Inr body]) = Inr bs"
  then obtain body pre where body: "cat_res (map enc xs) = Inr body"
    and pre: "pw (int (length body)) = Inr pre" and bs: "bs = pre @ body" by auto
  have "reads (\<lambda>buf off. returned (while_read d buf (off + nat (int (length body))) off)) body xs"
    by (rule readsI, subst while_read_cat_res [OF body]) (auto intro: assms(2,3))
  with roundtripsD [OF assms(1) pre]
  show "reads (\<lambda>buf off0. bindR (pr buf off0) (\<lambda>(len, off). returned (while_read d buf (off + nat len) off))) bs xs"
    unfolding bs by (rule reads_bind)
qed

section \<open>The interface of a wire format\<close>

text \<open>
  What the rest of the library relies on when it embeds one structure in another: the reader
  undoes the writer on well-formed values wherever the bytes stand, and it always consumes
  something. Each structure of the library interprets this locale with its own writer and reader.
\<close>

locale wire_codec =
  fixes enc :: "'a \<Rightarrow> bytes res"
    and dec :: "'a reader"
    and wf :: "'a \<Rightarrow> bool"
  assumes roundtrip: "wf x \<Longrightarrow> roundtrips (enc x) dec x"
    and progress: "progresses dec"
begin

lemma decode_at:
  "wf x \<Longrightarrow> enc x = Inr bs \<Longrightarrow> dec (pre @ bs @ post) (length pre) = Inr (x, length pre + length bs)"
  using roundtrip [THEN roundtripsD, THEN readsD, of x bs "length pre" "pre @ bs @ post" post]
  by simp

lemma decode_whole: "wf x \<Longrightarrow> enc x = Inr bs \<Longrightarrow> dec bs 0 = Inr (x, length bs)"
  using decode_at [of x bs "[]" "[]"] by simp

lemma enc_nonempty: "wf x \<Longrightarrow> enc x = Inr bs \<Longrightarrow> bs \<noteq> []"
  using decode_whole progress by (auto dest: progressesD)

text \<open>No encoding is a proper prefix of another: a reader needs no lookahead.\<close>

lemma prefix_free:
  assumes "wf x" "wf y" "enc x = Inr bs" "enc y = Inr cs" "bs @ r = cs @ s"
  shows "x = y \<and> bs = cs \<and> r = s"
proof -
  from decode_at [OF assms(1,3), of "[]" r] decode_at [OF assms(2,4), of "[]" s] assms(5)
  have "x = y" "length bs = length cs" by auto
  with assms(5) show ?thesis by simp
qed

lemma enc_inj: "wf x \<Longrightarrow> wf y \<Longrightarrow> enc x = Inr bs \<Longrightarrow> enc y = Inr bs \<Longrightarrow> x = y"
  using prefix_free by blast

lemma loop_reads_back:
  assumes "list_all wf xs" "cat_res (map enc xs) = Inr bs"
  shows "while_read dec bs (length bs) 0 = Some (Inr (xs, length bs))"
  using assms by (intro while_read_cat_res [where rest = "[]", OF assms(2)])
    (auto simp: list_all_iff intro: roundtrip progress)

lemma loop_returns: "\<exists>r. while_read dec buf stop off = Some r"
  by (rule while_read_returns) (rule progress)

end

end
