(* ===== verification/Hashlib.thy ===== *)
theory Hashlib
  imports Prelude
begin

text \<open>
  The parts of Python's \<open>hashlib\<close> and \<open>hmac\<close> the library calls: SHA-256 (FIPS 180-4) and
  HMAC (RFC 2104), both executable. A hash object is given by its digest size, its block size
  and its digest function, as \<open>hmac.new\<close> and \<open>hkdf.py\<close> use it.
\<close>

record hash_function =
  digest_size :: nat
  block_size :: nat
  digest :: "bytes \<Rightarrow> bytes"

section \<open>SHA-256\<close>

type_synonym w32 = "32 word"
type_synonym sha_state = "w32 \<times> w32 \<times> w32 \<times> w32 \<times> w32 \<times> w32 \<times> w32 \<times> w32"

definition sha256_k :: "w32 list" where
  "sha256_k = [1116352408, 1899447441, 3049323471, 3921009573, 961987163, 1508970993, 2453635748,
     2870763221, 3624381080, 310598401, 607225278, 1426881987, 1925078388, 2162078206,
     2614888103, 3248222580, 3835390401, 4022224774, 264347078, 604807628, 770255983,
     1249150122, 1555081692, 1996064986, 2554220882, 2821834349, 2952996808, 3210313671,
     3336571891, 3584528711, 113926993, 338241895, 666307205, 773529912, 1294757372,
     1396182291, 1695183700, 1986661051, 2177026350, 2456956037, 2730485921, 2820302411,
     3259730800, 3345764771, 3516065817, 3600352804, 4094571909, 275423344, 430227734,
     506948616, 659060556, 883997877, 958139571, 1322822218, 1537002063, 1747873779,
     1955562222, 2024104815, 2227730452, 2361852424, 2428436474, 2756734187, 3204031479,
     3329325298]"

definition sha256_init :: sha_state where
  "sha256_init = (1779033703, 3144134277, 1013904242, 2773480762,
                  1359893119, 2600822924, 528734635, 1541459225)"

definition sha256_pad :: "bytes \<Rightarrow> bytes" where
  "sha256_pad m = m @ [0x80] @ replicate (nat ((55 - int (length m)) mod 64)) 0
                    @ be_bytes 8 (8 * int (length m))"

fun chunks :: "nat \<Rightarrow> 'a list \<Rightarrow> 'a list list" where
  "chunks n xs = (if n = 0 \<or> xs = [] then [] else take n xs # chunks n (drop n xs))"

declare chunks.simps [simp del]

definition small_sigma0 :: "w32 \<Rightarrow> w32" where
  "small_sigma0 x = word_rotr 7 x XOR word_rotr 18 x XOR drop_bit 3 x"

definition small_sigma1 :: "w32 \<Rightarrow> w32" where
  "small_sigma1 x = word_rotr 17 x XOR word_rotr 19 x XOR drop_bit 10 x"

definition big_sigma0 :: "w32 \<Rightarrow> w32" where
  "big_sigma0 x = word_rotr 2 x XOR word_rotr 13 x XOR word_rotr 22 x"

definition big_sigma1 :: "w32 \<Rightarrow> w32" where
  "big_sigma1 x = word_rotr 6 x XOR word_rotr 11 x XOR word_rotr 25 x"

text \<open>The message schedule, newest word first.\<close>

fun sha256_extend :: "nat \<Rightarrow> w32 list \<Rightarrow> w32 list" where
  "sha256_extend 0 ws = ws"
| "sha256_extend (Suc k) ws =
     sha256_extend k
       ((small_sigma1 (ws ! 1) + ws ! 6 + small_sigma0 (ws ! 14) + ws ! 15) # ws)"

definition sha256_schedule :: "bytes \<Rightarrow> w32 list" where
  "sha256_schedule block =
     rev (sha256_extend 48 (rev (map (\<lambda>c. word_of_int (from_be c)) (chunks 4 block))))"

fun sha256_round :: "w32 \<times> w32 \<Rightarrow> sha_state \<Rightarrow> sha_state" where
  "sha256_round (k, w) (a, b, c, d, e, f, g, h) =
     (let t1 = h + big_sigma1 e + ((e AND f) XOR (NOT e AND g)) + k + w;
          t2 = big_sigma0 a + ((a AND b) XOR (a AND c) XOR (b AND c))
      in (t1 + t2, a, b, c, d + t1, e, f, g))"

fun sha_add :: "sha_state \<Rightarrow> sha_state \<Rightarrow> sha_state" where
  "sha_add (a, b, c, d, e, f, g, h) (a', b', c', d', e', f', g', h') =
     (a + a', b + b', c + c', d + d', e + e', f + f', g + g', h + h')"

definition sha256_block :: "bytes \<Rightarrow> sha_state \<Rightarrow> sha_state" where
  "sha256_block block st = sha_add st (fold sha256_round (zip sha256_k (sha256_schedule block)) st)"

fun sha_output :: "sha_state \<Rightarrow> bytes" where
  "sha_output (a, b, c, d, e, f, g, h) =
     concat (map (\<lambda>w. be_bytes 4 (uint w)) [a, b, c, d, e, f, g, h])"

definition sha256_digest :: "bytes \<Rightarrow> bytes" where
  "sha256_digest m = sha_output (fold sha256_block (chunks 64 (sha256_pad m)) sha256_init)"

definition sha256 :: hash_function where
  "sha256 = \<lparr>digest_size = 32, block_size = 64, digest = sha256_digest\<rparr>"

lemma sha256_sizes [simp]: "digest_size sha256 = 32" "block_size sha256 = 64"
  by (simp_all add: sha256_def)

lemma length_sha_output [simp]: "length (sha_output s) = 32"
  by (cases s rule: sha_output.cases) simp

lemma length_sha256 [simp]: "length (digest sha256 m) = 32"
  by (simp add: sha256_def sha256_digest_def)

section \<open>HMAC\<close>

definition hmac_block_key :: "hash_function \<Rightarrow> bytes \<Rightarrow> bytes" where
  "hmac_block_key hf key =
     (let k = (if length key > block_size hf then digest hf key else key)
      in k @ replicate (block_size hf - length k) 0)"

text \<open>\<open>hmac.new(key, msg, hash_func).digest()\<close>.\<close>

definition hmac_digest :: "hash_function \<Rightarrow> bytes \<Rightarrow> bytes \<Rightarrow> bytes" where
  "hmac_digest hf key msg =
     (let k = hmac_block_key hf key
      in digest hf (map (\<lambda>b. b XOR 0x5C) k @ digest hf (map (\<lambda>b. b XOR 0x36) k @ msg)))"

lemma length_hmac_sha256 [simp]: "length (hmac_digest sha256 key msg) = 32"
  by (simp add: hmac_digest_def Let_def)

end
