(* ===== verification/Tls.thy ===== *)
theory Tls
  imports Prelude
begin

text \<open>
  \<open>tls.py\<close>: the TLS presentation language. Fixed-width integers, MLS variable-length integers,
  length-prefixed byte strings and vectors, extensions; each writer with its reader. The
  theorems: whatever a writer accepts its reader reads back, at any place of any buffer; readers
  stay inside the buffer; the vector loops end on every input; and what is refused.
\<close>

section \<open>Fixed-width integers\<close>

definition tls_u8 :: "int \<Rightarrow> bytes res" where
  "tls_u8 v = struct_pack 1 v"

definition tls_u16 :: "int \<Rightarrow> bytes res" where
  "tls_u16 v = struct_pack 2 v"

definition tls_u32 :: "int \<Rightarrow> bytes res" where
  "tls_u32 v = struct_pack 4 v"

definition tls_u64 :: "int \<Rightarrow> bytes res" where
  "tls_u64 v = struct_pack 8 v"

definition read_u8 :: "int reader" where
  "read_u8 buf off = bindR (byte_at buf off) (\<lambda>v. Inr (v, off + 1))"

definition read_u16 :: "int reader" where
  "read_u16 buf off = bindR (struct_unpack_from 2 buf off) (\<lambda>v. Inr (v, off + 2))"

definition read_u32 :: "int reader" where
  "read_u32 buf off = bindR (struct_unpack_from 4 buf off) (\<lambda>v. Inr (v, off + 4))"

definition read_u64 :: "int reader" where
  "read_u64 buf off = bindR (struct_unpack_from 8 buf off) (\<lambda>v. Inr (v, off + 8))"

section \<open>MLS variable-length integers\<close>

definition varint_decode :: "int reader" where
  "varint_decode buf off =
     bindR (byte_at buf off) (\<lambda>first.
     let prefix = drop_bit 6 first AND 3 in
     if prefix = 0 then Inr (first AND 0x3F, off + 1)
     else if prefix = 1 then
       bindR (byte_at buf (off + 1)) (\<lambda>b1. Inr (push_bit 8 (first AND 0x3F) OR b1, off + 2))
     else if prefix = 2 then
       if off + 4 > length buf then Inl (ValueError ''MLS VarInt: truncated 4-byte length prefix'')
       else
         bindR (byte_at buf (off + 1)) (\<lambda>b1.
         bindR (byte_at buf (off + 2)) (\<lambda>b2.
         bindR (byte_at buf (off + 3)) (\<lambda>b3.
           Inr (push_bit 24 (first AND 0x3F) OR push_bit 16 b1 OR push_bit 8 b2 OR b3, off + 4))))
     else Inl (ValueError ''MLS VarInt: prefix 0b11 (8-byte form) is invalid''))"

text \<open>\<open>bytes([n])\<close> raises for an integer outside \<open>range(256)\<close>.\<close>

definition bytes_of_int :: "int \<Rightarrow> bytes res" where
  "bytes_of_int n =
     (if 0 \<le> n \<and> n < 256 then Inr [word_of_int n]
      else Inl (ValueError ''bytes must be in range(0, 256)''))"

definition tls_varint :: "int \<Rightarrow> bytes res" where
  "tls_varint n =
     (if n \<le> 0x3F then bytes_of_int n
      else if n \<le> 0x3FFF then int_to_bytes 2 ((n OR 0x4000) AND 0xFFFF)
      else if n \<le> 0x3FFFFFFF then int_to_bytes 4 ((n OR 0x80000000) AND 0xFFFFFFFF)
      else Inl (ValueError ''VarInt out of range''))"

section \<open>Length-prefixed byte strings\<close>

definition tls_opaque :: "bytes \<Rightarrow> bytes res" where
  "tls_opaque data = cat_res [tls_varint (int (length data)), Inr data]"

definition tls_opaque16 :: "bytes \<Rightarrow> bytes res" where
  "tls_opaque16 data = cat_res [tls_u16 (int (length data)), Inr data]"

definition tls_opaque32 :: "bytes \<Rightarrow> bytes res" where
  "tls_opaque32 data = cat_res [tls_u32 (int (length data)), Inr data]"

definition tls_vec8 :: "bytes \<Rightarrow> bytes res" where
  "tls_vec8 data =
     (if length data > 0xFF then Inl (ValueError ''vec8 overflow'')
      else cat_res [struct_pack 1 (int (length data)), Inr data])"

definition read_opaque :: "bytes reader" where
  "read_opaque buf off0 =
     bindR (varint_decode buf off0) (\<lambda>(len, off).
     if off + nat len > length buf
     then Inl (ValueError ''MLS TLS Parsing: opaque length exceeds buffer size'')
     else Inr (slice buf off (off + nat len), off + nat len))"

definition read_opaque16 :: "bytes reader" where
  "read_opaque16 buf off0 =
     bindR (struct_unpack_from 2 buf off0) (\<lambda>len.
     let off = off0 + 2 in
     if off + nat len > length buf then Inl (ValueError ''opaque16 length exceeds buffer'')
     else Inr (slice buf off (off + nat len), off + nat len))"

definition read_opaque32 :: "bytes reader" where
  "read_opaque32 buf off0 =
     bindR (struct_unpack_from 4 buf off0) (\<lambda>len.
     let off = off0 + 4 in
     if off + nat len > length buf then Inl (ValueError ''opaque32 length exceeds buffer'')
     else Inr (slice buf off (off + nat len), off + nat len))"

definition read_fixed :: "nat \<Rightarrow> bytes reader" where
  "read_fixed n buf off = Inr (slice buf off (off + n), off + n)"

definition read_vector16 :: "bytes reader" where
  "read_vector16 buf off0 =
     bindR (struct_unpack_from 2 buf off0) (\<lambda>len.
     let off = off0 + 2 in
     if off + nat len > length buf then Inl (ValueError ''vector16 length exceeds buffer'')
     else Inr (slice buf off (off + nat len), off + nat len))"

definition read_vector32 :: "bytes reader" where
  "read_vector32 buf off0 =
     bindR (struct_unpack_from 4 buf off0) (\<lambda>len.
     let off = off0 + 4 in
     if off + nat len > length buf then Inl (ValueError ''vector32 length exceeds buffer'')
     else Inr (slice buf off (off + nat len), off + nat len))"

definition read_vec8 :: "bytes reader" where
  "read_vec8 buf off0 =
     bindR (byte_at buf off0) (\<lambda>len.
     let off = off0 + 1 in
     if off + nat len > length buf then Inl (ValueError ''vec8 length exceeds buffer'')
     else Inr (slice buf off (off + nat len), off + nat len))"

section \<open>Extensions\<close>

type_synonym extension = "int \<times> bytes"

text \<open>The loop of \<open>_parse_extensions_internal\<close>, one round of it as a reader.\<close>

definition parse_extension16_step :: "extension reader" where
  "parse_extension16_step data i =
     (if i + 4 > length data then Inl (ValueError ''extension header truncated'')
      else
        let etype = from_be (slice data i (i + 2));
            elen = nat (from_be (slice data (i + 2) (i + 4))) in
        if i + 4 + elen > length data then Inl (ValueError ''extension length exceeds buffer'')
        else Inr ((etype, slice data (i + 4) (i + 4 + elen)), i + 4 + elen))"

definition parse_extensions_internal :: "bytes \<Rightarrow> extension list res" where
  "parse_extensions_internal data =
     bindR (returned (while_read parse_extension16_step data (length data) 0)) (\<lambda>(exts, i). Inr exts)"

definition read_extensions16 :: "extension list reader" where
  "read_extensions16 buf off0 =
     bindR (read_vector16 buf off0) (\<lambda>(data, off).
     bindR (parse_extensions_internal data) (\<lambda>exts. Inr (exts, off)))"

definition read_extensions32 :: "extension list reader" where
  "read_extensions32 buf off0 =
     bindR (read_vector32 buf off0) (\<lambda>(data, off).
     bindR (parse_extensions_internal data) (\<lambda>exts. Inr (exts, off)))"

text \<open>The registered extension types (an \<open>IntEnum\<close>).\<close>

datatype ExtensionType =
  CAPABILITIES | RATCHET_TREE | EXTERNAL_PUB | EXTERNAL_PSK | RESUMPTION_PSK | APP_ACK

fun extension_type_value :: "ExtensionType \<Rightarrow> int" where
  "extension_type_value CAPABILITIES = 0x0001"
| "extension_type_value RATCHET_TREE = 0x0002"
| "extension_type_value EXTERNAL_PUB = 0x0003"
| "extension_type_value EXTERNAL_PSK = 0x0004"
| "extension_type_value RESUMPTION_PSK = 0x0005"
| "extension_type_value APP_ACK = 0x0006"

definition tls_extension :: "extension \<Rightarrow> bytes res" where
  "tls_extension = (\<lambda>(ext_type, data). cat_res [tls_u16 ext_type, tls_opaque data])"

definition tls_extension16 :: "extension \<Rightarrow> bytes res" where
  "tls_extension16 = (\<lambda>(ext_type, data). cat_res [tls_u16 ext_type, tls_opaque16 data])"

definition read_extension :: "extension reader" where
  "read_extension buf off0 =
     bindR (read_u16 buf off0) (\<lambda>(ext_type, off1).
     bindR (read_opaque buf off1) (\<lambda>(ext_data, off2).
     Inr ((ext_type, ext_data), off2)))"

definition read_extension16 :: "extension reader" where
  "read_extension16 buf off0 =
     bindR (read_u16 buf off0) (\<lambda>(ext_type, off1).
     bindR (read_opaque16 buf off1) (\<lambda>(ext_data, off2).
     Inr ((ext_type, ext_data), off2)))"

definition tls_extensions :: "extension list \<Rightarrow> bytes res" where
  "tls_extensions extensions =
     bindR (cat_res (map tls_extension extensions)) (\<lambda>body.
     cat_res [tls_varint (int (length body)), Inr body])"

definition tls_extensions16 :: "extension list \<Rightarrow> bytes res" where
  "tls_extensions16 extensions =
     bindR (cat_res (map tls_extension16 extensions)) (\<lambda>body.
     cat_res [tls_u16 (int (length body)), Inr body])"

definition read_extensions :: "extension list reader" where
  "read_extensions buf off0 =
     bindR (read_opaque buf off0) (\<lambda>(raw_exts, off).
     bindR (returned (while_read read_extension raw_exts (length raw_exts) 0)) (\<lambda>(res, sub_offset).
     Inr (res, off)))"

text \<open>\<open>read_vector\<close>: the class's \<open>from_bytes_at\<close> is the argument \<open>cls\<close>.\<close>

definition read_vector :: "'a reader \<Rightarrow> 'a list reader" where
  "read_vector cls buf off0 =
     bindR (read_opaque buf off0) (\<lambda>(opaque_bytes, off).
     bindR (returned (while_read cls opaque_bytes (length opaque_bytes) 0)) (\<lambda>(res, sub_offset).
     Inr (res, off)))"

section \<open>Facts about the variable-length integers\<close>

lemma byte_at_bounds: "byte_at buf i = Inr b \<Longrightarrow> 0 \<le> b \<and> b < 256 \<and> i < length buf"
  using uint_lt2p [of "buf ! i"] by (auto simp: byte_at_def split: if_splits)

lemma or_bytes4:
  assumes "0 \<le> b" "b < 256" "0 \<le> c" "c < 256" "0 \<le> d" "d < 256"
  shows "push_bit 24 a OR push_bit 16 b OR push_bit 8 c OR d = ((a * 256 + b) * 256 + c) * 256 + (d :: int)"
proof -
  have "push_bit 24 a OR push_bit 16 b OR push_bit 8 c OR d =
      push_bit 8 (push_bit 8 (push_bit 8 a OR b) OR c) OR d"
    by (simp add: push_bit_or or.assoc)
  also have "\<dots> = ((a * 256 + b) * 256 + c) * 256 + d"
    using assms or_shift [of b 8 a] or_shift [of c 8 "a * 256 + b"]
      or_shift [of d 8 "(a * 256 + b) * 256 + c"] by simp
  finally show ?thesis .
qed

lemma varint_decode_arith:
  "varint_decode buf off =
     bindR (byte_at buf off) (\<lambda>f.
       if f < 64 then Inr (f, off + 1)
       else if f < 128 then bindR (byte_at buf (off + 1)) (\<lambda>b. Inr ((f - 64) * 256 + b, off + 2))
       else if f < 192 then
         if off + 4 > length buf
         then Inl (ValueError ''MLS VarInt: truncated 4-byte length prefix'')
         else
           bindR (byte_at buf (off + 1)) (\<lambda>b1.
           bindR (byte_at buf (off + 2)) (\<lambda>b2.
           bindR (byte_at buf (off + 3)) (\<lambda>b3.
             Inr ((((f - 128) * 256 + b1) * 256 + b2) * 256 + b3, off + 4))))
       else Inl (ValueError ''MLS VarInt: prefix 0b11 (8-byte form) is invalid''))"
  unfolding varint_decode_def Let_def
proof (rule bindR_cong [OF refl])
  fix f assume f: "byte_at buf off = Inr f"
  note r = byte_at_bounds [OF f]
  have p: "drop_bit 6 f AND 3 = f div 64" "f AND 63 = f mod 64"
    using r zdiv_mono1 [of f 255 64] by (simp_all add: and_masks drop_bit_eq_div mod_pos_pos_trivial pos_imp_zdiv_nonneg_iff)
  consider "f < 64" | "64 \<le> f" "f < 128" | "128 \<le> f" "f < 192" | "192 \<le> f" by linarith
  then show "(if drop_bit 6 f AND 3 = 0 then Inr (f AND 63, off + 1)
     else if drop_bit 6 f AND 3 = 1
          then bindR (byte_at buf (off + 1)) (\<lambda>b1. Inr (push_bit 8 (f AND 63) OR b1, off + 2))
          else if drop_bit 6 f AND 3 = 2
               then if length buf < off + 4 then Inl (ValueError ''MLS VarInt: truncated 4-byte length prefix'')
                    else bindR (byte_at buf (off + 1)) (\<lambda>b1. bindR (byte_at buf (off + 2)) (\<lambda>b2. bindR (byte_at buf (off + 3))
                         (\<lambda>b3. Inr (push_bit 24 (f AND 63) OR push_bit 16 b1 OR push_bit 8 b2 OR b3, off + 4))))
               else Inl (ValueError ''MLS VarInt: prefix 0b11 (8-byte form) is invalid'')) =
    (if f < 64 then Inr (f, off + 1)
     else if f < 128 then bindR (byte_at buf (off + 1)) (\<lambda>b. Inr ((f - 64) * 256 + b, off + 2))
          else if f < 192
               then if length buf < off + 4 then Inl (ValueError ''MLS VarInt: truncated 4-byte length prefix'')
                    else bindR (byte_at buf (off + 1)) (\<lambda>b1. bindR (byte_at buf (off + 2)) (\<lambda>b2. bindR (byte_at buf (off + 3))
                         (\<lambda>b3. Inr ((((f - 128) * 256 + b1) * 256 + b2) * 256 + b3, off + 4))))
               else Inl (ValueError ''MLS VarInt: prefix 0b11 (8-byte form) is invalid''))"
  proof cases
    case 1 with p r show ?thesis by simp
  next
    case 2
    then have "f div 64 = 1" by simp
    moreover from this have "f mod 64 = f - 64" using div_mult_mod_eq [of f 64] by simp
    moreover note 2
    ultimately show ?thesis
      using p or_shift [of _ 8 "f - 64"] by (auto intro!: bindR_cong dest: byte_at_bounds)
  next
    case 3
    then have "f div 64 = 2" by simp
    moreover from this have "f mod 64 = f - 128" using div_mult_mod_eq [of f 64] by simp
    moreover note 3
    ultimately show ?thesis
      using p or_bytes4 [of _ _ _ "f - 128"] by (auto intro!: bindR_cong dest: byte_at_bounds)
  next
    case 4
    then have "f div 64 = 3" using r by auto
    with 4 p show ?thesis by simp
  qed
qed

lemma varint_decode_bounds:
  assumes "varint_decode buf off = Inr (v, off')"
  shows "0 \<le> v \<and> v < 2 ^ 30 \<and> off < off' \<and> off' \<le> off + 4 \<and> off' \<le> length buf"
  using assms
  by (auto simp: varint_decode_arith split: if_splits dest!: byte_at_bounds)

lemma byte_at_be4:
  assumes "off \<le> length buf" "drop off buf = be_bytes 4 v @ rest"
  shows "byte_at buf off = Inr (v div 16777216 mod 256)"
    and "byte_at buf (off + 1) = Inr (v div 65536 mod 256)"
    and "byte_at buf (off + 2) = Inr (v div 256 mod 256)"
    and "byte_at buf (off + 3) = Inr (v mod 256)"
  using byte_at_be_bytes [OF assms, of 0] byte_at_be_bytes [OF assms, of 1]
    byte_at_be_bytes [OF assms, of 2] byte_at_be_bytes [OF assms, of 3] by simp_all

lemma byte_at_be2:
  assumes "off \<le> length buf" "drop off buf = be_bytes 2 v @ rest"
  shows "byte_at buf off = Inr (v div 256 mod 256)" and "byte_at buf (off + 1) = Inr (v mod 256)"
  using byte_at_be_bytes [OF assms, of 0] byte_at_be_bytes [OF assms, of 1] by simp_all

lemma strip_prefix4:
  "((p * 256 + b) * 256 + c) * 256 + d = n + 2147483648 \<Longrightarrow> p = 128 + q \<Longrightarrow>
     ((q * 256 + b) * 256 + c) * 256 + d = (n :: int)"
  by simp

lemma varint_decode_4:
  assumes "byte_at buf off = Inr (128 + a)" "0 \<le> a" "a < 64" "byte_at buf (off + 1) = Inr b"
    "byte_at buf (off + 2) = Inr c" "byte_at buf (off + 3) = Inr d" "off + 4 \<le> length buf"
  shows "varint_decode buf off = Inr (((a * 256 + b) * 256 + c) * 256 + d, off + 4)"
  using assms by (simp add: varint_decode_arith)

lemma reads_varint4:
  assumes "16384 \<le> n" "n \<le> 1073741823"
  shows "reads varint_decode (be_bytes 4 (n + 2147483648)) n"
proof (rule readsI)
  fix buf :: bytes and off rest
  assume off: "off \<le> length buf" "drop off buf = be_bytes 4 (n + 2147483648) @ rest"
  let ?v = "n + 2147483648"
  have q: "x div 65536 = x div 256 div 256" "x div 16777216 = x div 256 div 256 div 256" for x :: int
    by (simp_all add: zdiv_zmult2_eq [symmetric])
  have h: "?v div 16777216 mod 256 = 128 + n div 16777216" "0 \<le> n div 16777216"
    "n div 16777216 < 64"
    using assms by auto
  note b = byte_at_be4 [OF off, unfolded h(1)]
  have "((?v div 16777216 * 256 + ?v div 65536 mod 256) * 256 + ?v div 256 mod 256) * 256
      + ?v mod 256 = ?v"
    by (simp only: q div_mult_mod_eq)
  moreover have "?v div 16777216 = 128 + n div 16777216" by simp
  ultimately have "((n div 16777216 * 256 + ?v div 65536 mod 256) * 256 + ?v div 256 mod 256) * 256
      + ?v mod 256 = n"
    by (rule strip_prefix4)
  moreover have "off + 4 \<le> length buf" using drop_eq_append_le [OF off] by simp
  ultimately show "varint_decode buf off = Inr (n, off + length (be_bytes 4 ?v))"
    using varint_decode_4 [OF b(1) h(2,3) b(2-4)] by (simp only: length_be_bytes)
qed

lemma reads_varint2:
  assumes "64 \<le> n" "n \<le> 16383"
  shows "reads varint_decode (be_bytes 2 (n + 16384)) n"
proof (rule readsI)
  fix buf :: bytes and off rest
  assume off: "off \<le> length buf" "drop off buf = be_bytes 2 (n + 16384) @ rest"
  have h: "(n + 16384) div 256 mod 256 = 64 + n div 256" "0 \<le> n div 256" "n div 256 < 64"
    "n div 256 * 256 + (n + 16384) mod 256 = n"
    using assms mod_mult_self1 [of n 64 256] by auto
  note b = byte_at_be2 [OF off, unfolded h(1)]
  show "varint_decode buf off = Inr (n, off + length (be_bytes 2 (n + 16384)))"
    using b h by (simp add: varint_decode_arith)
qed

lemma reads_varint1:
  assumes "0 \<le> n" "n \<le> 63"
  shows "reads varint_decode (be_bytes 1 n) n"
  using assms byte_at_be_bytes [of _ _ 1 n _ 0] by (auto intro!: readsI simp: varint_decode_arith)
lemma tls_varint_eq:
  "tls_varint n =
     (if n < 0 then Inl (ValueError ''bytes must be in range(0, 256)'')
      else if n \<le> 63 then Inr (be_bytes 1 n)
      else if n \<le> 16383 then Inr (be_bytes 2 (n + 16384))
      else if n \<le> 1073741823 then Inr (be_bytes 4 (n + 2147483648))
      else Inl (ValueError ''VarInt out of range''))"
proof -
  have 2: "(n OR 16384) AND 65535 = n + 16384" if "0 \<le> n" "n \<le> 16383"
    using or_shift [of n 14 1] that by (simp add: and_masks or.commute)
  have 4: "(n OR 2147483648) AND 4294967295 = n + 2147483648" if "0 \<le> n" "n \<le> 1073741823"
    using or_shift [of n 31 1] that by (simp add: and_masks or.commute)
  show ?thesis using 2 4 by (simp add: tls_varint_def bytes_of_int_def int_to_bytes_def)
qed

section \<open>Round trips\<close>

lemma rt_u8 [rt_intros]: "roundtrips (tls_u8 v) read_u8 v"
proof (intro roundtripsI readsI)
  fix bs buf off rest assume "tls_u8 v = Inr bs" "off \<le> length buf" "drop off buf = bs @ rest"
  then show "read_u8 buf off = Inr (v, off + length bs)"
    using byte_at_be_bytes [of off buf 1 v rest 0] by (auto simp: tls_u8_def read_u8_def)
qed

lemma rt_u16 [rt_intros]: "roundtrips (tls_u16 v) read_u16 v"
  unfolding tls_u16_def read_u16_def [abs_def] by (rule rt_struct)

lemma rt_u32 [rt_intros]: "roundtrips (tls_u32 v) read_u32 v"
  unfolding tls_u32_def read_u32_def [abs_def] by (rule rt_struct)

lemma rt_u64 [rt_intros]: "roundtrips (tls_u64 v) read_u64 v"
  unfolding tls_u64_def read_u64_def [abs_def] by (rule rt_struct)

lemma rt_varint [rt_intros]: "roundtrips (tls_varint n) varint_decode n"
  by (rule roundtripsI)
    (auto simp: tls_varint_eq simp del: be_bytes.simps One_nat_def
      intro: reads_varint1 reads_varint2 reads_varint4 split: if_splits)


lemma read_opaque16_alt:
  "read_opaque16 = (\<lambda>buf off0. bindR (read_u16 buf off0) (\<lambda>(len, off).
     if off + nat len > length buf then Inl (ValueError ''opaque16 length exceeds buffer'')
     else Inr (slice buf off (off + nat len), off + nat len)))"
  by (simp add: fun_eq_iff read_opaque16_def read_u16_def bindR_assoc Let_def)

lemma read_opaque32_alt:
  "read_opaque32 = (\<lambda>buf off0. bindR (read_u32 buf off0) (\<lambda>(len, off).
     if off + nat len > length buf then Inl (ValueError ''opaque32 length exceeds buffer'')
     else Inr (slice buf off (off + nat len), off + nat len)))"
  by (simp add: fun_eq_iff read_opaque32_def read_u32_def bindR_assoc Let_def)

lemma read_vector16_alt:
  "read_vector16 = (\<lambda>buf off0. bindR (read_u16 buf off0) (\<lambda>(len, off).
     if off + nat len > length buf then Inl (ValueError ''vector16 length exceeds buffer'')
     else Inr (slice buf off (off + nat len), off + nat len)))"
  by (simp add: fun_eq_iff read_vector16_def read_u16_def bindR_assoc Let_def)

lemma read_vector32_alt:
  "read_vector32 = (\<lambda>buf off0. bindR (read_u32 buf off0) (\<lambda>(len, off).
     if off + nat len > length buf then Inl (ValueError ''vector32 length exceeds buffer'')
     else Inr (slice buf off (off + nat len), off + nat len)))"
  by (simp add: fun_eq_iff read_vector32_def read_u32_def bindR_assoc Let_def)

lemma read_vec8_alt:
  "read_vec8 = (\<lambda>buf off0. bindR (read_u8 buf off0) (\<lambda>(len, off).
     if off + nat len > length buf then Inl (ValueError ''vec8 length exceeds buffer'')
     else Inr (slice buf off (off + nat len), off + nat len)))"
  by (simp add: fun_eq_iff read_vec8_def read_u8_def bindR_assoc Let_def)

lemma rt_opaque [rt_intros]: "roundtrips (tls_opaque data) read_opaque data"
  unfolding tls_opaque_def read_opaque_def [abs_def] by (rule rt_prefixed) (rule rt_varint)

lemma rt_opaque16 [rt_intros]: "roundtrips (tls_opaque16 data) read_opaque16 data"
  unfolding tls_opaque16_def read_opaque16_alt by (rule rt_prefixed) (rule rt_u16)

lemma rt_opaque32 [rt_intros]: "roundtrips (tls_opaque32 data) read_opaque32 data"
  unfolding tls_opaque32_def read_opaque32_alt by (rule rt_prefixed) (rule rt_u32)

lemma rt_vector16 [rt_intros]: "roundtrips (tls_opaque16 data) read_vector16 data"
  unfolding tls_opaque16_def read_vector16_alt by (rule rt_prefixed) (rule rt_u16)

lemma rt_vector32 [rt_intros]: "roundtrips (tls_opaque32 data) read_vector32 data"
  unfolding tls_opaque32_def read_vector32_alt by (rule rt_prefixed) (rule rt_u32)

lemma rt_vec8 [rt_intros]: "roundtrips (tls_vec8 data) read_vec8 data"
proof -
  have "roundtrips (cat_res [tls_u8 (int (length data)), Inr data]) read_vec8 data"
    unfolding read_vec8_alt by (rule rt_prefixed) (rule rt_u8)
  then show ?thesis by (simp add: tls_vec8_def tls_u8_def roundtrips_def)
qed

lemma rt_extension [rt_intros]: "roundtrips (tls_extension e) read_extension e"
  unfolding tls_extension_def read_extension_def [abs_def]
  by (cases e) (simp only: prod.case, (rule rt_intros)+)

lemma rt_extension16 [rt_intros]: "roundtrips (tls_extension16 e) read_extension16 e"
  unfolding tls_extension16_def read_extension16_def [abs_def]
  by (cases e) (simp only: prod.case, (rule rt_intros)+)

section \<open>Progress\<close>

lemma progresses_varint [progress_intros]: "progresses varint_decode"
  by (auto intro!: progressesI dest: varint_decode_bounds)

lemma progresses_u8 [progress_intros]: "progresses read_u8"
  and progresses_u16 [progress_intros]: "progresses read_u16"
  and progresses_u32 [progress_intros]: "progresses read_u32"
  and progresses_u64 [progress_intros]: "progresses read_u64"
  by (auto intro!: progressesI simp: read_u8_def read_u16_def read_u32_def read_u64_def)

lemma progresses_prefixed:
  assumes "progresses d"
  shows "progresses (\<lambda>buf off0. bindR (d buf off0) (\<lambda>(len, off).
     if off + nat len > length buf then Inl err
     else Inr (slice buf off (off + nat len), off + nat len)))"
  using assms by (fastforce simp: progresses_def split: if_splits)

lemma progresses_opaque [progress_intros]: "progresses read_opaque"
  unfolding read_opaque_def [abs_def] by (intro progresses_prefixed progress_intros)

lemma progresses_opaque16 [progress_intros]: "progresses read_opaque16"
  unfolding read_opaque16_alt by (intro progresses_prefixed progress_intros)

lemma progresses_opaque32 [progress_intros]: "progresses read_opaque32"
  unfolding read_opaque32_alt by (intro progresses_prefixed progress_intros)

lemma progresses_extension [progress_intros]: "progresses read_extension"
  unfolding read_extension_def [abs_def] by (intro progress_intros)

lemma progresses_extension16 [progress_intros]: "progresses read_extension16"
  unfolding read_extension16_def [abs_def] by (intro progress_intros)

lemma progresses_step16 [progress_intros]: "progresses parse_extension16_step"
  by (auto intro!: progressesI simp: parse_extension16_step_def Let_def split: if_splits)

lemma progresses_read_vector:
  "progresses (read_vector cls)"
  unfolding read_vector_def [abs_def]
  by (rule progressesI) (auto dest: progressesD [OF progresses_opaque])

lemma read_extensions_eq_vector: "read_extensions = read_vector read_extension"
  by (simp add: fun_eq_iff read_extensions_def read_vector_def)

lemma progresses_extensions [progress_intros]: "progresses read_extensions"
  unfolding read_extensions_eq_vector by (rule progresses_read_vector)

section \<open>Vectors\<close>

lemma rt_read_vector:
  assumes "\<And>x. x \<in> set xs \<Longrightarrow> roundtrips (enc x) d x" and "progresses d"
  shows "roundtrips (bindR (cat_res (map enc xs)) tls_opaque) (read_vector d) xs"
  unfolding read_vector_def [abs_def] using assms by (intro rt_prefixed_vector rt_opaque)

lemma tls_extensions_alt: "tls_extensions xs = bindR (cat_res (map tls_extension xs)) tls_opaque"
  unfolding tls_extensions_def tls_opaque_def by (rule refl)

lemma rt_extensions [rt_intros]: "roundtrips (tls_extensions exts) read_extensions exts"
  unfolding tls_extensions_alt read_extensions_eq_vector
  by (intro rt_read_vector rt_intros progress_intros)

interpretation ext: wire_codec tls_extension read_extension "\<lambda>_. True"
  by unfold_locales (intro rt_intros progress_intros)+

interpretation exts: wire_codec tls_extensions read_extensions "\<lambda>_. True"
  by unfold_locales (intro rt_intros progress_intros)+

interpretation opaque: wire_codec tls_opaque read_opaque "\<lambda>_. True"
  by unfold_locales (intro rt_intros progress_intros)+

section \<open>Every reader returns or raises\<close>

lemma byte_at_halts [simp]: "byte_at buf off \<noteq> Inl Nontermination"
  and unpack_halts [simp]: "struct_unpack_from n buf off \<noteq> Inl Nontermination"
  by (simp_all add: byte_at_def struct_unpack_from_def)

lemma halts_ints [halt_intros]:
  "halts read_u8" "halts read_u16" "halts read_u32" "halts read_u64" "halts varint_decode"
  by (auto intro!: haltsI simp: read_u8_def read_u16_def read_u32_def read_u64_def
      varint_decode_def bindR_eq_Inl Let_def split: if_splits)

lemma halts_prefixed:
  assumes "halts d" and "err \<noteq> Nontermination"
  shows "halts (\<lambda>buf off0. bindR (d buf off0) (\<lambda>(len, off).
     if off + nat len > length buf then Inl err
     else Inr (slice buf off (off + nat len), off + nat len)))"
  using assms by (auto simp: halts_def bindR_eq_Inl split: if_splits)

lemma halts_opaques [halt_intros]:
  "halts read_opaque" "halts read_opaque16" "halts read_opaque32"
  "halts read_vector16" "halts read_vector32" "halts read_vec8"
  unfolding read_opaque_def [abs_def] read_opaque16_alt read_opaque32_alt read_vector16_alt
    read_vector32_alt read_vec8_alt
  by (intro halts_prefixed halt_intros py_error.distinct)+

lemma halts_extension [halt_intros]: "halts read_extension" "halts read_extension16"
  unfolding read_extension_def [abs_def] read_extension16_def [abs_def]
  by (intro halt_intros)+

lemma halts_read_vector:
  "progresses d \<Longrightarrow> halts d \<Longrightarrow> halts (read_vector d)"
  unfolding read_vector_def [abs_def]
  by (rule haltsI)
    (auto simp: bindR_eq_Inl while_read_no_divergence haltsD [OF halts_opaques(1)])

lemma halts_extensions [halt_intros]: "halts read_extensions"
  unfolding read_extensions_eq_vector by (intro halts_read_vector halt_intros progress_intros)

section \<open>Extensions with 16-bit lengths\<close>

lemma rt_step16: "roundtrips (tls_extension16 e) parse_extension16_step e"
proof (intro roundtripsI readsI)
  fix bs :: bytes and buf off rest
  assume enc: "tls_extension16 e = Inr bs" and off: "off \<le> length buf" "drop off buf = bs @ rest"
  obtain ty d where e: "e = (ty, d)" by (cases e)
  from enc e have ty: "0 \<le> ty" "ty < 256 ^ 2" and len: "int (length d) < 256 ^ 2"
    and bs: "bs = be_bytes 2 ty @ be_bytes 2 (int (length d)) @ d"
    by (auto simp: tls_extension16_def tls_opaque16_def tls_u16_def)
  have le: "off + 4 + length d \<le> length buf" using drop_eq_append_le [OF off] bs by simp
  have 1: "slice buf off (off + 2) = be_bytes 2 ty"
    using off(2) bs by (simp add: slice_def)
  have "drop (off + 2) buf = drop 2 (drop off buf)" by (simp add: add.commute)
  with off(2) bs have 2: "slice buf (off + 2) (off + 4) = be_bytes 2 (int (length d))"
    by (simp add: slice_def)
  have "drop (off + 4) buf = drop 4 (drop off buf)" by (simp add: add.commute)
  with off(2) bs have "slice buf (off + 4) (off + 4 + length d) = d" by (simp add: slice_def)
  with 1 2 le ty len bs e show "parse_extension16_step buf off = Inr (e, off + length bs)"
    by (simp add: parse_extension16_step_def Let_def)
qed

lemma step16_canonical:
  assumes "parse_extension16_step data i = Inr (e, i')"
  shows "i' \<le> length data \<and> tls_extension16 e = Inr (slice data i i')"
proof -
  let ?a = "slice data i (i + 2)" and ?b = "slice data (i + 2) (i + 4)"
  define n where "n = nat (from_be ?b)"
  from assms have le: "i + 4 + n \<le> length data"
    and e: "e = (from_be ?a, slice data (i + 4) (i + 4 + n))" and i': "i' = i + 4 + n"
    by (auto simp: parse_extension16_step_def Let_def n_def split: if_splits)
  have la: "length ?a = 2" "length ?b = 2" using le by (simp_all add: length_slice)
  have n: "int n = from_be ?b" by (simp add: n_def)
  have "from_be ?a < 256 ^ 2" "from_be ?b < 256 ^ 2"
    using from_be_less [of ?a] from_be_less [of ?b] la by simp_all
  moreover have "be_bytes 2 (from_be ?a) = ?a" "be_bytes 2 (from_be ?b) = ?b"
    using be_bytes_from_be [of ?a] be_bytes_from_be [of ?b] la by simp_all
  moreover have "slice data i i' = ?a @ ?b @ slice data (i + 4) i'"
    using i' by (simp add: slice_append)
  ultimately show ?thesis
    using le i' e la n
    by (simp add: tls_extension16_def tls_opaque16_def tls_u16_def length_slice struct_pack_def)
qed

lemma parse16_of_cat:
  assumes "cat_res (map tls_extension16 exts) = Inr data"
  shows "parse_extensions_internal data = Inr exts"
proof -
  have "while_read parse_extension16_step data (length data) 0 = Some (Inr (exts, length data))"
    by (rule while_read_cat_res [where rest = "[]", OF assms])
      (auto intro: rt_step16 progress_intros)
  then show ?thesis by (simp add: parse_extensions_internal_def)
qed

lemma rt_extensions16 [rt_intros]: "roundtrips (tls_extensions16 exts) read_extensions16 exts"
proof (rule roundtripsI)
  fix bs assume "tls_extensions16 exts = Inr bs"
  then obtain data where data: "cat_res (map tls_extension16 exts) = Inr data" "tls_opaque16 data = Inr bs"
    by (auto simp: tls_extensions16_def tls_opaque16_def)
  then have "reads read_vector16 bs data" by (blast intro: roundtripsD rt_vector16)
  with parse16_of_cat [OF data(1)] show "reads read_extensions16 bs exts"
    by (auto intro!: readsI simp: read_extensions16_def dest: readsD)
qed

section \<open>Sizes\<close>

lemma fits_ints:
  "0 \<le> v \<Longrightarrow> v < 2 ^ 8 \<Longrightarrow> fits 1 (tls_u8 v)" "0 \<le> v \<Longrightarrow> v < 2 ^ 16 \<Longrightarrow> fits 2 (tls_u16 v)"
  "0 \<le> v \<Longrightarrow> v < 2 ^ 32 \<Longrightarrow> fits 4 (tls_u32 v)" "0 \<le> v \<Longrightarrow> v < 2 ^ 64 \<Longrightarrow> fits 8 (tls_u64 v)"
  "0 \<le> v \<Longrightarrow> v < 2 ^ 16 \<Longrightarrow> fits 2 (int_to_bytes 2 v)" "0 \<le> v \<Longrightarrow> v < 2 ^ 64 \<Longrightarrow> fits 8 (int_to_bytes 8 v)"
  by (simp_all add: fits_def tls_u8_def tls_u16_def tls_u32_def tls_u64_def)

lemma fits_varint: "0 \<le> v \<Longrightarrow> v < 2 ^ 30 \<Longrightarrow> fits 4 (tls_varint v)"
  by (auto simp: fits_def tls_varint_eq)

lemma fits_opaque: "length d \<le> n \<Longrightarrow> n < 2 ^ 30 \<Longrightarrow> fits (4 + n) (tls_opaque d)"
  unfolding tls_opaque_def
  by (rule fits_mono, rule fits_cat_Cons [OF fits_varint fits_cat_Cons [OF fits_Inr fits_cat_Nil]]) auto

lemma fits_opaque32: "length d \<le> n \<Longrightarrow> n < 2 ^ 32 \<Longrightarrow> fits (4 + n) (tls_opaque32 d)"
  unfolding tls_opaque32_def
  by (rule fits_mono, rule fits_cat_Cons [OF fits_ints(3) fits_cat_Cons [OF fits_Inr fits_cat_Nil]]) auto

section \<open>Properties\<close>

text \<open>\<open>tls_varint\<close> accepts exactly 0 .. 2^30-1, writes the shortest form, and
  \<open>_varint_decode\<close> reads the integer back at any place of any buffer.\<close>

theorem varint_roundtrip:
  "(\<exists>bs. tls_varint n = Inr bs) = (0 \<le> n \<and> n < 2 ^ 30) \<and>
   (tls_varint n = Inr bs \<longrightarrow>
      length bs = (if n < 64 then 1 else if n < 16384 then 2 else 4) \<and>
      varint_decode (pre @ bs @ post) (length pre) = Inr (n, length pre + length bs))"
proof (intro conjI impI)
  show "(\<exists>bs. tls_varint n = Inr bs) = (0 \<le> n \<and> n < 2 ^ 30)" by (auto simp: tls_varint_eq)
next
  assume "tls_varint n = Inr bs"
  then show "length bs = (if n < 64 then 1 else if n < 16384 then 2 else 4)"
    by (auto simp: tls_varint_eq split: if_splits)
  from \<open>tls_varint n = Inr bs\<close> have "reads varint_decode bs n" by (rule roundtripsD [OF rt_varint])
  then show "varint_decode (pre @ bs @ post) (length pre) = Inr (n, length pre + length bs)"
    by (rule readsD) simp_all
qed

theorem varint_roundtrip_witness:
  "tls_varint 300 = Inr [0x41, 0x2C] \<and> varint_decode [7, 0x41, 0x2C, 9] 1 = Inr (300, 3)"
proof -
  have e: "tls_varint 300 = Inr [0x41, 0x2C]" by code_simp
  with varint_roundtrip [of 300 "[0x41, 0x2C]" "[7]" "[9]"] show ?thesis by simp
qed

text \<open>C40: on arbitrary input \<open>_varint_decode\<close> returns only values of 0 .. 2^30-1, consumes
  between one and four bytes, all of them inside the buffer, and never accepts a first byte
  with the reserved prefix 0b11.\<close>

theorem varint_decode_safe:
  assumes "varint_decode buf off = Inr (v, off')"
  shows "0 \<le> v \<and> v < 2 ^ 30 \<and> off < off' \<and> off' \<le> off + 4 \<and> off' \<le> length buf
         \<and> uint (buf ! off) < 192"
  using varint_decode_bounds [OF assms] assms
  by (auto simp: varint_decode_arith byte_at_def split: if_splits)

theorem varint_decode_safe_witness:
  "varint_decode [0x80, 0, 1, 2] 0 = Inr (258, 4) \<and> uint ([0x80, 0, 1, 2 :: byte] ! 0) < 192"
proof -
  have e: "varint_decode [0x80, 0, 1, 2] 0 = Inr (258, 4)"
    by code_simp
  with varint_decode_safe [OF e] show ?thesis by blast
qed

text \<open>\<open>read_opaque\<close> returns a contiguous part of the buffer, which ends exactly at the new
  offset and inside the buffer: a hostile length prefix cannot make it read past the end.\<close>

theorem read_opaque_in_bounds:
  assumes "read_opaque buf off = Inr (data, off')"
  shows "\<exists>start. off < start \<and> start \<le> off' \<and> off' \<le> length buf \<and> data = slice buf start off'"
proof -
  from assms obtain len start where v: "varint_decode buf off = Inr (len, start)"
    and "start + nat len \<le> length buf" "data = slice buf start (start + nat len)"
      "off' = start + nat len"
    by (auto simp: read_opaque_def split: if_splits)
  moreover from varint_decode_bounds [OF v] have "off < start" by simp
  ultimately show ?thesis by auto
qed

theorem read_opaque_in_bounds_witness:
  "read_opaque [2, 10, 11, 12] 0 = Inr ([10, 11], 3)
   \<and> (\<exists>start>0. start \<le> 3 \<and> [10, 11] = slice [2, 10, 11, 12 :: byte] start 3)"
proof -
  have e: "read_opaque [2, 10, 11, 12] 0 = Inr ([10, 11], 3)"
    by code_simp
  with read_opaque_in_bounds [OF e] show ?thesis by blast
qed

text \<open>An extension vector that \<open>tls_extensions\<close> writes is read back by
  \<open>read_extensions\<close>, wherever it stands in a buffer.\<close>

theorem extensions_roundtrip:
  assumes "tls_extensions exts = Inr bs"
  shows "read_extensions (pre @ bs @ post) (length pre) = Inr (exts, length pre + length bs)"
  using assms by (intro exts.decode_at) simp_all

theorem extensions_roundtrip_witness:
  "read_extensions [9, 4, 0, 2, 1, 0xFF] 1 = Inr ([(2, [0xFF])], 6)"
proof -
  have "tls_extensions [(2, [0xFF])] = Inr [4, 0, 2, 1, 0xFF]"
    by code_simp
  from extensions_roundtrip [OF this, of "[9]" "[]"] show ?thesis by simp
qed

text \<open>The parser of the 16-bit dialect accepts exactly the images of its writer: a byte
  string parses to a list of extensions if and only if writing that list gives the byte string.\<close>

theorem extensions16_bijection:
  "parse_extensions_internal data = Inr exts \<longleftrightarrow> cat_res (map tls_extension16 exts) = Inr data"
proof
  assume "parse_extensions_internal data = Inr exts"
  moreover obtain r where "while_read parse_extension16_step data (length data) 0 = Some r"
    using while_read_returns [OF progresses_step16] by blast
  ultimately obtain i where
    "while_read parse_extension16_step data (length data) 0 = Some (Inr (exts, i))"
    by (auto simp: parse_extensions_internal_def)
  from while_read_canonical [where enc = tls_extension16, OF progresses_step16 step16_canonical this]
  show "cat_res (map tls_extension16 exts) = Inr data" by simp
qed (rule parse16_of_cat)

text \<open>\<open>read_extensions\<close> returns or raises on every buffer at every offset: its loop
  cannot be made to run forever.\<close>

theorem read_extensions_terminates: "read_extensions buf off \<noteq> Inl Nontermination"
  by (rule haltsD) (rule halts_extensions)

end
