(* ===== verification/Hkdf.thy ===== *)
theory Hkdf
  imports Hashlib Tls
begin

text \<open>
  \<open>hkdf.py\<close>: HKDF-Extract and HKDF-Expand (RFC 5869) and the labelled derivations of MLS.
  The theorems: the second copy of the variable-length encoder agrees with the one of \<open>tls.py\<close>;
  Expand returns exactly the requested number of bytes, or raises when the counter byte would
  overflow; the HkdfLabel is injective, so different labels, contexts or lengths never share a
  derivation input.
\<close>

section \<open>Model\<close>

definition MLS_SUITE_ID :: bytes where
  "MLS_SUITE_ID = encode_str ''MLS 1.0 ''"

definition varint_encode :: "int \<Rightarrow> bytes res" where
  "varint_encode n =
     (if n \<le> 63 then bytes_of_int n
      else if n \<le> 16383 then int_to_bytes 2 ((n OR 0x4000) AND 0xFFFF)
      else if n \<le> push_bit 30 1 - 1 then int_to_bytes 4 ((n OR 0x80000000) AND 0xFFFFFFFF)
      else Inl (ValueError ''VarInt out of range''))"

text \<open>HKDF-Extract; a missing salt is a block of zeros.\<close>

definition hkdf_extract :: "bytes option \<Rightarrow> bytes \<Rightarrow> hash_function \<Rightarrow> bytes" where
  "hkdf_extract salt ikm hf =
     (let salt' = (case salt of None \<Rightarrow> replicate (digest_size hf) 0 | Some s \<Rightarrow> s)
      in hmac_digest hf salt' ikm)"

text \<open>The loop of HKDF-Expand over the block counters still to do, with the last block and the
  output so far.\<close>

fun expand_loop :: "hash_function \<Rightarrow> bytes \<Rightarrow> bytes \<Rightarrow> nat list \<Rightarrow> bytes \<Rightarrow> bytes \<Rightarrow> bytes res" where
  "expand_loop hf prk info [] t_i okm = Inr okm"
| "expand_loop hf prk info (i # is) t_i okm =
     bindR (bytes_of_int (int i)) (\<lambda>ctr.
     let t_i' = hmac_digest hf prk (t_i @ info @ ctr)
     in expand_loop hf prk info is t_i' (okm @ t_i'))"

definition hkdf_expand :: "bytes \<Rightarrow> bytes \<Rightarrow> nat \<Rightarrow> hash_function \<Rightarrow> bytes res" where
  "hkdf_expand prk info len hf =
     (let hash_len = digest_size hf;
          n = (len + hash_len - 1) div hash_len
      in bindR (expand_loop hf prk info [1..<n + 1] [] []) (\<lambda>okm. Inr (take len okm)))"

text \<open>The serialized HkdfLabel that \<open>expand_with_label\<close> builds.\<close>

definition hkdf_label :: "string \<Rightarrow> bytes \<Rightarrow> nat \<Rightarrow> bytes res" where
  "hkdf_label label context len =
     (let full_label = MLS_SUITE_ID @ encode_str label
      in cat_res [int_to_bytes 2 (int len), varint_encode (int (length full_label)), Inr full_label,
                  varint_encode (int (length context)), Inr context])"

definition expand_with_label ::
    "bytes \<Rightarrow> string \<Rightarrow> bytes \<Rightarrow> nat \<Rightarrow> hash_function \<Rightarrow> bytes res" where
  "expand_with_label secret label context len hf =
     bindR (hkdf_label label context len) (\<lambda>l. hkdf_expand secret l len hf)"

definition derive_secret :: "bytes \<Rightarrow> string \<Rightarrow> hash_function \<Rightarrow> bytes res" where
  "derive_secret secret label hf =
     (let nh = digest_size hf in expand_with_label secret label [] nh hf)"

section \<open>Lemmas\<close>

lemma varint_encode_eq [simp]: "varint_encode n = tls_varint n"
  by (simp add: varint_encode_def tls_varint_def push_bit_eq_mult)

lemma varint_opaque: "cat_res [varint_encode (int (length d)), Inr d] = tls_opaque d"
  by (simp add: tls_opaque_def)

lemma encode_str_inj [simp]: "encode_str a = encode_str b \<longleftrightarrow> a = b"
proof -
  have "(word_of_nat (of_char c) :: byte) = word_of_nat (of_char c') \<Longrightarrow> c = c'" for c c' :: char
  proof -
    assume "(word_of_nat (of_char c) :: byte) = word_of_nat (of_char c')"
    then have "unat (word_of_nat (of_char c) :: byte) = unat (word_of_nat (of_char c') :: byte)"
      by simp
    moreover have "(of_char x :: nat) < 256" for x by (rule nat_of_char_less_256)
    ultimately have "(of_char c :: nat) = of_char c'"
      by (simp add: unat_of_nat take_bit_eq_mod)
    then show "c = c'" by simp
  qed
  then show ?thesis
    unfolding encode_str_def by (intro inj_map_eq_map) (auto intro: injI)
qed

lemma length_hkdf_extract [simp]: "length (hkdf_extract salt ikm sha256) = 32"
  by (simp add: hkdf_extract_def Let_def)

lemma expand_loop_length:
  assumes "\<And>m. length (digest hf m) = digest_size hf" and "\<forall>i\<in>set is. i < 256"
  shows "\<exists>out. expand_loop hf prk info is t okm = Inr (okm @ out)
               \<and> length out = length is * digest_size hf"
  using assms(2)
proof (induction "is" arbitrary: t okm)
  case (Cons i "is")
  let ?t = "hmac_digest hf prk (t @ info @ [word_of_nat i])"
  have "length ?t = digest_size hf" using assms(1) by (simp add: hmac_digest_def Let_def)
  moreover obtain out where "expand_loop hf prk info is ?t (okm @ ?t) = Inr ((okm @ ?t) @ out)"
      "length out = length is * digest_size hf"
    using Cons by fastforce
  ultimately show ?case using Cons.prems
    by (auto simp: bytes_of_int_def Let_def intro!: exI [of _ "?t @ out"])
qed simp

lemma expand_loop_overflow:
  assumes "256 \<in> set is"
  shows "\<exists>e. expand_loop hf prk info is t okm = Inl e"
  using assms
proof (induction "is" arbitrary: t okm)
  case (Cons i "is")
  then show ?case
    by (cases "bytes_of_int (int i)") (auto simp: Let_def bytes_of_int_def split: if_splits)
qed simp

lemma hkdf_expand_ok:
  assumes "\<And>m. length (digest hf m) = digest_size hf" and "0 < digest_size hf"
    and "len \<le> 255 * digest_size hf"
  shows "\<exists>okm. hkdf_expand prk info len hf = Inr okm \<and> length okm = len"
proof -
  let ?h = "digest_size hf"
  define n where "n = (len + ?h - 1) div ?h"
  have "len + ?h - 1 < 256 * ?h" using assms(2,3) by linarith
  then have "n \<le> 255"
    unfolding n_def using less_mult_imp_div_less by fastforce
  then obtain out where out: "expand_loop hf prk info [1..<n + 1] [] [] = Inr out"
      "length out = n * ?h"
    using expand_loop_length [OF assms(1), of "[1..<n + 1]" prk info "[]" "[]"] by fastforce
  have "len \<le> n * ?h"
  proof -
    have "(len + ?h - 1) mod ?h < ?h" using assms(2) by simp
    then show ?thesis
      using div_mult_mod_eq [of "len + ?h - 1" ?h] assms(2) unfolding n_def by linarith
  qed
  with out show ?thesis by (simp add: hkdf_expand_def Let_def n_def)
qed

lemma hkdf_label_opaque:
  "hkdf_label label context len =
     cat_res [int_to_bytes 2 (int len), tls_opaque (MLS_SUITE_ID @ encode_str label), tls_opaque context]"
  by (simp add: hkdf_label_def Let_def tls_opaque_def bindR_assoc)

lemma expand_with_label_sha256_length:
  assumes "expand_with_label secret label context len sha256 = Inr okm" and "len \<le> 8160"
  shows "length okm = len"
proof -
  from assms(1) obtain l where "hkdf_expand secret l len sha256 = Inr okm"
    by (auto simp: expand_with_label_def)
  with hkdf_expand_ok [of sha256 len secret l] assms(2) show ?thesis by auto
qed

lemma tls_opaque_small: "length d < 64 \<Longrightarrow> tls_opaque d = Inr (word_of_nat (length d) # d)"
  by (simp add: tls_opaque_def tls_varint_eq)

lemma expand_with_label_sha256:
  assumes "length label < 56" and "length context < 2 ^ 30" and "len \<le> 8160"
  shows "\<exists>okm. expand_with_label secret label context len sha256 = Inr okm \<and> length okm = len"
proof -
  have "\<exists>b. tls_opaque context = Inr b" using assms(2) by (simp add: tls_opaque_def tls_varint_eq)
  then obtain b where "tls_opaque context = Inr b" by blast
  then have "\<exists>l. hkdf_label label context len = Inr l"
    using assms by (simp add: hkdf_label_opaque tls_opaque_small MLS_SUITE_ID_def int_to_bytes_def)
  then obtain l where "hkdf_label label context len = Inr l" by blast
  then show ?thesis
    using hkdf_expand_ok [of sha256 len secret l] assms(3) by (simp add: expand_with_label_def)
qed

section \<open>Properties\<close>

text \<open>\<open>hkdf.varint_encode\<close> and \<open>tls.tls_varint\<close>, two copies of the same encoder, agree on
  every integer, errors included.\<close>

theorem varint_encoders_agree: "varint_encode n = tls_varint n"
  by simp

text \<open>HKDF-Expand with SHA-256 returns exactly the requested number of bytes when at most
  255 blocks are needed, and raises when more are.\<close>

theorem hkdf_expand_length:
  "if len \<le> 255 * 32
   then \<exists>okm. hkdf_expand prk info len sha256 = Inr okm \<and> length okm = len
   else \<exists>e. hkdf_expand prk info len sha256 = Inl e"
proof (cases "len \<le> 255 * 32")
  case True
  then show ?thesis using hkdf_expand_ok [of sha256 len prk info] by simp
next
  case False
  then have "256 \<le> (len + 31) div 32" by simp
  then have "256 \<in> set [1..<(len + 31) div 32 + 1]"
    by (simp only: set_upt atLeastLessThan_iff) linarith
  then obtain e where "expand_loop sha256 prk info [1..<(len + 31) div 32 + 1] [] [] = Inl e"
    using expand_loop_overflow by blast
  moreover have "len + 32 - 1 = len + 31" by simp
  ultimately have "hkdf_expand prk info len sha256 = Inl e"
    by (simp only: hkdf_expand_def Let_def sha256_sizes bindR.simps)
  with False show ?thesis by simp
qed

text \<open>The HkdfLabel binds the whole derivation request. Two requests with the same
  serialized label have the same label, context and length: no two different derivations of the
  key schedule feed HKDF-Expand the same info string.\<close>

theorem hkdf_label_injective:
  assumes "hkdf_label l1 c1 n1 = Inr b" and "hkdf_label l2 c2 n2 = Inr b"
  shows "l1 = l2 \<and> c1 = c2 \<and> n1 = n2"
proof -
  obtain x1 y1 x2 y2 where
    b: "b = be_bytes 2 (int n1) @ x1 @ y1" "b = be_bytes 2 (int n2) @ x2 @ y2"
    and n: "int n1 < 256 ^ 2" "int n2 < 256 ^ 2"
    and x: "tls_opaque (MLS_SUITE_ID @ encode_str l1) = Inr x1"
           "tls_opaque (MLS_SUITE_ID @ encode_str l2) = Inr x2"
    and y: "tls_opaque c1 = Inr y1" "tls_opaque c2 = Inr y2"
    using assms by (auto simp: hkdf_label_opaque)
  from b have h: "be_bytes 2 (int n1) = be_bytes 2 (int n2)" and xy: "x1 @ y1 = x2 @ y2" by auto
  from arg_cong [OF h, of from_be] n have "n1 = n2" by simp
  moreover from opaque.prefix_free [OF _ _ x xy] have "l1 = l2" "y1 = y2" by auto
  moreover from opaque.enc_inj [OF _ _ y(1)] y(2) \<open>y1 = y2\<close> have "c1 = c2" by blast
  ultimately show ?thesis by blast
qed

theorem hkdf_label_injective_witness:
  "{(l, c, n). hkdf_label l c n =
       Inr [0, 16, 11, 77, 76, 83, 32, 49, 46, 48, 32, 107, 101, 121, 1, 1]}
   = {(''key'', [1], 16)}"
proof -
  let ?b = "[0, 16, 11, 77, 76, 83, 32, 49, 46, 48, 32, 107, 101, 121, 1, 1]"
  have e: "hkdf_label ''key'' [1] 16 = Inr ?b" by code_simp
  have "l = ''key'' \<and> c = [1] \<and> n = 16" if "hkdf_label l c n = Inr ?b" for l c n
    using that e by (rule hkdf_label_injective)
  with e show ?thesis by blast
qed

end
