(* ===== verification/Keys.thy ===== *)
theory Keys
  imports Hkdf
begin

text \<open>
  \<open>keys.py\<close>: Ed25519 signature keys and X25519 KEM keys. The primitives come from the
  \<open>cryptography\<close> package, which is not part of the repository: they are the fields of a
  record that every definition needing them takes as its argument, and what the program relies
  on is stated by five predicates (signatures are not empty and verify under the signer's key,
  Diffie-Hellman agrees, decryption undoes encryption, public keys have 32 bytes, and the calls
  return on inputs of the documented sizes).
\<close>

section \<open>The primitives of the \<open>cryptography\<close> package\<close>

text \<open>
  Keys are their raw bytes. \<open>ed_load\<close> and \<open>x_load\<close> say which public byte strings
  \<open>from_public_bytes\<close> accepts (it raises \<open>ValueError\<close> on the others); \<open>x_exchange\<close> is
  \<open>None\<close> where the exchange raises \<open>ValueError\<close>; the two AES-GCM calls return a byte string or
  raise.
\<close>

record crypto =
  ed_public :: "bytes \<Rightarrow> bytes"
  ed_sign :: "bytes \<Rightarrow> bytes \<Rightarrow> bytes"
  ed_load :: "bytes \<Rightarrow> bool"
  ed_verify :: "bytes \<Rightarrow> bytes \<Rightarrow> bytes \<Rightarrow> bool"
  x_public :: "bytes \<Rightarrow> bytes"
  x_load :: "bytes \<Rightarrow> bool"
  x_exchange :: "bytes \<Rightarrow> bytes \<Rightarrow> bytes option"
  gcm_encrypt :: "bytes \<Rightarrow> bytes \<Rightarrow> bytes \<Rightarrow> bytes \<Rightarrow> bytes res"
  gcm_decrypt :: "bytes \<Rightarrow> bytes \<Rightarrow> bytes \<Rightarrow> bytes \<Rightarrow> bytes res"

definition signatures_verify :: "crypto \<Rightarrow> bool" where
  "signatures_verify C \<longleftrightarrow>
     (\<forall>sk m. ed_load C (ed_public C sk) \<and> ed_verify C (ed_public C sk) (ed_sign C sk m) m
             \<and> ed_sign C sk m \<noteq> [])"

definition dh_agrees :: "crypto \<Rightarrow> bool" where
  "dh_agrees C \<longleftrightarrow>
     (\<forall>a b. x_load C (x_public C a) \<and>
            x_exchange C a (x_public C b) = x_exchange C b (x_public C a))"

definition gcm_decrypts :: "crypto \<Rightarrow> bool" where
  "gcm_decrypts C \<longleftrightarrow>
     (\<forall>k n p a c. gcm_encrypt C k n p a = Inr c \<longrightarrow> gcm_decrypt C k n c a = Inr p)"

text \<open>Public keys of both kinds are 32 bytes long.\<close>

definition keys_sized :: "crypto \<Rightarrow> bool" where
  "keys_sized C \<longleftrightarrow> (\<forall>k. length (ed_public C k) = 32 \<and> length (x_public C k) = 32)"

text \<open>
  The calls return: signatures have 64 bytes, the exchange with a public key of the package returns
  a value, AES-GCM with a key of 16 or 32 bytes and a 12-byte nonce encrypts up to \<open>2^31 - 1\<close> bytes and adds
  a tag of 16 bytes.
\<close>

definition primitives_return :: "crypto \<Rightarrow> bool" where
  "primitives_return C \<longleftrightarrow>
     (\<forall>sk m. length (ed_sign C sk m) = 64)
   \<and> (\<forall>a b. x_exchange C a (x_public C b) \<noteq> None)
   \<and> (\<forall>k n p a. length k \<in> {16, 32} \<longrightarrow> length n = 12 \<longrightarrow> length p < 2 ^ 31 \<longrightarrow> length a < 2 ^ 31 \<longrightarrow>
        (\<exists>c. gcm_encrypt C k n p a = Inr c \<and> length c = length p + 16))"

section \<open>Signature keys\<close>

record SignatureKey =
  sig_private :: bytes

definition sig_sign :: "crypto \<Rightarrow> SignatureKey \<Rightarrow> bytes \<Rightarrow> bytes" where
  "sig_sign C sk message = ed_sign C (sig_private sk) message"

definition sig_public_bytes :: "crypto \<Rightarrow> SignatureKey \<Rightarrow> bytes" where
  "sig_public_bytes C sk = ed_public C (sig_private sk)"

definition sig_private_bytes :: "SignatureKey \<Rightarrow> bytes" where
  "sig_private_bytes sk = sig_private sk"

definition sig_from_private_bytes :: "bytes \<Rightarrow> SignatureKey res" where
  "sig_from_private_bytes data0 =
     (let data = (if length data0 = 64 then take 32 data0 else data0)
      in if length data \<noteq> 32
         then Inl (ValueError ''Ed25519 private key must be 32 (or 64 expanded) bytes'')
         else Inr \<lparr>sig_private = data\<rparr>)"

text \<open>\<open>from_public_bytes\<close> followed by \<open>verify\<close>, as the rest of the library calls it directly.\<close>

definition ed25519_verify :: "crypto \<Rightarrow> bytes \<Rightarrow> bytes \<Rightarrow> bytes \<Rightarrow> unit res" where
  "ed25519_verify C public_bytes signature message =
     (if \<not> ed_load C public_bytes then Inl (ValueError ''Ed25519 public key'')
      else if \<not> ed_verify C public_bytes signature message then Inl InvalidSignature
      else Inr ())"

definition sig_verify :: "crypto \<Rightarrow> bytes \<Rightarrow> bytes \<Rightarrow> bytes \<Rightarrow> bool" where
  "sig_verify C public_bytes signature message =
     (case ed25519_verify C public_bytes signature message of
        Inr _ \<Rightarrow> True
      | Inl InvalidSignature \<Rightarrow> False
      | Inl (ValueError _) \<Rightarrow> False
      | Inl _ \<Rightarrow> False)"

section \<open>KEM keys\<close>

record KemKey =
  kem_private :: bytes

definition kem_public_bytes :: "crypto \<Rightarrow> KemKey \<Rightarrow> bytes" where
  "kem_public_bytes C k = x_public C (kem_private k)"

definition kem_private_bytes :: "KemKey \<Rightarrow> bytes" where
  "kem_private_bytes k = kem_private k"

definition kem_from_private_bytes :: "bytes \<Rightarrow> KemKey res" where
  "kem_from_private_bytes data =
     (if length data \<noteq> 32 then Inl (ValueError ''X25519 private key must be 32 bytes'')
      else Inr \<lparr>kem_private = data\<rparr>)"

text \<open>\<open>b"KEM\x00\x20"\<close> and \<open>b"HPKE-v1"\<close>.\<close>

definition KEM_SUITE_ID :: bytes where
  "KEM_SUITE_ID = encode_str ''KEM'' @ [0x00, 0x20]"

definition HPKE_V1 :: bytes where
  "HPKE_V1 = encode_str ''HPKE-v1''"

definition kem_from_secret :: "bytes \<Rightarrow> KemKey res" where
  "kem_from_secret secret =
     (let labeled_ikm = HPKE_V1 @ KEM_SUITE_ID @ encode_str ''dkp_prk'' @ secret;
          dkp_prk = hkdf_extract (Some []) labeled_ikm sha256
      in bindR (int_to_bytes 2 32) (\<lambda>l.
         let labeled_info = l @ HPKE_V1 @ KEM_SUITE_ID @ encode_str ''sk''
         in bindR (hkdf_expand dkp_prk labeled_info 32 sha256) (\<lambda>sk.
            kem_from_private_bytes sk)))"

definition dh_exchange :: "crypto \<Rightarrow> KemKey \<Rightarrow> bytes \<Rightarrow> bytes res" where
  "dh_exchange C k peer_public_bytes =
     (if \<not> x_load C peer_public_bytes then Inl (ValueError ''Malformed KemKey public bytes'')
      else case x_exchange C (kem_private k) peer_public_bytes of
             None \<Rightarrow> Inl (ValueError ''Malformed KemKey public bytes'')
           | Some s \<Rightarrow> Inr s)"

section \<open>Lemmas\<close>

lemma gcm_returns:
  assumes "primitives_return C" "length k = 16 \<or> length k = 32" "length n = 12" "length p < 2 ^ 31" "length a < 2 ^ 31"
  shows "\<exists>c. gcm_encrypt C k n p a = Inr c \<and> length c = length p + 16"
proof -
  have "length k \<in> {16, 32}" using assms(2) by blast
  with assms(1,3-5) show ?thesis unfolding primitives_return_def by blast
qed

lemma sig_verify_iff:
  "sig_verify C pk s m \<longleftrightarrow> ed_load C pk \<and> ed_verify C pk s m"
  by (simp add: sig_verify_def ed25519_verify_def)

lemma ed25519_verify_ok [simp]:
  "ed25519_verify C pk s m = Inr u \<longleftrightarrow> ed_load C pk \<and> ed_verify C pk s m"
  by (simp add: ed25519_verify_def)

lemma sig_sign_verifies:
  "signatures_verify C \<Longrightarrow> ed25519_verify C (sig_public_bytes C sk) (sig_sign C sk m) m = Inr ()"
  by (simp add: signatures_verify_def sig_public_bytes_def sig_sign_def)

lemma sig_sign_nonempty: "signatures_verify C \<Longrightarrow> sig_sign C sk m \<noteq> []"
  by (simp add: signatures_verify_def sig_sign_def)

lemma kem_from_secret_returns: "\<exists>k. kem_from_secret s = Inr k \<and> length (kem_private k) = 32"
proof -
  obtain sk where "hkdf_expand p i 32 sha256 = Inr (sk p i) \<and> length (sk p i) = 32" for p i
    using hkdf_expand_ok [of sha256 32] by (metis length_sha256 sha256_sizes(1) le_add1
        mult_le_mono1 nat_mult_1 one_le_numeral zero_less_numeral)
  then show ?thesis
    by (simp add: kem_from_secret_def kem_from_private_bytes_def int_to_bytes_def Let_def)
qed

lemma dh_exchange_agrees:
  assumes "dh_agrees C"
  shows "dh_exchange C a (kem_public_bytes C b) = dh_exchange C b (kem_public_bytes C a)"
  using assms by (simp add: dh_agrees_def dh_exchange_def kem_public_bytes_def)

lemma sig_private_roundtrip:
  "length (sig_private sk) = 32 \<Longrightarrow> sig_from_private_bytes (sig_private_bytes sk) = Inr sk"
  by (simp add: sig_from_private_bytes_def sig_private_bytes_def Let_def)

lemma kem_private_roundtrip:
  "length (kem_private k) = 32 \<Longrightarrow> kem_from_private_bytes (kem_private_bytes k) = Inr k"
  by (simp add: kem_from_private_bytes_def kem_private_bytes_def)

section \<open>A provider for the witnesses\<close>

text \<open>
  A provider that satisfies the five predicates, so that theorems that assume them are known
  not to be empty: a "signature" is a mark and the start of the message, every key is its own public
  key, the exchange (cut or padded to its size) is a symmetric mix, and encryption prepends the nonce.
\<close>

definition pad_to :: "nat \<Rightarrow> bytes \<Rightarrow> bytes" where
  "pad_to n bs = take n (bs @ replicate n 0)"

definition demo_crypto :: crypto where
  "demo_crypto = \<lparr>
     ed_public = pad_to 32, ed_sign = (\<lambda>sk m. 1 # pad_to 63 m), ed_load = (\<lambda>pk. True),
     ed_verify = (\<lambda>pk s m. s = 1 # pad_to 63 m),
     x_public = pad_to 32, x_load = (\<lambda>pk. True),
     x_exchange = (\<lambda>a b. Some (map2 (XOR) (pad_to 32 a) (pad_to 32 b))),
     gcm_encrypt = (\<lambda>k n p a. Inr (pad_to 16 n @ p)),
     gcm_decrypt = (\<lambda>k n c a. if take 16 c = pad_to 16 n then Inr (drop 16 c) else Inl InvalidTag)\<rparr>"

lemma length_pad_to [simp]: "length (pad_to n bs) = n"
  by (simp add: pad_to_def)

lemma pad_to_idem [simp]: "pad_to n (pad_to n bs) = pad_to n bs"
  by (simp add: pad_to_def [of n "pad_to n bs"])

lemma demo_crypto_laws:
  "signatures_verify demo_crypto" "dh_agrees demo_crypto" "gcm_decrypts demo_crypto" "keys_sized demo_crypto"
  "primitives_return demo_crypto"
proof -
  have "map2 (XOR) a b = map2 (XOR) b (a :: bytes)" for a b
    by (rule nth_equalityI) (simp_all add: xor.commute)
  then show "signatures_verify demo_crypto" "dh_agrees demo_crypto" "gcm_decrypts demo_crypto" "keys_sized demo_crypto"
    "primitives_return demo_crypto"
    by (auto simp: demo_crypto_def signatures_verify_def dh_agrees_def gcm_decrypts_def keys_sized_def primitives_return_def)
qed

end
