(* ===== verification/Extensions.thy ===== *)
theory Extensions
  imports Tls
begin

text \<open>
  \<open>extensions.py\<close>: the Capabilities of a leaf and the bodies of the MLS extensions. The
  theorems: what \<open>marshal\<close> writes, \<open>from_bytes_at\<close> and \<open>unmarshal\<close> read back.
\<close>

section \<open>Capabilities\<close>

record Capabilities =
  versions :: "int list"
  ciphersuites :: "int list"
  cap_extensions :: "int list"
  cap_proposals :: "int list"
  credentials :: "int list"

definition Capabilities_default :: Capabilities where
  "Capabilities_default =
     \<lparr>versions = [1], ciphersuites = [0x0001], cap_extensions = [1, 2, 4],
      cap_proposals = [1, 2, 3], credentials = [1]\<rparr>"

definition tls_vec_varint :: "int list \<Rightarrow> bytes res" where
  "tls_vec_varint vals =
     bindR (cat_res (map tls_u16 vals)) (\<lambda>body. cat_res [tls_varint (int (length body)), Inr body])"

definition Capabilities_marshal :: "Capabilities \<Rightarrow> bytes res" where
  "Capabilities_marshal c =
     cat_res [tls_vec_varint (versions c), tls_vec_varint (ciphersuites c),
              tls_vec_varint (cap_extensions c), tls_vec_varint (cap_proposals c),
              tls_vec_varint (credentials c)]"

text \<open>\<open>[int.from_bytes(raw[i : i + n], "big") for i in range(0, len(raw), n)]\<close>.\<close>

fun be_chunks :: "nat \<Rightarrow> bytes \<Rightarrow> int list" where
  "be_chunks n raw = (if n = 0 \<or> raw = [] then [] else from_be (take n raw) # be_chunks n (drop n raw))"

declare be_chunks.simps [simp del]

text \<open>The length is not checked against the buffer: the slice is clamped, the offset is not.\<close>

definition read_varint_vec :: "int list reader" where
  "read_varint_vec buf off0 =
     bindR (varint_decode buf off0) (\<lambda>(len, off).
     let raw = slice buf off (off + nat len)
     in Inr (be_chunks 2 raw, off + nat len))"

definition Capabilities_from_bytes_at :: "Capabilities reader" where
  "Capabilities_from_bytes_at data off0 =
     bindR (read_varint_vec data off0) (\<lambda>(vs, off1).
     bindR (read_varint_vec data off1) (\<lambda>(cs, off2).
     bindR (read_varint_vec data off2) (\<lambda>(es, off3).
     bindR (read_varint_vec data off3) (\<lambda>(ps, off4).
     bindR (read_varint_vec data off4) (\<lambda>(cr, off5).
     Inr (\<lparr>versions = vs, ciphersuites = cs, cap_extensions = es, cap_proposals = ps,
           credentials = cr\<rparr>, off5))))))"

definition Capabilities_unmarshal :: "bytes \<Rightarrow> Capabilities res" where
  "Capabilities_unmarshal data = bindR (Capabilities_from_bytes_at data 0) (\<lambda>(obj, _). Inr obj)"

section \<open>Extension bodies\<close>

record RatchetTreeExtension =
  tree_data :: bytes

definition RatchetTreeExtension_marshal :: "RatchetTreeExtension \<Rightarrow> bytes" where
  "RatchetTreeExtension_marshal e = tree_data e"

definition RatchetTreeExtension_unmarshal :: "bytes \<Rightarrow> RatchetTreeExtension" where
  "RatchetTreeExtension_unmarshal data = \<lparr>tree_data = data\<rparr>"

record ExternalPSKExtension =
  ext_psk_id :: bytes
  ext_psk_nonce :: bytes

definition ExternalPSKExtension_marshal :: "ExternalPSKExtension \<Rightarrow> bytes res" where
  "ExternalPSKExtension_marshal e =
     cat_res [tls_u8 1, tls_opaque (ext_psk_id e), tls_opaque (ext_psk_nonce e)]"

definition ExternalPSKExtension_unmarshal :: "bytes \<Rightarrow> ExternalPSKExtension res" where
  "ExternalPSKExtension_unmarshal data =
     bindR (read_u8 data 0) (\<lambda>(psk_type, off1).
     if psk_type \<noteq> 1 then Inl (ValueError ''Unsupported PSK type'')
     else
       bindR (read_opaque data off1) (\<lambda>(psk_id, off2).
       bindR (read_opaque data off2) (\<lambda>(psk_nonce, off3).
       Inr \<lparr>ext_psk_id = psk_id, ext_psk_nonce = psk_nonce\<rparr>)))"

record GroupContextExtensions =
  gc_extensions :: "extension list"

definition GroupContextExtensions_marshal :: "GroupContextExtensions \<Rightarrow> bytes res" where
  "GroupContextExtensions_marshal e = tls_extensions (gc_extensions e)"

definition GroupContextExtensions_unmarshal :: "bytes \<Rightarrow> GroupContextExtensions res" where
  "GroupContextExtensions_unmarshal data =
     bindR (read_extensions data 0) (\<lambda>(exts, _). Inr \<lparr>gc_extensions = exts\<rparr>)"

section \<open>Lemmas\<close>

lemma be_chunks_cat:
  assumes "cat_res (map (struct_pack n) vals) = Inr body" and "0 < n"
  shows "be_chunks n body = vals"
  using assms(1)
proof (induction vals arbitrary: body)
  case Nil
  then show ?case by (simp add: be_chunks.simps)
next
  case (Cons v vals)
  then obtain body' where "body = be_bytes n v @ body'" "0 \<le> v" "v < 256 ^ n"
      "cat_res (map (struct_pack n) vals) = Inr body'"
    by auto
  with Cons.IH assms(2) show ?case
    by (subst be_chunks.simps) auto
qed

lemma reads_slice:
  "reads (\<lambda>buf off. Inr (f (slice buf off (off + length bs)), off + length bs)) bs (f bs)"
  by (rule readsI) (simp add: slice_prefix)

lemma rt_slice:
  assumes "roundtrips e d (int (length bs))"
  shows "roundtrips (cat_res [e, Inr bs])
     (\<lambda>buf off0. bindR (d buf off0) (\<lambda>(len, off).
        Inr (f (slice buf off (off + nat len)), off + nat len))) (f bs)"
proof (rule roundtripsI)
  fix b assume "cat_res [e, Inr bs] = Inr b"
  then obtain p where "e = Inr p" "b = p @ bs" by auto
  with assms show "reads (\<lambda>buf off0. bindR (d buf off0) (\<lambda>(len, off).
        Inr (f (slice buf off (off + nat len)), off + nat len))) b (f bs)"
    using reads_bind [of d p "int (length bs)"
        "\<lambda>len buf off. Inr (f (slice buf off (off + nat len)), off + nat len)" bs "f bs"]
      reads_slice [of f bs]
    by (auto simp: roundtrips_def)
qed

lemma rt_varint_vec [rt_intros]: "roundtrips (tls_vec_varint vals) read_varint_vec vals"
proof (rule roundtripsI)
  fix bs assume "tls_vec_varint vals = Inr bs"
  then obtain body where body: "cat_res (map tls_u16 vals) = Inr body"
      "cat_res [tls_varint (int (length body)), Inr body] = Inr bs"
    unfolding tls_vec_varint_def by (auto simp del: cat_res.simps)
  have "be_chunks 2 body = vals"
    using be_chunks_cat [of 2 vals body] body(1) by (simp add: tls_u16_def [abs_def])
  with roundtripsD [OF rt_slice [where f = "be_chunks 2", OF rt_varint] body(2)]
  show "reads read_varint_vec bs vals" by (simp add: read_varint_vec_def [abs_def] Let_def)
qed

lemma progresses_varint_vec [progress_intros]: "progresses read_varint_vec"
  by (rule progressesI) (auto simp: read_varint_vec_def Let_def dest: progressesD [OF progresses_varint])

lemma halts_varint_vec [halt_intros]: "halts read_varint_vec"
  by (auto intro!: haltsI simp: read_varint_vec_def Let_def bindR_eq_Inl haltsD [OF halts_ints(5)])

lemma rt_Capabilities [rt_intros]: "roundtrips (Capabilities_marshal c) Capabilities_from_bytes_at c"
  unfolding Capabilities_marshal_def Capabilities_from_bytes_at_def [abs_def]
  by (cases c) (simp only: Capabilities.simps, (rule rt_intros)+)

lemma progresses_Capabilities [progress_intros]: "progresses Capabilities_from_bytes_at"
  unfolding Capabilities_from_bytes_at_def [abs_def] by (intro progress_intros)

lemma halts_Capabilities [halt_intros]: "halts Capabilities_from_bytes_at"
  unfolding Capabilities_from_bytes_at_def [abs_def] by (intro halt_intros)

interpretation capabilities: wire_codec Capabilities_marshal Capabilities_from_bytes_at "\<lambda>_. True"
  by unfold_locales (intro rt_intros progress_intros)+

section \<open>Properties\<close>

text \<open>Capabilities survive the wire: what \<open>marshal\<close> writes, \<open>from_bytes_at\<close> reads back at any
  place of a buffer and \<open>unmarshal\<close> from a whole buffer.\<close>

theorem Capabilities_roundtrip:
  assumes "Capabilities_marshal c = Inr bs"
  shows "Capabilities_from_bytes_at (pre @ bs @ post) (length pre) = Inr (c, length pre + length bs)
       \<and> Capabilities_unmarshal (bs @ post) = Inr c"
  using assms capabilities.decode_at [of c bs pre post] capabilities.decode_at [of c bs "[]" post]
  by (simp add: Capabilities_unmarshal_def)

theorem Capabilities_roundtrip_witness:
  "Capabilities_unmarshal [2,0,1, 2,0,1, 6,0,1,0,2,0,4, 6,0,1,0,2,0,3, 2,0,1] = Inr Capabilities_default"
proof -
  have "Capabilities_marshal Capabilities_default
      = Inr [2,0,1, 2,0,1, 6,0,1,0,2,0,4, 6,0,1,0,2,0,3, 2,0,1]"
    by code_simp
  from Capabilities_roundtrip [OF this, of "[]" "[]"] show ?thesis by simp
qed

text \<open>The extension bodies survive the wire: an external PSK identifier and the extensions of
  a GroupContext are read back by their \<open>unmarshal\<close>, the ratchet tree body unchanged.\<close>

theorem extension_bodies_roundtrip:
  "(ExternalPSKExtension_marshal p = Inr bs \<longrightarrow> ExternalPSKExtension_unmarshal (bs @ post) = Inr p)
   \<and> (GroupContextExtensions_marshal g = Inr cs \<longrightarrow> GroupContextExtensions_unmarshal (cs @ post) = Inr g)
   \<and> RatchetTreeExtension_unmarshal (RatchetTreeExtension_marshal r) = r"
proof (intro conjI impI)
  let ?d = "\<lambda>buf off0. bindR (read_u8 buf off0) (\<lambda>(t, off1).
     bindR (read_opaque buf off1) (\<lambda>(i, off2). bindR (read_opaque buf off2) (\<lambda>(n, off3).
     Inr ((t, i, n), off3))))"
  assume "ExternalPSKExtension_marshal p = Inr bs"
  moreover have "roundtrips (cat_res [tls_u8 1, tls_opaque (ext_psk_id p), tls_opaque (ext_psk_nonce p)])
      ?d (1, ext_psk_id p, ext_psk_nonce p)"
    by (rule rt_intros)+
  ultimately have "reads ?d bs (1, ext_psk_id p, ext_psk_nonce p)"
    unfolding ExternalPSKExtension_marshal_def by (rule roundtripsD [rotated])
  from reads_start [OF this, of post] show "ExternalPSKExtension_unmarshal (bs @ post) = Inr p"
    by (auto simp: ExternalPSKExtension_unmarshal_def)
next
  assume "GroupContextExtensions_marshal g = Inr cs"
  from exts.decode_at [OF _ this [unfolded GroupContextExtensions_marshal_def], of "[]" post]
  show "GroupContextExtensions_unmarshal (cs @ post) = Inr g"
    by (simp add: GroupContextExtensions_unmarshal_def)
next
  show "RatchetTreeExtension_unmarshal (RatchetTreeExtension_marshal r) = r"
    by (simp add: RatchetTreeExtension_unmarshal_def RatchetTreeExtension_marshal_def)
qed

theorem extension_bodies_roundtrip_witness:
  "ExternalPSKExtension_unmarshal [1, 1, 9, 2, 7, 8, 5] = Inr \<lparr>ext_psk_id = [9], ext_psk_nonce = [7, 8]\<rparr>"
proof -
  have "ExternalPSKExtension_marshal \<lparr>ext_psk_id = [9], ext_psk_nonce = [7, 8]\<rparr>
      = Inr [1, 1, 9, 2, 7, 8]"
    by code_simp
  with extension_bodies_roundtrip [of "\<lparr>ext_psk_id = [9], ext_psk_nonce = [7, 8]\<rparr>"
      "[1, 1, 9, 2, 7, 8]" "[5]", THEN conjunct1]
  show ?thesis by simp
qed

end
