(* ===== verification/TreeNodes.thy ===== *)
theory TreeNodes
  imports Keys Extensions
begin

text \<open>
  The first half of \<open>tree.py\<close>: credentials, leaf nodes, key packages and parent nodes, with their
  wire formats, the bytes they sign and the checks of these signatures. The theorems: every
  structure survives the wire; a created key package verifies; the signed bytes determine every
  field they are meant to protect.
\<close>

section \<open>Credential\<close>

definition CREDENTIAL_TYPE_BASIC :: int where
  "CREDENTIAL_TYPE_BASIC = 0x0001"

record Credential =
  identity :: bytes
  credential_type :: int

definition Credential_to_bytes :: "Credential \<Rightarrow> bytes res" where
  "Credential_to_bytes c = cat_res [tls_u16 (credential_type c), tls_opaque (identity c)]"

definition Credential_from_bytes_at :: "Credential reader" where
  "Credential_from_bytes_at data off0 =
     bindR (read_u16 data off0) (\<lambda>(ctype, off1).
     bindR (read_opaque data off1) (\<lambda>(ident, off2).
     Inr (\<lparr>identity = ident, credential_type = ctype\<rparr>, off2)))"

definition Credential_from_bytes :: "bytes \<Rightarrow> Credential res" where
  "Credential_from_bytes data = bindR (Credential_from_bytes_at data 0) (\<lambda>(obj, _). Inr obj)"

definition Credential_basic :: "bytes \<Rightarrow> Credential" where
  "Credential_basic ident = \<lparr>identity = ident, credential_type = CREDENTIAL_TYPE_BASIC\<rparr>"

section \<open>LeafNode\<close>

definition LEAF_NODE_SOURCE_KEY_PACKAGE :: int where "LEAF_NODE_SOURCE_KEY_PACKAGE = 0x01"
definition LEAF_NODE_SOURCE_UPDATE :: int where "LEAF_NODE_SOURCE_UPDATE = 0x02"
definition LEAF_NODE_SOURCE_COMMIT :: int where "LEAF_NODE_SOURCE_COMMIT = 0x03"
definition TREE_CIPHER_SUITE :: int where "TREE_CIPHER_SUITE = 0x0001"

lemmas source_defs = LEAF_NODE_SOURCE_KEY_PACKAGE_def LEAF_NODE_SOURCE_UPDATE_def
  LEAF_NODE_SOURCE_COMMIT_def

record LeafNode =
  encryption_key :: bytes
  signature_key :: bytes
  credential :: Credential
  capabilities :: Capabilities
  leaf_node_source :: int
  lifetime :: "(int \<times> int) option"
  leaf_parent_hash :: "bytes option"
  leaf_extensions :: "extension list"
  leaf_signature :: bytes

text \<open>The \<open>select\<close> block, the same in \<open>_tbs_bytes\<close> and \<open>to_bytes\<close>.\<close>

definition leaf_select_bytes :: "LeafNode \<Rightarrow> bytes res" where
  "leaf_select_bytes n =
     (if leaf_node_source n = LEAF_NODE_SOURCE_KEY_PACKAGE then
        (case lifetime n of
           Some (nb, na) \<Rightarrow> cat_res [tls_u64 nb, tls_u64 na]
         | None \<Rightarrow> cat_res [tls_u64 0, tls_u64 0])
      else if leaf_node_source n = LEAF_NODE_SOURCE_COMMIT then
        tls_opaque (case leaf_parent_hash n of None \<Rightarrow> [] | Some h \<Rightarrow> h)
      else Inr [])"

definition LeafNode_tbs_bytes :: "LeafNode \<Rightarrow> bytes \<Rightarrow> int \<Rightarrow> bytes res" where
  "LeafNode_tbs_bytes n group_id leaf_index =
     cat_res
       ([tls_u16 TREE_CIPHER_SUITE, tls_opaque (encryption_key n), tls_opaque (signature_key n),
         Credential_to_bytes (credential n), Capabilities_marshal (capabilities n),
         tls_u8 (leaf_node_source n), leaf_select_bytes n, tls_extensions (leaf_extensions n)]
        @ (if leaf_node_source n \<in> {LEAF_NODE_SOURCE_UPDATE, LEAF_NODE_SOURCE_COMMIT}
           then [tls_opaque group_id, tls_u32 leaf_index] else []))"

definition LeafNode_sign :: "LeafNode \<Rightarrow> (bytes \<Rightarrow> bytes) \<Rightarrow> bytes \<Rightarrow> int \<Rightarrow> LeafNode res" where
  "LeafNode_sign n sign_fn group_id leaf_index =
     bindR (LeafNode_tbs_bytes n group_id leaf_index) (\<lambda>tbs. Inr (n\<lparr>leaf_signature := sign_fn tbs\<rparr>))"

definition LeafNode_verify_signature :: "crypto \<Rightarrow> LeafNode \<Rightarrow> bytes \<Rightarrow> int \<Rightarrow> unit res" where
  "LeafNode_verify_signature C n group_id leaf_index =
     (if leaf_signature n = [] then Inl (ValueError ''LeafNode has no signature'')
      else if \<not> ed_load C (signature_key n) then Inl (ValueError ''Ed25519 public key'')
      else bindR (LeafNode_tbs_bytes n group_id leaf_index) (\<lambda>tbs.
           ed25519_verify C (signature_key n) (leaf_signature n) tbs))"

definition LeafNode_to_bytes :: "LeafNode \<Rightarrow> bytes res" where
  "LeafNode_to_bytes n =
     cat_res [tls_opaque (encryption_key n), tls_opaque (signature_key n),
              Credential_to_bytes (credential n), Capabilities_marshal (capabilities n),
              tls_u8 (leaf_node_source n), leaf_select_bytes n,
              tls_extensions (leaf_extensions n), tls_opaque (leaf_signature n)]"

definition leaf_select :: "int \<Rightarrow> ((int \<times> int) option \<times> bytes option) reader" where
  "leaf_select src data off0 =
     (if src = LEAF_NODE_SOURCE_KEY_PACKAGE then
        bindR (read_u64 data off0) (\<lambda>(nb, off1).
        bindR (read_u64 data off1) (\<lambda>(na, off2). Inr ((Some (nb, na), None), off2)))
      else if src = LEAF_NODE_SOURCE_COMMIT then
        bindR (read_opaque data off0) (\<lambda>(ph, off1). Inr ((None, Some ph), off1))
      else Inr ((None, None), off0))"

definition LeafNode_from_bytes_at :: "LeafNode reader" where
  "LeafNode_from_bytes_at data off0 =
     bindR (read_opaque data off0) (\<lambda>(ek, off1).
     bindR (read_opaque data off1) (\<lambda>(sk, off2).
     bindR (Credential_from_bytes_at data off2) (\<lambda>(cred, off3).
     bindR (Capabilities_from_bytes_at data off3) (\<lambda>(caps, off4).
     bindR (read_u8 data off4) (\<lambda>(src, off5).
     bindR (leaf_select src data off5) (\<lambda>(sel, off6).
     bindR (read_extensions data off6) (\<lambda>(es, off7).
     bindR (read_opaque data off7) (\<lambda>(sg, off8).
     Inr (\<lparr>encryption_key = ek, signature_key = sk, credential = cred, capabilities = caps,
           leaf_node_source = src, lifetime = fst sel, leaf_parent_hash = snd sel,
           leaf_extensions = es, leaf_signature = sg\<rparr>, off8)))))))))"

definition LeafNode_from_bytes :: "bytes \<Rightarrow> LeafNode res" where
  "LeafNode_from_bytes data = bindR (LeafNode_from_bytes_at data 0) (\<lambda>(obj, _). Inr obj)"

definition LeafNode_create :: "bytes \<Rightarrow> bytes \<Rightarrow> bytes \<Rightarrow> (bytes \<Rightarrow> bytes) \<Rightarrow> LeafNode res" where
  "LeafNode_create ek sk ident sign_fn =
     LeafNode_sign
       \<lparr>encryption_key = ek, signature_key = sk, credential = Credential_basic ident,
        capabilities = Capabilities_default, leaf_node_source = LEAF_NODE_SOURCE_KEY_PACKAGE,
        lifetime = None, leaf_parent_hash = None, leaf_extensions = [], leaf_signature = []\<rparr>
       sign_fn [] 0"

section \<open>KeyPackage\<close>

record KeyPackage =
  leaf_node :: LeafNode
  init_key_pub :: bytes
  leaf_node_signature :: bytes

definition KEYPACKAGE_VERSION :: int where "KEYPACKAGE_VERSION = 0x0001"
definition KEYPACKAGE_CIPHER_SUITE :: int where "KEYPACKAGE_CIPHER_SUITE = 0x0001"

text \<open>\<open>LeafNode.key_package\<close>: the view of a leaf that is hashed into a KeyPackageRef.\<close>

definition LeafNode_key_package :: "LeafNode \<Rightarrow> KeyPackage" where
  "LeafNode_key_package n =
     \<lparr>leaf_node = n, init_key_pub = encryption_key n, leaf_node_signature = leaf_signature n\<rparr>"

definition KeyPackage_tbs_bytes :: "KeyPackage \<Rightarrow> bytes res" where
  "KeyPackage_tbs_bytes kp =
     cat_res [tls_u16 KEYPACKAGE_VERSION, tls_u16 KEYPACKAGE_CIPHER_SUITE,
              tls_opaque (init_key_pub kp), LeafNode_to_bytes (leaf_node kp), tls_varint 0]"

definition KeyPackage_verify_signature :: "crypto \<Rightarrow> KeyPackage \<Rightarrow> unit res" where
  "KeyPackage_verify_signature C kp =
     bindR (LeafNode_verify_signature C (leaf_node kp) [] 0) (\<lambda>_.
     if leaf_node_signature kp = [] then Inl (ValueError ''KeyPackage has no signature'')
     else if \<not> ed_load C (signature_key (leaf_node kp)) then Inl (ValueError ''Ed25519 public key'')
     else bindR (KeyPackage_tbs_bytes kp) (\<lambda>tbs.
          ed25519_verify C (signature_key (leaf_node kp)) (leaf_node_signature kp) tbs))"

definition KeyPackage_to_bytes :: "KeyPackage \<Rightarrow> bytes res" where
  "KeyPackage_to_bytes kp =
     cat_res [tls_u16 KEYPACKAGE_VERSION, tls_u16 KEYPACKAGE_CIPHER_SUITE,
              tls_opaque (init_key_pub kp), LeafNode_to_bytes (leaf_node kp), tls_varint 0,
              tls_opaque (leaf_node_signature kp)]"

definition KeyPackage_from_bytes_at :: "KeyPackage reader" where
  "KeyPackage_from_bytes_at data off0 =
     bindR (read_u16 data off0) (\<lambda>(version, off1).
     if version \<noteq> KEYPACKAGE_VERSION then Inl (ValueError ''Unsupported KeyPackage version'')
     else
       bindR (read_u16 data off1) (\<lambda>(cipher_suite, off2).
       if cipher_suite \<noteq> KEYPACKAGE_CIPHER_SUITE then Inl (ValueError ''Unsupported cipher suite'')
       else
         bindR (read_opaque data off2) (\<lambda>(init_key, off3).
         bindR (LeafNode_from_bytes_at data off3) (\<lambda>(ln, off4).
         bindR (read_extensions data off4) (\<lambda>(es, off5).
         bindR (read_opaque data off5) (\<lambda>(sg, off6).
         Inr (\<lparr>leaf_node = ln, init_key_pub = init_key, leaf_node_signature = sg\<rparr>, off6)))))))"

definition KeyPackage_from_bytes :: "bytes \<Rightarrow> KeyPackage res" where
  "KeyPackage_from_bytes data = bindR (KeyPackage_from_bytes_at data 0) (\<lambda>(obj, _). Inr obj)"

definition KeyPackage_create ::
    "bytes \<Rightarrow> bytes \<Rightarrow> bytes \<Rightarrow> bytes \<Rightarrow> (bytes \<Rightarrow> bytes) \<Rightarrow> KeyPackage res" where
  "KeyPackage_create ek init_key sk ident sign_fn =
     bindR (LeafNode_create ek sk ident sign_fn) (\<lambda>ln.
     let kp = \<lparr>leaf_node = ln, init_key_pub = init_key, leaf_node_signature = []\<rparr>
     in bindR (KeyPackage_tbs_bytes kp) (\<lambda>tbs. Inr (kp\<lparr>leaf_node_signature := sign_fn tbs\<rparr>)))"

definition KeyPackage_from_bytes_legacy :: "bytes \<Rightarrow> KeyPackage res" where
  "KeyPackage_from_bytes_legacy data =
     (if length data = 64 \<or> length data = 128 then
        let identity_key = slice data 0 32; init_key = slice data 32 64
        in Inr \<lparr>leaf_node =
                  \<lparr>encryption_key = init_key, signature_key = identity_key,
                   credential = Credential_basic identity_key,
                   capabilities = Capabilities_default,
                   leaf_node_source = LEAF_NODE_SOURCE_KEY_PACKAGE,
                   lifetime = None, leaf_parent_hash = None, leaf_extensions = [],
                   leaf_signature = []\<rparr>,
                init_key_pub = init_key, leaf_node_signature = []\<rparr>
      else Inl (ValueError ''Invalid legacy KeyPackage size''))"

section \<open>ParentNode\<close>

record ParentNode =
  parent_public_key :: bytes
  parent_parent_hash :: bytes
  unmerged_leaves :: "int list"

definition unmerged_leaves_bytes :: "ParentNode \<Rightarrow> bytes res" where
  "unmerged_leaves_bytes p = cat_res (map tls_u32 (unmerged_leaves p))"

definition ParentNode_to_bytes :: "ParentNode \<Rightarrow> bytes res" where
  "ParentNode_to_bytes p =
     cat_res [tls_opaque (parent_public_key p), tls_opaque (parent_parent_hash p),
              bindR (unmerged_leaves_bytes p) tls_opaque]"

definition ParentNode_from_bytes_at :: "ParentNode reader" where
  "ParentNode_from_bytes_at data off0 =
     bindR (read_opaque data off0) (\<lambda>(pk, off1).
     bindR (read_opaque data off1) (\<lambda>(ph, off2).
     bindR (read_opaque data off2) (\<lambda>(raw, off3).
     Inr (\<lparr>parent_public_key = pk, parent_parent_hash = ph, unmerged_leaves = be_chunks 4 raw\<rparr>,
          off3))))"

definition ParentNode_from_bytes :: "bytes \<Rightarrow> ParentNode res" where
  "ParentNode_from_bytes data = bindR (ParentNode_from_bytes_at data 0) (\<lambda>(obj, _). Inr obj)"

section \<open>Lemmas\<close>

text \<open>
  What a leaf node looks like after the wire: the fields the \<open>select\<close> block does not carry are
  gone, the ones it carries have their default filled in.
\<close>

definition leaf_canon :: "LeafNode \<Rightarrow> LeafNode" where
  "leaf_canon n = n\<lparr>
     lifetime := (if leaf_node_source n = LEAF_NODE_SOURCE_KEY_PACKAGE
                  then Some (case lifetime n of None \<Rightarrow> (0, 0) | Some l \<Rightarrow> l) else None),
     leaf_parent_hash := (if leaf_node_source n = LEAF_NODE_SOURCE_COMMIT
                  then Some (case leaf_parent_hash n of None \<Rightarrow> [] | Some h \<Rightarrow> h) else None)\<rparr>"

definition leaf_wf :: "LeafNode \<Rightarrow> bool" where
  "leaf_wf n \<longleftrightarrow> leaf_canon n = n"

lemma leaf_canon_idem [simp]: "leaf_canon (leaf_canon n) = leaf_canon n"
  by (simp add: leaf_canon_def split: option.splits)

lemma leaf_wf_canon [simp]: "leaf_wf (leaf_canon n)"
  by (simp add: leaf_wf_def)

lemma leaf_canon_simps [simp]:
  "encryption_key (leaf_canon n) = encryption_key n" "signature_key (leaf_canon n) = signature_key n"
  "credential (leaf_canon n) = credential n" "capabilities (leaf_canon n) = capabilities n"
  "leaf_node_source (leaf_canon n) = leaf_node_source n"
  "leaf_extensions (leaf_canon n) = leaf_extensions n" "leaf_signature (leaf_canon n) = leaf_signature n"
  by (simp_all add: leaf_canon_def)

lemma leaf_select_bytes_canon [simp]: "leaf_select_bytes (leaf_canon n) = leaf_select_bytes n"
  by (simp add: leaf_select_bytes_def leaf_canon_def source_defs split: option.splits)

lemma LeafNode_to_bytes_canon [simp]: "LeafNode_to_bytes (leaf_canon n) = LeafNode_to_bytes n"
  by (simp add: LeafNode_to_bytes_def del: cat_res.simps)

lemma LeafNode_tbs_bytes_canon [simp]: "LeafNode_tbs_bytes (leaf_canon n) g i = LeafNode_tbs_bytes n g i"
  by (simp add: LeafNode_tbs_bytes_def del: cat_res.simps)

lemma rt_Credential [rt_intros]: "roundtrips (Credential_to_bytes c) Credential_from_bytes_at c"
  unfolding Credential_to_bytes_def Credential_from_bytes_at_def [abs_def]
  by (cases c) (simp only: Credential.simps, (rule rt_intros)+)

lemma progresses_Credential [progress_intros]: "progresses Credential_from_bytes_at"
  unfolding Credential_from_bytes_at_def [abs_def] by (intro progress_intros)

lemma halts_Credential [halt_intros]: "halts Credential_from_bytes_at"
  unfolding Credential_from_bytes_at_def [abs_def] by (intro halt_intros)

lemma rt_leaf_select:
  "roundtrips (leaf_select_bytes n) (leaf_select (leaf_node_source n))
     (lifetime (leaf_canon n), leaf_parent_hash (leaf_canon n))"
proof -
  consider "leaf_node_source n = LEAF_NODE_SOURCE_KEY_PACKAGE"
    | "leaf_node_source n = LEAF_NODE_SOURCE_COMMIT"
    | "leaf_node_source n \<notin> {LEAF_NODE_SOURCE_KEY_PACKAGE, LEAF_NODE_SOURCE_COMMIT}" by blast
  then show ?thesis
  proof cases
    case 1
    define nb na where "nb = fst (the (lifetime (leaf_canon n)))" "na = snd (the (lifetime (leaf_canon n)))"
    with 1 have e: "leaf_select_bytes n = cat_res [tls_u64 nb, tls_u64 na]"
      "lifetime (leaf_canon n) = Some (nb, na)" "leaf_parent_hash (leaf_canon n) = None"
      by (auto simp: leaf_select_bytes_def leaf_canon_def source_defs split: option.splits)
    have "roundtrips (cat_res [tls_u64 nb, tls_u64 na]) (leaf_select LEAF_NODE_SOURCE_KEY_PACKAGE) (Some (nb, na), None)"
      unfolding leaf_select_def [abs_def] if_P [OF refl] by (rule rt_intros)+
    with 1 e show ?thesis by simp
  next
    case 2
    define ph where "ph = the (leaf_parent_hash (leaf_canon n))"
    with 2 have e: "leaf_select_bytes n = cat_res [tls_opaque ph]"
      "lifetime (leaf_canon n) = None" "leaf_parent_hash (leaf_canon n) = Some ph"
      by (auto simp: leaf_select_bytes_def leaf_canon_def source_defs split: option.splits)
    have "roundtrips (cat_res [tls_opaque ph]) (\<lambda>buf off.
        bindR (read_opaque buf off) (\<lambda>(ph, off1). Inr ((None :: (int \<times> int) option, Some ph), off1))) (None, Some ph)"
      by (rule rt_intros)+
    with 2 e show ?thesis by (simp add: leaf_select_def [abs_def] source_defs del: cat_res.simps)
  next
    case 3
    then show ?thesis
      using rt_return by (simp add: leaf_select_bytes_def leaf_select_def [abs_def] leaf_canon_def)
  qed
qed

lemma moves_on_leaf_select [progress_intros]: "moves_on (leaf_select src)"
  unfolding leaf_select_def [abs_def] by (intro progress_intros)

lemma halts_leaf_select [halt_intros]: "halts (leaf_select src)"
  unfolding leaf_select_def [abs_def] by (intro halt_intros)

lemma rt_LeafNode_canon [rt_intros]: "roundtrips (LeafNode_to_bytes n) LeafNode_from_bytes_at (leaf_canon n)"
proof -
  have c: "leaf_canon n = \<lparr>encryption_key = encryption_key n, signature_key = signature_key n,
      credential = credential n, capabilities = capabilities n, leaf_node_source = leaf_node_source n,
      lifetime = fst (lifetime (leaf_canon n), leaf_parent_hash (leaf_canon n)),
      leaf_parent_hash = snd (lifetime (leaf_canon n), leaf_parent_hash (leaf_canon n)),
      leaf_extensions = leaf_extensions n, leaf_signature = leaf_signature n\<rparr>"
    by (simp add: leaf_canon_def)
  show ?thesis
    unfolding LeafNode_to_bytes_def LeafNode_from_bytes_at_def [abs_def]
    by (subst c) (rule rt_intros rt_leaf_select)+
qed

lemma progresses_LeafNode [progress_intros]: "progresses LeafNode_from_bytes_at"
  unfolding LeafNode_from_bytes_at_def [abs_def] by (intro progress_intros)

lemma halts_LeafNode [halt_intros]: "halts LeafNode_from_bytes_at"
  unfolding LeafNode_from_bytes_at_def [abs_def] by (intro halt_intros)

interpretation credential: wire_codec Credential_to_bytes Credential_from_bytes_at "\<lambda>_. True"
  by unfold_locales (intro rt_intros progress_intros)+

interpretation leaf: wire_codec LeafNode_to_bytes LeafNode_from_bytes_at leaf_wf
  by unfold_locales (metis leaf_wf_def rt_LeafNode_canon, rule progress_intros)

definition kp_canon :: "KeyPackage \<Rightarrow> KeyPackage" where
  "kp_canon kp = kp\<lparr>leaf_node := leaf_canon (leaf_node kp)\<rparr>"

definition kp_wf :: "KeyPackage \<Rightarrow> bool" where
  "kp_wf kp \<longleftrightarrow> leaf_wf (leaf_node kp)"

lemma tls_extensions_Nil: "tls_extensions [] = tls_varint 0"
  by code_simp

lemma rt_KeyPackage [rt_intros]: "roundtrips (KeyPackage_to_bytes kp) KeyPackage_from_bytes_at (kp_canon kp)"
proof -
  have "kp_canon kp = \<lparr>leaf_node = leaf_canon (leaf_node kp), init_key_pub = init_key_pub kp,
      leaf_node_signature = leaf_node_signature kp\<rparr>"
    by (simp add: kp_canon_def)
  then show ?thesis
    unfolding KeyPackage_to_bytes_def KeyPackage_from_bytes_at_def [abs_def] tls_extensions_Nil [symmetric]
    by (simp only:) (rule rt_intros)+
qed

lemma progresses_KeyPackage [progress_intros]: "progresses KeyPackage_from_bytes_at"
  unfolding KeyPackage_from_bytes_at_def [abs_def] by (intro progress_intros)

lemma halts_KeyPackage [halt_intros]: "halts KeyPackage_from_bytes_at"
  unfolding KeyPackage_from_bytes_at_def [abs_def] by (intro halt_intros) simp_all

interpretation key_package: wire_codec KeyPackage_to_bytes KeyPackage_from_bytes_at kp_wf
proof unfold_locales
  show "roundtrips (KeyPackage_to_bytes kp) KeyPackage_from_bytes_at kp" if "kp_wf kp" for kp
  proof -
    from that have "kp_canon kp = kp" by (simp add: kp_wf_def leaf_wf_def kp_canon_def)
    with rt_KeyPackage [of kp] show ?thesis by simp
  qed
qed (rule progress_intros)

lemma be_chunks_u32: "cat_res (map tls_u32 ls) = Inr body \<Longrightarrow> be_chunks 4 body = ls"
  using be_chunks_cat [of 4 ls body] by (simp add: tls_u32_def [abs_def])

lemma rt_ParentNode [rt_intros]: "roundtrips (ParentNode_to_bytes p) ParentNode_from_bytes_at p"
proof (cases "unmerged_leaves_bytes p")
  case (Inl e)
  then show ?thesis by (simp add: ParentNode_to_bytes_def roundtrips_def)
next
  case (Inr raw)
  then have "be_chunks 4 raw = unmerged_leaves p"
    unfolding unmerged_leaves_bytes_def by (rule be_chunks_u32)
  then have p: "p = \<lparr>parent_public_key = parent_public_key p, parent_parent_hash = parent_parent_hash p,
      unmerged_leaves = be_chunks 4 raw\<rparr>" by simp
  show ?thesis
    unfolding ParentNode_to_bytes_def ParentNode_from_bytes_at_def [abs_def] Inr bindR.simps(2)
    by (subst (3) p) (rule rt_intros)+
qed

lemma progresses_ParentNode [progress_intros]: "progresses ParentNode_from_bytes_at"
  unfolding ParentNode_from_bytes_at_def [abs_def] by (intro progress_intros)

lemma halts_ParentNode [halt_intros]: "halts ParentNode_from_bytes_at"
  unfolding ParentNode_from_bytes_at_def [abs_def] by (intro halt_intros)

interpretation parent_node: wire_codec ParentNode_to_bytes ParentNode_from_bytes_at "\<lambda>_. True"
  by unfold_locales (intro rt_intros progress_intros)+

text \<open>A reader of LeafNodeTBS, to show that the signed bytes determine what they sign.\<close>

definition leaf_tbs_reader :: "(LeafNode \<times> (bytes \<times> int) option) reader" where
  "leaf_tbs_reader data off =
     bindR (read_u16 data off) (\<lambda>(suite, off0).
     bindR (read_opaque data off0) (\<lambda>(ek, off1).
     bindR (read_opaque data off1) (\<lambda>(sk, off2).
     bindR (Credential_from_bytes_at data off2) (\<lambda>(cred, off3).
     bindR (Capabilities_from_bytes_at data off3) (\<lambda>(caps, off4).
     bindR (read_u8 data off4) (\<lambda>(src, off5).
     bindR (leaf_select src data off5) (\<lambda>(sel, off6).
     bindR (read_extensions data off6) (\<lambda>(es, off7).
     let n = \<lparr>encryption_key = ek, signature_key = sk, credential = cred, capabilities = caps,
           leaf_node_source = src, lifetime = fst sel, leaf_parent_hash = snd sel,
           leaf_extensions = es, leaf_signature = []\<rparr> in
     if src \<in> {LEAF_NODE_SOURCE_UPDATE, LEAF_NODE_SOURCE_COMMIT} then
       bindR (read_opaque data off7) (\<lambda>(g, off8).
       bindR (read_u32 data off8) (\<lambda>(i, off9). Inr ((n, Some (g, i)), off9)))
     else Inr ((n, None), off7)))))))))"

lemma rt_leaf_tbs:
  "roundtrips (LeafNode_tbs_bytes n g i) leaf_tbs_reader
     ((leaf_canon n)\<lparr>leaf_signature := []\<rparr>,
      if leaf_node_source n \<in> {LEAF_NODE_SOURCE_UPDATE, LEAF_NODE_SOURCE_COMMIT} then Some (g, i) else None)"
proof -
  have c: "(leaf_canon n)\<lparr>leaf_signature := []\<rparr> = \<lparr>encryption_key = encryption_key n, signature_key = signature_key n,
      credential = credential n, capabilities = capabilities n, leaf_node_source = leaf_node_source n,
      lifetime = fst (lifetime (leaf_canon n), leaf_parent_hash (leaf_canon n)),
      leaf_parent_hash = snd (lifetime (leaf_canon n), leaf_parent_hash (leaf_canon n)),
      leaf_extensions = leaf_extensions n, leaf_signature = []\<rparr>"
    by (simp add: leaf_canon_def)
  show ?thesis
  proof (cases "leaf_node_source n \<in> {LEAF_NODE_SOURCE_UPDATE, LEAF_NODE_SOURCE_COMMIT}")
    case True
    show ?thesis
      unfolding LeafNode_tbs_bytes_def leaf_tbs_reader_def [abs_def] if_P [OF True] append.simps Let_def
      by (subst c) (rule rt_if_true [OF _ True] rt_intros rt_leaf_select)+
  next
    case False
    show ?thesis
      unfolding LeafNode_tbs_bytes_def leaf_tbs_reader_def [abs_def] if_not_P [OF False] append.simps Let_def
      by (subst c) (rule rt_if_false [OF _ False] rt_intros rt_leaf_select)+
  qed
qed

text \<open>A reader of KeyPackageTBS, for the same purpose.\<close>

lemma KeyPackage_tbs_injective:
  assumes "KeyPackage_tbs_bytes kp = Inr t" "KeyPackage_tbs_bytes kp' = Inr t"
  shows "init_key_pub kp = init_key_pub kp' \<and> leaf_canon (leaf_node kp) = leaf_canon (leaf_node kp')"
proof -
  let ?d = "\<lambda>data off. bindR (read_u16 data off) (\<lambda>(a, off1). bindR (read_u16 data off1) (\<lambda>(b, off2).
     bindR (read_opaque data off2) (\<lambda>(k, off3). bindR (LeafNode_from_bytes_at data off3) (\<lambda>(l, off4).
     bindR (varint_decode data off4) (\<lambda>(z, off5). Inr ((k, l), off5))))))"
  have "roundtrips (KeyPackage_tbs_bytes p) ?d (init_key_pub p, leaf_canon (leaf_node p))" for p
    unfolding KeyPackage_tbs_bytes_def by (rule rt_intros)+
  from roundtrips_inj [OF this this assms] show ?thesis by simp
qed

lemma KeyPackage_to_bytes_tbs:
  "KeyPackage_to_bytes kp = cat_res [KeyPackage_tbs_bytes kp, tls_opaque (leaf_node_signature kp)]"
  by (simp add: KeyPackage_to_bytes_def KeyPackage_tbs_bytes_def bindR_assoc)

lemma LeafNode_sign_verifies:
  assumes "signatures_verify C" "LeafNode_sign n (sig_sign C sk) g i = Inr n'"
    "signature_key n = sig_public_bytes C sk"
  shows "LeafNode_verify_signature C n' g i = Inr () \<and> n' = n\<lparr>leaf_signature := leaf_signature n'\<rparr>"
proof -
  from assms(2) obtain t where t: "LeafNode_tbs_bytes n g i = Inr t"
    and n': "n' = n\<lparr>leaf_signature := sig_sign C sk t\<rparr>" by (auto simp: LeafNode_sign_def)
  moreover have "LeafNode_tbs_bytes n' g i = LeafNode_tbs_bytes n g i"
    by (simp add: n' LeafNode_tbs_bytes_def leaf_select_bytes_def)
  moreover have "ed_load C (sig_public_bytes C sk)" "sig_sign C sk t \<noteq> []"
    using assms(1) by (simp_all add: signatures_verify_def sig_public_bytes_def sig_sign_def)
  ultimately show ?thesis
    using assms(1,3) by (simp add: LeafNode_verify_signature_def sig_sign_verifies)
qed

lemma KeyPackage_from_to_bytes:
  assumes "KeyPackage_to_bytes kp = Inr bs"
  shows "KeyPackage_from_bytes (bs @ post) = Inr (kp_canon kp)"
    and "KeyPackage_from_bytes bs = Inr (kp_canon kp)"
  using reads_start [OF roundtripsD [OF rt_KeyPackage assms], of post]
    reads_start [OF roundtripsD [OF rt_KeyPackage assms], of "[]"]
  by (simp_all add: KeyPackage_from_bytes_def)

lemma KeyPackage_verify_canon [simp]:
  "KeyPackage_verify_signature C (kp_canon kp) = KeyPackage_verify_signature C kp"
  by (simp add: kp_canon_def KeyPackage_verify_signature_def LeafNode_verify_signature_def
      KeyPackage_tbs_bytes_def del: cat_res.simps)

lemma created_package_verifies:
  assumes "signatures_verify C"
    and "KeyPackage_create ek ik (sig_public_bytes C sk) ident (sig_sign C sk) = Inr kp"
  shows "KeyPackage_verify_signature C kp = Inr ()" "init_key_pub kp = ik"
proof -
  from assms(2) obtain ln t where ln: "LeafNode_create ek (sig_public_bytes C sk) ident (sig_sign C sk) = Inr ln"
    and t: "KeyPackage_tbs_bytes \<lparr>leaf_node = ln, init_key_pub = ik, leaf_node_signature = []\<rparr> = Inr t"
    and kp: "kp = \<lparr>leaf_node = ln, init_key_pub = ik, leaf_node_signature = sig_sign C sk t\<rparr>"
    by (auto simp: KeyPackage_create_def Let_def)
  from LeafNode_sign_verifies [OF assms(1) ln [unfolded LeafNode_create_def]]
  have l: "LeafNode_verify_signature C ln [] 0 = Inr ()" "signature_key ln = sig_public_bytes C sk"
    by (simp, metis LeafNode.select_convs(2) LeafNode.update_convs(9))
  from t have "KeyPackage_tbs_bytes kp = Inr t" by (simp add: kp KeyPackage_tbs_bytes_def)
  moreover have "ed_load C (sig_public_bytes C sk)" "sig_sign C sk t \<noteq> []"
    using assms(1) by (simp_all add: signatures_verify_def sig_public_bytes_def sig_sign_def)
  ultimately show "KeyPackage_verify_signature C kp = Inr ()"
    using l sig_sign_verifies [OF assms(1), of sk t] by (simp add: KeyPackage_verify_signature_def kp)
  show "init_key_pub kp = ik" by (simp add: kp)
qed

section \<open>Properties\<close>

text \<open>A leaf node survives the wire up to its canonical form: parsing what \<open>to_bytes\<close> wrote,
  anywhere in a buffer, returns the leaf with the fields of the \<open>select\<close> block the wire does not
  carry dropped and missing ones set to their default; and re-encoding the parsed leaf gives the
  same bytes, so that signatures and hashes over the encoding keep their meaning.\<close>

theorem LeafNode_roundtrip:
  assumes "LeafNode_to_bytes n = Inr bs"
  shows "LeafNode_from_bytes_at (pre @ bs @ post) (length pre) = Inr (leaf_canon n, length pre + length bs)
       \<and> LeafNode_to_bytes (leaf_canon n) = Inr bs
       \<and> LeafNode_tbs_bytes (leaf_canon n) g i = LeafNode_tbs_bytes n g i"
  using assms leaf.decode_at [of "leaf_canon n" bs pre post] by simp

text \<open>The same for a whole key package, the form in which members are invited.\<close>

theorem KeyPackage_roundtrip:
  assumes "KeyPackage_to_bytes kp = Inr bs"
  shows "KeyPackage_from_bytes (bs @ post) = Inr (kp_canon kp) \<and> KeyPackage_to_bytes (kp_canon kp) = Inr bs
       \<and> KeyPackage_verify_signature C (kp_canon kp) = KeyPackage_verify_signature C kp"
  using assms KeyPackage_from_to_bytes [OF assms]
  by (simp add: KeyPackage_to_bytes_def kp_canon_def [of kp] KeyPackage_verify_canon [unfolded kp_canon_def]
      del: cat_res.simps)

text \<open>A key package that \<open>KeyPackage.create\<close> makes with a signature key passes
  \<open>verify_signature\<close>, and still does after a trip over the wire.\<close>

theorem KeyPackage_create_verifies:
  assumes "signatures_verify C"
    and "KeyPackage_create ek ik (sig_public_bytes C sk) ident (sig_sign C sk) = Inr kp"
  shows "KeyPackage_verify_signature C kp = Inr () \<and> init_key_pub kp = ik
       \<and> (\<forall>bs. KeyPackage_to_bytes kp = Inr bs \<longrightarrow>
              bindR (KeyPackage_from_bytes bs) (KeyPackage_verify_signature C) = Inr ())"
  using created_package_verifies [OF assms] by (auto simp: KeyPackage_from_to_bytes)

text \<open>The signed bytes of a key package determine its init key and the whole of its leaf
  (encryption key, signature key, credential and the rest): nobody can swap the init key under
  a signature made for another one.\<close>

theorem KeyPackage_tbs_binds:
  assumes "KeyPackage_tbs_bytes kp = Inr t" and "KeyPackage_tbs_bytes kp' = Inr t"
  shows "init_key_pub kp = init_key_pub kp' \<and> leaf_canon (leaf_node kp) = leaf_canon (leaf_node kp')"
  using assms by (rule KeyPackage_tbs_injective)

text \<open>The signed bytes of a leaf determine every field of it but the signature, and for a leaf
  of an update or a commit also the group and the position it was signed for: it cannot be
  moved to another group or to another leaf.\<close>

theorem LeafNode_tbs_binds:
  assumes "LeafNode_tbs_bytes n g i = Inr t" and "LeafNode_tbs_bytes n' g' i' = Inr t"
  shows "(leaf_canon n)\<lparr>leaf_signature := []\<rparr> = (leaf_canon n')\<lparr>leaf_signature := []\<rparr>
       \<and> (leaf_node_source n \<in> {LEAF_NODE_SOURCE_UPDATE, LEAF_NODE_SOURCE_COMMIT} \<longrightarrow> g = g' \<and> i = i')"
  using roundtrips_inj [OF rt_leaf_tbs rt_leaf_tbs assms] by (auto split: if_splits)

text \<open>A parent node survives the wire, with its list of unmerged leaves.\<close>

theorem ParentNode_roundtrip:
  assumes "ParentNode_to_bytes p = Inr bs"
  shows "ParentNode_from_bytes_at (pre @ bs @ post) (length pre) = Inr (p, length pre + length bs)
       \<and> ParentNode_from_bytes (bs @ post) = Inr p"
  using assms parent_node.decode_at [of p bs pre post] parent_node.decode_at [of p bs "[]" post]
  by (simp add: ParentNode_from_bytes_def)

definition demo_leaf :: LeafNode where
  "demo_leaf = \<lparr>encryption_key = [1], signature_key = [2], credential = Credential_basic [3],
     capabilities = Capabilities_default, leaf_node_source = LEAF_NODE_SOURCE_COMMIT,
     lifetime = Some (7, 8), leaf_parent_hash = None, leaf_extensions = [], leaf_signature = [4]\<rparr>"

theorem LeafNode_roundtrip_witness:
  "\<exists>bs. LeafNode_to_bytes demo_leaf = Inr bs
     \<and> LeafNode_from_bytes_at bs 0 = Inr (demo_leaf\<lparr>lifetime := None, leaf_parent_hash := Some []\<rparr>, 36)"
proof -
  obtain bs where bs: "LeafNode_to_bytes demo_leaf = Inr bs" "length bs = 36"
    by (rule that, code_simp, simp)
  have "leaf_canon demo_leaf = demo_leaf\<lparr>lifetime := None, leaf_parent_hash := Some []\<rparr>" by code_simp
  with bs LeafNode_roundtrip [OF bs(1), of "[]" "[]"] show ?thesis by simp
qed

definition demo_kp :: "KeyPackage res" where
  "demo_kp = KeyPackage_create [1] [2] (sig_public_bytes demo_crypto \<lparr>sig_private = [3]\<rparr>) [4]
     (sig_sign demo_crypto \<lparr>sig_private = [3]\<rparr>)"

lemma demo_kp_returns: "\<exists>kp. demo_kp = Inr kp"
proof (rule not_isl_Inr)
  show "\<not> isl demo_kp" by code_simp
qed

theorem KeyPackage_create_verifies_witness:
  "\<exists>kp. demo_kp = Inr kp \<and> KeyPackage_verify_signature demo_crypto kp = Inr ()"
proof -
  obtain kp where kp: "demo_kp = Inr kp" using demo_kp_returns by blast
  from KeyPackage_create_verifies [OF demo_crypto_laws(1) kp [unfolded demo_kp_def]] kp show ?thesis by blast
qed

theorem KeyPackage_roundtrip_witness:
  "\<exists>kp bs. demo_kp = Inr kp \<and> KeyPackage_to_bytes kp = Inr bs \<and> KeyPackage_from_bytes bs = Inr (kp_canon kp)"
proof -
  obtain kp where kp: "demo_kp = Inr kp" using demo_kp_returns by blast
  have "\<exists>bs. bindR demo_kp KeyPackage_to_bytes = Inr bs"
  proof (rule not_isl_Inr)
    show "\<not> isl (bindR demo_kp KeyPackage_to_bytes)" by code_simp
  qed
  then obtain bs where "KeyPackage_to_bytes kp = Inr bs" by (auto simp: kp)
  with KeyPackage_roundtrip [OF this, of "[]"] kp show ?thesis by auto
qed

theorem KeyPackage_tbs_binds_witness:
  "\<exists>t. KeyPackage_tbs_bytes (LeafNode_key_package demo_leaf) = Inr t
     \<and> KeyPackage_tbs_bytes (LeafNode_key_package (leaf_canon demo_leaf)) = Inr t
     \<and> init_key_pub (LeafNode_key_package demo_leaf) = init_key_pub (LeafNode_key_package (leaf_canon demo_leaf))"
proof -
  obtain t where t: "KeyPackage_tbs_bytes (LeafNode_key_package demo_leaf) = Inr t"
    "KeyPackage_tbs_bytes (LeafNode_key_package (leaf_canon demo_leaf)) = Inr t"
    by (rule that) code_simp+
  with KeyPackage_tbs_binds [OF t] show ?thesis by blast
qed

theorem LeafNode_tbs_binds_witness:
  "\<exists>t. LeafNode_tbs_bytes demo_leaf [5] 1 = Inr t
     \<and> LeafNode_tbs_bytes (demo_leaf\<lparr>leaf_signature := [9]\<rparr>) [5] 1 = Inr t
     \<and> (leaf_canon demo_leaf)\<lparr>leaf_signature := []\<rparr>
       = (leaf_canon (demo_leaf\<lparr>leaf_signature := [9]\<rparr>))\<lparr>leaf_signature := []\<rparr>"
proof -
  obtain t where t: "LeafNode_tbs_bytes demo_leaf [5] 1 = Inr t"
    "LeafNode_tbs_bytes (demo_leaf\<lparr>leaf_signature := [9]\<rparr>) [5] 1 = Inr t"
    by (rule that) code_simp+
  with LeafNode_tbs_binds [OF t] show ?thesis by blast
qed

theorem ParentNode_roundtrip_witness:
  "ParentNode_from_bytes [1, 7, 0, 8, 0,0,0,3, 0,0,1,0]
   = Inr \<lparr>parent_public_key = [7], parent_parent_hash = [], unmerged_leaves = [3, 256]\<rparr>"
proof -
  have "ParentNode_to_bytes \<lparr>parent_public_key = [7], parent_parent_hash = [], unmerged_leaves = [3, 256]\<rparr>
      = Inr [1, 7, 0, 8, 0,0,0,3, 0,0,1,0]" by code_simp
  from ParentNode_roundtrip [OF this, of "[]" "[]"] show ?thesis by simp
qed
end
