(* ===== verification/TreeMath.thy ===== *)
theory TreeMath
  imports Prelude
begin

text \<open>
  The index arithmetic of the array-embedded binary tree, as \<open>tree.py\<close> and \<open>secret_tree.py\<close> each
  implement it: levels, roots, parents, siblings, root-to-leaf paths. Leaves have even indices,
  inner nodes odd ones. The theory gives every node coordinates (its level and its position in
  the level), in which all operations are simple, and shows that both implementations navigate
  the same tree, that they return on exactly the indices of the array, and which path they take.
\<close>

section \<open>Model: \<open>tree.py\<close>\<close>

text \<open>\<open>int.bit_length\<close>.\<close>

fun bit_length_nat :: "nat \<Rightarrow> nat" where
  "bit_length_nat n = (if n = 0 then 0 else Suc (bit_length_nat (n div 2)))"

declare bit_length_nat.simps [simp del]

definition bit_length :: "int \<Rightarrow> nat" where
  "bit_length x = bit_length_nat (nat \<bar>x\<bar>)"

text \<open>The loop of \<open>_next_pow2\<close>; its variable \<open>p\<close> starts at 1 and stays positive.\<close>

function next_pow2_loop :: "int \<Rightarrow> int \<Rightarrow> int" where
  "next_pow2_loop n p = (if 0 < p \<and> p < n then next_pow2_loop n (push_bit 1 p) else p)"
  by auto
termination by (relation "measure (\<lambda>(n, p). nat (n - p))") auto

declare next_pow2_loop.simps [simp del]

definition next_pow2 :: "int \<Rightarrow> int" where
  "next_pow2 n = next_pow2_loop n 1"

function level_loop :: "int \<Rightarrow> nat \<Rightarrow> nat" where
  "level_loop index k = (if drop_bit k index AND 1 = 1 \<and> k < 32 then level_loop index (k + 1) else k)"
  by auto
termination by (relation "measure (\<lambda>(i, k). 32 - k)") auto

declare level_loop.simps [simp del]

definition tree_level :: "int \<Rightarrow> nat" where
  "tree_level index = (if index < 0 \<or> index AND 1 = 0 then 0 else level_loop index 0)"

definition tree_root :: "int \<Rightarrow> int" where
  "tree_root n = (if n \<le> 1 then 0 else let w = 2 * n - 1; k = bit_length w in push_bit (k - 1) 1 - 1)"

text \<open>\<open>x ^ ((1 << k) | (b << (k + 1)))\<close> with \<open>b\<close> bit \<open>k + 1\<close> of \<open>x\<close>: one step up.\<close>

definition climb :: "nat \<Rightarrow> int \<Rightarrow> int" where
  "climb k x = (let b = drop_bit (k + 1) x AND 1 in x XOR (push_bit k 1 OR push_bit (k + 1) b))"

text \<open>\<open>while p >= w\<close> of \<open>_parent\<close>: nothing bounds it, so it is a partial function.\<close>

partial_function (option) reparent :: "int \<Rightarrow> int \<Rightarrow> int res option" where
  "reparent w p = (if p \<ge> w then reparent w (climb (tree_level p) p) else Some (Inr p))"

definition tree_parent :: "int \<Rightarrow> int \<Rightarrow> int res" where
  "tree_parent n x =
     (if n \<le> 1 then Inr 0
      else let w = 2 * n - 1; r = tree_root n in
           if x = r then Inr x
           else let k = tree_level x; p = climb k x in returned (reparent w p))"

text \<open>\<open>1 << (k - 1)\<close>: a negative shift count raises.\<close>

definition shift_pred :: "int \<Rightarrow> nat \<Rightarrow> int res" where
  "shift_pred a k = (if k = 0 then Inl (ValueError ''negative shift count'') else Inr (push_bit (k - 1) a))"

definition tree_sibling :: "int \<Rightarrow> int \<Rightarrow> int res" where
  "tree_sibling n x =
     (if n \<le> 1 then Inr x
      else bindR (tree_parent n x) (\<lambda>p.
           bindR (shift_pred 1 (tree_level p)) (\<lambda>h.
           if x < p then Inr (p + h) else Inr (p - h))))"

section \<open>Model: \<open>secret_tree.py\<close>\<close>

definition st_log2 :: "int \<Rightarrow> int" where
  "st_log2 x = (if x = 0 then 0 else int (bit_length x) - 1)"

partial_function (option) st_level_loop :: "int \<Rightarrow> nat \<Rightarrow> nat res option" where
  "st_level_loop index k = (if drop_bit k index AND 1 = 1 then st_level_loop index (k + 1) else Some (Inr k))"

definition st_level :: "int \<Rightarrow> nat res" where
  "st_level index = (if index AND 1 = 0 then Inr 0 else returned (st_level_loop index 0))"

text \<open>\<open>1 << _log2(n)\<close>: the exponent is not negative, since \<open>_log2\<close> is not.\<close>

definition st_root :: "int \<Rightarrow> int" where
  "st_root n_leaves = (let n = 2 * n_leaves - 1 in push_bit (nat (st_log2 n)) 1 - 1)"

definition st_left :: "int \<Rightarrow> int res" where
  "st_left index = bindR (st_level index) (\<lambda>k. bindR (shift_pred 1 k) (\<lambda>h. Inr (index XOR h)))"

definition st_right :: "int \<Rightarrow> int res" where
  "st_right index = bindR (st_level index) (\<lambda>k. bindR (shift_pred 3 k) (\<lambda>h. Inr (index XOR h)))"

partial_function (option) st_reparent :: "int \<Rightarrow> int \<Rightarrow> int res option" where
  "st_reparent w p =
     (if p \<ge> w then
        (case st_level p of Inl e \<Rightarrow> Some (Inl e) | Inr pk \<Rightarrow> st_reparent w (climb pk p))
      else Some (Inr p))"

definition st_parent :: "int \<Rightarrow> int \<Rightarrow> int res" where
  "st_parent index n_leaves =
     (if n_leaves \<le> 1 then Inr 0
      else let w = 2 * n_leaves - 1; r = st_root n_leaves in
           if index = r then Inr index
           else bindR (st_level index) (\<lambda>k. returned (st_reparent w (climb k index))))"

text \<open>The loop of \<open>_get_path\<close> with \<open>depth\<close> counted down from 32; \<open>"left"\<close> is \<open>False\<close>.\<close>

datatype direction = go_left | go_right

fun get_path_loop :: "nat \<Rightarrow> int \<Rightarrow> int \<Rightarrow> int \<Rightarrow> direction list res" where
  "get_path_loop 0 n_leaves root_node cur = Inr []"
| "get_path_loop (Suc fuel) n_leaves root_node cur =
     (if cur \<noteq> root_node then
        bindR (st_parent cur n_leaves) (\<lambda>p.
        bindR (st_left p) (\<lambda>l.
        bindR (get_path_loop fuel n_leaves root_node p) (\<lambda>path.
        Inr ((if cur = l then go_left else go_right) # path))))
      else Inr [])"

definition get_path :: "int \<Rightarrow> int \<Rightarrow> direction list res" where
  "get_path target_leaf_index n_leaves =
     (let target_node = target_leaf_index * 2; root_node = st_root n_leaves
      in bindR (get_path_loop 32 n_leaves root_node target_node) (\<lambda>path. Inr (rev path)))"

section \<open>Coordinates\<close>

text \<open>
  Every node has a level \<open>k\<close> and a position \<open>j\<close> among the nodes of its level: in binary its
  index is \<open>j\<close>, a zero and \<open>k\<close> ones.
\<close>

definition tnode :: "nat \<Rightarrow> int \<Rightarrow> int" where
  "tnode k j = push_bit (Suc k) j OR mask k"

lemma tnode_arith: "tnode k j = j * 2 ^ Suc k + 2 ^ k - 1"
proof -
  have "mask k < (2 :: int) ^ Suc k" by (simp add: mask_eq_exp_minus_1) (smt (verit) zero_less_power)
  then show ?thesis
    using or_shift [of "mask k" "Suc k" j] by (simp add: tnode_def mask_eq_exp_minus_1)
qed

lemma bit_tnode: "bit (tnode k j) i \<longleftrightarrow> i < k \<or> k < i \<and> bit j (i - Suc k)"
  by (auto simp: tnode_def bit_simps Suc_le_eq simp del: push_bit_Suc)

lemma bit_half: "bit (j div 2) i \<longleftrightarrow> bit j (Suc i)" for j :: int
  by (simp add: bit_Suc)

lemma and_one_of_bool: "drop_bit k x AND 1 = of_bool (bit x k)" for x :: int
  by (simp add: and_one_eq bit_iff_odd_drop_bit odd_iff_mod_2_eq_one)

lemma and_one_bit: "drop_bit k x AND 1 = 1 \<longleftrightarrow> bit x k" for x :: int
  by (simp add: and_one_of_bool)

lemma even_tnode [simp]: "even (tnode k j) \<longleftrightarrow> k = 0"
  using bit_tnode [of k j 0] by (auto simp: bit_0)

lemma climb_tnode: "climb k (tnode k j) = tnode (Suc k) (j div 2)"
proof (rule bit_eqI)
  fix i
  have b: "drop_bit (k + 1) (tnode k j) AND 1 = of_bool (odd j)"
    using and_one_of_bool [of "k + 1" "tnode k j"] by (simp add: bit_tnode bit_0)
  consider "i < k" | "i = k" | "i = Suc k" | "Suc k < i" by linarith
  then show "bit (climb k (tnode k j)) i = bit (tnode (Suc k) (j div 2)) i"
    unfolding climb_def Let_def b
    by cases (auto simp: bit_simps bit_tnode bit_half Suc_diff_Suc bit_0 simp del: climb_def)
qed

lemma tnode_nonneg: "0 \<le> j \<Longrightarrow> 0 \<le> tnode k j"
  by (simp add: tnode_def)

lemma tnode_0: "tnode 0 j = 2 * j"
  by (simp add: tnode_arith)

lemma tnode_ex: "0 \<le> x \<Longrightarrow> \<exists>k j. 0 \<le> j \<and> x = tnode k j"
proof (induction "nat x" arbitrary: x rule: less_induct)
  case less
  show ?case
  proof (cases "even x")
    case True
    then show ?thesis using less.prems by (intro exI [of _ 0] exI [of _ "x div 2"]) (simp add: tnode_0)
  next
    case False
    with less.prems have "0 \<le> x div 2" "nat (x div 2) < nat x" by (auto elim: oddE)
    from less.hyps [OF this(2,1)] obtain k j where "0 \<le> j" "x div 2 = tnode k j" by blast
    with False have "x = tnode (Suc k) j"
      using div_mult_mod_eq [of x 2] by (simp add: tnode_arith odd_iff_mod_2_eq_one)
    with \<open>0 \<le> j\<close> show ?thesis by blast
  qed
qed

lemma level_loop_tnode: "i \<le> k \<Longrightarrow> k \<le> 32 \<Longrightarrow> level_loop (tnode k j) i = k"
proof (induction "k - i" arbitrary: i)
  case 0
  then show ?case by (subst level_loop.simps) (simp add: and_one_bit bit_tnode)
next
  case (Suc d)
  then show ?case by (subst level_loop.simps) (simp add: and_one_bit bit_tnode)
qed

lemma level_tnode [simp]: "0 \<le> j \<Longrightarrow> k \<le> 32 \<Longrightarrow> tree_level (tnode k j) = k"
  using level_loop_tnode [of 0 k j] tnode_nonneg [of j k]
  by (auto simp: tree_level_def and_one_eq simp flip: even_iff_mod_2_eq_zero)

lemma st_level_loop_tnode: "i \<le> k \<Longrightarrow> st_level_loop (tnode k j) i = Some (Inr k)"
proof (induction "k - i" arbitrary: i)
  case 0
  then show ?case by (subst st_level_loop.simps) (simp add: and_one_bit bit_tnode)
next
  case (Suc d)
  then show ?case by (subst st_level_loop.simps) (simp add: and_one_bit bit_tnode)
qed

lemma st_level_tnode [simp]: "st_level (tnode k j) = Inr k"
  using st_level_loop_tnode [of 0 k j]
  by (auto simp: st_level_def and_one_eq simp flip: even_iff_mod_2_eq_zero)

lemma tnode_children:
  "tnode k (2 * j) = tnode (Suc k) j - 2 ^ k" "tnode k (2 * j + 1) = tnode (Suc k) j + 2 ^ k"
  by (simp_all add: tnode_arith algebra_simps)

lemma xor_left: "tnode (Suc k) j XOR push_bit k 1 = tnode k (2 * j)"
proof (rule bit_eqI)
  fix i
  consider "i < k" | "i = k" | "i = Suc k" | "Suc k < i" by linarith
  then show "bit (tnode (Suc k) j XOR push_bit k 1) i = bit (tnode k (2 * j)) i"
    by cases (auto simp: bit_simps bit_tnode Suc_diff_Suc bit_0 bit_double_iff)
qed

lemma xor_right: "tnode (Suc k) j XOR push_bit k 3 = tnode k (2 * j + 1)"
proof (rule bit_eqI)
  fix i
  have three: "bit (3 :: int) n \<longleftrightarrow> n < 2" for n
    using bit_mask_iff [where 'a = int, of 2 n] by (simp add: mask_eq_exp_minus_1 possible_bit_def)
  have odd: "bit (2 * j + 1) (Suc n) \<longleftrightarrow> bit j n" for n by (simp add: bit_Suc)
  consider "i < k" | "i = k" | "i = Suc k" | n where "i = Suc (Suc (k + n))"
    using less_imp_Suc_add [of "Suc k" i] by (cases i "Suc k" rule: linorder_cases) (auto simp: less_Suc_eq)
  then show "bit (tnode (Suc k) j XOR push_bit k 3) i = bit (tnode k (2 * j + 1)) i"
    by cases (auto simp: bit_simps bit_tnode three bit_0 odd Suc_diff_le)
qed

lemma tnode_less: "0 \<le> j \<Longrightarrow> k \<le> d \<Longrightarrow> tnode k j < 2 ^ Suc d - 1 \<longleftrightarrow> j < 2 ^ (d - k)"
proof -
  assume j: "0 \<le> j" and k: "k \<le> d"
  define m :: int where "m = 2 ^ (d - k)"
  define e :: int where "e = 2 ^ k"
  have e: "0 < e" and m: "2 ^ Suc d = 2 * m * e"
    using k by (simp_all add: e_def m_def flip: power_add)
  have t: "tnode k j = (2 * j + 1) * e - 1" by (simp add: tnode_arith e_def algebra_simps)
  have "(2 * j + 1) * e < 2 * m * e \<longleftrightarrow> j < m" using e by (simp add: mult_less_cancel_right) linarith
  then show ?thesis unfolding t m m_def [symmetric] by linarith
qed

lemma tnode_coords:
  assumes "0 \<le> x" "x < 2 ^ Suc d - 1"
  obtains k j where "x = tnode k j" "k \<le> d" "0 \<le> j" "j < 2 ^ (d - k)"
proof -
  obtain k j where kj: "0 \<le> j" "x = tnode k j" using tnode_ex assms(1) by blast
  have "k \<le> d"
  proof (rule ccontr)
    assume "\<not> k \<le> d"
    then have "(2 :: int) ^ Suc d \<le> 2 ^ k" by (intro power_increasing) auto
    moreover have "0 \<le> j * 2 ^ Suc k" using kj(1) by simp
    then have "2 ^ k - 1 \<le> x" unfolding kj(2) tnode_arith by linarith
    ultimately show False using assms(2) by linarith
  qed
  with kj assms(2) that tnode_less show thesis by blast
qed

lemma bit_length_nat_bounds: "0 < n \<Longrightarrow> 0 < bit_length_nat n \<and> 2 ^ (bit_length_nat n - 1) \<le> n \<and> n < 2 ^ bit_length_nat n"
proof (induction n rule: bit_length_nat.induct)
  case (1 n)
  show ?case
  proof (cases "n = 1")
    case True
    then show ?thesis by (simp add: bit_length_nat.simps)
  next
    case False
    with 1 have IH: "0 < bit_length_nat (n div 2)" "2 ^ (bit_length_nat (n div 2) - 1) \<le> n div 2"
      "n div 2 < 2 ^ bit_length_nat (n div 2)" by auto
    have s: "bit_length_nat n = Suc (bit_length_nat (n div 2))" using 1 by (subst bit_length_nat.simps) simp
    define m where "m = bit_length_nat (n div 2) - 1"
    with IH(1) have m: "bit_length_nat (n div 2) = Suc m" by simp
    with IH have "2 ^ m \<le> n div 2" "n div 2 < 2 ^ Suc m" by auto
    then have "2 ^ Suc m \<le> n" "n < 2 ^ Suc (Suc m)" by auto
    with s m show ?thesis by simp
  qed
qed

text \<open>The depth of a tree of \<open>n\<close> leaves.\<close>

definition tree_depth :: "int \<Rightarrow> nat" where
  "tree_depth n = bit_length (2 * n - 1) - 1"

lemma tree_depth_bounds:
  assumes "1 \<le> n"
  shows "2 ^ tree_depth n \<le> 2 * n - 1" "2 * n - 1 < 2 ^ Suc (tree_depth n)"
proof -
  have b: "0 < bit_length_nat (nat (2 * n - 1))" "2 ^ (bit_length_nat (nat (2 * n - 1)) - 1) \<le> nat (2 * n - 1)"
    "nat (2 * n - 1) < 2 ^ bit_length_nat (nat (2 * n - 1))"
    using bit_length_nat_bounds [of "nat (2 * n - 1)"] assms by auto
  then show "2 ^ tree_depth n \<le> 2 * n - 1" "2 * n - 1 < 2 ^ Suc (tree_depth n)"
    using assms by (auto simp: tree_depth_def bit_length_def nat_less_iff le_nat_iff)
qed

lemma tree_depth_unique:
  assumes "2 ^ d \<le> 2 * n - 1" "2 * n - 1 < 2 ^ Suc d"
  shows "tree_depth n = d"
proof -
  have n: "1 \<le> n" using assms(1) by (smt (verit) zero_less_power)
  note b = tree_depth_bounds [OF n]
  from assms(1) b(2) have "(2 :: int) ^ d < 2 ^ Suc (tree_depth n)" by linarith
  moreover from assms(2) b(1) have "(2 :: int) ^ tree_depth n < 2 ^ Suc d" by linarith
  ultimately have "d < Suc (tree_depth n)" "tree_depth n < Suc d"
    by (auto intro: power_less_imp_less_exp [of "2 :: int"] simp del: power_Suc)
  then show ?thesis by simp
qed

lemma tree_depth_pow2 [simp]: "tree_depth (2 ^ d) = d"
proof (rule tree_depth_unique)
  have "(1 :: int) \<le> 2 ^ d" by simp
  then show "2 ^ d \<le> 2 * 2 ^ d - (1 :: int)" "2 * 2 ^ d - 1 < (2 :: int) ^ Suc d" by simp_all
qed

lemma tree_root_eq: "1 \<le> n \<Longrightarrow> tree_root n = tnode (tree_depth n) 0"
  by (auto simp: tree_root_def tree_depth_def tnode_arith push_bit_eq_mult Let_def)
     (simp add: bit_length_def bit_length_nat.simps)

lemma st_root_eq: "1 \<le> n \<Longrightarrow> st_root n = tnode (tree_depth n) 0"
  using bit_length_nat_bounds [of "nat (2 * n - 1)"]
  by (auto simp: st_root_def st_log2_def tree_depth_def tnode_arith push_bit_eq_mult Let_def bit_length_def nat_diff_distrib)

lemma half_less: "0 \<le> j \<Longrightarrow> j < 2 ^ Suc m \<Longrightarrow> 0 \<le> j div 2 \<and> j div 2 < (2 :: int) ^ m"
  by auto

lemma div_pow_Suc: "j div 2 div 2 ^ m = j div (2 :: int) ^ Suc m"
  by (simp add: zdiv_zmult2_eq)

text \<open>
  The loop of \<open>_parent\<close> ends at the first ancestor inside the array. \<open>lands w k j k' j'\<close>: going up
  from the node \<open>(k, j)\<close>, itself included, \<open>(k', j')\<close> is the first with an index below \<open>w\<close>.
\<close>

inductive lands :: "int \<Rightarrow> nat \<Rightarrow> int \<Rightarrow> nat \<Rightarrow> int \<Rightarrow> bool" where
  here: "tnode k j < w \<Longrightarrow> lands w k j k j"
| up: "w \<le> tnode k j \<Longrightarrow> lands w (Suc k) (j div 2) k' j' \<Longrightarrow> lands w k j k' j'"

lemma lands_facts: "lands w k j k' j' \<Longrightarrow> k \<le> k' \<and> j' = j div 2 ^ (k' - k) \<and> tnode k' j' < w"
proof (induction rule: lands.induct)
  case (up w k j k' j')
  then have "k' - k = Suc (k' - Suc k)" by arith
  with up show ?case by (metis Suc_leD div_pow_Suc)
qed simp

lemma lands_exists:
  assumes "k \<le> d" "0 \<le> j" "j < 2 ^ (d - k)" "2 ^ d \<le> w"
  shows "\<exists>k' j'. k' \<le> d \<and> lands w k j k' j'"
  using assms
proof (induction "d - k" arbitrary: k j)
  case 0
  then have "j = 0" by simp
  with 0 have "tnode k j < w" by (simp add: tnode_arith)
  with 0 show ?case using lands.here by blast
next
  case (Suc m)
  show ?case
  proof (cases "tnode k j < w")
    case True
    with Suc show ?thesis using lands.here by blast
  next
    case False
    have s: "d - k = Suc (d - Suc k)" and m: "m = d - Suc k" "Suc k \<le> d" using Suc.hyps(2) by simp_all
    from Suc.prems half_less [of j "d - Suc k"] s have "0 \<le> j div 2" "j div 2 < 2 ^ (d - Suc k)" by simp_all
    from Suc.hyps(1) [OF m this Suc.prems(4)] False lands.up show ?thesis by (metis not_less)
  qed
qed

lemma reparent_lands:
  "lands w k j k' j' \<Longrightarrow> 0 \<le> j \<Longrightarrow> k' \<le> 32 \<Longrightarrow> reparent w (tnode k j) = Some (Inr (tnode k' j'))"
proof (induction rule: lands.induct)
  case (up w k j k' j')
  then have "k \<le> 32" by (auto dest: lands_facts)
  with up show ?case by (subst reparent.simps) (simp add: climb_tnode)
qed (simp add: reparent.simps)

lemma st_reparent_lands: "lands w k j k' j' \<Longrightarrow> st_reparent w (tnode k j) = Some (Inr (tnode k' j'))"
  by (induction rule: lands.induct) (simp_all add: st_reparent.simps climb_tnode)

section \<open>Navigation in a tree of \<open>n\<close> leaves\<close>

text \<open>A node of the array of a tree of \<open>n\<close> leaves, in coordinates.\<close>

lemma node_coords:
  assumes "1 \<le> n" "0 \<le> x" "x < 2 * n - 1"
  obtains k j where "x = tnode k j" "k \<le> tree_depth n" "0 \<le> j" "j < 2 ^ (tree_depth n - k)"
proof (rule tnode_coords)
  show "x < 2 ^ Suc (tree_depth n) - 1" using assms tree_depth_bounds(2) [OF assms(1)] by linarith
qed (use assms that in auto)

lemma tree_depth_mono31: "1 \<le> n \<Longrightarrow> n \<le> 2 ^ 31 \<Longrightarrow> tree_depth n \<le> 31"
proof -
  assume n: "1 \<le> n" "n \<le> 2 ^ 31"
  then have "(2 :: int) ^ tree_depth n < 2 ^ 32" using tree_depth_bounds(1) [OF n(1)] by simp
  then have "tree_depth n < 32" by (rule power_less_imp_less_exp [rotated]) simp
  then show ?thesis by simp
qed

lemma tnode_inj: "tnode k j = tnode k' j' \<longleftrightarrow> k = k' \<and> j = j'"
proof
  assume e: "tnode k j = tnode k' j'"
  have "k = k'"
    using arg_cong [OF e, of st_level] by simp
  with e show "k = k' \<and> j = j'" by (simp add: tnode_arith)
qed simp

lemma inside_lands:
  assumes "1 < n" "0 \<le> x" "x < 2 * n - 1" "x \<noteq> tnode (tree_depth n) 0"
  obtains k j k' j' where "x = tnode k j" "lands (2 * n - 1) (Suc k) (j div 2) k' j'" "k < k'"
    "k' \<le> tree_depth n" "0 \<le> j" "j' = j div 2 ^ (k' - k)" "tnode k' j' < 2 * n - 1"
proof -
  obtain k j where x: "x = tnode k j" "k \<le> tree_depth n" "0 \<le> j" "j < 2 ^ (tree_depth n - k)"
    using node_coords assms by (metis less_imp_le)
  then have "j = 0" if "k = tree_depth n" using that by simp
  with x assms(4) have k: "k < tree_depth n" "tree_depth n - k = Suc (tree_depth n - Suc k)"
    by (cases "k = tree_depth n"; auto)+
  from half_less [of j "tree_depth n - Suc k"] x k obtain k' j' where
    l: "k' \<le> tree_depth n" "lands (2 * n - 1) (Suc k) (j div 2) k' j'"
    using lands_exists [of "Suc k" "tree_depth n" "j div 2" "2 * n - 1"]
      tree_depth_bounds(1) [of n] assms(1) by auto
  moreover from lands_facts [OF l(2)] have kk: "k < k'" "tnode k' j' < 2 * n - 1"
    and "j' = j div 2 div 2 ^ (k' - Suc k)" by auto
  then have "j' = j div 2 ^ (k' - k)" by (simp add: div_pow_Suc Suc_diff_Suc del: power_Suc)
  ultimately show thesis using that x kk by blast
qed

text \<open>
  The contract of \<open>_parent\<close> that \<open>tree.py\<close> and \<open>secret_tree.py\<close> both implement: \<open>top n\<close> is the root,
  and from any other node of the array \<open>up n\<close> returns the first ancestor inside it.
\<close>

locale tree_navigation =
  fixes top :: "int \<Rightarrow> int" and up :: "int \<Rightarrow> int \<Rightarrow> int res"
  assumes top_eq: "1 \<le> n \<Longrightarrow> top n = tnode (tree_depth n) 0"
    and up_eq: "1 < n \<Longrightarrow> n \<le> 2 ^ 31 \<Longrightarrow> 0 \<le> j \<Longrightarrow> tnode k j \<noteq> top n \<Longrightarrow>
           lands (2 * n - 1) (Suc k) (j div 2) k' j' \<Longrightarrow> k' \<le> 32 \<Longrightarrow> k < 32 \<Longrightarrow>
           up n (tnode k j) = Inr (tnode k' j')"
begin

lemma up_inside:
  assumes "1 < n" "n \<le> 2 ^ 31" "0 \<le> x" "x < 2 * n - 1" "x \<noteq> top n"
  obtains k j k' j' where "x = tnode k j" "up n x = Inr (tnode k' j')" "k < k'" "k' \<le> tree_depth n"
    "0 \<le> j" "j' = j div 2 ^ (k' - k)" "tnode k' j' < 2 * n - 1"
    "lands (2 * n - 1) (Suc k) (j div 2) k' j'"
proof -
  have "x \<noteq> tnode (tree_depth n) 0" using assms by (simp add: top_eq)
  from inside_lands [OF assms(1,3,4) this] obtain k j k' j' where
    f: "x = tnode k j" "lands (2 * n - 1) (Suc k) (j div 2) k' j'" "k < k'" "k' \<le> tree_depth n"
    "0 \<le> j" "j' = j div 2 ^ (k' - k)" "tnode k' j' < 2 * n - 1" by blast
  moreover have "tree_depth n \<le> 31" using assms by (intro tree_depth_mono31) auto
  with f assms have "up n x = Inr (tnode k' j')" using up_eq [OF assms(1,2) f(5) _ f(2)] by simp
  ultimately show thesis using that by blast
qed

lemma up_pow2:
  assumes "k < d" "d \<le> 31" "0 \<le> j" "j < 2 ^ (d - k)"
  shows "up (2 ^ d) (tnode k j) = Inr (tnode (Suc k) (j div 2))"
proof (rule up_eq)
  from assms(1) have "(2 :: int) ^ 1 \<le> 2 ^ d" by (intro power_increasing) auto
  then show "(1 :: int) < 2 ^ d" by simp
  show "(2 :: int) ^ d \<le> 2 ^ 31" using assms(2) by (intro power_increasing) auto
  show "tnode k j \<noteq> top (2 ^ d)" using assms(1) by (simp add: top_eq tnode_inj)
  have "tnode (Suc k) (j div 2) < 2 ^ Suc d - 1"
    using assms half_less [of j "d - Suc k"] by (subst tnode_less) (auto simp: Suc_diff_Suc)
  then show "lands (2 * 2 ^ d - 1) (Suc k) (j div 2) (Suc k) (j div 2)" by (intro lands.here) simp
qed (use assms in auto)

end

interpretation tree_nav: tree_navigation tree_root tree_parent
  by unfold_locales (simp_all add: tree_root_eq tree_parent_def climb_tnode reparent_lands)

interpretation st_nav: tree_navigation st_root "\<lambda>n x. st_parent x n"
  by unfold_locales (simp_all add: st_root_eq st_parent_def climb_tnode st_reparent_lands)

text \<open>Position of the sibling among the nodes of the level.\<close>

definition sibling_pos :: "int \<Rightarrow> int" where
  "sibling_pos j = (if even j then j + 1 else j - 1)"

lemma sibling_pos_facts:
  "0 \<le> j \<Longrightarrow> 0 \<le> sibling_pos j" "sibling_pos j div 2 = j div 2" "sibling_pos j \<noteq> j"
  "sibling_pos (sibling_pos j) = j"
  by (auto simp: sibling_pos_def elim!: evenE oddE)

lemma sibling_pos_less: "j < 2 ^ Suc m \<Longrightarrow> sibling_pos j < 2 ^ Suc m"
  by (auto simp: sibling_pos_def elim!: evenE)

lemma sibling_pow2:
  assumes "k < d" "d \<le> 31" "0 \<le> j" "j < 2 ^ (d - k)"
  shows "tree_sibling (2 ^ d) (tnode k j) = Inr (tnode k (sibling_pos j))"
proof -
  have "(1 :: int) < 2 ^ d" using assms(1) by (intro one_less_power) auto
  then have n: "\<not> (2 :: int) ^ d \<le> 1" by simp
  have p: "tree_parent (2 ^ d) (tnode k j) = Inr (tnode (Suc k) (j div 2))"
    using assms by (rule tree_nav.up_pow2)
  have l: "tree_level (tnode (Suc k) (j div 2)) = Suc k" using assms by (intro level_tnode) auto
  show ?thesis
  proof (cases "even j")
    case True
    then obtain i where j: "j = 2 * i" by (elim evenE)
    show ?thesis using n p l tnode_children [of k i]
      by (simp add: tree_sibling_def shift_pred_def j sibling_pos_def push_bit_eq_mult)
  next
    case False
    then obtain i where j: "j = 2 * i + 1" by (elim oddE)
    show ?thesis using n p l tnode_children [of k i]
      by (simp add: tree_sibling_def shift_pred_def j sibling_pos_def push_bit_eq_mult)
  qed
qed

lemma st_left_tnode: "st_left (tnode (Suc k) j) = Inr (tnode k (2 * j))"
  using xor_left [of k j] by (simp add: st_left_def shift_pred_def)

lemma st_right_tnode: "st_right (tnode (Suc k) j) = Inr (tnode k (2 * j + 1))"
  by (simp add: st_right_def shift_pred_def xor_right)

definition turn :: "int \<Rightarrow> direction" where
  "turn j = (if even j then go_left else go_right)"

lemma get_path_loop_pow2:
  assumes "k \<le> d" "d \<le> 31" "0 \<le> j" "j < 2 ^ (d - k)" "d - k \<le> fuel"
  shows "get_path_loop fuel (2 ^ d) (st_root (2 ^ d)) (tnode k j) = Inr (map (\<lambda>i. turn (j div 2 ^ i)) [0..<d - k])"
  using assms
proof (induction fuel arbitrary: k j)
  case 0
  then show ?case by simp
next
  case (Suc fuel)
  show ?case
  proof (cases "k = d")
    case True
    with Suc.prems have "j = 0" by simp
    with True show ?thesis by (simp add: st_root_eq)
  next
    case False
    with Suc.prems have k: "k < d" "d - k = Suc (d - Suc k)" by auto
    have r: "tnode k j \<noteq> st_root (2 ^ d)" using False by (simp add: st_root_eq tnode_inj)
    have h: "0 \<le> j div 2" "j div 2 < 2 ^ (d - Suc k)" using half_less [of j "d - Suc k"] Suc.prems k by auto
    have IH: "get_path_loop fuel (2 ^ d) (st_root (2 ^ d)) (tnode (Suc k) (j div 2))
        = Inr (map (\<lambda>i. turn (j div 2 ^ Suc i)) [0..<d - Suc k])"
      using Suc.IH [of "Suc k" "j div 2"] Suc.prems k h by (simp only: div_pow_Suc)
    have t: "(if tnode k j = tnode k (2 * (j div 2)) then go_left else go_right) = turn j"
      by (auto simp: tnode_inj turn_def) (metis dvd_triv_left)
    have m: "map (\<lambda>i. turn (j div 2 ^ i)) [0..<Suc m] = turn j # map (\<lambda>i. turn (j div 2 ^ Suc i)) [0..<m]" for m
      by (simp add: upt_conv_Cons map_Suc_upt [symmetric] del: upt_Suc power_Suc)
    show ?thesis
      unfolding k(2) m using r st_nav.up_pow2 [OF k(1) Suc.prems(2-4)] IH t by (simp add: st_left_tnode del: power_Suc)
  qed
qed

lemma get_path_pow2:
  assumes "d \<le> 31" "0 \<le> i" "i < 2 ^ d"
  shows "get_path i (2 ^ d) = Inr (rev (map (\<lambda>k. turn (i div 2 ^ k)) [0..<d]))"
  using get_path_loop_pow2 [of 0 d i 32] assms by (simp add: get_path_def Let_def tnode_0 mult.commute)

lemma next_pow2_loop_spec:
  "0 < p \<Longrightarrow> \<exists>e. next_pow2_loop n p = p * 2 ^ e \<and> n \<le> next_pow2_loop n p \<and> (e = 0 \<or> next_pow2_loop n p < 2 * n)"
proof (induction n p rule: next_pow2_loop.induct)
  case (1 n p)
  show ?case
  proof (cases "p < n")
    case True
    with 1 have "\<exists>e. next_pow2_loop n (2 * p) = 2 * p * 2 ^ e \<and> n \<le> next_pow2_loop n (2 * p)
      \<and> (e = 0 \<or> next_pow2_loop n (2 * p) < 2 * n)" by (simp add: mult.commute)
    then obtain e where "next_pow2_loop n (2 * p) = 2 * p * 2 ^ e" "n \<le> next_pow2_loop n (2 * p)"
      "e = 0 \<or> next_pow2_loop n (2 * p) < 2 * n" by blast
    with True 1(2) show ?thesis
      by (subst (1 2 3) next_pow2_loop.simps) (auto intro!: exI [of _ "Suc e"] simp: mult.commute)
  next
    case False
    with 1(2) show ?thesis by (subst (1 2 3) next_pow2_loop.simps) (auto intro: exI [of _ 0])
  qed
qed

section \<open>Properties\<close>

text \<open>Both implementations of the tree navigation agree: for every group size up to 2^31, power of
  two or not, and every node of the array \<open>RatchetTree._parent\<close> and \<open>secret_tree._parent\<close> return, and
  they return the same node, inside the array and one of a strictly higher level unless the node
  is the root, which is its own parent.\<close>

theorem parent_implementations_agree:
  assumes "1 \<le> n" "n \<le> 2 ^ 31" "0 \<le> x" "x < 2 * n - 1"
  shows "\<exists>p. tree_parent n x = Inr p \<and> st_parent x n = Inr p \<and> 0 \<le> p \<and> p < 2 * n - 1
       \<and> (if x = tree_root n then p = x else tree_level x < tree_level p)"
proof (cases "x = tree_root n")
  case True
  then have "tree_parent n x = Inr x" "st_parent x n = Inr x"
    using assms by (cases "n = 1"; simp add: tree_parent_def st_parent_def tree_root_eq st_root_eq)+
  with True assms show ?thesis by simp
next
  case False
  have n: "1 < n" using False assms by (cases "n = 1") (auto simp: tree_root_def)
  from tree_nav.up_inside [OF n assms(2-4) False] obtain k j k' j' where
    f: "x = tnode k j" "tree_parent n x = Inr (tnode k' j')" "k < k'" "k' \<le> tree_depth n"
    "0 \<le> j" "j' = j div 2 ^ (k' - k)" "tnode k' j' < 2 * n - 1"
    "lands (2 * n - 1) (Suc k) (j div 2) k' j'" by blast
  have d: "tree_depth n \<le> 31" using assms by (intro tree_depth_mono31) auto
  have "st_parent x n = Inr (tnode k' j')"
    using st_nav.up_eq [OF n assms(2) f(5) _ f(8)] f(1,3,4) d False assms(1)
    by (simp add: tree_root_eq st_root_eq)
  moreover have "0 \<le> j'" using f by (simp add: pos_imp_zdiv_nonneg_iff)
  then have "0 \<le> tnode k' j'" "tree_level x < tree_level (tnode k' j')"
    using f d by (simp_all add: tnode_nonneg)
  ultimately show ?thesis using f False by auto
qed

theorem parent_implementations_agree_witness:
  "\<exists>p. tree_parent 5 8 = Inr p \<and> st_parent 8 5 = Inr p \<and> 0 \<le> p \<and> p < 9"
  using parent_implementations_agree [of 5 8] by auto
text \<open>\<open>_next_pow2\<close> returns the least power of two that is at least its argument.\<close>

theorem next_pow2_least: "\<exists>e. next_pow2 n = 2 ^ e \<and> n \<le> 2 ^ e \<and> (e = 0 \<or> 2 ^ e < 2 * n)"
  using next_pow2_loop_spec [OF zero_less_one, of n] unfolding next_pow2_def mult_1 by metis

text \<open>In a tree of \<open>2^d\<close> leaves \<open>_get_path\<close> returns, for every leaf, the binary digits of the leaf
  index from the most significant one down, so that different leaves have different paths of the same
  length and no leaf's secret is derived from another's.\<close>

theorem get_path_digits:
  assumes "d \<le> 31" "0 \<le> i" "i < 2 ^ d" "0 \<le> i'" "i' < 2 ^ d"
  shows "\<exists>path. get_path i (2 ^ d) = Inr path \<and> length path = d
       \<and> (\<forall>k<d. path ! k = (if bit i (d - 1 - k) then go_right else go_left))
       \<and> (get_path i' (2 ^ d) = Inr path \<longleftrightarrow> i' = i)"
proof -
  let ?p = "\<lambda>i. rev (map (\<lambda>k. turn (i div 2 ^ k)) [0..<d])"
  have digit: "?p i ! k = (if bit i (d - 1 - k) then go_right else go_left)" if "k < d" for i k
    using that by (simp add: rev_nth turn_def bit_iff_odd)
  have "i' = i" if "?p i' = ?p i"
  proof (rule bit_eqI)
    fix m
    show "bit i' m = bit i m"
    proof (cases "m < d")
      case True
      with digit [of "d - 1 - m" i] digit [of "d - 1 - m" i'] that show ?thesis
        by (auto split: if_splits)
    next
      case False
      then have "(2 :: int) ^ d \<le> 2 ^ m" by (intro power_increasing) auto
      with assms have "i' < 2 ^ m" "i < 2 ^ m" by linarith+
      with assms have "i' div 2 ^ m = 0" "i div 2 ^ m = 0" by (simp_all only: div_pos_pos_trivial)
      then show ?thesis by (simp add: bit_iff_odd)
    qed
  qed
  moreover note get_path_pow2 [OF assms(1-3)] get_path_pow2 [OF assms(1,4,5)]
  ultimately show ?thesis using digit [of _ i] by (intro exI [of _ "?p i"]) auto
qed

theorem get_path_digits_witness:
  "get_path 5 (2 ^ 3) = Inr [go_right, go_left, go_right]"
proof -
  obtain path where p: "get_path 5 (2 ^ 3) = Inr path" "length path = 3"
    "\<forall>k<3. path ! k = (if bit (5 :: int) (3 - 1 - k) then go_right else go_left)"
    using get_path_digits [of 3 5 5] by auto
  have "path = [path ! 0, path ! 1, path ! 2]" using p(2) by (auto simp: numeral_3_eq_3 length_Suc_conv)
  with p(1) p(3) [rule_format, of 0] p(3) [rule_format, of 1] p(3) [rule_format, of 2]
  show ?thesis by (simp add: bit_iff_odd)
qed

text \<open>
  Above the array there is no way back: the loop of \<open>_parent\<close> climbs to the level where \<open>level\<close>
  stops counting and then alternates between two indices.
\<close>

definition outside :: "nat \<Rightarrow> int \<Rightarrow> bool" where
  "outside d p \<longleftrightarrow> (\<exists>k j. p = tnode k j \<and> k \<le> 33 \<and> 0 \<le> j \<and> (d < k \<or> 2 ^ (d - k) \<le> j))"

lemma climb_capped: "climb k (tnode (Suc k) j) = tnode k (2 * j)"
proof -
  have b: "drop_bit (k + 1) (tnode (Suc k) j) AND 1 = 0"
    by (subst and_one_of_bool) (simp add: bit_tnode)
  show ?thesis unfolding climb_def Let_def b using xor_left [of k j] by simp
qed

lemma level_loop_capped: "i \<le> 32 \<Longrightarrow> 32 \<le> k \<Longrightarrow> level_loop (tnode k j) i = 32"
proof (induction "32 - i" arbitrary: i)
  case 0
  then show ?case by (subst level_loop.simps) simp
next
  case (Suc d)
  then show ?case by (subst level_loop.simps) (simp add: and_one_bit bit_tnode)
qed

lemma level_tnode33: "0 \<le> j \<Longrightarrow> tree_level (tnode 33 j) = 32"
  using level_loop_capped [of 0 33 j] tnode_nonneg [of j 33]
  by (auto simp: tree_level_def and_one_eq simp flip: even_iff_mod_2_eq_zero)

lemma outside_climb:
  assumes "outside d p" "d \<le> 31"
  shows "outside d (climb (tree_level p) p)"
proof -
  from assms(1) obtain k j where p: "p = tnode k j" "k \<le> 33" "0 \<le> j" "d < k \<or> 2 ^ (d - k) \<le> j"
    by (auto simp: outside_def)
  show ?thesis
  proof (cases "k = 33")
    case True
    with p assms(2) show ?thesis unfolding outside_def using climb_capped [of 32 j]
      by (intro exI [of _ 32] exI [of _ "2 * j"]) (simp add: level_tnode33)
  next
    case False
    have "2 ^ (d - Suc k) \<le> j div 2" if "k < d"
    proof -
      have "d - k = Suc (d - Suc k)" using that by simp
      with p(4) that have "2 * 2 ^ (d - Suc k) \<le> j" by simp
      then show ?thesis by simp
    qed
    with False p show ?thesis unfolding outside_def
      by (intro exI [of _ "Suc k"] exI [of _ "j div 2"], cases "k < d") (auto simp: climb_tnode)
  qed
qed

lemma outside_ge: "outside d p \<Longrightarrow> 2 ^ Suc d - 1 \<le> p"
proof -
  assume "outside d p"
  then obtain k j where p: "p = tnode k j" "0 \<le> j" "d < k \<or> 2 ^ (d - k) \<le> j"
    by (auto simp: outside_def)
  show ?thesis
  proof (cases "d < k")
    case True
    then have "(2 :: int) ^ Suc d \<le> 2 ^ k" by (intro power_increasing) auto
    moreover have "0 \<le> j * 2 ^ Suc k" using p(2) by simp
    ultimately show ?thesis unfolding p(1) tnode_arith by linarith
  next
    case False
    with p tnode_less [of j k d] show ?thesis by simp
  qed
qed

lemma outsideI:
  assumes "2 ^ Suc d - 1 \<le> p" "p < 2 ^ 33 - 1"
  shows "outside d p"
proof -
  have "0 \<le> p" using assms(1) by (smt (verit) one_le_power)
  with assms(2) obtain k j where p: "p = tnode k j" "k \<le> 32" "0 \<le> j"
    using tnode_coords [of p 32] by (auto simp del: power_Suc) metis
  with assms(1) tnode_less [of j k d] show ?thesis
    unfolding outside_def by (intro exI [of _ k] exI [of _ j], cases "d < k") auto
qed

lemma reparent_diverges:
  assumes "outside d p" "d \<le> 31" "w \<le> 2 ^ Suc d - 1"
  shows "reparent w p = None"
proof -
  have "w \<le> 2 ^ Suc d - 1 \<longrightarrow> \<not> outside d p" if "reparent w p = Some r" for r
  proof (rule reparent.raw_induct [OF _ that], intro impI notI)
    fix rec :: "int \<Rightarrow> int \<Rightarrow> int res option" and w p y
    assume IH: "\<And>w p y. rec w p = Some y \<Longrightarrow> w \<le> 2 ^ Suc d - 1 \<longrightarrow> \<not> outside d p"
      and body: "(if w \<le> p then rec w (climb (tree_level p) p) else Some (Inr p)) = Some y"
      and w: "w \<le> 2 ^ Suc d - 1" and out: "outside d p"
    from outside_ge [OF out] w have "w \<le> p" by simp
    with body IH w outside_climb [OF out assms(2)] show False by auto
  qed
  with assms(1,3) show ?thesis by (cases "reparent w p") auto
qed

lemma parent_outside:
  assumes "1 < n" "n \<le> 2 ^ 31" "2 * tree_root n < x" "x < 2 ^ 32"
  shows "tree_parent n x = Inl Nontermination"
proof -
  let ?d = "tree_depth n"
  have b: "2 ^ ?d \<le> 2 * n - 1" "2 * n - 1 < 2 ^ Suc ?d" using tree_depth_bounds [of n] assms(1) by simp_all
  have r: "tree_root n = 2 ^ ?d - 1" using tree_root_eq [of n] assms(1) by (simp add: tnode_arith)
  have "(2 :: int) ^ ?d < 2 ^ 32" using b(1) assms(2) by simp
  then have d: "?d \<le> 31" using power_less_imp_less_exp [of "2 :: int" ?d 32] by simp
  have o: "outside ?d x" using assms(3,4) by (intro outsideI) (auto simp: r)
  have "0 < (2 :: int) ^ ?d" by simp
  then have "x \<noteq> tree_root n" using assms(3) r by linarith
  moreover have "reparent (2 * n - 1) (climb (tree_level x) x) = None"
    using o d b(2) by (intro reparent_diverges [where d = ?d] outside_climb) auto
  ultimately show ?thesis using assms(1) by (simp add: tree_parent_def Let_def)
qed

lemma parent_inside:
  assumes "1 < n" "n \<le> 2 ^ 31" "0 \<le> x" "x \<le> 2 * tree_root n"
  shows "\<exists>p. tree_parent n x = Inr p \<and> 0 \<le> p \<and> p < 2 * n - 1"
proof -
  let ?d = "tree_depth n"
  have b: "2 ^ ?d \<le> 2 * n - 1" using tree_depth_bounds [of n] assms(1) by simp
  have r: "tree_root n = tnode ?d 0" "tree_root n = 2 ^ ?d - 1" using tree_root_eq [of n] assms(1) by (simp_all add: tnode_arith)
  have "(2 :: int) ^ ?d < 2 ^ 32" using b(1) assms(2) by simp
  then have d: "?d \<le> 31" using power_less_imp_less_exp [of "2 :: int" ?d 32] by simp
  show ?thesis
  proof (cases "x = tree_root n")
    case True
    moreover have "0 \<le> tree_root n" "tree_root n < 2 * n - 1" using b r(2) by simp_all
    ultimately show ?thesis using assms(1) by (simp add: tree_parent_def)
  next
    case False
    have "x < 2 ^ Suc ?d - 1" using assms(4) r(2) by simp
    with assms(3) obtain k j where x: "x = tnode k j" "k \<le> ?d" "0 \<le> j" "j < 2 ^ (?d - k)" by (rule tnode_coords)
    have k: "k < ?d"
    proof (rule ccontr)
      assume "\<not> k < ?d"
      with x(2-4) have "k = ?d" "j = 0" by simp_all
      with x(1) False r(1) show False by simp
    qed
    then have "?d - k = Suc (?d - Suc k)" by simp
    with half_less [of j "?d - Suc k"] x(3,4) have h: "0 \<le> j div 2" "j div 2 < 2 ^ (?d - Suc k)" by simp_all
    obtain k' j' where l: "k' \<le> ?d" "lands (2 * n - 1) (Suc k) (j div 2) k' j'"
      using lands_exists [OF Suc_leI [OF k] h b] by blast
    have "0 \<le> j'" "tnode k' j' < 2 * n - 1" using lands_facts [OF l(2)] h(1) by (auto simp: pos_imp_zdiv_nonneg_iff)
    moreover have "tree_parent n x = Inr (tnode k' j')"
      using False assms(1) x k d reparent_lands [OF l(2) h(1)] l(1) by (simp add: tree_parent_def climb_tnode)
    ultimately show ?thesis using tnode_nonneg by blast
  qed
qed

text \<open>C35: where \<open>RatchetTree._parent\<close> returns. In a tree of at most \<open>2 ^ 31\<close> leaves, on an index of 32 bits:
  with at most one leaf it always returns; otherwise it returns exactly on the indices up to twice the
  index of the root, which are those of the smallest tree with a power of two of leaves around this
  one, and the node it returns lies inside the array; on every larger index its loop never ends.
  When the number of leaves is a power of two, as in every tree of a group, these are the indices of the
  array.\<close>

theorem parent_returns_iff_inside:
  assumes "n \<le> 2 ^ 31" "0 \<le> x" "x < 2 ^ 32"
  shows "(tree_parent n x \<noteq> Inl Nontermination \<longleftrightarrow> n \<le> 1 \<or> x \<le> 2 * tree_root n)
    \<and> (1 < n \<and> x \<le> 2 * tree_root n \<longrightarrow> (\<exists>p. tree_parent n x = Inr p \<and> 0 \<le> p \<and> p < 2 * n - 1))
    \<and> (n = 2 ^ d \<longrightarrow> (x \<le> 2 * tree_root n \<longleftrightarrow> x < 2 * n - 1))"
proof (intro conjI impI)
  show "tree_parent n x \<noteq> Inl Nontermination \<longleftrightarrow> n \<le> 1 \<or> x \<le> 2 * tree_root n"
    using parent_inside [of n x] parent_outside [of n x] assms by (cases "n \<le> 1"; cases "x \<le> 2 * tree_root n") (auto simp: tree_parent_def)
  show "\<exists>p. tree_parent n x = Inr p \<and> 0 \<le> p \<and> p < 2 * n - 1" if "1 < n \<and> x \<le> 2 * tree_root n"
    using parent_inside [of n x] assms(1,2) that by blast
  show "x \<le> 2 * tree_root n \<longleftrightarrow> x < 2 * n - 1" if "n = 2 ^ d"
    using that by (simp add: tree_root_eq tnode_arith) linarith
qed

theorem parent_returns_iff_inside_witness:
  "tree_parent 2 2 \<noteq> Inl Nontermination \<and> tree_parent 2 3 = Inl Nontermination \<and> (\<exists>p. tree_parent 3 6 = Inr p \<and> 0 \<le> p \<and> p < 5)
    \<and> tree_parent 3 7 = Inl Nontermination"
proof -
  have r: "tree_root 2 = 1" "tree_root 3 = 3" by code_simp+
  show ?thesis using parent_returns_iff_inside [of 2 2] parent_returns_iff_inside [of 2 3] parent_returns_iff_inside [of 3 6] parent_returns_iff_inside [of 3 7]
    by (simp add: r)
qed

end
