(* ===== verification/RatchetTrees.thy ===== *)
theory RatchetTrees
  imports TreeNodes TreeMath
begin

text \<open>
  The second half of \<open>tree.py\<close>: the ratchet tree as an array of nodes with its writes, the paths and
  resolutions a commit uses, the removal of a member, growing the tree, and the wire format. The
  theorems: every operation keeps the tree well-formed and changes what it should and nothing else;
  a commit reaches every other member; a removed member keeps no occupied node of its path.
\<close>

section \<open>The array of nodes\<close>

datatype Node = Leaf LeafNode | Parent ParentNode

record RatchetTree =
  num_leaves :: int
  nodes :: "Node option list"
  frozen :: bool

abbreviation tree_size :: "RatchetTree \<Rightarrow> int" where
  "tree_size t \<equiv> int (length (nodes t))"

definition RatchetTree_init :: "int \<Rightarrow> RatchetTree" where
  "RatchetTree_init n =
     \<lparr>num_leaves = n, nodes = (if n > 0 then replicate (nat (2 * n - 1)) None else []), frozen = False\<rparr>"

definition freeze :: "RatchetTree \<Rightarrow> RatchetTree" where
  "freeze t = t\<lparr>frozen := True\<rparr>"

text \<open>\<open>xs[i]\<close> and \<open>xs[i] = v\<close> on a Python list: a negative index counts from the end.\<close>

definition py_pos :: "'a list \<Rightarrow> int \<Rightarrow> nat res" where
  "py_pos xs i =
     (if 0 \<le> i \<and> i < int (length xs) then Inr (nat i)
      else if - int (length xs) \<le> i \<and> i < 0 then Inr (nat (int (length xs) + i))
      else Inl IndexError)"

definition py_index :: "'a list \<Rightarrow> int \<Rightarrow> 'a res" where
  "py_index xs i = bindR (py_pos xs i) (\<lambda>k. Inr (xs ! k))"

definition py_assign :: "'a list \<Rightarrow> int \<Rightarrow> 'a \<Rightarrow> 'a list res" where
  "py_assign xs i v = bindR (py_pos xs i) (\<lambda>k. Inr (xs[k := v]))"

definition set_leaf :: "RatchetTree \<Rightarrow> int \<Rightarrow> LeafNode \<Rightarrow> RatchetTree res" where
  "set_leaf t index leaf =
     (if index mod 2 \<noteq> 0 then Inl (ValueError ''Leaves must be at even indices'')
      else if frozen t then Inl (TypeError ''RatchetTree is frozen'')
      else bindR (py_assign (nodes t) index (Some (Leaf leaf))) (\<lambda>ns. Inr (t\<lparr>nodes := ns\<rparr>)))"

definition set_parent :: "RatchetTree \<Rightarrow> int \<Rightarrow> ParentNode \<Rightarrow> RatchetTree res" where
  "set_parent t index parent_node =
     (if index mod 2 = 0 then Inl (ValueError ''Parents must be at odd indices'')
      else if frozen t then Inl (TypeError ''RatchetTree is frozen'')
      else bindR (py_assign (nodes t) index (Some (Parent parent_node))) (\<lambda>ns. Inr (t\<lparr>nodes := ns\<rparr>)))"

definition blank_node :: "RatchetTree \<Rightarrow> int \<Rightarrow> RatchetTree res" where
  "blank_node t index =
     (if frozen t then Inl (TypeError ''RatchetTree is frozen'')
      else if 0 \<le> index \<and> index < tree_size t then Inr (t\<lparr>nodes := (nodes t)[nat index := None]\<rparr>)
      else Inr t)"

definition get_node :: "RatchetTree \<Rightarrow> int \<Rightarrow> Node option" where
  "get_node t index = (if index < 0 \<or> index \<ge> tree_size t then None else nodes t ! nat index)"

text \<open>The loop of \<open>expanded\<close> over the remaining nodes, \<open>i\<close> the index of the first.\<close>

fun copy_nodes :: "int \<Rightarrow> Node option list \<Rightarrow> RatchetTree \<Rightarrow> RatchetTree res" where
  "copy_nodes i [] new_tree = Inr new_tree"
| "copy_nodes i (None # ns) new_tree = copy_nodes (i + 1) ns new_tree"
| "copy_nodes i (Some node # ns) new_tree =
     bindR (if i mod 2 = 0
            then (case node of Leaf l \<Rightarrow> set_leaf new_tree i l | Parent p \<Rightarrow> Inl AssertionError)
            else (case node of Leaf l \<Rightarrow> Inl AssertionError | Parent p \<Rightarrow> set_parent new_tree i p))
       (copy_nodes (i + 1) ns)"

definition expanded :: "RatchetTree \<Rightarrow> int \<Rightarrow> RatchetTree res" where
  "expanded t new_num_leaves =
     (if new_num_leaves < num_leaves t then Inl (ValueError ''Cannot contract tree with expanded()'')
      else copy_nodes 0 (nodes t) (RatchetTree_init new_num_leaves))"

section \<open>Paths\<close>

partial_function (option) direct_path_loop :: "RatchetTree \<Rightarrow> int \<Rightarrow> int \<Rightarrow> int list res option" where
  "direct_path_loop t root x =
     (case tree_parent (num_leaves t) x of
        Inl e \<Rightarrow> Some (Inl e)
      | Inr p \<Rightarrow>
          if p \<ge> tree_size t then Some (Inr [])
          else if p = root then Some (Inr [p])
          else Option.bind (direct_path_loop t root p) (\<lambda>r. Some (bindR r (\<lambda>path. Inr (p # path)))))"

definition direct_path :: "RatchetTree \<Rightarrow> int \<Rightarrow> int list res" where
  "direct_path t leaf_index =
     (let root = tree_root (num_leaves t); x = leaf_index in
      if x = root then Inr [] else returned (direct_path_loop t root x))"

fun copath_loop :: "RatchetTree \<Rightarrow> int \<Rightarrow> int list \<Rightarrow> int list res" where
  "copath_loop t x [] = Inr []"
| "copath_loop t x (p # dpath) =
     bindR (tree_sibling (num_leaves t) x) (\<lambda>sib.
     bindR (copath_loop t p dpath) (\<lambda>rest.
     Inr ((if sib < tree_size t then sib else -1) # rest)))"

definition copath :: "RatchetTree \<Rightarrow> int \<Rightarrow> int list res" where
  "copath t leaf_index = bindR (direct_path t leaf_index) (\<lambda>dpath. copath_loop t leaf_index dpath)"

function resolution_at :: "RatchetTree \<Rightarrow> int \<Rightarrow> nat \<Rightarrow> int list res" where
  "resolution_at t index depth =
     (if depth > 32 then Inl (RuntimeError ''Infinite recursion in resolution'')
      else if index < 0 \<or> index \<ge> tree_size t then Inr []
      else let node = nodes t ! nat index in
        if index mod 2 = 0 then Inr (if node \<noteq> None then [index] else [])
        else bindR (shift_pred 1 (tree_level index)) (\<lambda>h.
          let left = index - h; right = index + h in
          case node of
            None \<Rightarrow> bindR (resolution_at t left (depth + 1)) (\<lambda>l.
                    bindR (resolution_at t right (depth + 1)) (\<lambda>r. Inr (l @ r)))
          | Some nd \<Rightarrow>
              let unmerged = (case nd of Parent p \<Rightarrow> unmerged_leaves p | Leaf _ \<Rightarrow> [])
              in Inr (index # map (\<lambda>leaf. 2 * leaf) unmerged)))"
  by auto
termination by (relation "measure (\<lambda>(t, i, depth). 33 - depth)") auto

declare resolution_at.simps [simp del]

definition resolution :: "RatchetTree \<Rightarrow> int \<Rightarrow> int list res" where
  "resolution t index = resolution_at t index 0"

fun filter_path :: "RatchetTree \<Rightarrow> (int \<times> int) list \<Rightarrow> int list res" where
  "filter_path t [] = Inr []"
| "filter_path t ((p, cp) # rest) =
     (if cp \<noteq> -1 then
        bindR (resolution t cp) (\<lambda>res.
        bindR (filter_path t rest) (\<lambda>filtered.
        Inr (if length res > 0 then p # filtered else filtered)))
      else filter_path t rest)"

definition filtered_direct_path :: "RatchetTree \<Rightarrow> int \<Rightarrow> int list res" where
  "filtered_direct_path t leaf_index =
     bindR (direct_path t leaf_index) (\<lambda>dpath.
     bindR (copath t leaf_index) (\<lambda>cpath.
     filter_path t (zip dpath cpath)))"

section \<open>Removing a member\<close>

fun blank_all :: "int list \<Rightarrow> Node option list \<Rightarrow> Node option list res" where
  "blank_all [] ns = Inr ns"
| "blank_all (a # as) ns = bindR (py_assign ns a None) (blank_all as)"

text \<open>The last even index with a node, or -1.\<close>

fun rightmost_leaf :: "int \<Rightarrow> Node option list \<Rightarrow> int \<Rightarrow> int" where
  "rightmost_leaf i [] best = best"
| "rightmost_leaf i (x # ns) best =
     rightmost_leaf (i + 1) ns (if i mod 2 = 0 \<and> x \<noteq> None then i else best)"

definition remove_leaf :: "RatchetTree \<Rightarrow> int \<Rightarrow> RatchetTree res" where
  "remove_leaf t leaf_index =
     (if leaf_index mod 2 \<noteq> 0 then Inl (ValueError ''leaf_index must be even (leaf node)'')
      else if leaf_index \<ge> tree_size t then Inl (ValueError ''leaf_index out of bounds'')
      else let tree = t\<lparr>frozen := False\<rparr> in
        bindR (py_assign (nodes tree) leaf_index None) (\<lambda>ns1.
        bindR (direct_path (tree\<lparr>nodes := ns1\<rparr>) leaf_index) (\<lambda>ancestors.
        bindR (blank_all ancestors ns1) (\<lambda>ns2.
        let rightmost = rightmost_leaf 0 ns2 (-1) in
        if rightmost < 0 then Inr (tree\<lparr>num_leaves := 0, nodes := []\<rparr>)
        else let new_num_leaves = next_pow2 (rightmost div 2 + 1);
                 new_size = 2 * new_num_leaves - 1
             in Inr (tree\<lparr>num_leaves := new_num_leaves, nodes := take (nat new_size) ns2\<rparr>)))))"

section \<open>Wire format\<close>

fun Node_to_bytes :: "Node \<Rightarrow> bytes res" where
  "Node_to_bytes (Leaf l) = LeafNode_to_bytes l"
| "Node_to_bytes (Parent p) = ParentNode_to_bytes p"

fun optional_node_bytes :: "Node option \<Rightarrow> bytes res" where
  "optional_node_bytes None = Inr [0x00]"
| "optional_node_bytes (Some (Leaf l)) = cat_res [Inr [0x01, 0x01], LeafNode_to_bytes l]"
| "optional_node_bytes (Some (Parent p)) = cat_res [Inr [0x01, 0x02], ParentNode_to_bytes p]"

definition RatchetTree_to_bytes :: "RatchetTree \<Rightarrow> bytes res" where
  "RatchetTree_to_bytes t =
     bindR (cat_res (map optional_node_bytes (nodes t))) (\<lambda>parts.
     cat_res [tls_varint (int (length parts)), Inr parts])"

text \<open>
  One round of the loop of \<open>_parse\<close>: the nodes it appends (one, or none where the loop breaks at a
  presence byte that ends the buffer, which is also where its condition ends it).
\<close>

definition parse_node_step :: "Node option list reader" where
  "parse_node_step raw i =
     bindR (byte_at raw i) (\<lambda>present.
     if present = 0x00 then Inr ([None], i + 1)
     else if present = 0x01 then
       (if i + 1 \<ge> length raw then Inr ([], i + 1)
        else bindR (byte_at raw (i + 1)) (\<lambda>node_type.
          if node_type = 0x01 then
            bindR (LeafNode_from_bytes_at raw (i + 2)) (\<lambda>(leaf, j). Inr ([Some (Leaf leaf)], j))
          else if node_type = 0x02 then
            bindR (ParentNode_from_bytes_at raw (i + 2)) (\<lambda>(parent, j). Inr ([Some (Parent parent)], j))
          else Inl (ValueError ''Unknown node type'')))
     else Inl (ValueError ''Invalid presence byte in RatchetTree''))"

definition RatchetTree_parse :: "bytes \<Rightarrow> RatchetTree res" where
  "RatchetTree_parse raw =
     bindR (returned (while_read parse_node_step raw (length raw) 0)) (\<lambda>(nss, i).
     let ns = concat nss;
         implied_leaves = (int (length ns) + 1) div 2;
         n = (if implied_leaves > 0 then next_pow2 implied_leaves else 0);
         tree = RatchetTree_init n
     in Inr (tree\<lparr>nodes := ns @ replicate (nat ((2 * n - 1) - int (length ns))) None\<rparr>))"

definition RatchetTree_from_bytes :: "bytes \<Rightarrow> RatchetTree res" where
  "RatchetTree_from_bytes data =
     bindR (read_opaque data 0) (\<lambda>(raw, _). RatchetTree_parse raw)"

definition RatchetTree_from_bytes_at :: "RatchetTree reader" where
  "RatchetTree_from_bytes_at data off0 =
     bindR (read_opaque data off0) (\<lambda>(raw, off). bindR (RatchetTree_parse raw) (\<lambda>t. Inr (t, off)))"

section \<open>Well-formed trees\<close>

text \<open>
  The shape of every tree of a group: a power of two of leaves (at most \<open>2^31\<close>), the array complete,
  leaf nodes at even indices and parent nodes at odd ones.
\<close>

definition tree_shape :: "RatchetTree \<Rightarrow> nat \<Rightarrow> bool" where
  "tree_shape t d \<longleftrightarrow> d \<le> 31 \<and> num_leaves t = 2 ^ d \<and> tree_size t = 2 * 2 ^ d - 1"

fun node_fits :: "nat \<Rightarrow> Node option \<Rightarrow> bool" where
  "node_fits i None = True"
| "node_fits i (Some (Leaf l)) = even i"
| "node_fits i (Some (Parent p)) = odd i"

definition tree_typed :: "Node option list \<Rightarrow> bool" where
  "tree_typed ns \<longleftrightarrow> (\<forall>i<length ns. node_fits i (ns ! i))"

definition tree_wf :: "RatchetTree \<Rightarrow> bool" where
  "tree_wf t \<longleftrightarrow> (\<exists>d\<le>31. tree_shape t d) \<and> tree_typed (nodes t)"

lemma shape_d: "tree_shape t d \<Longrightarrow> d \<le> 31" and shape_leaves: "tree_shape t d \<Longrightarrow> num_leaves t = 2 ^ d"
  and shape_size: "tree_shape t d \<Longrightarrow> tree_size t = 2 * 2 ^ d - 1"
  by (simp_all add: tree_shape_def)

lemma tree_wfI: "tree_shape t d \<Longrightarrow> tree_typed (nodes t) \<Longrightarrow> tree_wf t"
  unfolding tree_wf_def by (auto intro: shape_d)

lemmas shape_facts = shape_d shape_leaves shape_size

lemma tnode_in_tree: "tree_shape t d \<Longrightarrow> k \<le> d \<Longrightarrow> 0 \<le> j \<Longrightarrow> tnode k j < tree_size t \<longleftrightarrow> j < 2 ^ (d - k)"
  using tnode_less [of j k d] by (simp add: shape_facts)

subsection \<open>Paths\<close>

lemma map_div_shift:
  "Suc k \<le> a \<Longrightarrow> map (\<lambda>i. f i (j div 2 ^ (i - k))) [a..<e] = map (\<lambda>i. f i (j div 2 div 2 ^ (i - Suc k))) [a..<e]"
  for j :: int
  by (rule map_cong) (auto simp: div_pow_Suc Suc_diff_Suc simp del: power_Suc)

lemma direct_path_loop_shape:
  assumes "tree_shape t d" "k < d" "0 \<le> j" "j < 2 ^ (d - k)"
  shows "direct_path_loop t (tnode d 0) (tnode k j)
       = Some (Inr (map (\<lambda>i. tnode i (j div 2 ^ (i - k))) [Suc k..<Suc d]))"
  using assms(2-)
proof (induction "d - k" arbitrary: k j)
  case (Suc m)
  have k: "d - k = Suc (d - Suc k)" using Suc.prems by simp
  have h: "0 \<le> j div 2" "j div 2 < 2 ^ (d - Suc k)" using half_less [of j "d - Suc k"] Suc.prems k by auto
  have p: "tree_parent (num_leaves t) (tnode k j) = Inr (tnode (Suc k) (j div 2))"
    using tree_nav.up_pow2 Suc.prems assms(1) by (simp add: shape_facts)
  have inside: "tnode (Suc k) (j div 2) < tree_size t"
    using tnode_in_tree [OF assms(1), of "Suc k"] Suc.prems h by simp
  show ?case
  proof (cases "Suc k = d")
    case True
    with h have "j div 2 = 0" by simp
    moreover have "d - k = 1" using True by simp
    ultimately show ?thesis using p inside True by (subst direct_path_loop.simps) simp
  next
    case False
    with Suc.prems have "Suc k < d" by simp
    moreover from this h have "direct_path_loop t (tnode d 0) (tnode (Suc k) (j div 2))
        = Some (Inr (map (\<lambda>i. tnode i (j div 2 div 2 ^ (i - Suc k))) [Suc (Suc k)..<Suc d]))"
      using Suc.hyps by (intro Suc.hyps(1)) auto
    moreover note map_div_shift [where f = tnode and a = "Suc (Suc k)" and e = "Suc d" and j = j and k = k]
    ultimately show ?thesis using p inside False
      by (subst direct_path_loop.simps) (simp add: tnode_inj upt_conv_Cons del: upt_Suc)
  qed
qed simp

lemma direct_path_upt:
  assumes "tree_shape t d" "0 \<le> i" "i < 2 ^ d"
  shows "direct_path t (2 * i) = Inr (map (\<lambda>k. tnode k (i div 2 ^ k)) [1..<Suc d])"
proof (cases "d = 0")
  case True
  with assms show ?thesis by (simp add: direct_path_def shape_facts tree_root_def)
next
  case False
  have r: "tree_root (num_leaves t) = tnode d 0" using assms(1) by (simp add: shape_facts tree_root_eq)
  have "2 * i \<noteq> tnode d 0" using False by (simp add: tnode_inj flip: tnode_0)
  with r direct_path_loop_shape [OF assms(1), of 0 i] False assms(2,3) show ?thesis
    by (simp add: direct_path_def tnode_0)
qed

lemma direct_path_shape:
  assumes "tree_shape t d" "0 \<le> i" "i < 2 ^ d"
  shows "direct_path t (2 * i) = Inr (map (\<lambda>k. tnode (Suc k) (i div 2 ^ Suc k)) [0..<d])"
  using direct_path_upt [OF assms] by (simp add: map_Suc_upt [symmetric] comp_def del: upt_Suc power_Suc)

lemma copath_loop_shape:
  assumes "tree_shape t d" "k \<le> d" "0 \<le> j" "j < 2 ^ (d - k)"
  shows "copath_loop t (tnode k j) (map (\<lambda>i. tnode i (j div 2 ^ (i - k))) [Suc k..<Suc d])
       = Inr (map (\<lambda>i. tnode i (sibling_pos (j div 2 ^ (i - k)))) [k..<d])"
  using assms(2-)
proof (induction "d - k" arbitrary: k j)
  case (Suc m)
  have k: "k < d" "d - k = Suc (d - Suc k)" using Suc.hyps(2) by simp_all
  have h: "0 \<le> j div 2" "j div 2 < 2 ^ (d - Suc k)" using half_less [of j "d - Suc k"] Suc.prems k by auto
  have sib: "tree_sibling (num_leaves t) (tnode k j) = Inr (tnode k (sibling_pos j))"
    using sibling_pow2 k Suc.prems assms(1) by (simp add: shape_facts)
  have "sibling_pos j < 2 ^ (d - k)" using sibling_pos_less [of j "d - Suc k"] Suc.prems(3) k(2) by simp
  then have inside: "tnode k (sibling_pos j) < tree_size t"
    using tnode_in_tree [OF assms(1)] Suc.prems sibling_pos_facts(1) by simp
  have "copath_loop t (tnode (Suc k) (j div 2)) (map (\<lambda>i. tnode i (j div 2 div 2 ^ (i - Suc k))) [Suc (Suc k)..<Suc d])
      = Inr (map (\<lambda>i. tnode i (sibling_pos (j div 2 div 2 ^ (i - Suc k)))) [Suc k..<d])"
    using Suc.hyps h k by (intro Suc.hyps(1)) auto
  moreover have "map (\<lambda>i. tnode i (j div 2 ^ (i - k))) [Suc k..<Suc d]
      = tnode (Suc k) (j div 2) # map (\<lambda>i. tnode i (j div 2 div 2 ^ (i - Suc k))) [Suc (Suc k)..<Suc d]"
    using k(1) by (simp add: upt_conv_Cons map_div_shift [where f = tnode] del: upt_Suc)
  moreover have "map (\<lambda>i. tnode i (sibling_pos (j div 2 ^ (i - k)))) [k..<d]
      = tnode k (sibling_pos j) # map (\<lambda>i. tnode i (sibling_pos (j div 2 div 2 ^ (i - Suc k)))) [Suc k..<d]"
    using k(1) by (simp add: upt_conv_Cons map_div_shift [where f = "\<lambda>i j. tnode i (sibling_pos j)"] del: upt_Suc)
  ultimately show ?case using sib inside by simp
qed simp

lemma copath_shape:
  assumes "tree_shape t d" "0 \<le> i" "i < 2 ^ d"
  shows "copath t (2 * i) = Inr (map (\<lambda>k. tnode k (sibling_pos (i div 2 ^ k))) [0..<d])"
  using direct_path_upt [OF assms] copath_loop_shape [OF assms(1), of 0 i] assms(2,3)
  by (simp add: copath_def tnode_0 del: upt_Suc)

text \<open>Every other leaf is below exactly one node of the copath.\<close>

lemma copath_covers:
  assumes "0 \<le> i" "i < 2 ^ d" "0 \<le> i'" "i' < 2 ^ d" "i \<noteq> i'"
  shows "\<exists>!k. k < d \<and> i' div 2 ^ k = sibling_pos (i div 2 ^ k)"
  using assms
proof (induction d arbitrary: i i')
  case (Suc d)
  show ?case
  proof (cases "i div 2 = i' div 2")
    case True
    with Suc.prems(5) have s: "i' = sibling_pos i"
      by (auto simp: sibling_pos_def elim!: evenE oddE)
    have "i' div 2 ^ k \<noteq> sibling_pos (i div 2 ^ k)" if "0 < k" for k
    proof -
      from that obtain m where "k = Suc m" by (cases k) auto
      with True have "i' div 2 ^ k = i div 2 ^ k" by (metis div_pow_Suc)
      with sibling_pos_facts(3) show ?thesis by metis
    qed
    with s show ?thesis by (intro ex1I [of _ 0]) auto
  next
    case False
    from Suc.prems half_less have "\<exists>!k. k < d \<and> i' div 2 div 2 ^ k = sibling_pos (i div 2 div 2 ^ k)"
      by (intro Suc.IH False) auto
    then obtain k where k: "k < d" "i' div 2 div 2 ^ k = sibling_pos (i div 2 div 2 ^ k)"
      and u: "\<And>m. m < d \<Longrightarrow> i' div 2 div 2 ^ m = sibling_pos (i div 2 div 2 ^ m) \<Longrightarrow> m = k" by blast
    show ?thesis
    proof (rule ex1I [of _ "Suc k"])
      show "Suc k < Suc d \<and> i' div 2 ^ Suc k = sibling_pos (i div 2 ^ Suc k)"
        using k by (simp only: div_pow_Suc) simp
      fix m assume m: "m < Suc d \<and> i' div 2 ^ m = sibling_pos (i div 2 ^ m)"
      have "m \<noteq> 0"
      proof
        assume "m = 0"
        with m have "i' = sibling_pos i" by simp
        with False sibling_pos_facts(2) show False by metis
      qed
      then obtain m' where "m = Suc m'" by (cases m) auto
      with m u [of m'] show "m = Suc k" by (simp only: div_pow_Suc) simp
    qed
  qed
qed simp

subsection \<open>Resolutions\<close>

text \<open>The resolution by recursion on the level, without indices, bounds checks and depth.\<close>

fun resolve :: "RatchetTree \<Rightarrow> nat \<Rightarrow> int \<Rightarrow> int list" where
  "resolve t 0 j = (if get_node t (tnode 0 j) \<noteq> None then [tnode 0 j] else [])"
| "resolve t (Suc k) j =
     (case get_node t (tnode (Suc k) j) of
        None \<Rightarrow> resolve t k (2 * j) @ resolve t k (2 * j + 1)
      | Some nd \<Rightarrow> tnode (Suc k) j #
          map (\<lambda>leaf. 2 * leaf) (case nd of Parent p \<Rightarrow> unmerged_leaves p | Leaf _ \<Rightarrow> []))"

lemma get_node_inside: "0 \<le> x \<Longrightarrow> x < tree_size t \<Longrightarrow> get_node t x = nodes t ! nat x"
  by (simp add: get_node_def)

lemma resolution_at_shape:
  assumes "tree_shape t d" "k \<le> d" "0 \<le> j" "j < 2 ^ (d - k)" "depth + k \<le> 32"
  shows "resolution_at t (tnode k j) depth = Inr (resolve t k j)"
  using assms(2-)
proof (induction k arbitrary: j depth)
  case 0
  then have "0 \<le> tnode 0 j" "tnode 0 j < tree_size t" "tnode 0 j mod 2 = 0"
    using tnode_in_tree [OF assms(1), of 0 j] by (auto simp: tnode_nonneg simp flip: even_iff_mod_2_eq_zero)
  with 0 show ?case by (subst resolution_at.simps) (simp add: get_node_inside)
next
  case (Suc k)
  have k: "d - k = Suc (d - Suc k)" using Suc.prems by simp
  have x: "0 \<le> tnode (Suc k) j" "tnode (Suc k) j < tree_size t"
    using tnode_in_tree [OF assms(1)] Suc.prems by (auto simp: tnode_nonneg)
  have o: "tnode (Suc k) j mod 2 \<noteq> 0" by (simp flip: even_iff_mod_2_eq_zero)
  have l: "tree_level (tnode (Suc k) j) = Suc k"
    using Suc.prems shape_d [OF assms(1)] by (intro level_tnode) auto
  have "resolution_at t (tnode k (2 * j)) (Suc depth) = Inr (resolve t k (2 * j))"
    "resolution_at t (tnode k (2 * j + 1)) (Suc depth) = Inr (resolve t k (2 * j + 1))"
    using Suc.prems k by (auto intro!: Suc.IH)
  then show ?case using x o l Suc.prems
    by (subst resolution_at.simps)
      (auto simp: get_node_inside shift_pred_def Let_def tnode_children [symmetric]
        push_bit_eq_mult split: option.splits)
qed

lemma resolution_shape:
  "tree_shape t d \<Longrightarrow> k \<le> d \<Longrightarrow> 0 \<le> j \<Longrightarrow> j < 2 ^ (d - k) \<Longrightarrow> resolution t (tnode k j) = Inr (resolve t k j)"
  unfolding resolution_def by (rule resolution_at_shape) (auto dest: shape_d)

lemma resolve_covers:
  assumes "get_node t (2 * i) \<noteq> None" "i div 2 ^ k = j"
  shows "\<exists>k'\<le>k. tnode k' (i div 2 ^ k') \<in> set (resolve t k j) \<and> get_node t (tnode k' (i div 2 ^ k')) \<noteq> None"
  using assms(2)
proof (induction k arbitrary: j)
  case 0
  with assms(1) show ?case by (intro exI [of _ 0]) (auto simp: tnode_0)
next
  case (Suc k)
  show ?case
  proof (cases "get_node t (tnode (Suc k) j)")
    case None
    from Suc.prems have "i div 2 ^ k div 2 = j" by (simp only: power_Suc2) (simp add: zdiv_zmult2_eq)
    then have "i div 2 ^ k = 2 * j \<or> i div 2 ^ k = 2 * j + 1" by auto
    with Suc.IH [OF refl] obtain k' where "k' \<le> k" "tnode k' (i div 2 ^ k') \<in> set (resolve t k (i div 2 ^ k))"
      "get_node t (tnode k' (i div 2 ^ k')) \<noteq> None" by blast
    with None \<open>i div 2 ^ k = 2 * j \<or> _\<close> show ?thesis by (intro exI [of _ k']) auto
  next
    case (Some nd)
    with Suc.prems show ?thesis by (intro exI [of _ "Suc k"]) auto
  qed
qed

lemma filter_path_shape:
  assumes "\<And>k. k \<in> set ks \<Longrightarrow> resolution t (c k) = Inr (R k) \<and> c k \<noteq> -1"
  shows "filter_path t (map (\<lambda>k. (p k, c k)) ks) = Inr (map p (filter (\<lambda>k. R k \<noteq> []) ks))"
  using assms by (induction ks) simp_all

lemma int_div_less:
  assumes "0 < m" "a < m * b"
  shows "a div m < (b :: int)"
proof (rule ccontr)
  assume "\<not> a div m < b"
  with assms(1) have "m * b \<le> m * (a div m)" by simp
  also have "\<dots> \<le> a" using assms(1) pos_mod_sign [of m a] minus_mod_eq_mult_div [of a m] by linarith
  finally show False using assms(2) by simp
qed

lemma ancestor_pos:
  assumes "0 \<le> i" "i < 2 ^ d" "k \<le> d"
  shows "0 \<le> i div 2 ^ k" "i div 2 ^ k < (2 :: int) ^ (d - k)"
proof -
  have "(2 :: int) ^ d = 2 ^ k * 2 ^ (d - k)" using assms(3) by (simp flip: power_add)
  with assms(2) show "i div 2 ^ k < (2 :: int) ^ (d - k)" by (intro int_div_less) simp_all
  show "0 \<le> i div 2 ^ k" using assms(1) by (simp add: pos_imp_zdiv_nonneg_iff)
qed

lemma copath_pos:
  assumes "0 \<le> i" "i < 2 ^ d" "k < d"
  shows "0 \<le> sibling_pos (i div 2 ^ k)" "sibling_pos (i div 2 ^ k) < 2 ^ (d - k)"
  using ancestor_pos [OF assms(1,2), of k] sibling_pos_less [of "i div 2 ^ k" "d - Suc k"] assms(3)
    sibling_pos_facts(1) by (auto simp: Suc_diff_Suc simp del: power_Suc)

lemma resolution_copath:
  assumes "tree_shape t d" "0 \<le> i" "i < 2 ^ d" "k < d"
  shows "resolution t (tnode k (sibling_pos (i div 2 ^ k))) = Inr (resolve t k (sibling_pos (i div 2 ^ k)))"
  using copath_pos [OF assms(2-4)] assms(4) by (intro resolution_shape [OF assms(1)]) auto

lemma filtered_direct_path_shape:
  assumes "tree_shape t d" "0 \<le> i" "i < 2 ^ d"
  shows "filtered_direct_path t (2 * i) =
     Inr (map (\<lambda>k. tnode (Suc k) (i div 2 ^ Suc k))
           (filter (\<lambda>k. resolve t k (sibling_pos (i div 2 ^ k)) \<noteq> []) [0..<d]))"
proof -
  let ?c = "\<lambda>k. tnode k (sibling_pos (i div 2 ^ k))" and ?p = "\<lambda>k. tnode (Suc k) (i div 2 ^ Suc k)"
  have z: "zip (map ?p [0..<d]) (map ?c [0..<d]) = map (\<lambda>k. (?p k, ?c k)) [0..<d]"
    by (simp add: zip_map_map zip_same_conv_map)
  have "filter_path t (map (\<lambda>k. (?p k, ?c k)) [0..<d])
      = Inr (map ?p (filter (\<lambda>k. resolve t k (sibling_pos (i div 2 ^ k)) \<noteq> []) [0..<d]))"
  proof (rule filter_path_shape)
    fix k assume "k \<in> set [0..<d]"
    then show "resolution t (?c k) = Inr (resolve t k (sibling_pos (i div 2 ^ k))) \<and> ?c k \<noteq> -1"
      using resolution_copath [OF assms] tnode_nonneg [of "sibling_pos (i div 2 ^ k)" k]
        copath_pos [OF assms(2,3)] by force
  qed
  then show ?thesis
    using direct_path_shape [OF assms] copath_shape [OF assms] z by (simp add: filtered_direct_path_def del: power_Suc)
qed

section \<open>The array as a store of nodes\<close>

text \<open>
  The contract of the array, as the group operations use it: after a write inside the array
  exactly the written place has changed and the tree is well-formed again.
\<close>

locale node_store =
  fixes inv :: "'t \<Rightarrow> bool" and size :: "'t \<Rightarrow> int" and fits :: "int \<Rightarrow> 'n option \<Rightarrow> bool"
    and get :: "'t \<Rightarrow> int \<Rightarrow> 'n option" and put :: "'t \<Rightarrow> int \<Rightarrow> 'n option \<Rightarrow> 't res"
  assumes put_inside: "inv t \<Longrightarrow> 0 \<le> x \<Longrightarrow> x < size t \<Longrightarrow> fits x v \<Longrightarrow>
      \<exists>t'. put t x v = Inr t' \<and> inv t' \<and> size t' = size t \<and> get t' = (get t)(x := v)"
begin

fun put_all :: "'t \<Rightarrow> (int \<times> 'n option) list \<Rightarrow> 't res" where
  "put_all t [] = Inr t"
| "put_all t ((x, v) # ws) = bindR (put t x v) (\<lambda>t'. put_all t' ws)"

lemma put_all_spec:
  assumes "inv t" "\<forall>(x, v) \<in> set ws. 0 \<le> x \<and> x < size t \<and> fits x v" "distinct (map fst ws)"
  shows "\<exists>t'. put_all t ws = Inr t' \<and> inv t' \<and> size t' = size t
     \<and> (\<forall>y. get t' y = (case map_of ws y of Some v \<Rightarrow> v | None \<Rightarrow> get t y))"
  using assms
proof (induction ws arbitrary: t)
  case (Cons w ws)
  obtain x v where w: "w = (x, v)" by (cases w)
  with Cons.prems put_inside [of t x v] obtain t1 where
    t1: "put t x v = Inr t1" "inv t1" "size t1 = size t" "get t1 = (get t)(x := v)" by auto
  with Cons.prems w Cons.IH [of t1] obtain t' where
    "put_all t1 ws = Inr t'" "inv t'" "size t' = size t1"
    "\<forall>y. get t' y = (case map_of ws y of Some v \<Rightarrow> v | None \<Rightarrow> get t1 y)" by auto
  with t1 w Cons.prems(3) show ?case
    by (auto split: option.splits dest!: map_of_SomeD simp: image_iff)
qed simp

end


text \<open>The three write operations as one.\<close>

fun tree_put :: "RatchetTree \<Rightarrow> int \<Rightarrow> Node option \<Rightarrow> RatchetTree res" where
  "tree_put t x None = blank_node t x"
| "tree_put t x (Some (Leaf l)) = set_leaf t x l"
| "tree_put t x (Some (Parent p)) = set_parent t x p"

lemma tree_typed_update: "tree_typed ns \<Longrightarrow> node_fits k v \<Longrightarrow> tree_typed (ns[k := v])"
  by (auto simp: tree_typed_def) (metis nth_list_update_eq nth_list_update_neq)

lemma tree_put_eq:
  assumes "\<not> frozen t" "0 \<le> x" "x < tree_size t" "node_fits (nat x) v"
  shows "tree_put t x v = Inr (t\<lparr>nodes := (nodes t)[nat x := v]\<rparr>)"
proof -
  have "even (nat x) \<longleftrightarrow> x mod 2 = 0" using assms(2) by (metis even_iff_mod_2_eq_zero even_nat_iff)
  with assms show ?thesis
    by (cases "(t, x, v)" rule: tree_put.cases) (auto simp: blank_node_def set_leaf_def set_parent_def py_assign_def py_pos_def)
qed

lemma tree_wf_update:
  "tree_wf t \<Longrightarrow> node_fits k v \<Longrightarrow> tree_wf (t\<lparr>nodes := (nodes t)[k := v]\<rparr>)"
  by (auto simp: tree_wf_def tree_shape_def tree_typed_update)

lemma get_node_update:
  "0 \<le> x \<Longrightarrow> x < tree_size t \<Longrightarrow> get_node (t\<lparr>nodes := (nodes t)[nat x := v]\<rparr>) = (get_node t)(x := v)"
  by (rule ext) (auto simp: get_node_def nth_list_update)

interpretation tree_store: node_store "\<lambda>t. tree_wf t \<and> \<not> frozen t" tree_size "\<lambda>x. node_fits (nat x)" get_node tree_put
  by unfold_locales (auto simp: tree_put_eq tree_wf_update get_node_update)


section \<open>Removing and expanding\<close>

lemma rightmost_leaf_snoc:
  "rightmost_leaf i (ns @ [x]) best =
     (if (i + int (length ns)) mod 2 = 0 \<and> x \<noteq> None then i + int (length ns) else rightmost_leaf i ns best)"
  by (induction ns arbitrary: i best) (simp_all add: add.assoc add.commute)

lemma rightmost_leaf_spec:
  "(\<forall>k<length ns. even k \<longrightarrow> rightmost_leaf 0 ns (-1) < int k \<longrightarrow> ns ! k = None)
   \<and> (rightmost_leaf 0 ns (-1) = -1 \<or>
      (\<exists>k<length ns. even k \<and> rightmost_leaf 0 ns (-1) = int k \<and> ns ! k \<noteq> None))"
proof (induction ns rule: rev_induct)
  case (snoc x ns)
  have e: "int (length ns) mod 2 = 0 \<longleftrightarrow> even (length ns)" by presburger
  show ?case
  proof (cases "even (length ns) \<and> x \<noteq> None")
    case True
    with e show ?thesis by (auto simp: rightmost_leaf_snoc nth_append less_Suc_eq)
  next
    case False
    with e have r: "rightmost_leaf 0 (ns @ [x]) (-1) = rightmost_leaf 0 ns (-1)"
      by (auto simp: rightmost_leaf_snoc)
    show ?thesis unfolding r using snoc False by (auto simp: nth_append less_Suc_eq)
  qed
qed simp

lemma blank_all_eq:
  assumes "\<forall>a\<in>set as. 0 \<le> a \<and> a < int (length ns)"
  shows "blank_all as ns = Inr (map (\<lambda>(k, x). if int k \<in> set as then None else x) (enumerate 0 ns))"
  using assms
proof (induction "as" arbitrary: ns)
  case Nil
  have "map (\<lambda>(k, x). x) (enumerate 0 ns) = ns" by (simp add: case_prod_beta')
  then show ?case by simp
next
  case (Cons a "as")
  have "py_assign ns a None = Inr (ns[nat a := None])"
    using Cons.prems by (simp add: py_assign_def py_pos_def)
  moreover have "blank_all as (ns[nat a := None])
      = Inr (map (\<lambda>(k, x). if int k \<in> set as then None else x) (enumerate 0 (ns[nat a := None])))"
    using Cons.prems by (intro Cons.IH) auto
  moreover have "map (\<lambda>(k, x). if int k \<in> set as then None else x) (enumerate 0 (ns[nat a := None]))
      = map (\<lambda>(k, x). if int k \<in> set (a # as) then None else x) (enumerate 0 ns)"
    using Cons.prems by (intro nth_equalityI) (auto simp: nth_enumerate_eq nth_list_update)
  ultimately show ?case by simp
qed

lemma copy_nodes_spec:
  assumes "tree_typed ns" "\<not> frozen t" "int (length ns) \<le> tree_size t" "\<forall>k<length (nodes t). nodes t ! k = None"
  shows "copy_nodes 0 ns t = Inr (t\<lparr>nodes := ns @ drop (length ns) (nodes t)\<rparr>)"
proof -
  have "copy_nodes (int (length done)) ns (t\<lparr>nodes := done @ drop (length done) (nodes t)\<rparr>)
      = Inr (t\<lparr>nodes := done @ ns @ drop (length done + length ns) (nodes t)\<rparr>)"
    if "\<forall>k<length ns. node_fits (length done + k) (ns ! k)" "length done + length ns \<le> length (nodes t)" for "done"
    using that
  proof (induction ns arbitrary: "done")
    case (Cons x ns)
    let ?l = "length done"
    define t1 where "t1 = t\<lparr>nodes := done @ drop ?l (nodes t)\<rparr>"
    have "drop ?l (nodes t) = nodes t ! ?l # drop (Suc ?l) (nodes t)"
      using Cons.prems(2) by (simp add: Cons_nth_drop_Suc)
    then have n1: "nodes t1 = done @ None # drop (Suc ?l) (nodes t)"
      using assms(4) Cons.prems(2) by (simp add: t1_def)
    have put: "tree_put t1 (int ?l) x = Inr (t\<lparr>nodes := (done @ [x]) @ drop (length (done @ [x])) (nodes t)\<rparr>)"
      using tree_put_eq [of t1 "int ?l" x] Cons.prems assms(2) n1 by (force simp: t1_def)
    have IH: "copy_nodes (int (length (done @ [x]))) ns (t\<lparr>nodes := (done @ [x]) @ drop (length (done @ [x])) (nodes t)\<rparr>)
      = Inr (t\<lparr>nodes := (done @ [x]) @ ns @ drop (length (done @ [x]) + length ns) (nodes t)\<rparr>)"
      using Cons.prems by (intro Cons.IH) (auto simp: less_Suc_eq_0_disj)
    have par: "even ?l \<longleftrightarrow> int ?l mod 2 = 0" by presburger
    show ?case
      unfolding t1_def [symmetric]
    proof (cases "(?l, x)" rule: node_fits.cases)
      case (1 i)
      then show "copy_nodes (int ?l) (x # ns) t1 = Inr (t\<lparr>nodes := done @ (x # ns) @ drop (?l + length (x # ns)) (nodes t)\<rparr>)"
        using IH n1 by (simp add: t1_def add.commute)
    next
      case (2 i l)
      then show "copy_nodes (int ?l) (x # ns) t1 = Inr (t\<lparr>nodes := done @ (x # ns) @ drop (?l + length (x # ns)) (nodes t)\<rparr>)"
        using IH put Cons.prems(1) par by (auto simp: add.commute)
    next
      case (3 i p)
      then show "copy_nodes (int ?l) (x # ns) t1 = Inr (t\<lparr>nodes := done @ (x # ns) @ drop (?l + length (x # ns)) (nodes t)\<rparr>)"
        using IH put Cons.prems(1) par by (auto simp: add.commute)
    qed
  qed simp
  from this [of "[]"] assms show ?thesis by (simp add: tree_typed_def)
qed

lemma next_pow2_le: "n \<le> 2 ^ d \<Longrightarrow> next_pow2 n \<le> 2 ^ d"
proof -
  assume n: "n \<le> 2 ^ d"
  obtain e where e: "next_pow2 n = 2 ^ e" "e = 0 \<or> next_pow2 n < 2 * n"
    using next_pow2_loop_spec [OF zero_less_one, of n] unfolding next_pow2_def mult_1 by metis
  show ?thesis
  proof (cases "e = 0")
    case False
    with e n have "(2 :: int) ^ e < 2 ^ Suc d" by simp
    then have "e \<le> d" using power_less_imp_less_exp [of "2 :: int" e "Suc d"] by simp
    with e(1) show ?thesis by (simp add: power_increasing)
  qed (use e in simp)
qed

lemma next_pow2_eq:
  obtains e where "next_pow2 n = 2 ^ e" "n \<le> 2 ^ e"
  using next_pow2_loop_spec [OF zero_less_one, of n] unfolding next_pow2_def mult_1 by metis

lemma tree_typed_take: "tree_typed ns \<Longrightarrow> tree_typed (take k ns)"
  by (simp add: tree_typed_def)

lemma get_node_take:
  "get_node (t\<lparr>num_leaves := n, nodes := take k ns\<rparr>) x
   = (if 0 \<le> x \<and> x < int k \<and> x < int (length ns) then ns ! nat x else None)"
  by (auto simp: get_node_def)

lemma path_in_tree:
  assumes "tree_shape t d" "0 \<le> i" "i < 2 ^ d" "k < d"
  shows "0 \<le> tnode (Suc k) (i div 2 ^ Suc k)" "tnode (Suc k) (i div 2 ^ Suc k) < tree_size t"
  using ancestor_pos [OF assms(2,3), of "Suc k"] assms(4) tnode_in_tree [OF assms(1), of "Suc k"]
  by (auto intro!: tnode_nonneg simp del: power_Suc)

text \<open>The array after blanking the leaf \<open>2 * i\<close> and its path.\<close>

definition blanked :: "RatchetTree \<Rightarrow> nat \<Rightarrow> int \<Rightarrow> Node option list" where
  "blanked t d i = map (\<lambda>(k, x). if int k \<in> (\<lambda>l. tnode l (i div 2 ^ l)) ` {0..d} then None else x)
     (enumerate 0 (nodes t))"

lemma remove_leaf_shape:
  assumes "tree_shape t d" "0 \<le> i" "i < 2 ^ d"
  shows "remove_leaf t (2 * i) =
     (let ns = blanked t d i; r = rightmost_leaf 0 ns (-1) in
      if r < 0 then Inr (t\<lparr>num_leaves := 0, nodes := [], frozen := False\<rparr>)
      else Inr (t\<lparr>num_leaves := next_pow2 (r div 2 + 1),
                  nodes := take (nat (2 * next_pow2 (r div 2 + 1) - 1)) ns, frozen := False\<rparr>))"
proof -
  let ?path = "map (\<lambda>k. tnode (Suc k) (i div 2 ^ Suc k)) [0..<d]"
  have x: "0 \<le> 2 * i" "2 * i < tree_size t" using assms by (simp_all add: shape_facts)
  define ns1 where "ns1 = (nodes t)[nat (2 * i) := None]"
  have a: "py_assign (nodes t) (2 * i) None = Inr ns1"
    using x by (simp add: py_assign_def py_pos_def ns1_def)
  have "tree_shape (t\<lparr>frozen := False, nodes := ns1\<rparr>) d"
    using assms(1) by (simp add: tree_shape_def ns1_def)
  from direct_path_shape [OF this assms(2,3)]
  have dp: "direct_path (t\<lparr>frozen := False, nodes := ns1\<rparr>) (2 * i) = Inr ?path" .
  have "blank_all ?path ns1 = Inr (map (\<lambda>(k, x). if int k \<in> set ?path then None else x) (enumerate 0 ns1))"
    using path_in_tree [OF assms] by (intro blank_all_eq) (auto simp: ns1_def simp del: power_Suc)
  also have "map (\<lambda>(k, x). if int k \<in> set ?path then None else x) (enumerate 0 ns1) = blanked t d i"
  proof (rule nth_equalityI)
    fix k assume "k < length (map (\<lambda>(k, x). if int k \<in> set ?path then None else x) (enumerate 0 ns1))"
    then have k: "k < length (nodes t)" by (simp add: ns1_def)
    have "{0..d} = insert 0 (Suc ` {0..<d})" by (auto simp: image_iff)
    then have "(\<lambda>l. tnode l (i div 2 ^ l)) ` {0..d} = insert (2 * i) (set ?path)"
      by (simp only: image_insert image_image set_map set_upt) (simp add: tnode_0)
    with k x show "map (\<lambda>(k, x). if int k \<in> set ?path then None else x) (enumerate 0 ns1) ! k = blanked t d i ! k"
      by (auto simp: blanked_def ns1_def nth_enumerate_eq nth_list_update simp del: set_map)
  qed (simp add: blanked_def ns1_def)
  finally have b: "blank_all ?path ns1 = Inr (blanked t d i)" .
  show ?thesis using a dp b x by (simp add: remove_leaf_def Let_def)
qed

lemma length_blanked [simp]: "length (blanked t d i) = length (nodes t)"
  by (simp add: blanked_def)

lemma nth_blanked:
  "k < length (nodes t) \<Longrightarrow> blanked t d i ! k =
     (if int k \<in> (\<lambda>l. tnode l (i div 2 ^ l)) ` {0..d} then None else nodes t ! k)"
  by (simp add: blanked_def nth_enumerate_eq)

lemma blanked_leaf:
  assumes "0 \<le> i'" "2 * i' < tree_size t"
  shows "blanked t d i ! nat (2 * i') = (if i' = i then None else nodes t ! nat (2 * i'))"
proof -
  have "2 * i' = tnode l (i div 2 ^ l) \<longleftrightarrow> l = 0 \<and> i' = i" for l
    unfolding tnode_0 [symmetric] by (auto simp: tnode_inj)
  with assms show ?thesis by (auto simp: nth_blanked)
qed

lemma tree_typed_blanked: "tree_typed (nodes t) \<Longrightarrow> tree_typed (blanked t d i)"
  by (simp add: tree_typed_def nth_blanked)

lemma remove_leaf_facts:
  assumes "tree_shape t d" "tree_typed (nodes t)" "0 \<le> i" "i < 2 ^ d"
  shows "\<exists>t'. remove_leaf t (2 * i) = Inr t' \<and> (tree_wf t' \<or> num_leaves t' = 0 \<and> nodes t' = [])
     \<and> num_leaves t' \<le> 2 ^ d \<and> \<not> frozen t'
     \<and> (num_leaves t' = 0 \<or> (\<exists>i'. num_leaves t' \<le> 2 * i' + 1 \<and> get_node t' (2 * i') \<noteq> None))
     \<and> (\<forall>l\<le>d. get_node t' (tnode l (i div 2 ^ l)) = None)
     \<and> (\<forall>i'. get_node t' (2 * i') = (if i' = i then None else get_node t (2 * i')))"
proof -
  let ?ns = "blanked t d i"
  define r where "r = rightmost_leaf 0 ?ns (-1)"
  have above: "?ns ! k = None" if "k < length (nodes t)" "even k" "r < int k" for k
    using rightmost_leaf_spec [of ?ns] that by (auto simp: r_def)
  show ?thesis
  proof (cases "r < 0")
    case True
    then have "get_node t (2 * i') = None" if "i' \<noteq> i" for i'
      using above [of "nat (2 * i')"] blanked_leaf [of i' t d i] that
      by (auto simp: get_node_def even_nat_iff)
    moreover have "remove_leaf t (2 * i) = Inr (t\<lparr>num_leaves := 0, nodes := [], frozen := False\<rparr>)"
      using remove_leaf_shape [OF assms(1,3,4)] True by (simp add: r_def Let_def)
    ultimately show ?thesis by (auto simp: get_node_def)
  next
    case False
    then obtain k where k: "k < length (nodes t)" "even k" "r = int k" "?ns ! k \<noteq> None"
      using rightmost_leaf_spec [of ?ns] by (auto simp: r_def)
    define n where "n = next_pow2 (r div 2 + 1)"
    obtain e where e: "n = 2 ^ e" "r div 2 + 1 \<le> 2 ^ e" "e = 0 \<or> n < 2 * (r div 2 + 1)"
      using next_pow2_loop_spec [OF zero_less_one, of "r div 2 + 1"] unfolding n_def next_pow2_def mult_1 by metis
    have "r div 2 + 1 \<le> 2 ^ d" using k(1,3) shape_size [OF assms(1)] by linarith
    then have nd: "n \<le> 2 ^ d" unfolding n_def by (rule next_pow2_le)
    then have ed: "e \<le> d" using e(1) by simp
    have size: "nat (2 * n - 1) \<le> length (nodes t)" using nd shape_size [OF assms(1)] by linarith
    let ?t' = "t\<lparr>num_leaves := n, nodes := take (nat (2 * n - 1)) ?ns, frozen := False\<rparr>"
    have rem: "remove_leaf t (2 * i) = Inr ?t'"
      using remove_leaf_shape [OF assms(1,3,4)] False by (simp add: r_def n_def Let_def)
    have get: "get_node ?t' x = (if 0 \<le> x \<and> x < 2 * n - 1 then ?ns ! nat x else None)" for x
      using size e(1) by (auto simp: get_node_def)
    have "tree_shape ?t' e" using ed shape_d [OF assms(1)] size e(1) by (auto simp: tree_shape_def)
    then have wf: "tree_wf ?t'" unfolding tree_wf_def using ed shape_d [OF assms(1)] assms(2)
      by (intro conjI exI [of _ e]) (simp_all add: tree_typed_take tree_typed_blanked)
    have r2: "r = 2 * (r div 2)" using k(2,3) by (auto elim: evenE)
    have leaf: "get_node ?t' (2 * i') = (if i' = i then None else get_node t (2 * i'))" for i'
    proof (cases "0 \<le> i' \<and> 2 * i' < tree_size t")
      case True
      show ?thesis
      proof (cases "2 * i' < 2 * n - 1")
        case False
        with e(1,2) r2 have "r < 2 * i'" by linarith
        with above [of "nat (2 * i')"] True have "?ns ! nat (2 * i') = None" by (simp add: even_nat_iff nat_less_iff)
        with False True blanked_leaf [of i' t d i] show ?thesis by (auto simp: get get_node_inside)
      qed (use True blanked_leaf [of i' t d i] in \<open>auto simp: get get_node_inside\<close>)
    next
      case False
      with size show ?thesis by (auto simp: get get_node_def)
    qed
    have "get_node ?t' (tnode l (i div 2 ^ l)) = None" if "l \<le> d" for l
      using that size by (auto simp: get nth_blanked)
    moreover have "r < 2 * n - 1" "n \<le> 2 * (r div 2) + 1" using e r2 k(3) by auto
    moreover from this(1) have "get_node ?t' (2 * (r div 2)) \<noteq> None" using get [of r] k r2 by simp
    ultimately have min: "num_leaves ?t' = 0 \<or> (\<exists>i'. num_leaves ?t' \<le> 2 * i' + 1 \<and> get_node ?t' (2 * i') \<noteq> None)"
      and path: "\<forall>l\<le>d. get_node ?t' (tnode l (i div 2 ^ l)) = None"
      by (auto intro!: exI [of _ "r div 2"] simp del: not_None_eq)
    show ?thesis
      by (intro exI [of _ ?t'] conjI rem disjI1 [OF wf] min path allI leaf) (use nd in simp_all)
  qed
qed

section \<open>The wire format\<close>

fun node_canon :: "Node option \<Rightarrow> Node option" where
  "node_canon None = None"
| "node_canon (Some (Leaf l)) = Some (Leaf (leaf_canon l))"
| "node_canon (Some (Parent p)) = Some (Parent p)"

definition tree_canon :: "RatchetTree \<Rightarrow> RatchetTree" where
  "tree_canon t = t\<lparr>nodes := map node_canon (nodes t), frozen := False\<rparr>"

lemma optional_node_bytes_canon [simp]: "optional_node_bytes (node_canon x) = optional_node_bytes x"
  by (cases x rule: node_canon.cases) (simp_all del: cat_res.simps)

lemma reads_tagged_node:
  assumes "reads d bs y" "bs \<noteq> []"
    and "\<And>raw i. byte_at raw i = Inr 1 \<Longrightarrow> byte_at raw (Suc i) = Inr (uint tag) \<Longrightarrow> Suc i < length raw \<Longrightarrow>
      s raw i = bindR (d raw (Suc (Suc i))) (\<lambda>(v, j). Inr ([f v], j))"
  shows "reads s (1 # tag # bs) [f y]"
proof (rule readsI)
  fix buf :: bytes and off rest
  assume off: "off \<le> length buf" "drop off buf = (1 # tag # bs) @ rest"
  note a = reads_prefix_bytes [OF off]
  note b = reads_prefix_bytes [OF a(2) a(3) [simplified append_Cons [symmetric]]]
  have "Suc off < length buf" using b(2) by simp
  with assms(3) [of buf off] a b readsD [OF assms(1) b(2,3)]
  show "s buf off = Inr ([f y], off + length (1 # tag # bs))" by simp
qed

lemma rt_optional_node: "roundtrips (optional_node_bytes x) parse_node_step [node_canon x]"
proof (cases x rule: node_canon.cases)
  case 1
  have "reads parse_node_step [0] [None]"
  proof (rule readsI)
    fix buf :: bytes and off rest assume "off \<le> length buf" "drop off buf = [0] @ rest"
    from reads_prefix_bytes(1) [OF this] show "parse_node_step buf off = Inr ([None], off + length [0 :: byte])"
      by (simp add: parse_node_step_def)
  qed
  with 1 show ?thesis by (simp add: roundtrips_def)
next
  case (2 l)
  show ?thesis
  proof (rule roundtripsI)
    fix bs assume "optional_node_bytes x = Inr bs"
    then obtain b where b: "LeafNode_to_bytes l = Inr b" "bs = 1 # 1 # b" using 2 by auto
    moreover from b(1) have r: "reads LeafNode_from_bytes_at b (leaf_canon l)" by (rule roundtripsD [OF rt_LeafNode_canon])
    moreover from reads_start [OF r, of "[]"] have "b \<noteq> []" by (auto dest: progressesD [OF progresses_LeafNode])
    ultimately show "reads parse_node_step bs [node_canon x]"
      using reads_tagged_node [OF r, of 1 parse_node_step "\<lambda>v. Some (Leaf v)"] 2 by (simp add: parse_node_step_def)
  qed
next
  case (3 p)
  show ?thesis
  proof (rule roundtripsI)
    fix bs assume "optional_node_bytes x = Inr bs"
    then obtain b where b: "ParentNode_to_bytes p = Inr b" "bs = 1 # 2 # b" using 3 by auto
    moreover from b(1) have r: "reads ParentNode_from_bytes_at b p" by (rule roundtripsD [OF rt_ParentNode])
    moreover from reads_start [OF r, of "[]"] have "b \<noteq> []" by (auto dest: progressesD [OF progresses_ParentNode])
    ultimately show "reads parse_node_step bs [node_canon x]"
      using reads_tagged_node [OF r, of 2 parse_node_step "\<lambda>v. Some (Parent v)"] 3 by (simp add: parse_node_step_def)
  qed
qed

lemma progresses_node_step: "progresses parse_node_step"
  by (auto intro!: progressesI simp: parse_node_step_def split: if_splits
      dest!: progressesD [OF progresses_LeafNode] progressesD [OF progresses_ParentNode])

lemma halts_node_step: "halts parse_node_step"
  by (auto intro!: haltsI simp: parse_node_step_def bindR_eq_Inl byte_at_def haltsD [OF halts_LeafNode]
      haltsD [OF halts_ParentNode] split: if_splits)

lemma parse_halts: "RatchetTree_parse raw \<noteq> Inl Nontermination"
  using while_read_no_divergence [OF progresses_node_step halts_node_step]
  by (auto simp: RatchetTree_parse_def bindR_eq_Inl Let_def)

lemma parse_shape:
  assumes "RatchetTree_parse raw = Inr t"
  shows "\<not> frozen t \<and> (num_leaves t = 0 \<or> (\<exists>e. num_leaves t = 2 ^ e)) \<and> 2 * num_leaves t - 1 \<le> tree_size t"
proof -
  from assms obtain ns n where t: "t = (RatchetTree_init n)\<lparr>nodes := ns @ replicate (nat ((2 * n - 1) - int (length ns))) None\<rparr>"
    and n: "n = (if (int (length ns) + 1) div 2 > 0 then next_pow2 ((int (length ns) + 1) div 2) else 0)"
    by (auto simp: RatchetTree_parse_def Let_def)
  from n have "n = 0 \<or> (\<exists>e. n = 2 ^ e)" using next_pow2_eq by (metis (full_types))
  with t show ?thesis by (auto simp: RatchetTree_init_def)
qed

lemma next_pow2_pow2: "next_pow2 (2 ^ d) = 2 ^ d"
proof -
  obtain e where "next_pow2 (2 ^ d) = 2 ^ e" "(2 :: int) ^ d \<le> 2 ^ e" using next_pow2_eq .
  with next_pow2_le [of "2 ^ d" d] show ?thesis by simp
qed

lemma parse_nodes_back:
  assumes "cat_res (map optional_node_bytes ns) = Inr raw"
  shows "while_read parse_node_step raw (length raw) 0 = Some (Inr (map (\<lambda>x. [node_canon x]) ns, length raw))"
proof -
  let ?enc = "\<lambda>l. optional_node_bytes (hd l)" and ?xs = "map (\<lambda>x. [node_canon x]) ns"
  have "cat_res (map ?enc ?xs) = Inr raw" using assms by (simp add: comp_def)
  then show ?thesis
  proof (rule while_read_cat_res [where rest = "[]"])
    fix l assume "l \<in> set ?xs"
    then obtain x where "l = [node_canon x]" by auto
    then show "roundtrips (?enc l) parse_node_step l" using rt_optional_node [of x] by simp
  qed (auto intro: progresses_node_step)
qed

lemma concat_singletons: "concat (map (\<lambda>x. [f x]) xs) = map f xs"
  by (induction xs) auto

lemma rt_RatchetTree:
  assumes "tree_shape t d"
  shows "roundtrips (RatchetTree_to_bytes t) RatchetTree_from_bytes_at (tree_canon t)"
proof (rule roundtripsI)
  fix bs assume "RatchetTree_to_bytes t = Inr bs"
  then obtain raw where raw: "cat_res (map optional_node_bytes (nodes t)) = Inr raw" "tls_opaque raw = Inr bs"
    unfolding RatchetTree_to_bytes_def tls_opaque_def by (auto simp del: cat_res.simps)
  have "RatchetTree_parse raw = Inr (tree_canon t)"
    using assms by (simp add: RatchetTree_parse_def parse_nodes_back [OF raw(1)] Let_def concat_singletons
        tree_canon_def RatchetTree_init_def shape_facts next_pow2_pow2)
  with roundtripsD [OF rt_opaque raw(2)] show "reads RatchetTree_from_bytes_at bs (tree_canon t)"
    by (intro readsI) (auto simp: RatchetTree_from_bytes_at_def dest: readsD)
qed

section \<open>Properties\<close>

text \<open>C15: a commit reaches everyone. In a well-formed tree, for the committer's leaf and any other
  occupied leaf, \<open>direct_path\<close>, \<open>copath\<close>, \<open>filtered_direct_path\<close> and \<open>resolution\<close> all return, and
  at the lowest common ancestor, which stays in the filtered direct path, the resolution of the
  copath node holds an occupied node that is the other leaf itself or one of its ancestors: the path
  secret of the common ancestor is encrypted to a key the other member can hold.\<close>

theorem commit_path_reaches_everyone:
  assumes "tree_wf t" "0 \<le> i" "i < num_leaves t" "0 \<le> i'" "i' < num_leaves t" "i' \<noteq> i"
    and "get_node t (2 * i') \<noteq> None"
  shows "\<exists>dp cp fdp dp' k res r.
     direct_path t (2 * i) = Inr dp \<and> copath t (2 * i) = Inr cp \<and> length cp = length dp
   \<and> filtered_direct_path t (2 * i) = Inr fdp \<and> direct_path t (2 * i') = Inr dp'
   \<and> k < length dp \<and> dp ! k \<in> set dp' \<and> dp ! k \<in> set fdp
   \<and> resolution t (cp ! k) = Inr res \<and> r \<in> set res \<and> get_node t r \<noteq> None
   \<and> (r = 2 * i' \<or> r \<in> set dp')"
proof -
  from assms(1) obtain d where d: "tree_shape t d" by (auto simp: tree_wf_def)
  note n = shape_leaves [OF d]
  from copath_covers [of i d i'] assms n obtain k where
    k: "k < d" "i' div 2 ^ k = sibling_pos (i div 2 ^ k)" by auto
  obtain l where l: "l \<le> k" "tnode l (i' div 2 ^ l) \<in> set (resolve t k (sibling_pos (i div 2 ^ k)))"
    "get_node t (tnode l (i' div 2 ^ l)) \<noteq> None"
    using resolve_covers [OF assms(7) k(2)] by blast
  have common: "i div 2 ^ Suc k = i' div 2 ^ Suc k"
    using k(2) sibling_pos_facts(2) [of "i div 2 ^ k"] by (simp only: power_Suc2) (simp add: zdiv_zmult2_eq)
  define dp dp' cp where "dp = map (\<lambda>k. tnode (Suc k) (i div 2 ^ Suc k)) [0..<d]"
    and "dp' = map (\<lambda>k. tnode (Suc k) (i' div 2 ^ Suc k)) [0..<d]"
    and "cp = map (\<lambda>k. tnode k (sibling_pos (i div 2 ^ k))) [0..<d]"
  define fdp where "fdp = map (\<lambda>k. tnode (Suc k) (i div 2 ^ Suc k))
    (filter (\<lambda>k. resolve t k (sibling_pos (i div 2 ^ k)) \<noteq> []) [0..<d])"
  have i: "i < 2 ^ d" "i' < 2 ^ d" using assms(3,5) n by simp_all
  have "tnode l (i' div 2 ^ l) = 2 * i' \<or> tnode l (i' div 2 ^ l) \<in> set dp'"
    using l(1) k(1) by (cases l) (auto simp: tnode_0 dp'_def simp del: power_Suc)
  moreover have "k < length dp" "dp ! k = tnode (Suc k) (i div 2 ^ Suc k)" "cp ! k = tnode k (sibling_pos (i div 2 ^ k))"
    "length cp = length dp"
    using k(1) by (simp_all add: dp_def cp_def del: power_Suc)
  moreover have "tnode (Suc k) (i div 2 ^ Suc k) \<in> set dp'"
    using k(1) common by (auto simp: dp'_def simp del: power_Suc)
  moreover have "tnode (Suc k) (i div 2 ^ Suc k) \<in> set fdp"
    using k(1) l(2) by (force simp: fdp_def simp del: power_Suc)
  moreover have "direct_path t (2 * i) = Inr dp" "direct_path t (2 * i') = Inr dp'" "copath t (2 * i) = Inr cp"
    "filtered_direct_path t (2 * i) = Inr fdp"
    unfolding dp_def dp'_def cp_def fdp_def
    by (rule direct_path_shape copath_shape filtered_direct_path_shape, rule d, rule assms, rule i)+
  moreover have "resolution t (tnode k (sibling_pos (i div 2 ^ k))) = Inr (resolve t k (sibling_pos (i div 2 ^ k)))"
    using d assms(2) i(1) k(1) by (rule resolution_copath)
  ultimately show ?thesis using l(2,3) by metis
qed

text \<open>C19: removing a member. On a well-formed tree \<open>remove_leaf\<close> returns a tree in which the leaf and
  its whole direct path are blank and every other leaf is as before; the tree is well-formed again
  (or empty when nobody is left), not larger than before, not frozen, and minimal: its right half
  holds a member.\<close>

theorem remove_leaf_correct:
  assumes "tree_wf t" "0 \<le> i" "i < num_leaves t"
  shows "\<exists>t' dp. remove_leaf t (2 * i) = Inr t' \<and> direct_path t (2 * i) = Inr dp
     \<and> (tree_wf t' \<or> num_leaves t' = 0 \<and> nodes t' = []) \<and> num_leaves t' \<le> num_leaves t \<and> \<not> frozen t'
     \<and> (num_leaves t' = 0 \<or> (\<exists>i'. num_leaves t' \<le> 2 * i' + 1 \<and> get_node t' (2 * i') \<noteq> None))
     \<and> (\<forall>x\<in>set dp. get_node t' x = None)
     \<and> (\<forall>i'. get_node t' (2 * i') = (if i' = i then None else get_node t (2 * i')))"
proof -
  from assms(1) obtain d where d: "tree_shape t d" "tree_typed (nodes t)" by (auto simp: tree_wf_def)
  note n = shape_leaves [OF d(1)]
  from assms(3) n have i: "i < 2 ^ d" by simp
  from remove_leaf_facts [OF d assms(2) i] obtain t' where t': "remove_leaf t (2 * i) = Inr t'"
    "tree_wf t' \<or> num_leaves t' = 0 \<and> nodes t' = []" "num_leaves t' \<le> 2 ^ d" "\<not> frozen t'"
    "num_leaves t' = 0 \<or> (\<exists>i'. num_leaves t' \<le> 2 * i' + 1 \<and> get_node t' (2 * i') \<noteq> None)"
    "\<forall>l\<le>d. get_node t' (tnode l (i div 2 ^ l)) = None"
    "\<forall>i'. get_node t' (2 * i') = (if i' = i then None else get_node t (2 * i'))" by blast
  moreover have "\<forall>x\<in>set (map (\<lambda>k. tnode (Suc k) (i div 2 ^ Suc k)) [0..<d]). get_node t' x = None"
    using t'(6) by (auto simp del: power_Suc)
  ultimately show ?thesis unfolding n using direct_path_shape [OF d(1) assms(2) i] by blast
qed

text \<open>C32: a well-formed tree survives the wire: \<open>from_bytes\<close> and \<open>from_bytes_at\<close> return it from what
  \<open>to_bytes\<close> wrote, leaves in canonical form and not frozen.\<close>

theorem RatchetTree_roundtrip:
  assumes "tree_wf t" "RatchetTree_to_bytes t = Inr bs"
  shows "RatchetTree_from_bytes_at (pre @ bs @ post) (length pre) = Inr (tree_canon t, length pre + length bs)
       \<and> RatchetTree_from_bytes (bs @ post) = Inr (tree_canon t) \<and> RatchetTree_to_bytes (tree_canon t) = Inr bs"
proof -
  from assms(1) obtain d where "tree_shape t d" by (auto simp: tree_wf_def)
  from roundtripsD [OF rt_RatchetTree [OF this] assms(2)]
  have r: "reads RatchetTree_from_bytes_at bs (tree_canon t)" .
  have "RatchetTree_from_bytes (bs @ post) = bindR (RatchetTree_from_bytes_at (bs @ post) 0) (\<lambda>(x, _). Inr x)"
    by (auto simp: RatchetTree_from_bytes_def RatchetTree_from_bytes_at_def bindR_assoc intro!: bindR_cong split: prod.split)
  with reads_start [OF r, of post] have "RatchetTree_from_bytes (bs @ post) = Inr (tree_canon t)" by simp
  moreover have "RatchetTree_to_bytes (tree_canon t) = Inr bs"
    using assms(2) by (simp add: RatchetTree_to_bytes_def tree_canon_def comp_def)
  ultimately show ?thesis using readsD [OF r, of "length pre" "pre @ bs @ post" post] by simp
qed

text \<open>Whatever bytes arrive, parsing a ratchet tree returns or raises; and a parsed tree has a
  power of two of leaves.\<close>

theorem RatchetTree_parse_safe:
  "RatchetTree_from_bytes_at data off \<noteq> Inl Nontermination
   \<and> (case RatchetTree_from_bytes_at data off of
        Inl _ \<Rightarrow> True
      | Inr (t, off') \<Rightarrow> off < off' \<and> off' \<le> length data \<and> \<not> frozen t
          \<and> (num_leaves t = 0 \<or> (\<exists>e. num_leaves t = 2 ^ e)) \<and> 2 * num_leaves t - 1 \<le> tree_size t)"
proof (cases "RatchetTree_from_bytes_at data off")
  case (Inl e)
  have "RatchetTree_from_bytes_at data off \<noteq> Inl Nontermination"
    using parse_halts haltsD [OF halts_opaques(1)]
    by (auto simp: RatchetTree_from_bytes_at_def bindR_eq_Inl)
  with Inl show ?thesis by simp
next
  case (Inr r)
  then obtain raw off' t where r: "read_opaque data off = Inr (raw, off')" "RatchetTree_parse raw = Inr t" "r = (t, off')"
    by (auto simp: RatchetTree_from_bytes_at_def)
  have "off < off'" using progressesD [OF progresses_opaque r(1)] .
  moreover have "off' \<le> length data" using r(1) by (auto simp: read_opaque_def split: if_splits)
  ultimately show ?thesis using parse_shape [OF r(2)] Inr r(3) by simp
qed

text \<open>C33: the invariant of the array. \<open>RatchetTree(n)\<close> is well-formed for every power of two \<open>n\<close>; a
  write of a node of the right kind inside the array (\<open>set_leaf\<close>, \<open>set_parent\<close>, \<open>blank_node\<close>)
  succeeds on a tree that is not frozen, keeps it well-formed and changes exactly the written
  place; a write at the wrong parity raises; every write on a frozen tree raises.\<close>

theorem tree_writes_keep_invariant:
  assumes "tree_wf t" "0 \<le> x" "x < tree_size t"
  shows "(\<not> frozen t \<and> even x \<longrightarrow>
      (\<exists>t'. set_leaf t x l = Inr t' \<and> tree_wf t' \<and> get_node t' = (get_node t)(x := Some (Leaf l))))
   \<and> (\<not> frozen t \<and> odd x \<longrightarrow>
      (\<exists>t'. set_parent t x p = Inr t' \<and> tree_wf t' \<and> get_node t' = (get_node t)(x := Some (Parent p))))
   \<and> (\<not> frozen t \<longrightarrow> (\<exists>t'. blank_node t x = Inr t' \<and> tree_wf t' \<and> get_node t' = (get_node t)(x := None)))
   \<and> (odd x \<longrightarrow> isl (set_leaf t x l)) \<and> (even x \<longrightarrow> isl (set_parent t x p))
   \<and> isl (set_leaf (freeze t) x l) \<and> isl (set_parent (freeze t) x p) \<and> isl (blank_node (freeze t) x)"
proof -
  have e: "node_fits (nat x) (Some (Leaf l)) \<longleftrightarrow> even x" "node_fits (nat x) (Some (Parent p)) \<longleftrightarrow> odd x"
    using assms(2) by (simp_all add: even_nat_iff)
  have "x mod 2 = 0 \<longleftrightarrow> even x" by presburger
  then show ?thesis
    using tree_store.put_inside [of t x "Some (Leaf l)"] tree_store.put_inside [of t x "Some (Parent p)"]
      tree_store.put_inside [of t x None] assms unfolding e
    by (auto simp: set_leaf_def set_parent_def blank_node_def freeze_def)
qed

text \<open>\<open>expanded\<close> grows a well-formed tree to any larger power of two of leaves, keeps every node and
  leaves the new places blank.\<close>

theorem expanded_correct:
  assumes "tree_wf t" "num_leaves t \<le> 2 ^ e" "e \<le> 31"
  shows "\<exists>t'. expanded t (2 ^ e) = Inr t' \<and> tree_wf t' \<and> num_leaves t' = 2 ^ e \<and> get_node t' = get_node t"
proof -
  from assms(1) obtain d where d: "tree_shape t d" "tree_typed (nodes t)" by (auto simp: tree_wf_def)
  let ?t0 = "RatchetTree_init (2 ^ e)"
  let ?t' = "?t0\<lparr>nodes := nodes t @ drop (length (nodes t)) (nodes ?t0)\<rparr>"
  have le: "length (nodes t) \<le> length (nodes ?t0)"
    using assms(2) shape_size [OF d(1)] shape_leaves [OF d(1)]
    by (simp add: RatchetTree_init_def le_nat_iff del: power_increasing_iff)
  have blank: "\<forall>k<length (nodes ?t0). nodes ?t0 ! k = None" by (simp add: RatchetTree_init_def)
  have "expanded t (2 ^ e) = Inr ?t'"
    using copy_nodes_spec [OF d(2) _ _ blank] le assms(2)
    by (simp add: expanded_def) (simp add: RatchetTree_init_def)
  moreover have "tree_shape ?t' e" using assms(3) le by (simp add: tree_shape_def RatchetTree_init_def)
  then have "tree_wf ?t'" unfolding tree_wf_def using assms(3) d(2) blank
    by (intro conjI exI [of _ e]) (auto simp: tree_typed_def nth_append)
  moreover have "get_node ?t' = get_node t"
    using le blank by (intro ext) (auto simp: get_node_def nth_append nat_less_iff)
  ultimately show ?thesis by (auto simp: RatchetTree_init_def)
qed

text \<open>A tree of four leaves, three of them occupied, for the witnesses.\<close>

definition demo_tree :: RatchetTree where
  "demo_tree = \<lparr>num_leaves = 4,
     nodes = [Some (Leaf demo_leaf), None, Some (Leaf demo_leaf),
       Some (Parent \<lparr>parent_public_key = [7], parent_parent_hash = [], unmerged_leaves = [2]\<rparr>),
       Some (Leaf demo_leaf), None, None], frozen = False\<rparr>"

lemma demo_tree_wf: "tree_wf demo_tree"
proof -
  have "tree_shape demo_tree 2" by code_simp
  moreover have "tree_typed (nodes demo_tree)" by code_simp
  ultimately show ?thesis by (rule tree_wfI)
qed

theorem commit_path_reaches_everyone_witness:
  "\<exists>cp k res r. copath demo_tree 0 = Inr cp \<and> resolution demo_tree (cp ! k) = Inr res
     \<and> r \<in> set res \<and> get_node demo_tree r \<noteq> None"
proof -
  have "num_leaves demo_tree = 4" "get_node demo_tree (2 * 2) \<noteq> None" by code_simp+
  then show ?thesis using commit_path_reaches_everyone [OF demo_tree_wf, of 0 2] by fastforce
qed

theorem remove_leaf_correct_witness:
  "\<exists>t'. remove_leaf demo_tree 4 = Inr t' \<and> get_node t' 4 = None \<and> get_node t' 2 = Some (Leaf demo_leaf)"
proof -
  have "num_leaves demo_tree = 4" "get_node demo_tree 2 = Some (Leaf demo_leaf)" by code_simp+
  then obtain t' where t': "remove_leaf demo_tree (2 * 2) = Inr t'"
    "\<forall>i'. get_node t' (2 * i') = (if i' = 2 then None else get_node demo_tree (2 * i'))"
    using remove_leaf_correct [OF demo_tree_wf, of 2] by auto
  from t'(2) [rule_format, of 1] t'(2) [rule_format, of 2] t'(1) \<open>get_node demo_tree 2 = _\<close>
  show ?thesis by simp
qed

theorem RatchetTree_roundtrip_witness:
  "\<exists>bs. RatchetTree_to_bytes demo_tree = Inr bs \<and> RatchetTree_from_bytes bs = Inr (tree_canon demo_tree)"
proof -
  have "\<exists>bs. RatchetTree_to_bytes demo_tree = Inr bs"
  proof (rule not_isl_Inr)
    show "\<not> isl (RatchetTree_to_bytes demo_tree)" by code_simp
  qed
  then obtain bs where bs: "RatchetTree_to_bytes demo_tree = Inr bs" by blast
  from RatchetTree_roundtrip [OF demo_tree_wf bs, of "[]" "[]"] bs show ?thesis by simp
qed

theorem tree_writes_keep_invariant_witness:
  "\<exists>t'. set_leaf demo_tree 6 demo_leaf = Inr t' \<and> tree_wf t' \<and> get_node t' 6 = Some (Leaf demo_leaf)"
proof -
  have "tree_size demo_tree = 7" "\<not> frozen demo_tree" by code_simp+
  with tree_writes_keep_invariant [OF demo_tree_wf, of 6 demo_leaf] show ?thesis by fastforce
qed

theorem expanded_correct_witness:
  "\<exists>t'. expanded demo_tree 8 = Inr t' \<and> tree_wf t' \<and> num_leaves t' = 8 \<and> get_node t' = get_node demo_tree"
proof -
  have "num_leaves demo_tree = 4" by code_simp
  with expanded_correct [OF demo_tree_wf, of 3] show ?thesis by simp
qed
end
