(* ===== verification/TreeHash.thy ===== *)
theory TreeHash
  imports RatchetTrees Keys
begin

text \<open>
  The tree hash of \<open>tree.py\<close> and the helpers of \<open>crypto.py\<close>: subtree hashes, parent hashes and the
  HPKE info strings. The theorems: both recursive hashes terminate and agree on every well-formed
  tree; the tree hash determines the tree unless SHA-256 collides on the inputs hashed; the info
  strings separate their uses.
\<close>

section \<open>Levels go down\<close>

lemma level_loop_bits: "i \<le> j \<Longrightarrow> j < level_loop x i \<Longrightarrow> bit x j"
proof (induction x i rule: level_loop.induct)
  case (1 x i)
  then show ?case
    using 1(3) [unfolded level_loop.simps [of x i]] by (cases "i = j"; auto simp: and_one_bit split: if_splits)
qed

lemma level_loop_le: "i \<le> m \<Longrightarrow> \<not> bit x m \<Longrightarrow> level_loop x i \<le> m"
proof (induction x i rule: level_loop.induct)
  case (1 x i)
  then show ?case
    by (subst level_loop.simps) (cases "i = m"; auto simp: and_one_bit)
qed

lemma level_bit: "tree_level x = Suc m \<Longrightarrow> bit x m"
  by (rule level_loop_bits [of 0]) (auto simp: tree_level_def split: if_splits)

lemma level_le: "\<not> bit x m \<Longrightarrow> tree_level x \<le> m"
  using level_loop_le [of 0 m x] by (auto simp: tree_level_def)

lemma level_clear:
  assumes "tree_level x = Suc m"
  shows "tree_level (x XOR push_bit m 1) \<le> m" "tree_level (x XOR push_bit m 3) \<le> m"
    "tree_level (x - push_bit m 1) \<le> m" "tree_level (x + push_bit m 1) \<le> m"
proof -
  have b: "bit x m" using assms by (rule level_bit)
  have "bit (push_bit m (3 :: int)) m" by (simp add: bit_simps bit_0)
  with b show "tree_level (x XOR push_bit m 1) \<le> m" "tree_level (x XOR push_bit m 3) \<le> m"
    by (auto intro!: level_le simp: bit_simps)
  have "odd (x div 2 ^ m)" using b by (simp add: bit_iff_odd)
  moreover have "(x - 2 ^ m) div 2 ^ m = x div 2 ^ m - 1" "(x + 2 ^ m) div 2 ^ m = x div 2 ^ m + 1"
    using div_add_self2 [of "2 ^ m" x] div_add_self2 [of "2 ^ m" "x - 2 ^ m"] by simp_all
  ultimately show "tree_level (x - push_bit m 1) \<le> m" "tree_level (x + push_bit m 1) \<le> m"
    by (auto intro!: level_le simp: bit_iff_odd push_bit_eq_mult)
qed

lemma shift_pred_level:
  assumes "shift_pred 1 (tree_level x) = Inr h"
  shows "tree_level (x XOR h) < tree_level x" "tree_level (x - h) < tree_level x" "tree_level (x + h) < tree_level x"
  using assms level_clear [of x "tree_level x - 1"] by (auto simp: shift_pred_def split: if_splits)

lemma shift_pred_level3: "shift_pred 3 (tree_level x) = Inr h \<Longrightarrow> tree_level (x XOR h) < tree_level x"
  using level_clear [of x "tree_level x - 1"] by (auto simp: shift_pred_def split: if_splits)

section \<open>Model: \<open>RatchetTree.tree_hash\<close>\<close>

text \<open>The inner loop: the right child, moved down-left until it is in range.\<close>

function descend_right :: "int \<Rightarrow> int \<Rightarrow> int res" where
  "descend_right w r =
     (if r \<ge> w then bindR (shift_pred 1 (tree_level r)) (\<lambda>h. descend_right w (r XOR h)) else Inr r)"
  by auto
termination by (relation "measure (\<lambda>(w, r). tree_level r)") (auto dest: shift_pred_level)

declare descend_right.simps [simp del]

lemma descend_right_level: "descend_right w r = Inr r' \<Longrightarrow> tree_level r' \<le> tree_level r"
proof (induction w r rule: descend_right.induct)
  case (1 w r)
  then show ?case
    by (subst (asm) (2) descend_right.simps) (fastforce split: if_splits dest: shift_pred_level(1))
qed

function node_hash :: "RatchetTree \<Rightarrow> int \<Rightarrow> bytes res" where
  "node_hash t index =
     (if index < 0 \<or> index \<ge> tree_size t then Inr (digest sha256 [0x00])
      else
        let node = nodes t ! nat index; w = tree_size t in
        if index mod 2 = 0 then
          bindR (cat_res
            [Inr [0x01], tls_u32 (index div 2),
             (case node of None \<Rightarrow> Inr [0x00] | Some nd \<Rightarrow> cat_res [Inr [0x01], Node_to_bytes nd])])
            (\<lambda>res. Inr (digest sha256 res))
        else
          bindR (shift_pred 1 (tree_level index)) (\<lambda>hl.
          bindR (shift_pred 3 (tree_level index)) (\<lambda>hr.
          bindR (descend_right w (index XOR hr)) (\<lambda>right_idx.
          bindR (node_hash t (index XOR hl)) (\<lambda>left_h.
          bindR (node_hash t right_idx) (\<lambda>right_h.
          bindR (cat_res
            [Inr [0x02],
             (case node of None \<Rightarrow> Inr [0x00] | Some nd \<Rightarrow> cat_res [Inr [0x01], Node_to_bytes nd]),
             tls_opaque left_h, tls_opaque right_h])
            (\<lambda>res. Inr (digest sha256 res))))))))"
  by auto
termination
  by (relation "measure (\<lambda>(t, x). tree_level x)")
    (auto dest: shift_pred_level(1) dest!: descend_right_level shift_pred_level3)

declare node_hash.simps [simp del]

definition tree_hash :: "RatchetTree \<Rightarrow> bytes res" where
  "tree_hash t =
     (if nodes t = [] then Inr (digest sha256 []) else node_hash t (tree_root (num_leaves t)))"

section \<open>Model: \<open>crypto.py\<close>\<close>

definition make_hpke_info :: "string \<Rightarrow> bytes \<Rightarrow> bytes res" where
  "make_hpke_info label context =
     (let full_label = encode_str ''MLS 1.0 '' @ encode_str label
      in cat_res [tls_opaque full_label, tls_opaque context])"

definition egs_info :: "bytes \<Rightarrow> bytes res" where
  "egs_info egi = make_hpke_info ''Welcome'' egi"

definition up_info :: "bytes \<Rightarrow> bytes res" where
  "up_info group_ctx = make_hpke_info ''UpdatePathNode'' group_ctx"

function subtree_hash :: "RatchetTree \<Rightarrow> int \<Rightarrow> bytes res" where
  "subtree_hash t index =
     (if index < 0 \<or> index \<ge> tree_size t then Inr (digest sha256 [])
      else
        let node = get_node t index in
        if index mod 2 = 0 then
          bindR (cat_res [Inr [0x01], tls_u32 (index div 2)]) (\<lambda>leaf_prefix.
          case node of
            None \<Rightarrow> Inr (digest sha256 (leaf_prefix @ [0x00]))
          | Some (Parent p) \<Rightarrow> Inl AssertionError
          | Some (Leaf l) \<Rightarrow>
              bindR (LeafNode_to_bytes l) (\<lambda>b. Inr (digest sha256 (leaf_prefix @ [0x01] @ b))))
        else
          bindR (shift_pred 1 (tree_level index)) (\<lambda>child_dist.
          bindR (subtree_hash t (index - child_dist)) (\<lambda>left_hash.
          bindR (subtree_hash t (index + child_dist)) (\<lambda>right_hash.
          case node of
            None \<Rightarrow>
              bindR (cat_res [Inr [0x02, 0x00], tls_opaque left_hash, tls_opaque right_hash])
                (\<lambda>b. Inr (digest sha256 b))
          | Some (Leaf l) \<Rightarrow> Inl AssertionError
          | Some (Parent p) \<Rightarrow>
              bindR (cat_res [Inr [0x02, 0x01], ParentNode_to_bytes p, tls_opaque left_hash, tls_opaque right_hash])
                (\<lambda>b. Inr (digest sha256 b))))))"
  by auto
termination by (relation "measure (\<lambda>(t, x). tree_level x)") (auto dest: shift_pred_level(2,3))

declare subtree_hash.simps [simp del]

definition compute_parent_hash :: "bytes \<Rightarrow> bytes \<Rightarrow> bytes \<Rightarrow> bytes res" where
  "compute_parent_hash new_public_key parent_hash_of_parent original_sibling_tree_hash =
     bindR (cat_res [tls_opaque (encode_str ''MLS 1.0 parent hash''), tls_opaque new_public_key,
                     tls_opaque parent_hash_of_parent, tls_opaque original_sibling_tree_hash])
       (\<lambda>b. Inr (digest sha256 b))"

section \<open>Both hashes by recursion on the level\<close>

definition optional_body :: "Node option \<Rightarrow> bytes res" where
  "optional_body node = (case node of None \<Rightarrow> Inr [0x00] | Some nd \<Rightarrow> cat_res [Inr [0x01], Node_to_bytes nd])"

text \<open>The byte string that is hashed at the node \<open>(k, j)\<close>.\<close>

fun hash_input :: "RatchetTree \<Rightarrow> nat \<Rightarrow> int \<Rightarrow> bytes res" where
  "hash_input t 0 j = cat_res [Inr [0x01], tls_u32 j, optional_body (get_node t (tnode 0 j))]"
| "hash_input t (Suc k) j =
     bindR (hash_input t k (2 * j)) (\<lambda>l.
     bindR (hash_input t k (2 * j + 1)) (\<lambda>r.
     cat_res [Inr [0x02], optional_body (get_node t (tnode (Suc k) j)),
              tls_opaque (digest sha256 l), tls_opaque (digest sha256 r)]))"

lemma node_hash_shape:
  assumes "tree_shape t d" "k \<le> d" "0 \<le> j" "j < 2 ^ (d - k)"
  shows "node_hash t (tnode k j) = bindR (hash_input t k j) (\<lambda>m. Inr (digest sha256 m))"
  using assms(2-)
proof (induction k arbitrary: j)
  case 0
  then have "0 \<le> tnode 0 j" "tnode 0 j < tree_size t" "tnode 0 j mod 2 = 0" "tnode 0 j div 2 = j"
    using tnode_in_tree [OF assms(1), of 0 j] by (auto simp: tnode_nonneg tnode_0)
  then show ?case by (subst node_hash.simps) (simp add: get_node_inside optional_body_def Let_def del: cat_res.simps)
next
  case (Suc k)
  have k: "d - k = Suc (d - Suc k)" using Suc.prems by simp
  have x: "0 \<le> tnode (Suc k) j" "tnode (Suc k) j < tree_size t"
    using tnode_in_tree [OF assms(1)] Suc.prems by (auto simp: tnode_nonneg)
  have o: "tnode (Suc k) j mod 2 \<noteq> 0" by (simp flip: even_iff_mod_2_eq_zero)
  have l: "tree_level (tnode (Suc k) j) = Suc k"
    using Suc.prems shape_d [OF assms(1)] by (intro level_tnode) auto
  have r: "tnode k (2 * j + 1) < tree_size t" using tnode_in_tree [OF assms(1)] Suc.prems k by simp
  then have "descend_right (tree_size t) (tnode k (2 * j + 1)) = Inr (tnode k (2 * j + 1))"
    by (subst descend_right.simps) simp
  moreover have "node_hash t (tnode k (2 * j)) = bindR (hash_input t k (2 * j)) (\<lambda>m. Inr (digest sha256 m))"
    "node_hash t (tnode k (2 * j + 1)) = bindR (hash_input t k (2 * j + 1)) (\<lambda>m. Inr (digest sha256 m))"
    using Suc.prems k by (auto intro!: Suc.IH)
  ultimately show ?case using x o l xor_left [of k j] xor_right [of k j]
    by (subst node_hash.simps)
      (simp add: get_node_inside optional_body_def shift_pred_def Let_def bindR_assoc del: cat_res.simps)
qed

lemma subtree_hash_shape:
  assumes "tree_shape t d" "tree_typed (nodes t)" "k \<le> d" "0 \<le> j" "j < 2 ^ (d - k)"
  shows "subtree_hash t (tnode k j) = bindR (hash_input t k j) (\<lambda>m. Inr (digest sha256 m))"
  using assms(3-)
proof (induction k arbitrary: j)
  case 0
  then have x: "0 \<le> tnode 0 j" "tnode 0 j < tree_size t" "tnode 0 j mod 2 = 0" "tnode 0 j div 2 = j"
    using tnode_in_tree [OF assms(1), of 0 j] by (auto simp: tnode_nonneg tnode_0)
  then have "node_fits (nat (tnode 0 j)) (get_node t (tnode 0 j))"
    using assms(2) by (simp add: tree_typed_def get_node_inside nat_less_iff)
  then have "get_node t (tnode 0 j) = None \<or> (\<exists>l. get_node t (tnode 0 j) = Some (Leaf l))"
    using x(1) by (cases "(nat (tnode 0 j), get_node t (tnode 0 j))" rule: node_fits.cases) (auto simp: even_nat_iff)
  then show ?case using x by (subst subtree_hash.simps)
     (auto simp: optional_body_def Let_def bindR_assoc)
next
  case (Suc k)
  have k: "d - k = Suc (d - Suc k)" using Suc.prems by simp
  have x: "0 \<le> tnode (Suc k) j" "tnode (Suc k) j < tree_size t"
    using tnode_in_tree [OF assms(1)] Suc.prems by (auto simp: tnode_nonneg)
  have o: "tnode (Suc k) j mod 2 \<noteq> 0" by (simp flip: even_iff_mod_2_eq_zero)
  have l: "tree_level (tnode (Suc k) j) = Suc k"
    using Suc.prems shape_d [OF assms(1)] by (intro level_tnode) auto
  have "node_fits (nat (tnode (Suc k) j)) (get_node t (tnode (Suc k) j))"
    using assms(2) x by (simp add: tree_typed_def get_node_inside nat_less_iff)
  then have "get_node t (tnode (Suc k) j) = None \<or> (\<exists>p. get_node t (tnode (Suc k) j) = Some (Parent p))"
    using x(1) by (cases "(nat (tnode (Suc k) j), get_node t (tnode (Suc k) j))" rule: node_fits.cases)
      (auto simp: even_nat_iff)
  moreover have "subtree_hash t (tnode k (2 * j)) = bindR (hash_input t k (2 * j)) (\<lambda>m. Inr (digest sha256 m))"
    "subtree_hash t (tnode k (2 * j + 1)) = bindR (hash_input t k (2 * j + 1)) (\<lambda>m. Inr (digest sha256 m))"
    using Suc.prems k by (auto intro!: Suc.IH)
  ultimately show ?case using x o l
    by (subst subtree_hash.simps)
      (auto simp: optional_body_def shift_pred_def Let_def bindR_assoc push_bit_eq_mult
        tnode_children [symmetric])
qed

section \<open>The tree hash binds the tree\<close>

text \<open>The inputs of all hashes of a tree of depth \<open>d\<close>.\<close>

definition hash_inputs :: "RatchetTree \<Rightarrow> nat \<Rightarrow> bytes set" where
  "hash_inputs t d = {m. \<exists>k j. k \<le> d \<and> 0 \<le> j \<and> j < 2 ^ (d - k) \<and> hash_input t k j = Inr m}"

lemma u32_inj: "tls_u32 a = Inr x \<Longrightarrow> tls_u32 b = Inr y \<Longrightarrow> x @ r = y @ s \<Longrightarrow> a = b \<and> r = s"
proof -
  assume *: "tls_u32 a = Inr x" "tls_u32 b = Inr y" "x @ r = y @ s"
  then have l: "length x = length y" by (simp add: tls_u32_def)
  with *(3) have "x = y" "r = s" by auto
  with * roundtrips_inj [OF rt_u32 rt_u32] show ?thesis by auto
qed

lemma leaf_bytes_inj:
  "LeafNode_to_bytes l = Inr x \<Longrightarrow> LeafNode_to_bytes l' = Inr x \<Longrightarrow> leaf_canon l = leaf_canon l'"
  by (rule roundtrips_inj [OF rt_LeafNode_canon rt_LeafNode_canon])

lemma parent_bytes_inj:
  "ParentNode_to_bytes p = Inr x \<Longrightarrow> ParentNode_to_bytes p' = Inr y \<Longrightarrow> x @ r = y @ s \<Longrightarrow> p = p' \<and> r = s"
  using parent_node.prefix_free [where x = p and y = p' and bs = x and cs = y and r = r and s = s] by simp

lemma leaf_body_inj:
  assumes "node_fits 0 a" "node_fits 0 b" "optional_body a = Inr x" "optional_body b = Inr x"
  shows "node_canon a = node_canon b"
  using assms by (cases a rule: node_canon.cases; cases b rule: node_canon.cases)
    (auto simp: optional_body_def dest: leaf_bytes_inj)

lemma parent_body_inj:
  assumes "node_fits 1 a" "node_fits 1 b" "optional_body a = Inr x" "optional_body b = Inr y" "x @ r = y @ s"
  shows "a = b \<and> r = s"
proof -
  have c: "v = None \<and> z = [0] \<or> (\<exists>p w. v = Some (Parent p) \<and> ParentNode_to_bytes p = Inr w \<and> z = 1 # w)"
    if "node_fits 1 v" "optional_body v = Inr z" for v z
    using that by (cases v rule: node_canon.cases) (auto simp: optional_body_def)
  show ?thesis
  proof (cases "a = None \<or> b = None")
    case True
    with c [OF assms(1,3)] c [OF assms(2,4)] assms(5) show ?thesis by auto
  next
    case False
    with c [OF assms(1,3)] c [OF assms(2,4)] obtain p w q v where
      "a = Some (Parent p)" "ParentNode_to_bytes p = Inr w" "x = 1 # w"
      "b = Some (Parent q)" "ParentNode_to_bytes q = Inr v" "y = 1 # v" by auto
    with assms(5) parent_bytes_inj [of p w q v r s] show ?thesis by simp
  qed
qed

lemma opaque_inj:
  "tls_opaque a = Inr x \<Longrightarrow> tls_opaque b = Inr y \<Longrightarrow> x @ r = y @ s \<Longrightarrow> a = b \<and> r = s"
  using opaque.prefix_free [where x = a and y = b and bs = x and cs = y and r = r and s = s] by simp

lemma node_fits_parity: "even m = even n \<Longrightarrow> node_fits m v = node_fits n v"
  by (cases v rule: node_canon.cases) auto

lemma node_fits_at:
  assumes "tree_typed (nodes t)"
  shows "node_fits (if l = 0 then 0 else 1) (get_node t (tnode l i))"
proof (cases "0 \<le> tnode l i \<and> tnode l i < tree_size t")
  case True
  with assms have "node_fits (nat (tnode l i)) (get_node t (tnode l i))"
    by (simp add: tree_typed_def get_node_inside nat_less_iff)
  moreover have "even (nat (tnode l i)) \<longleftrightarrow> l = 0" using True by (simp add: even_nat_iff)
  ultimately show ?thesis using node_fits_parity [of "nat (tnode l i)" "if l = 0 then 0 else 1"] by auto
qed (auto simp: get_node_def)

lemma hash_inputsI:
  "hash_input t k j = Inr m \<Longrightarrow> k \<le> d \<Longrightarrow> 0 \<le> j \<Longrightarrow> j < 2 ^ (d - k) \<Longrightarrow> m \<in> hash_inputs t d"
  by (auto simp: hash_inputs_def)

lemma hash_input_binds:
  assumes typed: "tree_typed (nodes t)" "tree_typed (nodes t')"
    and inj: "inj_on (digest sha256) (hash_inputs t d \<union> hash_inputs t' d')"
    and "k \<le> d" "0 \<le> j" "j < 2 ^ (d - k)" "k' \<le> d'" "0 \<le> j'" "j' < 2 ^ (d' - k')"
    and "hash_input t k j = Inr m" "hash_input t' k' j' = Inr m"
  shows "k = k' \<and> j = j' \<and> (\<forall>l i. l \<le> k \<longrightarrow> i div 2 ^ (k - l) = j \<longrightarrow>
           node_canon (get_node t (tnode l i)) = node_canon (get_node t' (tnode l i)))"
  using assms(4-)
proof (induction k arbitrary: j k' j' m)
  case 0
  have k': "k' = 0" using 0 by (cases k') auto
  from 0 k' obtain x b y c where m: "tls_u32 j = Inr x" "optional_body (get_node t (tnode 0 j)) = Inr b"
    "tls_u32 j' = Inr y" "optional_body (get_node t' (tnode 0 j')) = Inr c" "x @ b = y @ c" by auto
  from u32_inj [OF m(1,3,5)] have j: "j = j'" "b = c" by auto
  have "node_canon (get_node t (tnode 0 j)) = node_canon (get_node t' (tnode 0 j))"
    using leaf_body_inj [of "get_node t (tnode 0 j)" "get_node t' (tnode 0 j)"] m j
      node_fits_at [OF typed(1), of 0] node_fits_at [OF typed(2), of 0] by simp
  with k' j show ?case by simp
next
  case (Suc k)
  from Suc.prems obtain k1 where k1: "k' = Suc k1" by (cases k') auto
  from Suc.prems k1 obtain ml mr b l r where
    m: "hash_input t k (2 * j) = Inr ml" "hash_input t k (2 * j + 1) = Inr mr"
      "optional_body (get_node t (tnode (Suc k) j)) = Inr b"
      "tls_opaque (digest sha256 ml) = Inr l" "tls_opaque (digest sha256 mr) = Inr r" "m = 2 # b @ l @ r" by auto
  from Suc.prems k1 obtain ml' mr' b' l' r' where
    m': "hash_input t' k1 (2 * j') = Inr ml'" "hash_input t' k1 (2 * j' + 1) = Inr mr'"
      "optional_body (get_node t' (tnode (Suc k1) j')) = Inr b'"
      "tls_opaque (digest sha256 ml') = Inr l'" "tls_opaque (digest sha256 mr') = Inr r'" "m = 2 # b' @ l' @ r'" by auto
  have eq: "b @ l @ r = b' @ l' @ r'" using m(6) m'(6) by simp
  from parent_body_inj [OF _ _ m(3) m'(3) eq] node_fits_at [OF typed(1), of "Suc k" j]
    node_fits_at [OF typed(2), of "Suc k1" j']
  have top: "get_node t (tnode (Suc k) j) = get_node t' (tnode (Suc k1) j')" and lr: "l @ r = l' @ r'" by auto
  from opaque_inj [OF m(4) m'(4) lr] have dl: "digest sha256 ml = digest sha256 ml'" and r: "r = r'" by auto
  from opaque_inj [OF m(5) m'(5), of "[]" "[]"] r have dr: "digest sha256 mr = digest sha256 mr'" by simp
  have s: "d - k = Suc (d - Suc k)" "d' - k1 = Suc (d' - Suc k1)" using Suc.prems k1 by auto
  have rng: "k \<le> d" "0 \<le> 2 * j" "2 * j < 2 ^ (d - k)" "2 * j + 1 < 2 ^ (d - k)"
    "k1 \<le> d'" "0 \<le> 2 * j'" "2 * j' < 2 ^ (d' - k1)" "2 * j' + 1 < 2 ^ (d' - k1)"
    unfolding s using Suc.prems k1 by auto
  have "0 \<le> 2 * j + 1" "0 \<le> 2 * j' + 1" using rng by simp_all
  note ins = hash_inputsI [OF m(1) rng(1-3)] hash_inputsI [OF m(2) rng(1) this(1) rng(4)]
    hash_inputsI [OF m'(1) rng(5-7)] hash_inputsI [OF m'(2) rng(5) this(2) rng(8)]
  have "ml = ml'" "mr = mr'"
    using inj_onD [OF inj dl] inj_onD [OF inj dr] ins by blast+
  from Suc.IH [OF rng(1-3) rng(5-7) m(1) m'(1) [folded this(1)]]
    Suc.IH [OF rng(1) _ rng(4) rng(5) _ rng(8) m(2) m'(2) [folded this(2)]] rng(2,6)
  have IH: "k = k1" "2 * j = 2 * j'"
    "\<forall>l i. l \<le> k \<longrightarrow> i div 2 ^ (k - l) = 2 * j \<longrightarrow> node_canon (get_node t (tnode l i)) = node_canon (get_node t' (tnode l i))"
    "\<forall>l i. l \<le> k \<longrightarrow> i div 2 ^ (k - l) = 2 * j + 1 \<longrightarrow> node_canon (get_node t (tnode l i)) = node_canon (get_node t' (tnode l i))"
    by auto
  have "node_canon (get_node t (tnode l i)) = node_canon (get_node t' (tnode l i))"
    if "l \<le> Suc k" "i div 2 ^ (Suc k - l) = j" for l i
  proof (cases "l = Suc k")
    case True
    with that top IH show ?thesis by simp
  next
    case False
    with that have "l \<le> k" "i div 2 ^ (k - l) div 2 = j"
      by (auto simp: Suc_diff_le power_Suc2 zdiv_zmult2_eq simp del: power_Suc)
    moreover from this(2) have "i div 2 ^ (k - l) = 2 * j \<or> i div 2 ^ (k - l) = 2 * j + 1" by auto
    ultimately show ?thesis using IH(3,4) by blast
  qed
  with IH k1 show ?case by simp
qed

section \<open>Properties\<close>

lemma tree_hash_root:
  assumes "tree_shape t d"
  shows "tree_hash t = bindR (hash_input t d 0) (\<lambda>m. Inr (digest sha256 m))"
proof -
  have "0 < tree_size t" using shape_size [OF assms] one_le_power [of "2 :: int" d] by linarith
  then have "nodes t \<noteq> []" by auto
  with node_hash_shape [OF assms, of d 0] show ?thesis
    by (simp add: tree_hash_def shape_leaves [OF assms] tree_root_eq)
qed

text \<open>C31: the two recursive hashes of the program agree: on every node of a well-formed tree
  \<open>crypto._subtree_hash\<close> and \<open>RatchetTree._node_hash\<close> return the same hash, or raise the same error.\<close>

theorem subtree_hash_is_node_hash:
  assumes "tree_wf t" "0 \<le> x" "x < tree_size t"
  shows "subtree_hash t x = node_hash t x"
proof -
  from assms(1) obtain d where d: "tree_shape t d" "tree_typed (nodes t)" by (auto simp: tree_wf_def)
  obtain k j where "x = tnode k j" "k \<le> d" "0 \<le> j" "j < 2 ^ (d - k)"
    using tnode_coords [of x d] assms(2,3) shape_size [OF d(1)] by (metis power_Suc)
  with d show ?thesis by (simp add: node_hash_shape subtree_hash_shape)
qed

text \<open>C20: the tree hash binds the tree: if SHA-256 has no collision among the inputs hashed for two
  well-formed trees and their tree hashes are equal, the trees have the same number of leaves and
  the same nodes, leaf by leaf and parent by parent (leaves up to the canonical form the wire
  carries). A GroupContext with a given tree hash fits only one tree.\<close>

theorem tree_hash_binds:
  assumes "tree_wf t" "tree_wf t'" "num_leaves t = 2 ^ d" "num_leaves t' = 2 ^ d'"
    and "tree_hash t = Inr h" "tree_hash t' = Inr h"
    and "inj_on (digest sha256) (hash_inputs t d \<union> hash_inputs t' d')"
  shows "num_leaves t = num_leaves t' \<and> map node_canon (nodes t) = map node_canon (nodes t')"
proof -
  from assms(1-4) have s: "tree_shape t d" "tree_shape t' d'" "tree_typed (nodes t)" "tree_typed (nodes t')"
    by (auto simp: tree_wf_def tree_shape_def)
  from assms(5,6) obtain m m' where m: "hash_input t d 0 = Inr m" "hash_input t' d' 0 = Inr m'"
    "digest sha256 m = digest sha256 m'"
    by (auto simp: tree_hash_root [OF s(1)] tree_hash_root [OF s(2)])
  have "m \<in> hash_inputs t d" "m' \<in> hash_inputs t' d'"
    by (rule hash_inputsI [OF m(1)] hash_inputsI [OF m(2)]; simp)+
  with inj_onD [OF assms(7) m(3)] have mm: "m' = m" by blast
  have b: "d = d' \<and> (0 :: int) = 0 \<and> (\<forall>l i. l \<le> d \<longrightarrow> i div 2 ^ (d - l) = 0 \<longrightarrow>
      node_canon (get_node t (tnode l i)) = node_canon (get_node t' (tnode l i)))"
    using hash_input_binds [OF s(3,4) assms(7), of d 0 d' 0 m] m(1,2) mm by simp
  then have d: "d = d'" by simp
  have len: "length (nodes t) = length (nodes t')"
    using shape_size [OF s(1)] shape_size [OF s(2)] d by simp
  have "map node_canon (nodes t) = map node_canon (nodes t')"
  proof (rule nth_equalityI)
    fix n assume "n < length (map node_canon (nodes t))"
    then have n: "n < length (nodes t)" by simp
    obtain l i where li: "int n = tnode l i" "l \<le> d" "0 \<le> i" "i < 2 ^ (d - l)"
      using tnode_coords [of "int n" d] n shape_size [OF s(1)] by (metis power_Suc of_nat_0_le_iff of_nat_less_iff)
    with b have "node_canon (get_node t (int n)) = node_canon (get_node t' (int n))" by simp
    with n len show "map node_canon (nodes t) ! n = map node_canon (nodes t') ! n" by (simp add: get_node_def)
  qed (use len in simp)
  with d assms(3,4) show ?thesis by simp
qed

text \<open>Domain separation of the HPKE info strings: the info of a Welcome and of an UpdatePathNode
  never coincide, and each determines its context.\<close>

theorem hpke_info_separates:
  assumes "make_hpke_info label context = Inr x" "make_hpke_info label' context' = Inr x"
  shows "label = label' \<and> context = context'"
proof -
  let ?d = "\<lambda>buf off. bindR (read_opaque buf off) (\<lambda>(a, o1). bindR (read_opaque buf o1) (\<lambda>(b, o2). Inr ((a, b), o2)))"
  have "roundtrips (make_hpke_info l c) ?d (encode_str ''MLS 1.0 '' @ encode_str l, c)" for l c
    unfolding make_hpke_info_def Let_def by (rule rt_intros)+
  from roundtrips_inj [OF this this assms] show ?thesis by simp
qed

theorem hpke_info_separates_witness: "up_info [1, 2] = Inr [22, 77, 76, 83, 32, 49, 46, 48, 32, 85, 112, 100, 97, 116, 101, 80, 97, 116, 104, 78, 111, 100, 101, 2, 1, 2]
   \<and> egs_info [1, 2] \<noteq> up_info [1, 2]"
proof -
  have u: "up_info [1, 2] = Inr [22, 77, 76, 83, 32, 49, 46, 48, 32, 85, 112, 100, 97, 116, 101, 80, 97, 116, 104, 78, 111, 100, 101, 2, 1, 2]"
    by code_simp
  with hpke_info_separates [of "''UpdatePathNode''" "[1, 2]" _ "''Welcome''" "[1, 2]"] show ?thesis
    by (auto simp: up_info_def egs_info_def)
qed

theorem subtree_hash_is_node_hash_witness: "subtree_hash demo_tree 5 = node_hash demo_tree 5"
proof -
  have "tree_size demo_tree = 7" by code_simp
  with subtree_hash_is_node_hash [OF demo_tree_wf, of 5] show ?thesis by simp
qed

definition demo_tree1 :: RatchetTree where
  "demo_tree1 = \<lparr>num_leaves = 1, nodes = [Some (Leaf demo_leaf)], frozen = False\<rparr>"

lemma demo_tree1_facts:
  "tree_wf demo_tree1" "tree_wf (tree_canon demo_tree1)"
  "\<exists>m. hash_input demo_tree1 0 0 = Inr m \<and> hash_input (tree_canon demo_tree1) 0 0 = Inr m"
proof -
  have "tree_shape demo_tree1 0" "tree_shape (tree_canon demo_tree1) 0"
    "tree_typed (nodes demo_tree1)" "tree_typed (nodes (tree_canon demo_tree1))" by code_simp+
  then show "tree_wf demo_tree1" "tree_wf (tree_canon demo_tree1)" by (blast intro: tree_wfI)+
  have "\<not> isl (hash_input demo_tree1 0 0)" "hash_input (tree_canon demo_tree1) 0 0 = hash_input demo_tree1 0 0"
    by code_simp+
  then show "\<exists>m. hash_input demo_tree1 0 0 = Inr m \<and> hash_input (tree_canon demo_tree1) 0 0 = Inr m"
    using not_isl_Inr by metis
qed

theorem tree_hash_binds_witness:
  "\<exists>h. tree_hash demo_tree1 = Inr h \<and> tree_hash (tree_canon demo_tree1) = Inr h
     \<and> map node_canon (nodes demo_tree1) = map node_canon (nodes (tree_canon demo_tree1))"
proof -
  let ?t = demo_tree1 and ?t' = "tree_canon demo_tree1"
  obtain m where m: "hash_input ?t 0 0 = Inr m" "hash_input ?t' 0 0 = Inr m" using demo_tree1_facts(3) by blast
  have n: "num_leaves ?t = 2 ^ 0" "num_leaves ?t' = 2 ^ 0" by code_simp+
  then have "tree_shape ?t 0" "tree_shape ?t' 0" by code_simp+
  with m have h: "tree_hash ?t = Inr (digest sha256 m)" "tree_hash ?t' = Inr (digest sha256 m)"
    by (simp_all add: tree_hash_root del: hash_input.simps)
  have "hash_inputs ?t 0 \<union> hash_inputs ?t' 0 \<subseteq> {m}"
  proof -
    have "hash_inputs u 0 \<subseteq> {m}" if "hash_input u 0 0 = Inr m" for u
    proof
      fix x assume "x \<in> hash_inputs u 0"
      then obtain j :: int where "0 \<le> j" "j < 1" "hash_input u 0 j = Inr x"
        by (auto simp: hash_inputs_def simp del: hash_input.simps)
      moreover from this have "j = 0" by simp
      ultimately show "x \<in> {m}" using that by (simp del: hash_input.simps)
    qed
    with m show ?thesis by (simp del: hash_input.simps)
  qed
  then have "inj_on (digest sha256) (hash_inputs ?t 0 \<union> hash_inputs ?t' 0)"
    by (rule inj_on_subset [rotated]) simp
  from tree_hash_binds [OF demo_tree1_facts(1,2) n h this] h show ?thesis by blast
qed
end
