(* ===== verification/KeySchedules.thy ===== *)
theory KeySchedules
  imports Hkdf
begin

text \<open>
  \<open>keyschedule.py\<close>: pre-shared keys and the secrets of an epoch. The theorems: the schedule always
  exists and its secrets have 32 bytes; the shortcut for the confirmation key and the newcomer's
  reconstruction agree with the full derivation; the stored form is a bijection.
\<close>

section \<open>Pre-shared keys\<close>

definition NH :: nat where "NH = 32"

definition PSK_TYPE_EXTERNAL :: int where "PSK_TYPE_EXTERNAL = 1"
definition PSK_TYPE_RESUMPTION :: int where "PSK_TYPE_RESUMPTION = 2"

record PreSharedKeyID =
  psk_type :: int
  psk_id :: bytes
  psk_nonce :: bytes
  psk_usage :: int
  psk_group_id :: bytes
  psk_epoch :: int

definition PreSharedKeyID_to_bytes :: "PreSharedKeyID \<Rightarrow> bytes res" where
  "PreSharedKeyID_to_bytes k =
     (if psk_type k = PSK_TYPE_EXTERNAL then
        cat_res [struct_pack 1 (psk_type k), varint_encode (int (length (psk_id k))), Inr (psk_id k),
                 varint_encode (int (length (psk_nonce k))), Inr (psk_nonce k)]
      else
        cat_res [struct_pack 1 (psk_type k), struct_pack 1 (psk_usage k),
                 varint_encode (int (length (psk_group_id k))), Inr (psk_group_id k),
                 struct_pack 8 (psk_epoch k),
                 varint_encode (int (length (psk_nonce k))), Inr (psk_nonce k)])"

definition PreSharedKeyID_from_bytes_at :: "PreSharedKeyID reader" where
  "PreSharedKeyID_from_bytes_at data off0 =
     bindR (read_u8 data off0) (\<lambda>(ptype, off1).
     if ptype = PSK_TYPE_EXTERNAL then
       bindR (read_opaque data off1) (\<lambda>(pid, off2).
       bindR (read_opaque data off2) (\<lambda>(nonce, off3).
       Inr (\<lparr>psk_type = ptype, psk_id = pid, psk_nonce = nonce, psk_usage = 0, psk_group_id = [],
             psk_epoch = 0\<rparr>, off3)))
     else
       bindR (read_u8 data off1) (\<lambda>(usage, off2).
       bindR (read_opaque data off2) (\<lambda>(gid, off3).
       bindR (read_u64 data off3) (\<lambda>(epoch, off4).
       bindR (read_opaque data off4) (\<lambda>(nonce, off5).
       Inr (\<lparr>psk_type = ptype, psk_id = [], psk_nonce = nonce, psk_usage = usage, psk_group_id = gid,
             psk_epoch = epoch\<rparr>, off5))))))"

text \<open>One round of the loop of \<open>_psk_secret\<close>, and the loop over the remaining entries.\<close>

definition psk_round :: "int \<Rightarrow> int \<Rightarrow> PreSharedKeyID \<Rightarrow> bytes \<Rightarrow> bytes \<Rightarrow> bytes res" where
  "psk_round i n psk_key_id psk_value acc =
     (let psk_extracted = hkdf_extract (Some (replicate NH 0)) psk_value sha256 in
      bindR (cat_res [PreSharedKeyID_to_bytes psk_key_id, struct_pack 2 i, struct_pack 2 n]) (\<lambda>psk_label.
      bindR (expand_with_label psk_extracted ''derived psk'' psk_label NH sha256) (\<lambda>psk_input.
      Inr (hkdf_extract (Some psk_input) acc sha256))))"

fun psk_chain :: "int \<Rightarrow> int \<Rightarrow> (PreSharedKeyID \<times> bytes) list \<Rightarrow> bytes \<Rightarrow> bytes res" where
  "psk_chain i n [] acc = Inr acc"
| "psk_chain i n ((psk_key_id, psk_value) # rest) acc =
     bindR (psk_round i n psk_key_id psk_value acc) (psk_chain (i + 1) n rest)"

definition psk_secret :: "(PreSharedKeyID \<times> bytes) list option \<Rightarrow> bytes res" where
  "psk_secret psk_list =
     (case psk_list of
        None \<Rightarrow> Inr (replicate NH 0)
      | Some ps \<Rightarrow> if ps = [] then Inr (replicate NH 0)
                   else psk_chain 0 (int (length ps)) ps (replicate NH 0))"

section \<open>The schedule of an epoch\<close>

record KeySchedule =
  joiner_secret :: bytes
  epoch_secret :: bytes
  sender_data_secret :: bytes
  encryption_secret :: bytes
  exporter_secret :: bytes
  epoch_authenticator :: bytes
  external_secret :: bytes
  resumption_psk_secret :: bytes
  confirmation_key :: bytes
  membership_key :: bytes
  init_secret :: bytes

definition derive_epoch_secret ::
    "bytes \<Rightarrow> bytes \<Rightarrow> bytes \<Rightarrow> (PreSharedKeyID \<times> bytes) list option \<Rightarrow> (bytes \<times> bytes \<times> bytes) res" where
  "derive_epoch_secret init_sec commit_secret group_context psk_list =
     (let raw = hkdf_extract (Some init_sec) commit_secret sha256 in
      bindR (expand_with_label raw ''joiner'' group_context NH sha256) (\<lambda>joiner.
      bindR (psk_secret psk_list) (\<lambda>psk.
      let intermediate = hkdf_extract (Some joiner) psk sha256 in
      bindR (expand_with_label intermediate ''epoch'' group_context NH sha256) (\<lambda>epoch.
      Inr (epoch, joiner, intermediate)))))"

definition from_epoch_secret :: "bytes \<Rightarrow> bytes \<Rightarrow> KeySchedule res" where
  "from_epoch_secret epoch joiner =
     bindR (derive_secret epoch ''sender data'' sha256) (\<lambda>sd.
     bindR (derive_secret epoch ''encryption'' sha256) (\<lambda>enc.
     bindR (derive_secret epoch ''exporter'' sha256) (\<lambda>exp.
     bindR (derive_secret epoch ''authentication'' sha256) (\<lambda>auth.
     bindR (derive_secret epoch ''external'' sha256) (\<lambda>ext.
     bindR (derive_secret epoch ''resumption'' sha256) (\<lambda>res.
     bindR (derive_secret epoch ''confirm'' sha256) (\<lambda>conf.
     bindR (derive_secret epoch ''membership'' sha256) (\<lambda>mem.
     bindR (derive_secret epoch ''init'' sha256) (\<lambda>ini.
     Inr \<lparr>joiner_secret = joiner, epoch_secret = epoch, sender_data_secret = sd,
          encryption_secret = enc, exporter_secret = exp, epoch_authenticator = auth,
          external_secret = ext, resumption_psk_secret = res, confirmation_key = conf,
          membership_key = mem, init_secret = ini\<rparr>)))))))))"

definition KeySchedule_derive ::
    "bytes \<Rightarrow> bytes \<Rightarrow> bytes \<Rightarrow> (PreSharedKeyID \<times> bytes) list option \<Rightarrow> KeySchedule res" where
  "KeySchedule_derive init_sec commit_secret group_context psk_list =
     bindR (derive_epoch_secret init_sec commit_secret group_context psk_list)
       (\<lambda>(epoch, joiner, intermediate). from_epoch_secret epoch joiner)"

definition derive_confirmation_key ::
    "bytes \<Rightarrow> bytes \<Rightarrow> bytes \<Rightarrow> (PreSharedKeyID \<times> bytes) list option \<Rightarrow> bytes res" where
  "derive_confirmation_key init_sec commit_secret group_context psk_list =
     bindR (derive_epoch_secret init_sec commit_secret group_context psk_list)
       (\<lambda>(epoch, _, _). derive_secret epoch ''confirm'' sha256)"

definition derive_welcome_key :: "bytes \<Rightarrow> bytes option \<Rightarrow> bytes res" where
  "derive_welcome_key joiner psk_sec =
     (let psk = (case psk_sec of None \<Rightarrow> replicate NH 0 | Some p \<Rightarrow> p);
          intermediate = hkdf_extract (Some joiner) psk sha256
      in bindR (derive_secret intermediate ''welcome'' sha256) (\<lambda>welcome_s.
         expand_with_label welcome_s ''key'' [] 16 sha256))"

definition derive_welcome_nonce :: "bytes \<Rightarrow> bytes option \<Rightarrow> bytes res" where
  "derive_welcome_nonce joiner psk_sec =
     (let psk = (case psk_sec of None \<Rightarrow> replicate NH 0 | Some p \<Rightarrow> p);
          intermediate = hkdf_extract (Some joiner) psk sha256
      in bindR (derive_secret intermediate ''welcome'' sha256) (\<lambda>welcome_s.
         expand_with_label welcome_s ''nonce'' [] 12 sha256))"

text \<open>Step 6 of \<open>MLSGroup.join\<close>: the newcomer's schedule, from the joiner secret of the Welcome.\<close>

definition joiner_schedule ::
    "bytes \<Rightarrow> bytes \<Rightarrow> (PreSharedKeyID \<times> bytes) list option \<Rightarrow> KeySchedule res" where
  "joiner_schedule joiner group_context psk_list =
     bindR (psk_secret psk_list) (\<lambda>psk_secret_final.
     let intermediate = hkdf_extract (Some joiner) psk_secret_final sha256 in
     bindR (expand_with_label intermediate ''epoch'' group_context 32 sha256) (\<lambda>epoch.
     from_epoch_secret epoch joiner))"

definition KeySchedule_SIZE :: nat where "KeySchedule_SIZE = 11 * 32"

definition KeySchedule_to_bytes :: "KeySchedule \<Rightarrow> bytes" where
  "KeySchedule_to_bytes k =
     joiner_secret k @ epoch_secret k @ sender_data_secret k @ encryption_secret k @ exporter_secret k
     @ epoch_authenticator k @ external_secret k @ resumption_psk_secret k @ confirmation_key k
     @ membership_key k @ init_secret k"

definition KeySchedule_from_bytes :: "bytes \<Rightarrow> KeySchedule res" where
  "KeySchedule_from_bytes data =
     (if length data \<noteq> KeySchedule_SIZE then Inl (ValueError ''Invalid KeySchedule size'')
      else let f = (\<lambda>i. slice data (32 * i) (32 * i + 32)) in
        Inr \<lparr>joiner_secret = f 0, epoch_secret = f 1, sender_data_secret = f 2, encryption_secret = f 3,
             exporter_secret = f 4, epoch_authenticator = f 5, external_secret = f 6,
             resumption_psk_secret = f 7, confirmation_key = f 8, membership_key = f 9, init_secret = f 10\<rparr>)"

section \<open>Lemmas\<close>

definition schedule_wf :: "KeySchedule \<Rightarrow> bool" where
  "schedule_wf k \<longleftrightarrow> list_all (\<lambda>s. length s = 32)
     [joiner_secret k, epoch_secret k, sender_data_secret k, encryption_secret k, exporter_secret k,
      epoch_authenticator k, external_secret k, resumption_psk_secret k, confirmation_key k,
      membership_key k, init_secret k]"

lemma derive_secret_ok:
  "length label < 56 \<Longrightarrow> \<exists>s. derive_secret x label sha256 = Inr s \<and> length s = 32"
  using expand_with_label_sha256 [of label "[]" 32 x] by (simp add: derive_secret_def)

lemma from_epoch_secret_ok:
  assumes "length joiner = 32" "length epoch = 32"
  shows "\<exists>k. from_epoch_secret epoch joiner = Inr k \<and> schedule_wf k"
proof -
  have "\<exists>f. \<forall>l. length l < 56 \<longrightarrow> derive_secret epoch l sha256 = Inr (f l) \<and> length (f l) = 32"
    using derive_secret_ok [of _ epoch] by metis
  then obtain f where f: "\<And>l. length l < 56 \<Longrightarrow> derive_secret epoch l sha256 = Inr (f l) \<and> length (f l) = 32"
    by blast
  show ?thesis using assms by (simp add: from_epoch_secret_def f schedule_wf_def)
qed

lemma length_psk_chain: "psk_chain i n ps acc = Inr s \<Longrightarrow> length acc = 32 \<Longrightarrow> length s = 32"
proof (induction ps arbitrary: i acc)
  case (Cons p ps)
  obtain k v where "p = (k, v)" by (cases p)
  with Cons show ?case by (auto simp: psk_round_def Let_def)
qed simp

lemma length_psk_secret: "psk_secret ps = Inr s \<Longrightarrow> length s = 32"
  using length_psk_chain by (auto simp: psk_secret_def NH_def split: option.splits if_splits)

lemma psk_round_ok:
  assumes "PreSharedKeyID_to_bytes k = Inr b" "length b < 2 ^ 29" "0 \<le> i" "i < 65536" "0 \<le> n" "n < 65536"
  shows "\<exists>s. psk_round i n k v acc = Inr s"
proof -
  have "\<exists>l. cat_res [PreSharedKeyID_to_bytes k, struct_pack 2 i, struct_pack 2 n] = Inr l \<and> length l < 2 ^ 30"
    using assms by (auto simp: struct_pack_def)
  then obtain l where l: "cat_res [PreSharedKeyID_to_bytes k, struct_pack 2 i, struct_pack 2 n] = Inr l" "length l < 2 ^ 30"
    by blast
  show ?thesis using expand_with_label_sha256 [of "''derived psk''" l 32] l
    by (auto simp: psk_round_def Let_def NH_def simp del: cat_res.simps)
qed

text \<open>PSK lists that can be hashed at all: encodable identifiers, at most 65535 of them.\<close>

definition psks_ok :: "(PreSharedKeyID \<times> bytes) list option \<Rightarrow> bool" where
  "psks_ok psks \<longleftrightarrow>
     (case psks of None \<Rightarrow> True
      | Some ps \<Rightarrow> length ps < 65536 \<and>
          list_all (\<lambda>(k, v). case PreSharedKeyID_to_bytes k of Inl _ \<Rightarrow> False | Inr b \<Rightarrow> length b < 2 ^ 29) ps)"

lemma psk_chain_ok:
  assumes "list_all (\<lambda>(k, v). case PreSharedKeyID_to_bytes k of Inl _ \<Rightarrow> False | Inr b \<Rightarrow> length b < 2 ^ 29) ps"
    "0 \<le> i" "i + int (length ps) \<le> n" "n < 65536"
  shows "\<exists>s. psk_chain i n ps acc = Inr s"
  using assms
proof (induction ps arbitrary: i acc)
  case (Cons p ps)
  obtain k v where p: "p = (k, v)" by (cases p)
  with Cons.prems obtain b where "PreSharedKeyID_to_bytes k = Inr b" "length b < 2 ^ 29"
    by (auto split: sum.splits)
  then obtain s where "psk_round i n k v acc = Inr s" using psk_round_ok Cons.prems by fastforce
  with p Cons.IH [of "i + 1" s] Cons.prems show ?case by auto
qed simp

lemma psk_secret_ok: "psks_ok ps \<Longrightarrow> \<exists>s. psk_secret ps = Inr s \<and> length s = 32"
  using psk_chain_ok [of _ 0] length_psk_secret [of ps]
  by (fastforce simp: psks_ok_def psk_secret_def NH_def split: option.splits)

lemma derive_epoch_secret_ok:
  assumes "length gc < 2 ^ 30" "psks_ok ps"
  shows "\<exists>e j m. derive_epoch_secret i c gc ps = Inr (e, j, m) \<and> length e = 32 \<and> length j = 32"
proof -
  obtain p where p: "psk_secret ps = Inr p" using psk_secret_ok [OF assms(2)] by blast
  obtain j where j: "expand_with_label (hkdf_extract (Some i) c sha256) ''joiner'' gc 32 sha256 = Inr j" "length j = 32"
    using expand_with_label_sha256 [of "''joiner''" gc 32] assms(1) by auto
  obtain e where "expand_with_label (hkdf_extract (Some j) p sha256) ''epoch'' gc 32 sha256 = Inr e" "length e = 32"
    using expand_with_label_sha256 [of "''epoch''" gc 32] assms(1) by auto
  with p j show ?thesis by (simp add: derive_epoch_secret_def NH_def)
qed

lemma KeySchedule_derive_ok:
  assumes "length gc < 2 ^ 30" "psks_ok ps"
  shows "\<exists>k. KeySchedule_derive i c gc ps = Inr k \<and> schedule_wf k"
proof -
  obtain e j m where "derive_epoch_secret i c gc ps = Inr (e, j, m)" "length e = 32" "length j = 32"
    using derive_epoch_secret_ok [OF assms] by blast
  with from_epoch_secret_ok [of j e] show ?thesis by (simp add: KeySchedule_derive_def)
qed

lemma KeySchedule_derive_wf: "KeySchedule_derive i c gc ps = Inr k \<Longrightarrow> schedule_wf k"
proof -
  assume "KeySchedule_derive i c gc ps = Inr k"
  then obtain e j m where d: "derive_epoch_secret i c gc ps = Inr (e, j, m)" and k: "from_epoch_secret e j = Inr k"
    by (auto simp: KeySchedule_derive_def)
  from d have "length e = 32" "length j = 32"
    by (auto simp: derive_epoch_secret_def NH_def Let_def dest: expand_with_label_sha256_length)
  with k from_epoch_secret_ok [of j e] show ?thesis by auto
qed

lemma from_epoch_secret_fields:
  assumes "from_epoch_secret e j = Inr k"
  shows "joiner_secret k = j" "epoch_secret k = e" "derive_secret e ''confirm'' sha256 = Inr (confirmation_key k)"
  using assms by (auto simp: from_epoch_secret_def)

lemma slice_nth_block:
  assumes "length xs = 32 * i" "length x = 32"
  shows "slice (xs @ x @ rest) (32 * i) (32 * i + 32) = x"
  using assms by (simp add: slice_def)

lemma KeySchedule_from_to: "schedule_wf k \<Longrightarrow> KeySchedule_from_bytes (KeySchedule_to_bytes k) = Inr k"
  by (cases k) (simp add: KeySchedule_from_bytes_def KeySchedule_to_bytes_def schedule_wf_def KeySchedule_SIZE_def slice_def Let_def)

lemma length_KeySchedule_to_bytes: "schedule_wf k \<Longrightarrow> length (KeySchedule_to_bytes k) = KeySchedule_SIZE"
  by (simp add: KeySchedule_to_bytes_def schedule_wf_def KeySchedule_SIZE_def)

lemma KeySchedule_to_from:
  assumes "KeySchedule_from_bytes data = Inr k"
  shows "KeySchedule_to_bytes k = data \<and> schedule_wf k"
proof -
  from assms have l: "length data = 352" by (auto simp: KeySchedule_from_bytes_def KeySchedule_SIZE_def split: if_splits)
  have s: "slice data i j @ slice data j 352 = slice data i 352" if "i \<le> j" "j \<le> 352" for i j
    using that by (rule slice_append)
  have "slice data 0 352 = data" using slice_all [of data] l by simp
  with assms l s show ?thesis
    by (auto simp: KeySchedule_from_bytes_def KeySchedule_to_bytes_def KeySchedule_SIZE_def Let_def schedule_wf_def length_slice)
qed

text \<open>What a PSK identifier looks like after the wire.\<close>

definition psk_canon :: "PreSharedKeyID \<Rightarrow> PreSharedKeyID" where
  "psk_canon k = (if psk_type k = PSK_TYPE_EXTERNAL
     then k\<lparr>psk_usage := 0, psk_group_id := [], psk_epoch := 0\<rparr> else k\<lparr>psk_id := []\<rparr>)"

lemma PreSharedKeyID_opaque:
  "PreSharedKeyID_to_bytes k =
     (if psk_type k = PSK_TYPE_EXTERNAL then cat_res [tls_u8 (psk_type k), tls_opaque (psk_id k), tls_opaque (psk_nonce k)]
      else cat_res [tls_u8 (psk_type k), tls_u8 (psk_usage k), tls_opaque (psk_group_id k), tls_u64 (psk_epoch k),
                    tls_opaque (psk_nonce k)])"
  by (simp add: PreSharedKeyID_to_bytes_def tls_opaque_def tls_u8_def tls_u64_def bindR_assoc)

lemma rt_PreSharedKeyID [rt_intros]: "roundtrips (PreSharedKeyID_to_bytes k) PreSharedKeyID_from_bytes_at (psk_canon k)"
proof (cases "psk_type k = PSK_TYPE_EXTERNAL")
  case True
  then have c: "psk_canon k = \<lparr>psk_type = psk_type k, psk_id = psk_id k, psk_nonce = psk_nonce k, psk_usage = 0,
      psk_group_id = [], psk_epoch = 0\<rparr>" by (simp add: psk_canon_def)
  show ?thesis unfolding PreSharedKeyID_opaque if_P [OF True] PreSharedKeyID_from_bytes_at_def [abs_def]
    by (subst c) (rule rt_if_true [OF _ True] rt_intros)+
next
  case False
  then have c: "psk_canon k = \<lparr>psk_type = psk_type k, psk_id = [], psk_nonce = psk_nonce k, psk_usage = psk_usage k,
      psk_group_id = psk_group_id k, psk_epoch = psk_epoch k\<rparr>" by (simp add: psk_canon_def)
  show ?thesis unfolding PreSharedKeyID_opaque if_not_P [OF False] PreSharedKeyID_from_bytes_at_def [abs_def]
    by (subst c) (rule rt_if_false [OF _ False] rt_intros)+
qed

lemma progresses_PreSharedKeyID [progress_intros]: "progresses PreSharedKeyID_from_bytes_at"
  unfolding PreSharedKeyID_from_bytes_at_def [abs_def] by (intro progress_intros)

lemma halts_PreSharedKeyID [halt_intros]: "halts PreSharedKeyID_from_bytes_at"
  unfolding PreSharedKeyID_from_bytes_at_def [abs_def] by (intro halt_intros)

interpretation psk_identifier: wire_codec PreSharedKeyID_to_bytes PreSharedKeyID_from_bytes_at "\<lambda>k. psk_canon k = k"
  by unfold_locales (metis rt_PreSharedKeyID, rule progress_intros)

section \<open>Properties\<close>

text \<open>The key schedule of an epoch exists: \<open>KeySchedule.derive\<close> returns for every init secret and
  commit secret, every group context below 2^30 bytes and every list of encodable PSKs, and all
  eleven secrets have 32 bytes.\<close>

theorem key_schedule_returns:
  assumes "length group_context < 2 ^ 30" "psks_ok psks"
  shows "\<exists>k. KeySchedule_derive init_sec commit_secret group_context psks = Inr k \<and> schedule_wf k"
  using assms by (rule KeySchedule_derive_ok)

theorem key_schedule_returns_witness:
  "\<exists>k. KeySchedule_derive (replicate 32 0) (replicate 32 0) [1, 2]
        (Some [(\<lparr>psk_type = 1, psk_id = [7], psk_nonce = [8], psk_usage = 0, psk_group_id = [], psk_epoch = 0\<rparr>, [9])])
      = Inr k \<and> schedule_wf k"
proof (rule key_schedule_returns)
  let ?k = "\<lparr>psk_type = 1, psk_id = [7], psk_nonce = [8], psk_usage = 0, psk_group_id = [], psk_epoch = 0\<rparr>"
  have "PreSharedKeyID_to_bytes ?k = Inr [1, 1, 7, 1, 8]" by code_simp
  then show "psks_ok (Some [(?k, [9])])" by (simp add: psks_ok_def)
qed simp

text \<open>The shortcut \<open>derive_confirmation_key\<close> computes exactly the confirmation key of the full
  schedule, and raises exactly when the full derivation does.\<close>

theorem confirmation_key_shortcut:
  "derive_confirmation_key init_sec commit_secret group_context psks
   = bindR (KeySchedule_derive init_sec commit_secret group_context psks) (\<lambda>k. Inr (confirmation_key k))"
proof (cases "derive_epoch_secret init_sec commit_secret group_context psks")
  case (Inl e)
  then show ?thesis by (simp add: derive_confirmation_key_def KeySchedule_derive_def)
next
  case (Inr r)
  obtain e j m where r: "r = (e, j, m)" by (cases r)
  with Inr have "length e = 32" "length j = 32"
    by (auto simp: derive_epoch_secret_def NH_def Let_def dest: expand_with_label_sha256_length)
  then obtain k where "from_epoch_secret e j = Inr k" using from_epoch_secret_ok by blast
  with from_epoch_secret_fields(3) [OF this] Inr r show ?thesis
    by (simp add: derive_confirmation_key_def KeySchedule_derive_def)
qed

text \<open>C30: a newcomer and the group agree: the schedule that \<open>MLSGroup.join\<close> rebuilds from the joiner
  secret, the PSKs and the group context is the schedule the members derived for the epoch.\<close>

theorem joiner_reconstructs_schedule:
  assumes "KeySchedule_derive init_sec commit_secret group_context psks = Inr k"
  shows "joiner_schedule (joiner_secret k) group_context psks = Inr k"
proof -
  from assms obtain e j m where d: "derive_epoch_secret init_sec commit_secret group_context psks = Inr (e, j, m)"
    and k: "from_epoch_secret e j = Inr k" by (auto simp: KeySchedule_derive_def)
  with from_epoch_secret_fields(1) [OF k] show ?thesis
    by (auto simp: joiner_schedule_def derive_epoch_secret_def NH_def Let_def)
qed

theorem joiner_reconstructs_schedule_witness:
  "\<exists>k. KeySchedule_derive [1] [2] [3] None = Inr k \<and> joiner_schedule (joiner_secret k) [3] None = Inr k"
proof -
  obtain k where k: "KeySchedule_derive [1] [2] [3] None = Inr k"
    using KeySchedule_derive_ok [of "[3]" None] by (auto simp: psks_ok_def)
  with joiner_reconstructs_schedule [OF k] show ?thesis by blast
qed

text \<open>The stored form of a key schedule: \<open>from_bytes\<close> undoes \<open>to_bytes\<close> on every schedule with
  32-byte secrets (every derived one), and what it accepts is exactly the images of such schedules.\<close>

theorem KeySchedule_bytes_bijection:
  "(KeySchedule_from_bytes data = Inr k) = (schedule_wf k \<and> KeySchedule_to_bytes k = data)"
  using KeySchedule_from_to KeySchedule_to_from by blast

text \<open>A PSK identifier survives the wire, up to the fields its type does not carry.\<close>

theorem PreSharedKeyID_roundtrip:
  assumes "PreSharedKeyID_to_bytes k = Inr bs"
  shows "PreSharedKeyID_from_bytes_at (pre @ bs @ post) (length pre) = Inr (psk_canon k, length pre + length bs)"
  using readsD [OF roundtripsD [OF rt_PreSharedKeyID assms], of "length pre" "pre @ bs @ post" post] by simp

theorem PreSharedKeyID_roundtrip_witness:
  "PreSharedKeyID_from_bytes_at [1, 1, 7, 1, 8] 0
   = Inr (\<lparr>psk_type = 1, psk_id = [7], psk_nonce = [8], psk_usage = 0, psk_group_id = [], psk_epoch = 0\<rparr>, 5)"
proof -
  let ?k = "\<lparr>psk_type = 1, psk_id = [7], psk_nonce = [8], psk_usage = 0, psk_group_id = [], psk_epoch = 0\<rparr>"
  have "PreSharedKeyID_to_bytes ?k = Inr [1, 1, 7, 1, 8]" "psk_canon ?k = ?k" by code_simp+
  with PreSharedKeyID_roundtrip [of ?k "[1, 1, 7, 1, 8]" "[]" "[]"] show ?thesis by simp
qed
end
