(* ===== verification/Codecs.thy ===== *)
theory Codecs
  imports Tls "HOL-Library.AList"
begin

text \<open>
  \<open>codecs.py\<close>: the serialisation dialects. A strategy object is a record of its methods, the
  registry an association list. The locale \<open>dialect\<close> states what the group layer relies on and
  is interpreted for the three built-in strategies; the theorems are about whatever the registry
  hands out.
\<close>

section \<open>The interface \<open>SerializerStrategy\<close>\<close>

text \<open>A strategy object: its methods as the fields of a record.\<close>

record SerializerStrategy =
  strategy_name :: string
  strategy_header :: bytes
  welcome_label :: bytes
  encode_extensions :: "extension list \<Rightarrow> bytes res"
  decode_extensions :: "extension list reader"
  encode_vector :: "bytes list \<Rightarrow> bytes res"
  decode_vector :: "bytes list reader"
  detect :: "bytes \<Rightarrow> bool"

text \<open>\<open>data.startswith(p)\<close>.\<close>

definition startswith :: "bytes \<Rightarrow> bytes \<Rightarrow> bool" where
  "startswith data p \<longleftrightarrow> take (length p) data = p"

section \<open>StandardStrategy\<close>

definition standard_encode_extensions :: "extension list \<Rightarrow> bytes res" where
  "standard_encode_extensions extensions =
     bindR (cat_res (map (\<lambda>(t, d). cat_res [tls_u16 t, tls_opaque d]) extensions)) (\<lambda>body.
     cat_res [tls_varint (int (length body)), Inr body])"

definition standard_extension_step :: "extension reader" where
  "standard_extension_step raw_exts sub0 =
     bindR (read_u16 raw_exts sub0) (\<lambda>(ext_type, sub1).
     bindR (read_opaque raw_exts sub1) (\<lambda>(ext_data, sub2).
     Inr ((ext_type, ext_data), sub2)))"

definition standard_decode_extensions :: "extension list reader" where
  "standard_decode_extensions buf off0 =
     bindR (read_opaque buf off0) (\<lambda>(raw_exts, off1).
     bindR (returned (while_read standard_extension_step raw_exts (length raw_exts) 0)) (\<lambda>(res, sub_offset).
     Inr (res, off1)))"

definition standard_encode_vector :: "bytes list \<Rightarrow> bytes res" where
  "standard_encode_vector items =
     (let body = concat items in cat_res [tls_varint (int (length body)), Inr body])"

definition standard_decode_vector :: "bytes list reader" where
  "standard_decode_vector buf off0 =
     bindR (varint_decode buf off0) (\<lambda>(len, off1).
     if off1 + nat len > length buf then Inl (ValueError ''Vector length exceeds buffer size'')
     else let e = off1 + nat len in Inr ([slice buf off1 e], e))"

definition StandardStrategy :: SerializerStrategy where
  "StandardStrategy =
     \<lparr>strategy_name = ''standard'', strategy_header = [], welcome_label = encode_str ''MLS 1.0 Welcome'',
      encode_extensions = standard_encode_extensions, decode_extensions = standard_decode_extensions,
      encode_vector = standard_encode_vector, decode_vector = standard_decode_vector,
      detect = (\<lambda>data. startswith data [0x00, 0x01, 0x00, 0x03])\<rparr>"

section \<open>CiscoStrategy\<close>

definition cisco_encode_extensions :: "extension list \<Rightarrow> bytes res" where
  "cisco_encode_extensions extensions =
     bindR (cat_res (map (\<lambda>(t, d). cat_res [tls_u16 t, tls_u16 (int (length d)), Inr d]) extensions)) (\<lambda>body.
     cat_res [tls_u16 (int (length body)), Inr body])"

text \<open>One round of the decoder's loop; the slice of the data is not checked.\<close>

definition cisco_extension_step :: "extension reader" where
  "cisco_extension_step buf off0 =
     bindR (read_u16 buf off0) (\<lambda>(ext_type, off1).
     bindR (struct_unpack_from 2 buf off1) (\<lambda>elen.
     let off2 = off1 + 2; ext_data = slice buf off2 (off2 + nat elen)
     in Inr ((ext_type, ext_data), off2 + nat elen)))"

definition cisco_decode_extensions :: "extension list reader" where
  "cisco_decode_extensions buf off0 =
     bindR (struct_unpack_from 2 buf off0) (\<lambda>len.
     let off1 = off0 + 2; e = off1 + nat len in returned (while_read cisco_extension_step buf e off1))"

definition cisco_encode_vector :: "bytes list \<Rightarrow> bytes res" where
  "cisco_encode_vector items =
     (let body = concat items in cat_res [tls_u16 (int (length body)), Inr body])"

definition cisco_decode_vector :: "bytes list reader" where
  "cisco_decode_vector buf off0 =
     bindR (struct_unpack_from 2 buf off0) (\<lambda>len.
     let off1 = off0 + 2 in
     if off1 + nat len > length buf then Inl (ValueError ''Vector length exceeds buffer size'')
     else let e = off1 + nat len in Inr ([slice buf off1 e], e))"

definition CiscoStrategy :: SerializerStrategy where
  "CiscoStrategy =
     \<lparr>strategy_name = ''cisco'', strategy_header = [0xCC, 0x01], welcome_label = encode_str ''Cisco MLS Welcome'',
      encode_extensions = cisco_encode_extensions, decode_extensions = cisco_decode_extensions,
      encode_vector = cisco_encode_vector, decode_vector = cisco_decode_vector,
      detect = (\<lambda>data. startswith data [0xCC, 0x01])\<rparr>"

section \<open>MlsppStrategy\<close>

definition mlspp_encode_vector :: "bytes list \<Rightarrow> bytes res" where
  "mlspp_encode_vector items =
     (let body = concat items in cat_res [tls_u32 (int (length body)), Inr body])"

definition mlspp_decode_vector :: "bytes list reader" where
  "mlspp_decode_vector buf off0 =
     bindR (struct_unpack_from 4 buf off0) (\<lambda>len.
     let off1 = off0 + 4 in
     if off1 + nat len > length buf then Inl (ValueError ''Vector length exceeds buffer size'')
     else let e = off1 + nat len in Inr ([slice buf off1 e], e))"

text \<open>Its extension codec is, line by line, the one of \<open>StandardStrategy\<close>.\<close>

definition MlsppStrategy :: SerializerStrategy where
  "MlsppStrategy =
     \<lparr>strategy_name = ''mlspp'', strategy_header = [0xAA, 0x02], welcome_label = encode_str ''mlspp Welcome'',
      encode_extensions = standard_encode_extensions, decode_extensions = standard_decode_extensions,
      encode_vector = mlspp_encode_vector, decode_vector = mlspp_decode_vector,
      detect = (\<lambda>data. startswith data [0xAA, 0x02])\<rparr>"

section \<open>The registry\<close>

text \<open>
  A dictionary keeps its insertion order, and overwriting a key keeps its place: an association
  list with \<open>AList.update\<close>.
\<close>

type_synonym registry = "(string \<times> SerializerStrategy) list"

definition REGISTRY :: registry where
  "REGISTRY = [(''standard'', StandardStrategy), (''cisco'', CiscoStrategy), (''mlspp'', MlsppStrategy)]"

definition register_dialect :: "SerializerStrategy \<Rightarrow> registry \<Rightarrow> registry" where
  "register_dialect strategy reg = AList.update (strategy_name strategy) strategy reg"

definition get_dialect :: "registry \<Rightarrow> string \<Rightarrow> SerializerStrategy res" where
  "get_dialect reg nm = (case map_of reg nm of None \<Rightarrow> Inl KeyError | Some s \<Rightarrow> Inr s)"

definition detect_dialect :: "registry \<Rightarrow> bytes \<Rightarrow> SerializerStrategy res" where
  "detect_dialect reg data =
     (case find (\<lambda>s. detect s data) (map snd reg) of
        Some s \<Rightarrow> Inr s
      | None \<Rightarrow> (case map_of reg ''standard'' of None \<Rightarrow> Inl KeyError | Some s \<Rightarrow> Inr s))"

section \<open>The contract of a strategy\<close>

locale dialect =
  fixes S :: SerializerStrategy
  assumes extensions_back: "roundtrips (encode_extensions S es) (decode_extensions S) es"
    and extensions_halt: "halts (decode_extensions S)"
    and vector_back: "roundtrips (encode_vector S items) (decode_vector S) [concat items]"
    and vector_halt: "halts (decode_vector S)"
begin

text \<open>A message of the dialect: header, a vector of items, extensions.\<close>

lemma framed_message:
  assumes "encode_vector S items = Inr v" "encode_extensions S es = Inr e"
  shows "decode_vector S (strategy_header S @ v @ e) (length (strategy_header S))
           = Inr ([concat items], length (strategy_header S) + length v)"
    "decode_extensions S (strategy_header S @ v @ e) (length (strategy_header S) + length v)
           = Inr (es, length (strategy_header S) + length v + length e)"
  using readsD [OF roundtripsD [OF vector_back assms(1)], of "length (strategy_header S)" "strategy_header S @ v @ e" e]
    readsD [OF roundtripsD [OF extensions_back assms(2)], of "length (strategy_header S) + length v" "strategy_header S @ v @ e" "[]"]
  by simp_all

end

section \<open>Lemmas\<close>

lemma standard_extensions_eq:
  "standard_encode_extensions = tls_extensions" "standard_decode_extensions = read_extensions"
proof -
  have "standard_extension_step = read_extension"
    by (intro ext) (simp add: standard_extension_step_def read_extension_def)
  then show "standard_decode_extensions = read_extensions"
    by (intro ext) (simp add: standard_decode_extensions_def read_extensions_def)
  show "standard_encode_extensions = tls_extensions"
    by (intro ext) (simp add: standard_encode_extensions_def tls_extensions_def tls_extension_def)
qed

lemma rt_prefixed_block:
  assumes "roundtrips e d (int (length body))"
  shows "roundtrips (cat_res [e, Inr body])
     (\<lambda>buf off0. bindR (d buf off0) (\<lambda>(len, off).
        if off + nat len > length buf then Inl err else Inr ([slice buf off (off + nat len)], off + nat len))) [body]"
proof (rule roundtripsI)
  fix bs assume "cat_res [e, Inr body] = Inr bs"
  from roundtripsD [OF rt_prefixed [OF assms, of err] this]
  show "reads (\<lambda>buf off0. bindR (d buf off0) (\<lambda>(len, off).
        if off + nat len > length buf then Inl err else Inr ([slice buf off (off + nat len)], off + nat len))) bs [body]"
    by (auto simp: reads_def split: if_splits) (metis (no_types, lifting))
qed

abbreviation vector_overrun :: py_error where
  "vector_overrun \<equiv> ValueError ''Vector length exceeds buffer size''"

text \<open>The three vector readers are one reader over the length prefix of the dialect.\<close>

definition read_block :: "int reader \<Rightarrow> bytes list reader" where
  "read_block d buf off0 = bindR (d buf off0) (\<lambda>(len, off).
     if off + nat len > length buf then Inl vector_overrun
     else Inr ([slice buf off (off + nat len)], off + nat len))"

lemma vector_alts:
  "standard_decode_vector = read_block varint_decode"
  "cisco_decode_vector = read_block read_u16"
  "mlspp_decode_vector = read_block read_u32"
  by (intro ext, unfold standard_decode_vector_def cisco_decode_vector_def mlspp_decode_vector_def
      read_block_def read_u16_def read_u32_def bindR_assoc Let_def bindR.simps prod.case; rule refl)+

lemma rt_block: "(\<And>n. roundtrips (e n) d n) \<Longrightarrow> roundtrips (cat_res [e (int (length body)), Inr body]) (read_block d) [body]"
  unfolding read_block_def [abs_def] by (rule rt_prefixed_block)

lemma halts_block: "halts d \<Longrightarrow> halts (read_block d)"
  unfolding halts_def read_block_def by (auto simp: bindR_eq_Inl)

lemma cisco_step_alt:
  "cisco_extension_step buf off0 = bindR (read_u16 buf off0) (\<lambda>(t, off1).
     bindR (read_u16 buf off1) (\<lambda>(len, off2).
     Inr ((t, slice buf off2 (off2 + nat len)), off2 + nat len)))"
  unfolding cisco_extension_step_def read_u16_def bindR_assoc Let_def bindR.simps prod.case ..

lemma rt_cisco_step:
  "roundtrips (cat_res [tls_u16 t, tls_u16 (int (length d)), Inr d]) cisco_extension_step (t, d)"
proof -
  have "roundtrips (cat_res [Inr d]) (\<lambda>buf off. Inr ((t, slice buf off (off + nat (int (length d)))), off + nat (int (length d)))) (t, d)"
    by (auto intro!: roundtripsI readsI simp: slice_prefix)
  then show ?thesis
    unfolding cisco_step_alt [abs_def] by - (rule rt_seq, rule rt_u16)+
qed

lemma progresses_cisco_step: "progresses cisco_extension_step"
  by (rule progressesI) (auto simp: cisco_extension_step_def read_u16_def Let_def)

lemma halts_cisco_step: "halts cisco_extension_step"
  unfolding cisco_step_alt [abs_def] by (intro halt_intros)

lemma cisco_decode_alt:
  "cisco_decode_extensions buf off0 = bindR (read_u16 buf off0) (\<lambda>(len, off1).
     returned (while_read cisco_extension_step buf (off1 + nat len) off1))"
  unfolding cisco_decode_extensions_def read_u16_def bindR_assoc Let_def bindR.simps prod.case ..

lemma rt_cisco_extensions: "roundtrips (cisco_encode_extensions es) cisco_decode_extensions es"
  unfolding cisco_encode_extensions_def cisco_decode_alt [abs_def]
  by (rule rt_inline_vector [OF rt_u16]) (auto intro: rt_cisco_step progresses_cisco_step simp del: cat_res.simps)

lemma halts_cisco_extensions: "halts cisco_decode_extensions"
  unfolding halts_def cisco_decode_alt
  by (auto simp: bindR_eq_Inl haltsD [OF halts_ints(2)] split: prod.splits
      intro: while_read_no_divergence [THEN notE] progresses_cisco_step halts_cisco_step)

interpretation standard: dialect StandardStrategy
  by unfold_locales (simp_all add: StandardStrategy_def standard_extensions_eq vector_alts
      standard_encode_vector_def Let_def rt_extensions halts_extensions rt_block rt_varint halts_block halts_ints
      del: cat_res.simps)

interpretation cisco: dialect CiscoStrategy
  by unfold_locales (simp_all add: CiscoStrategy_def vector_alts cisco_encode_vector_def Let_def
      rt_cisco_extensions halts_cisco_extensions rt_block rt_u16 halts_block halts_ints del: cat_res.simps)

interpretation mlspp: dialect MlsppStrategy
  by unfold_locales (simp_all add: MlsppStrategy_def standard_extensions_eq vector_alts
      mlspp_encode_vector_def Let_def rt_extensions halts_extensions rt_block rt_u32 halts_block halts_ints
      del: cat_res.simps)

lemma registered_cases:
  "get_dialect REGISTRY nm = Inr S \<Longrightarrow> dialect S"
  by (auto simp: get_dialect_def REGISTRY_def split: option.splits if_splits
      intro: standard.dialect_axioms cisco.dialect_axioms mlspp.dialect_axioms)

section \<open>Claims\<close>

text \<open>C39: whatever dialect the registry hands out, a message framed with its header, its vector
  of items and its extensions is read back in sequence by the same dialect: the items as one
  block, then the extensions, ending exactly at the end of the message.\<close>

theorem registered_dialects_roundtrip:
  assumes "get_dialect REGISTRY nm = Inr S"
    and "encode_vector S items = Inr v" and "encode_extensions S es = Inr e"
  shows "decode_vector S (strategy_header S @ v @ e) (length (strategy_header S))
           = Inr ([concat items], length (strategy_header S) + length v)
       \<and> decode_extensions S (strategy_header S @ v @ e) (length (strategy_header S) + length v)
           = Inr (es, length (strategy_header S @ v @ e))"
  using dialect.framed_message [OF registered_cases [OF assms(1)] assms(2,3)] by (simp add: add.assoc)

theorem registered_dialects_roundtrip_witness:
  "decode_vector CiscoStrategy [0xCC, 1, 0, 2, 7, 8, 0, 5, 0, 2, 0, 1, 9] 2 = Inr ([[7, 8]], 6)
 \<and> decode_extensions CiscoStrategy [0xCC, 1, 0, 2, 7, 8, 0, 5, 0, 2, 0, 1, 9] 6 = Inr ([(2, [9])], 13)"
proof -
  have g: "get_dialect REGISTRY ''cisco'' = Inr CiscoStrategy"
    by (simp add: get_dialect_def REGISTRY_def)
  have "cisco_encode_vector [[7], [8]] = Inr [0, 2, 7, 8]"
    "cisco_encode_extensions [(2, [9])] = Inr [0, 5, 0, 2, 0, 1, 9]"
    by code_simp+
  with registered_dialects_roundtrip [OF g, of "[[7], [8]]" "[0, 2, 7, 8]" "[(2, [9])]" "[0, 5, 0, 2, 0, 1, 9]"]
  show ?thesis by (simp add: CiscoStrategy_def numeral_eq_Suc)
qed

text \<open>The decoders of every registered dialect return or raise on every input, whatever
  lengths the bytes claim.\<close>

theorem registered_dialects_terminate:
  assumes "get_dialect REGISTRY nm = Inr S"
  shows "decode_vector S buf off \<noteq> Inl Nontermination \<and> decode_extensions S buf off \<noteq> Inl Nontermination"
  using dialect.vector_halt [OF registered_cases [OF assms]] dialect.extensions_halt [OF registered_cases [OF assms]]
  by (simp add: haltsD)

theorem registered_dialects_terminate_witness:
  "decode_vector MlsppStrategy [255, 255, 255, 255] 0 \<noteq> Inl Nontermination"
proof -
  have g: "get_dialect REGISTRY ''mlspp'' = Inr MlsppStrategy"
    by (simp add: get_dialect_def REGISTRY_def)
  from registered_dialects_terminate [OF g] show ?thesis by simp
qed

text \<open>Detection. On the built-in registry it never raises: a message that begins with the
  header of the Cisco or the mlspp dialect is given to that dialect, and every other message to
  the standard one. A dialect registered under a new name is found under that name, leaves every
  other name alone, and receives exactly the messages it recognises and no built-in dialect
  does.\<close>

theorem dialect_detection:
  assumes "strategy_name S \<notin> fst ` set REGISTRY"
  shows "detect_dialect REGISTRY data =
     Inr (if startswith data (strategy_header CiscoStrategy) then CiscoStrategy
          else if startswith data (strategy_header MlsppStrategy) then MlsppStrategy
          else StandardStrategy)
 \<and> get_dialect (register_dialect S REGISTRY) nm = (if nm = strategy_name S then Inr S else get_dialect REGISTRY nm)
 \<and> detect_dialect (register_dialect S REGISTRY) data =
     (if detect S data \<and> list_all (\<lambda>B. \<not> detect (snd B) data) REGISTRY then Inr S else detect_dialect REGISTRY data)"
proof (intro conjI)
  show "detect_dialect REGISTRY data =
     Inr (if startswith data (strategy_header CiscoStrategy) then CiscoStrategy
          else if startswith data (strategy_header MlsppStrategy) then MlsppStrategy
          else StandardStrategy)"
    by (cases data) (auto simp: detect_dialect_def REGISTRY_def StandardStrategy_def CiscoStrategy_def
        MlsppStrategy_def startswith_def)
  show "get_dialect (register_dialect S REGISTRY) nm = (if nm = strategy_name S then Inr S else get_dialect REGISTRY nm)"
    by (simp add: get_dialect_def register_dialect_def update_conv')
  from assms show "detect_dialect (register_dialect S REGISTRY) data =
     (if detect S data \<and> list_all (\<lambda>B. \<not> detect (snd B) data) REGISTRY then Inr S else detect_dialect REGISTRY data)"
    by (auto simp: detect_dialect_def register_dialect_def REGISTRY_def)
qed

theorem dialect_detection_witness:
  "detect_dialect REGISTRY [0xCC, 1, 0] = Inr CiscoStrategy
 \<and> detect_dialect (register_dialect (StandardStrategy\<lparr>strategy_name := ''lab'', detect := (\<lambda>d. startswith d [7])\<rparr>) REGISTRY) [7, 1]
     = Inr (StandardStrategy\<lparr>strategy_name := ''lab'', detect := (\<lambda>d. startswith d [7])\<rparr>)"
proof -
  define S where "S = StandardStrategy\<lparr>strategy_name := ''lab'', detect := (\<lambda>d. startswith d [7])\<rparr>"
  have n: "strategy_name S \<notin> fst ` set REGISTRY" by (simp add: S_def REGISTRY_def)
  have d: "detect S [7, 1] \<and> list_all (\<lambda>B. \<not> detect (snd B) [7, 1]) REGISTRY"
    by (simp add: S_def REGISTRY_def StandardStrategy_def CiscoStrategy_def MlsppStrategy_def startswith_def)
  have c: "startswith [0xCC, 1, 0] (strategy_header CiscoStrategy)"
    by (simp add: CiscoStrategy_def startswith_def)
  from dialect_detection [OF n, of "[0xCC, 1, 0]"] dialect_detection [OF n, of "[7, 1]"] d c
  show ?thesis unfolding S_def by simp
qed

text \<open>
  The Cisco decoder does not check the length of an extension against the buffer: a truncated
  extension is accepted, and the offset it returns lies outside the buffer. The standard decoder
  refuses the corresponding message.
\<close>

theorem cisco_accepts_truncated:
  "decode_extensions CiscoStrategy [0, 4, 0, 1, 0, 9] 0 = Inr ([(1, [])], 15)"
  by (simp add: CiscoStrategy_def cisco_decode_extensions_def cisco_extension_step_def while_read.simps
      struct_unpack_from_def read_u16_def slice_def from_be_def)

end
