(* ===== verification/Hpke.thy ===== *)
theory Hpke
  imports Keys
begin

text \<open>
  \<open>hpke.py\<close>: HPKE base mode (RFC 9180) over the primitives of \<open>Keys\<close>. The theorem: the owner of
  the receiver's private key opens every sealed message to its plaintext, when both sides use the
  same associated data, sequence number and info; sealing itself only raises where the
  primitives do.
\<close>

section \<open>Model\<close>

definition HPKE_SUITE_ID :: bytes where
  "HPKE_SUITE_ID = encode_str ''HPKE'' @ [0x00, 0x20, 0x00, 0x01, 0x00, 0x01]"

definition hpke_kem_extract :: "bytes option \<Rightarrow> bytes \<Rightarrow> bytes \<Rightarrow> bytes" where
  "hpke_kem_extract salt label ikm =
     (let labeled_ikm = HPKE_V1 @ KEM_SUITE_ID @ label @ ikm in hkdf_extract salt labeled_ikm sha256)"

definition hpke_kem_expand :: "bytes \<Rightarrow> bytes \<Rightarrow> bytes \<Rightarrow> nat \<Rightarrow> bytes res" where
  "hpke_kem_expand prk label info len =
     bindR (int_to_bytes 2 (int len)) (\<lambda>l.
     let labeled_info = l @ HPKE_V1 @ KEM_SUITE_ID @ label @ info
     in hkdf_expand prk labeled_info len sha256)"

definition hpke_labeled_extract :: "bytes option \<Rightarrow> bytes \<Rightarrow> bytes \<Rightarrow> bytes" where
  "hpke_labeled_extract salt label ikm =
     (let labeled_ikm = HPKE_V1 @ HPKE_SUITE_ID @ label @ ikm in hkdf_extract salt labeled_ikm sha256)"

definition hpke_labeled_expand :: "bytes \<Rightarrow> bytes \<Rightarrow> bytes \<Rightarrow> nat \<Rightarrow> bytes res" where
  "hpke_labeled_expand prk label info len =
     bindR (int_to_bytes 2 (int len)) (\<lambda>l.
     let labeled_info = l @ HPKE_V1 @ HPKE_SUITE_ID @ label @ info
     in hkdf_expand prk labeled_info len sha256)"

definition hpke_xor_nonce :: "bytes \<Rightarrow> int \<Rightarrow> bytes res" where
  "hpke_xor_nonce base_nonce seq =
     bindR (int_to_bytes 12 seq) (\<lambda>seq_bytes. Inr (map2 (XOR) base_nonce seq_bytes))"

text \<open>
  Phase 1 and Phase 2 of \<open>seal\<close> and \<open>open\<close>, the same code in both: from the Diffie-Hellman value
  and the KEM context to the AEAD key and nonce.
\<close>

definition hpke_key_nonce :: "bytes \<Rightarrow> bytes \<Rightarrow> bytes \<Rightarrow> int \<Rightarrow> (bytes \<times> bytes) res" where
  "hpke_key_nonce dh kem_context info seq =
     (let prk_kem = hpke_kem_extract (Some []) (encode_str ''eae_prk'') dh
      in bindR (hpke_kem_expand prk_kem (encode_str ''shared_secret'') kem_context 32)
           (\<lambda>shared_secret.
         let mode = [0x00];
             psk_id_hash = hpke_labeled_extract (Some []) (encode_str ''psk_id_hash'') [];
             info_hash = hpke_labeled_extract (Some []) (encode_str ''info_hash'') info;
             ks_context = mode @ psk_id_hash @ info_hash;
             prk_key = hpke_labeled_extract (Some shared_secret) (encode_str ''secret'') []
         in bindR (hpke_labeled_expand prk_key (encode_str ''key'') ks_context 16) (\<lambda>key.
            bindR (hpke_labeled_expand prk_key (encode_str ''base_nonce'') ks_context 12) (\<lambda>base_nonce.
            bindR (hpke_xor_nonce base_nonce seq) (\<lambda>nonce.
            Inr (key, nonce))))))"

text \<open>The ephemeral key \<open>KemKey()\<close> of the source is the argument \<open>ephemeral\<close>.\<close>

definition hpke_seal ::
    "crypto \<Rightarrow> KemKey \<Rightarrow> bytes \<Rightarrow> bytes \<Rightarrow> bytes \<Rightarrow> int \<Rightarrow> bytes \<Rightarrow> (bytes \<times> bytes) res" where
  "hpke_seal C ephemeral receiver_pub plaintext aad seq info =
     (let enc = kem_public_bytes C ephemeral
      in bindR (dh_exchange C ephemeral receiver_pub) (\<lambda>dh.
         let kem_context = enc @ receiver_pub
         in bindR (hpke_key_nonce dh kem_context info seq) (\<lambda>(key, nonce).
            bindR (gcm_encrypt C key nonce plaintext aad) (\<lambda>ciphertext.
            Inr (enc, ciphertext)))))"

definition hpke_open ::
    "crypto \<Rightarrow> KemKey \<Rightarrow> bytes \<Rightarrow> bytes \<Rightarrow> bytes \<Rightarrow> int \<Rightarrow> bytes \<Rightarrow> bytes res" where
  "hpke_open C receiver_priv enc ciphertext aad seq info =
     bindR (dh_exchange C receiver_priv enc) (\<lambda>dh.
     let kem_context = enc @ kem_public_bytes C receiver_priv
     in bindR (hpke_key_nonce dh kem_context info seq) (\<lambda>(key, nonce).
        gcm_decrypt C key nonce ciphertext aad))"

section \<open>Lemmas\<close>

lemma expand32: "len \<le> 8160 \<Longrightarrow> \<exists>okm. hkdf_expand prk info len sha256 = Inr okm \<and> length okm = len"
  using hkdf_expand_ok [of sha256 len prk info] by simp

lemma hpke_kem_expand_ok:
  "len \<le> 8160 \<Longrightarrow> \<exists>okm. hpke_kem_expand prk label info len = Inr okm \<and> length okm = len"
  using expand32 by (simp add: hpke_kem_expand_def int_to_bytes_def Let_def)

lemma hpke_labeled_expand_ok:
  "len \<le> 8160 \<Longrightarrow> \<exists>okm. hpke_labeled_expand prk label info len = Inr okm \<and> length okm = len"
  using expand32 by (simp add: hpke_labeled_expand_def int_to_bytes_def Let_def)

lemma hpke_key_nonce_ok:
  assumes "0 \<le> seq" "seq < 256 ^ 12"
  shows "\<exists>key nonce. hpke_key_nonce dh ctx info seq = Inr (key, nonce)
           \<and> length key = 16 \<and> length nonce = 12"
proof -
  let ?prk = "hpke_kem_extract (Some []) (encode_str ''eae_prk'') dh"
  obtain ss where ss: "hpke_kem_expand ?prk (encode_str ''shared_secret'') ctx 32 = Inr ss"
    using hpke_kem_expand_ok [of 32 ?prk "encode_str ''shared_secret''" ctx] by auto
  let ?c = "[0x00] @ hpke_labeled_extract (Some []) (encode_str ''psk_id_hash'') []
              @ hpke_labeled_extract (Some []) (encode_str ''info_hash'') info"
  let ?k = "hpke_labeled_extract (Some ss) (encode_str ''secret'') []"
  obtain key where key: "hpke_labeled_expand ?k (encode_str ''key'') ?c 16 = Inr key" "length key = 16"
    using hpke_labeled_expand_ok [of 16 ?k "encode_str ''key''" ?c] by auto
  obtain bn where bn: "hpke_labeled_expand ?k (encode_str ''base_nonce'') ?c 12 = Inr bn"
      "length bn = 12"
    using hpke_labeled_expand_ok [of 12 ?k "encode_str ''base_nonce''" ?c] by auto
  show ?thesis
    using assms ss key bn by (simp add: hpke_key_nonce_def hpke_xor_nonce_def int_to_bytes_def Let_def)
qed

lemma hpke_open_seal:
  assumes "dh_agrees C" and "gcm_decrypts C"
    and "hpke_seal C eph (kem_public_bytes C k) pt aad seq info = Inr (enc, ct)"
  shows "hpke_open C k enc ct aad seq info = Inr pt"
  using assms(2,3) dh_exchange_agrees [OF assms(1), of eph k]
  by (auto simp: hpke_seal_def hpke_open_def Let_def gcm_decrypts_def)

lemma hpke_seal_ok:
  assumes "dh_exchange C eph pk = Inr dh" and "0 \<le> seq" "seq < 256 ^ 12"
    and "\<And>key nonce. length key = 16 \<Longrightarrow> length nonce = 12 \<Longrightarrow> \<exists>c. gcm_encrypt C key nonce pt aad = Inr c"
  shows "\<exists>ct. hpke_seal C eph pk pt aad seq info = Inr (kem_public_bytes C eph, ct)"
proof -
  obtain key nonce where
    "hpke_key_nonce dh (kem_public_bytes C eph @ pk) info seq = Inr (key, nonce)"
    "length key = 16" "length nonce = 12"
    using hpke_key_nonce_ok [OF assms(2,3)] by blast
  with assms(1,4) show ?thesis by (fastforce simp: hpke_seal_def Let_def)
qed

section \<open>Properties\<close>

text \<open>HPKE opens what HPKE seals. If Diffie-Hellman agrees and AES-GCM decrypts what it
  encrypts, then whatever \<open>HPKE.seal\<close> produces for the public key of \<open>k\<close>, \<open>HPKE.open\<close> with the
  private key \<open>k\<close> and the same associated data, sequence number and info returns the plaintext.\<close>

theorem hpke_roundtrip:
  assumes "dh_agrees C" and "gcm_decrypts C"
    and "hpke_seal C eph (kem_public_bytes C k) pt aad seq info = Inr (enc, ct)"
  shows "hpke_open C k enc ct aad seq info = Inr pt"
  using assms by (rule hpke_open_seal)

theorem hpke_roundtrip_witness:
  "\<exists>enc ct. hpke_open demo_crypto \<lparr>kem_private = [7]\<rparr> enc ct [] 0 [] = Inr [42]"
proof -
  let ?e = "\<lparr>kem_private = [3]\<rparr>" and ?k = "\<lparr>kem_private = [7]\<rparr>"
  have "\<exists>ct. hpke_seal demo_crypto ?e (kem_public_bytes demo_crypto ?k) [42] [] 0 []
      = Inr (kem_public_bytes demo_crypto ?e, ct)"
    by (rule hpke_seal_ok [where dh = "map2 (XOR) (pad_to 32 [3]) (pad_to 32 [7])"])
      (simp_all add: demo_crypto_def dh_exchange_def kem_public_bytes_def)
  then obtain ct where "hpke_seal demo_crypto ?e (kem_public_bytes demo_crypto ?k) [42] [] 0 []
      = Inr (kem_public_bytes demo_crypto ?e, ct)" by blast
  from hpke_roundtrip [OF demo_crypto_laws(2,3) this] show ?thesis by blast
qed

text \<open>Sealing never fails by itself: when the receiver's public key is usable and the
  primitive encrypts 16-byte keys with 12-byte nonces, \<open>HPKE.seal\<close> returns, for every sequence
  number below 2^96, and its encapsulated key is the ephemeral public key.\<close>

theorem hpke_seal_returns:
  assumes "dh_exchange C eph pk = Inr dh" and "0 \<le> seq" and "seq < 2 ^ 96"
    and "\<And>key nonce. length key = 16 \<Longrightarrow> length nonce = 12 \<Longrightarrow> \<exists>c. gcm_encrypt C key nonce pt aad = Inr c"
  shows "\<exists>ct. hpke_seal C eph pk pt aad seq info = Inr (kem_public_bytes C eph, ct)"
  using assms by (intro hpke_seal_ok) simp_all

theorem hpke_seal_returns_witness:
  "\<exists>ct. hpke_seal demo_crypto \<lparr>kem_private = [3]\<rparr> [7] [42] [] 5 [] = Inr (pad_to 32 [3], ct)"
proof -
  have d: "dh_exchange demo_crypto \<lparr>kem_private = [3]\<rparr> [7]
      = Inr (map2 (XOR) (pad_to 32 [3]) (pad_to 32 [7]))"
    by (simp add: demo_crypto_def dh_exchange_def)
  have "\<exists>ct. hpke_seal demo_crypto \<lparr>kem_private = [3]\<rparr> [7] [42] [] 5 []
      = Inr (kem_public_bytes demo_crypto \<lparr>kem_private = [3]\<rparr>, ct)"
    by (rule hpke_seal_returns [OF d]) (simp_all add: demo_crypto_def)
  then show ?thesis by (simp add: kem_public_bytes_def demo_crypto_def)
qed

end
