(* ===== verification/GroupInfos.thy ===== *)
theory GroupInfos
  imports TreeHash KeySchedules Codecs Hpke
begin

text \<open>
  \<open>group.py\<close>, lines 45 to 523: the group context, the Welcome with its encrypted group secrets, the
  signed group information, references to key packages, path secrets and transcript hashes. The
  theorems: each structure survives the wire, a Welcome in every dialect; group information is
  authentic; a joiner finds its secrets.
\<close>

section \<open>GroupContext\<close>

record GroupContext =
  gc_group_id :: bytes
  gc_epoch :: int
  gc_tree_hash :: bytes
  gc_confirmed_transcript_hash :: bytes
  gc_extensions_bytes :: bytes

definition GC_VERSION :: int where "GC_VERSION = 0x0001"
definition GC_CIPHER_SUITE :: int where "GC_CIPHER_SUITE = 0x0001"

definition GroupContext_to_bytes :: "GroupContext \<Rightarrow> bytes res" where
  "GroupContext_to_bytes gc =
     cat_res [int_to_bytes 2 GC_VERSION, int_to_bytes 2 GC_CIPHER_SUITE,
       tls_varint (int (length (gc_group_id gc))), Inr (gc_group_id gc),
       int_to_bytes 8 (gc_epoch gc),
       tls_varint (int (length (gc_tree_hash gc))), Inr (gc_tree_hash gc),
       tls_varint (int (length (gc_confirmed_transcript_hash gc))), Inr (gc_confirmed_transcript_hash gc),
       tls_varint (int (length (gc_extensions_bytes gc))), Inr (gc_extensions_bytes gc)]"

text \<open>The extensions are cut out by a slice that is not checked against the buffer.\<close>

definition GroupContext_from_bytes_at :: "GroupContext reader" where
  "GroupContext_from_bytes_at data off0 =
     bindR (read_u16 data off0) (\<lambda>(version, off1).
     if version \<noteq> GC_VERSION then Inl (ValueError ''Unsupported GroupContext version'')
     else
       bindR (read_u16 data off1) (\<lambda>(cipher_suite, off2).
       if cipher_suite \<noteq> GC_CIPHER_SUITE then Inl (ValueError ''Unsupported cipher suite'')
       else
         bindR (read_opaque data off2) (\<lambda>(gid, off3).
         bindR (read_u64 data off3) (\<lambda>(epoch, off4).
         bindR (read_opaque data off4) (\<lambda>(th, off5).
         bindR (read_opaque data off5) (\<lambda>(cth, off6).
         bindR (varint_decode data off6) (\<lambda>(ext_len, off7).
         Inr (\<lparr>gc_group_id = gid, gc_epoch = epoch, gc_tree_hash = th, gc_confirmed_transcript_hash = cth,
               gc_extensions_bytes = slice data off7 (off7 + nat ext_len)\<rparr>, off7 + nat ext_len))))))))"

definition GroupContext_from_bytes :: "bytes \<Rightarrow> GroupContext res" where
  "GroupContext_from_bytes data = bindR (GroupContext_from_bytes_at data 0) (\<lambda>(gc, _). Inr gc)"

section \<open>GroupSecrets and EncryptedGroupSecrets\<close>

record GroupSecrets =
  gs_joiner_secret :: bytes
  gs_path_secret :: "bytes option"
  gs_psks :: "PreSharedKeyID list"

definition GroupSecrets_to_bytes :: "GroupSecrets \<Rightarrow> bytes res" where
  "GroupSecrets_to_bytes gs =
     (let actual_path = (case gs_path_secret gs of Some p \<Rightarrow> p | None \<Rightarrow> []);
          present = (actual_path \<noteq> []) in
      cat_res
        ([tls_varint (int (length (gs_joiner_secret gs))), Inr (gs_joiner_secret gs)]
         @ (if present then [Inr [0x01], tls_varint (int (length actual_path)), Inr actual_path] else [Inr [0x00]])
         @ [bindR (cat_res (map PreSharedKeyID_to_bytes (gs_psks gs))) (\<lambda>psk_bytes.
              cat_res [tls_varint (int (length psk_bytes)), Inr psk_bytes])]))"

definition GroupSecrets_from_bytes :: "bytes \<Rightarrow> GroupSecrets res" where
  "GroupSecrets_from_bytes data =
     bindR (read_opaque data 0) (\<lambda>(joiner, off1).
     bindR (byte_at data off1) (\<lambda>has_path.
     bindR (if has_path \<noteq> 0
            then bindR (read_opaque data (off1 + 1)) (\<lambda>(p, off). Inr (Some p, off))
            else Inr (None, off1 + 1)) (\<lambda>(path, off2).
     bindR (if off2 < length data
            then bindR (varint_decode data off2) (\<lambda>(psk_vec_len, off3).
                 let end_psk = off3 + nat psk_vec_len in
                 returned (while_read PreSharedKeyID_from_bytes_at data end_psk off3))
            else Inr ([], off2)) (\<lambda>(psks, _).
     Inr \<lparr>gs_joiner_secret = joiner, gs_path_secret = path, gs_psks = psks\<rparr>))))"

record EncryptedGroupSecrets =
  egs_new_member :: bytes
  egs_kem_output :: bytes
  egs_ciphertext :: bytes

definition vop :: "bytes \<Rightarrow> bytes res" where
  "vop b = cat_res [tls_varint (int (length b)), Inr b]"

definition EncryptedGroupSecrets_to_bytes :: "EncryptedGroupSecrets \<Rightarrow> bytes res" where
  "EncryptedGroupSecrets_to_bytes e =
     cat_res [vop (egs_new_member e), vop (egs_kem_output e), vop (egs_ciphertext e)]"

definition EncryptedGroupSecrets_from_bytes :: "EncryptedGroupSecrets reader" where
  "EncryptedGroupSecrets_from_bytes data off0 =
     bindR (read_opaque data off0) (\<lambda>(nm, off1).
     bindR (read_opaque data off1) (\<lambda>(ko, off2).
     bindR (read_opaque data off2) (\<lambda>(ct, off3).
     Inr (\<lparr>egs_new_member = nm, egs_kem_output = ko, egs_ciphertext = ct\<rparr>, off3))))"

section \<open>Welcome\<close>

record Welcome =
  w_cipher_suite :: int
  w_encrypted_group_secrets :: "EncryptedGroupSecrets list"
  w_encrypted_group_info :: bytes
  w_dialect :: "string option"

definition WELCOME_CIPHER_SUITE :: int where "WELCOME_CIPHER_SUITE = 0x0001"

text \<open>\<open>self.dialect or "standard"\<close>.\<close>

definition dialect_name :: "string option \<Rightarrow> string" where
  "dialect_name d = (case d of None \<Rightarrow> ''standard'' | Some n \<Rightarrow> if n = [] then ''standard'' else n)"

text \<open>The module-level registry of \<open>codecs.py\<close> is the argument \<open>reg\<close>.\<close>

definition Welcome_to_bytes :: "registry \<Rightarrow> Welcome \<Rightarrow> bytes res" where
  "Welcome_to_bytes reg w =
     bindR (get_dialect reg (dialect_name (w_dialect w))) (\<lambda>strategy.
     bindR (cat_res (map EncryptedGroupSecrets_to_bytes (w_encrypted_group_secrets w))) (\<lambda>secrets_bytes.
     bindR (encode_vector strategy [secrets_bytes]) (\<lambda>egs_bytes.
     bindR (encode_vector strategy [w_encrypted_group_info w]) (\<lambda>egi_bytes.
     cat_res [Inr (strategy_header strategy), tls_u16 WELCOME_CIPHER_SUITE, Inr egs_bytes, Inr egi_bytes]))))"

definition Welcome_from_bytes :: "registry \<Rightarrow> bytes \<Rightarrow> string option \<Rightarrow> Welcome res" where
  "Welcome_from_bytes reg data dial =
     (let dname = (case dial of None \<Rightarrow> ''standard'' | Some n \<Rightarrow> n) in
      bindR (get_dialect reg dname) (\<lambda>strategy.
      let off0 = (if strategy_header strategy \<noteq> [] \<and> startswith data (strategy_header strategy)
                  then length (strategy_header strategy)
                  else if strategy_name strategy = ''standard'' \<and> startswith data [0x00, 0x01, 0x00, 0x03]
                  then 4 else 0) in
      bindR (read_u16 data off0) (\<lambda>(cipher_suite, off1).
      bindR (decode_vector strategy data off1) (\<lambda>(egs_vec_list, off2).
      bindR (py_index egs_vec_list 0) (\<lambda>egs_bytes.
      bindR (returned (while_read EncryptedGroupSecrets_from_bytes egs_bytes (length egs_bytes) 0)) (\<lambda>(secrets, _).
      bindR (decode_vector strategy data off2) (\<lambda>(egi_vec_list, off3).
      bindR (py_index egi_vec_list 0) (\<lambda>egi.
      Inr \<lparr>w_cipher_suite = cipher_suite, w_encrypted_group_secrets = secrets,
           w_encrypted_group_info = egi, w_dialect = Some dname\<rparr>))))))))"

definition Welcome_from_mlsmessage_bytes :: "registry \<Rightarrow> bytes \<Rightarrow> Welcome res" where
  "Welcome_from_mlsmessage_bytes reg data = (let inner = drop 4 data in Welcome_from_bytes reg inner None)"

text \<open>The loop of \<open>decrypt_group_secrets\<close>: only \<open>InvalidTag\<close> moves on to the next entry.\<close>

fun open_first :: "crypto \<Rightarrow> KemKey \<Rightarrow> bytes \<Rightarrow> EncryptedGroupSecrets list \<Rightarrow> bytes option res" where
  "open_first C init_key info [] = Inr None"
| "open_first C init_key info (egs # rest) =
     (case hpke_open C init_key (egs_kem_output egs) (egs_ciphertext egs) [] 0 info of
        Inr gs_bytes \<Rightarrow> Inr (Some gs_bytes)
      | Inl InvalidTag \<Rightarrow> open_first C init_key info rest
      | Inl e \<Rightarrow> Inl e)"

definition decrypt_group_secrets :: "crypto \<Rightarrow> registry \<Rightarrow> Welcome \<Rightarrow> KemKey \<Rightarrow> GroupSecrets option res" where
  "decrypt_group_secrets C reg w init_key =
     bindR (get_dialect reg (dialect_name (w_dialect w))) (\<lambda>strategy.
     let label = welcome_label strategy in
     bindR (cat_res [tls_varint (int (length label)), Inr label,
                     tls_varint (int (length (w_encrypted_group_info w))), Inr (w_encrypted_group_info w)]) (\<lambda>info.
     bindR (open_first C init_key info (w_encrypted_group_secrets w)) (\<lambda>r.
     case r of
       None \<Rightarrow> Inr None
     | Some gs_bytes \<Rightarrow> bindR (GroupSecrets_from_bytes gs_bytes) (\<lambda>gs. Inr (Some gs)))))"

section \<open>GroupInfo\<close>

record GroupInfo =
  gi_group_context :: GroupContext
  gi_extensions_bytes :: bytes
  gi_confirmation_tag :: bytes
  gi_signer :: int
  gi_signature :: bytes
  gi_raw_data :: bytes

definition GroupInfo_tbs_bytes :: "GroupInfo \<Rightarrow> bytes res" where
  "GroupInfo_tbs_bytes gi =
     cat_res [GroupContext_to_bytes (gi_group_context gi),
              cat_res [tls_varint (int (length (gi_extensions_bytes gi))), Inr (gi_extensions_bytes gi)],
              tls_opaque (gi_confirmation_tag gi), tls_u32 (gi_signer gi)]"

definition GroupInfo_to_bytes :: "GroupInfo \<Rightarrow> bytes res" where
  "GroupInfo_to_bytes gi = cat_res [GroupInfo_tbs_bytes gi, tls_opaque (gi_signature gi)]"

definition GroupInfo_from_bytes :: "bytes \<Rightarrow> GroupInfo res" where
  "GroupInfo_from_bytes data =
     bindR (GroupContext_from_bytes_at data 0) (\<lambda>(gc, off1).
     bindR (varint_decode data off1) (\<lambda>(ext_len, off2).
     let exts = slice data off2 (off2 + nat ext_len); off3 = off2 + nat ext_len in
     bindR (read_opaque data off3) (\<lambda>(tag, off4).
     let signer = from_be (slice data off4 (off4 + 4)); off5 = off4 + 4 in
     bindR (read_opaque data off5) (\<lambda>(sg, off6).
     Inr \<lparr>gi_group_context = gc, gi_extensions_bytes = exts, gi_confirmation_tag = tag, gi_signer = signer,
          gi_signature = sg, gi_raw_data = data\<rparr>))))"

text \<open>The payload that \<open>build_and_sign\<close> signs and \<open>verify\<close> checks.\<close>

definition GroupInfo_payload :: "GroupInfo \<Rightarrow> bytes res" where
  "GroupInfo_payload gi =
     bindR (GroupInfo_tbs_bytes gi) (\<lambda>tbs.
     cat_res [tls_opaque (encode_str ''MLS 1.0 GroupInfoTBS''), tls_opaque tbs])"

definition GroupInfo_build_and_sign ::
    "crypto \<Rightarrow> GroupContext \<Rightarrow> bytes \<Rightarrow> int \<Rightarrow> SignatureKey \<Rightarrow> extension list option \<Rightarrow> GroupInfo res" where
  "GroupInfo_build_and_sign C gc tag signer sig_key extensions =
     bindR (case extensions of
              None \<Rightarrow> Inr []
            | Some es \<Rightarrow> cat_res (map (\<lambda>(t, d). cat_res [tls_u16 t, tls_opaque d]) es)) (\<lambda>ext_bytes.
     let gi = \<lparr>gi_group_context = gc, gi_extensions_bytes = ext_bytes, gi_confirmation_tag = tag,
               gi_signer = signer, gi_signature = [], gi_raw_data = []\<rparr> in
     bindR (GroupInfo_payload gi) (\<lambda>final_payload.
     Inr (gi\<lparr>gi_signature := sig_sign C sig_key final_payload\<rparr>)))"

definition GroupInfo_verify :: "crypto \<Rightarrow> GroupInfo \<Rightarrow> bytes \<Rightarrow> unit res" where
  "GroupInfo_verify C gi committer_sig_key_bytes =
     bindR (GroupInfo_payload gi) (\<lambda>final_payload.
     if \<not> sig_verify C committer_sig_key_bytes (gi_signature gi) final_payload
     then Inl (ValueError ''Ed25519 signature verification failed for GroupInfo'')
     else Inr ())"

section \<open>References, group contexts, path secrets, transcript hashes\<close>

definition KP_REF_LABEL :: bytes where "KP_REF_LABEL = encode_str ''MLS 1.0 KeyPackage Reference''"

definition make_kp_ref :: "KeyPackage \<Rightarrow> bytes res" where
  "make_kp_ref kp =
     bindR (KeyPackage_to_bytes kp) (\<lambda>kp_bytes.
     bindR (cat_res [tls_varint (int (length KP_REF_LABEL)), Inr KP_REF_LABEL,
                     tls_varint (int (length kp_bytes)), Inr kp_bytes]) (\<lambda>ref_input.
     Inr (digest sha256 ref_input)))"

definition make_group_context :: "bytes \<Rightarrow> int \<Rightarrow> RatchetTree \<Rightarrow> bytes \<Rightarrow> GroupContext res" where
  "make_group_context gid epoch_id tree cth =
     bindR (tree_hash tree) (\<lambda>th.
     Inr \<lparr>gc_group_id = gid, gc_epoch = epoch_id, gc_tree_hash = th, gc_confirmed_transcript_hash = cth,
          gc_extensions_bytes = []\<rparr>)"

definition derive_path_node_key :: "bytes \<Rightarrow> bytes res" where
  "derive_path_node_key path_secret = expand_with_label path_secret ''node'' [] 32 sha256"

definition derive_next_path_secret :: "bytes \<Rightarrow> bytes res" where
  "derive_next_path_secret path_secret = expand_with_label path_secret ''path'' [] 32 sha256"

definition confirmed_transcript_hash_input :: "bytes \<Rightarrow> bytes \<Rightarrow> bytes res" where
  "confirmed_transcript_hash_input framed_content_bytes signature =
     cat_res [tls_u16 0x0001, Inr framed_content_bytes, tls_opaque signature]"

definition compute_confirmed_transcript_hash :: "bytes \<Rightarrow> bytes \<Rightarrow> bytes" where
  "compute_confirmed_transcript_hash interim confirmed_input = digest sha256 (interim @ confirmed_input)"

definition compute_interim_transcript_hash :: "bytes \<Rightarrow> bytes \<Rightarrow> bytes" where
  "compute_interim_transcript_hash confirmed tag = digest sha256 (confirmed @ tag)"

section \<open>Lemmas\<close>

subsection \<open>Length-prefixed fields written out\<close>

lemma cat_opaque:
  "cat_res (tls_varint (int (length d)) # Inr d # es) = cat_res (tls_opaque d # es)"
  by (simp add: tls_opaque_def bindR_assoc)

lemma vop_eq: "vop = tls_opaque"
  by (simp add: vop_def tls_opaque_def fun_eq_iff)

text \<open>A field read by a slice that is not checked.\<close>

definition read_clamped :: "bytes reader" where
  "read_clamped data off0 = bindR (varint_decode data off0) (\<lambda>(n, off). Inr (slice data off (off + nat n), off + nat n))"

lemma rt_clamped [rt_intros]: "roundtrips (tls_opaque d) read_clamped d"
proof -
  have "roundtrips (cat_res [Inr d]) (\<lambda>buf off. Inr (slice buf off (off + nat (int (length d))), off + nat (int (length d)))) d"
    by (auto intro!: roundtripsI readsI simp: slice_prefix)
  then show ?thesis
    unfolding tls_opaque_def read_clamped_def [abs_def] by (intro rt_seq [OF rt_varint])
qed

lemma progresses_clamped [progress_intros]: "progresses read_clamped"
  by (rule progressesI) (auto simp: read_clamped_def dest!: progressesD [OF progresses_varint])

lemma halts_clamped [halt_intros]: "halts read_clamped"
  unfolding read_clamped_def [abs_def] by (intro halt_intros)

lemma rt_int2 [rt_intros]: "roundtrips (int_to_bytes 2 v) read_u16 v"
  and rt_int8 [rt_intros]: "roundtrips (int_to_bytes 8 v) read_u64 v"
  by (auto intro!: roundtripsI readsI simp: read_u16_def read_u64_def unpack_head)

subsection \<open>GroupContext\<close>

lemma GroupContext_to_bytes_alt:
  "GroupContext_to_bytes gc = cat_res [int_to_bytes 2 GC_VERSION, int_to_bytes 2 GC_CIPHER_SUITE,
     tls_opaque (gc_group_id gc), int_to_bytes 8 (gc_epoch gc), tls_opaque (gc_tree_hash gc),
     tls_opaque (gc_confirmed_transcript_hash gc), tls_opaque (gc_extensions_bytes gc)]"
  unfolding GroupContext_to_bytes_def by (simp add: tls_opaque_def bindR_assoc)

lemma GroupContext_from_bytes_at_alt:
  "GroupContext_from_bytes_at = (\<lambda>data off0.
     bindR (read_u16 data off0) (\<lambda>(version, off1).
     if version \<noteq> GC_VERSION then Inl (ValueError ''Unsupported GroupContext version'')
     else
       bindR (read_u16 data off1) (\<lambda>(cipher_suite, off2).
       if cipher_suite \<noteq> GC_CIPHER_SUITE then Inl (ValueError ''Unsupported cipher suite'')
       else
         bindR (read_opaque data off2) (\<lambda>(gid, off3).
         bindR (read_u64 data off3) (\<lambda>(epoch, off4).
         bindR (read_opaque data off4) (\<lambda>(th, off5).
         bindR (read_opaque data off5) (\<lambda>(cth, off6).
         bindR (read_clamped data off6) (\<lambda>(exts, off7).
         Inr (\<lparr>gc_group_id = gid, gc_epoch = epoch, gc_tree_hash = th, gc_confirmed_transcript_hash = cth,
               gc_extensions_bytes = exts\<rparr>, off7)))))))))"
  by (intro ext) (auto intro!: bindR_cong simp: GroupContext_from_bytes_at_def read_clamped_def bindR_assoc)

lemma rt_GroupContext [rt_intros]: "roundtrips (GroupContext_to_bytes gc) GroupContext_from_bytes_at gc"
  unfolding GroupContext_to_bytes_alt GroupContext_from_bytes_at_alt
  by (cases gc) (simp only: GroupContext.simps, (rule rt_intros)+)

lemma progresses_GroupContext [progress_intros]: "progresses GroupContext_from_bytes_at"
  unfolding GroupContext_from_bytes_at_alt by (intro progress_intros)

interpretation group_context: wire_codec GroupContext_to_bytes GroupContext_from_bytes_at "\<lambda>_. True"
  by unfold_locales (intro rt_intros progress_intros)+

subsection \<open>GroupSecrets\<close>

lemma psk_canon_idem: "psk_canon (psk_canon k) = psk_canon k"
  by (simp add: psk_canon_def)

lemma PreSharedKeyID_to_bytes_canon: "PreSharedKeyID_to_bytes (psk_canon k) = PreSharedKeyID_to_bytes k"
  by (simp add: PreSharedKeyID_opaque psk_canon_def del: cat_res.simps)

definition gs_canon :: "GroupSecrets \<Rightarrow> GroupSecrets" where
  "gs_canon gs = gs\<lparr>gs_path_secret := (if gs_path_secret gs = Some [] then None else gs_path_secret gs),
                    gs_psks := map psk_canon (gs_psks gs)\<rparr>"

definition gs_path_reader :: "bytes option reader" where
  "gs_path_reader data off =
     bindR (byte_at data off) (\<lambda>has_path.
     if has_path \<noteq> 0 then bindR (read_opaque data (off + 1)) (\<lambda>(p, off). Inr (Some p, off)) else Inr (None, off + 1))"

definition gs_psk_reader :: "PreSharedKeyID list reader" where
  "gs_psk_reader data off =
     (if off < length data
      then bindR (varint_decode data off) (\<lambda>(n, off3).
           returned (while_read PreSharedKeyID_from_bytes_at data (off3 + nat n) off3))
      else Inr ([], off))"

lemma GroupSecrets_from_bytes_alt:
  "GroupSecrets_from_bytes data =
     bindR (read_opaque data 0) (\<lambda>(joiner, off1).
     bindR (gs_path_reader data off1) (\<lambda>(path, off2).
     bindR (gs_psk_reader data off2) (\<lambda>(psks, _).
     Inr \<lparr>gs_joiner_secret = joiner, gs_path_secret = path, gs_psks = psks\<rparr>)))"
  by (auto intro!: bindR_cong simp: GroupSecrets_from_bytes_def gs_path_reader_def gs_psk_reader_def bindR_assoc Let_def)

lemma rt_gs_path:
  "roundtrips (cat_res (if p \<noteq> None \<and> p \<noteq> Some [] then [Inr [0x01], tls_opaque (the p)] else [Inr [0x00]]))
     gs_path_reader (if p = Some [] then None else p)"
proof (cases "p \<noteq> None \<and> p \<noteq> Some []")
  case True
  then obtain q where q: "p = Some q" "q \<noteq> []" by auto
  show ?thesis
  proof (rule roundtripsI)
    fix bs assume "cat_res (if p \<noteq> None \<and> p \<noteq> Some [] then [Inr [0x01], tls_opaque (the p)] else [Inr [0x00]]) = Inr bs"
    with q obtain b where b: "tls_opaque q = Inr b" "bs = 1 # b" by auto
    from reads_tag [OF roundtripsD [OF rt_opaque b(1)], of 1 gs_path_reader Some] b(2) q
    show "reads gs_path_reader bs (if p = Some [] then None else p)" by (simp add: gs_path_reader_def)
  qed
next
  case False
  then show ?thesis
    by (auto intro!: roundtripsI readsI simp: gs_path_reader_def dest: reads_prefix_bytes(1))
qed

lemma rt_gs_psks:
  "roundtrips (bindR (cat_res (map PreSharedKeyID_to_bytes ks)) (\<lambda>b. cat_res [tls_varint (int (length b)), Inr b]))
     gs_psk_reader (map psk_canon ks)"
proof (rule roundtripsI)
  fix bs assume a: "bindR (cat_res (map PreSharedKeyID_to_bytes ks)) (\<lambda>b. cat_res [tls_varint (int (length b)), Inr b]) = Inr bs"
  have m: "map PreSharedKeyID_to_bytes ks = map PreSharedKeyID_to_bytes (map psk_canon ks)"
    by (simp add: PreSharedKeyID_to_bytes_canon)
  have r: "reads (\<lambda>buf off0. bindR (varint_decode buf off0) (\<lambda>(len, off).
      returned (while_read PreSharedKeyID_from_bytes_at buf (off + nat len) off))) bs (map psk_canon ks)"
    by (rule roundtripsD [OF _ a], subst m, rule rt_inline_vector [OF rt_varint])
      (auto simp: PreSharedKeyID_to_bytes_canon intro: rt_PreSharedKeyID progress_intros)
  from a obtain n pre b where "tls_varint n = Inr pre" "bs = pre @ b" by auto
  with reads_start [OF roundtripsD [OF rt_varint], of n pre "[]"] progressesD [OF progresses_varint, of pre 0]
  have ne: "bs \<noteq> []" by fastforce
  show "reads gs_psk_reader bs (map psk_canon ks)"
  proof (rule readsI)
    fix buf :: bytes and off rest assume o: "off \<le> length buf" "drop off buf = bs @ rest"
    from drop_eq_append_le [OF o] ne have "off < length buf" by (cases bs) auto
    with readsD [OF r o] show "gs_psk_reader buf off = Inr (map psk_canon ks, off + length bs)"
      by (simp add: gs_psk_reader_def)
  qed
qed

lemma GroupSecrets_from_to:
  assumes "GroupSecrets_to_bytes gs = Inr bs"
  shows "GroupSecrets_from_bytes (bs @ post) = Inr (gs_canon gs)"
proof -
  define pe where "pe = (if gs_path_secret gs \<noteq> None \<and> gs_path_secret gs \<noteq> Some []
    then [Inr [0x01], tls_opaque (the (gs_path_secret gs))] else [Inr [0x00 :: byte]])"
  define ke where "ke = bindR (cat_res (map PreSharedKeyID_to_bytes (gs_psks gs))) (\<lambda>b. cat_res [tls_varint (int (length b)), Inr b])"
  have "GroupSecrets_to_bytes gs = cat_res [tls_opaque (gs_joiner_secret gs), cat_res pe, ke]"
    by (auto simp: GroupSecrets_to_bytes_def pe_def ke_def Let_def tls_opaque_def bindR_assoc split: option.splits)
  with assms have bs: "cat_res [tls_opaque (gs_joiner_secret gs), cat_res pe, ke] = Inr bs" by simp
  have "reads (\<lambda>data off0. bindR (read_opaque data off0) (\<lambda>(joiner, off1).
     bindR (gs_path_reader data off1) (\<lambda>(path, off2).
     bindR (gs_psk_reader data off2) (\<lambda>(psks, off3).
     Inr (\<lparr>gs_joiner_secret = joiner, gs_path_secret = path, gs_psks = psks\<rparr>, off3))))) bs (gs_canon gs)"
    unfolding gs_canon_def pe_def ke_def
    by (rule roundtripsD [OF _ bs [unfolded pe_def ke_def]], cases gs, simp only: GroupSecrets.simps)
      (rule rt_seq rt_return rt_opaque rt_gs_path rt_gs_psks)+
  from reads_start [OF this, of post] show ?thesis
    by (auto simp: GroupSecrets_from_bytes_alt)
qed

subsection \<open>EncryptedGroupSecrets and Welcome\<close>

lemma rt_EncryptedGroupSecrets [rt_intros]:
  "roundtrips (EncryptedGroupSecrets_to_bytes e) EncryptedGroupSecrets_from_bytes e"
  unfolding EncryptedGroupSecrets_to_bytes_def EncryptedGroupSecrets_from_bytes_def [abs_def] vop_eq
  by (cases e) (simp only: EncryptedGroupSecrets.simps, (rule rt_intros)+)

lemma progresses_EncryptedGroupSecrets [progress_intros]: "progresses EncryptedGroupSecrets_from_bytes"
  unfolding EncryptedGroupSecrets_from_bytes_def [abs_def] by (intro progress_intros)

lemma halts_EncryptedGroupSecrets [halt_intros]: "halts EncryptedGroupSecrets_from_bytes"
  unfolding EncryptedGroupSecrets_from_bytes_def [abs_def] by (intro halt_intros)

interpretation group_secrets_entry: wire_codec EncryptedGroupSecrets_to_bytes EncryptedGroupSecrets_from_bytes "\<lambda>_. True"
  by unfold_locales (intro rt_intros progress_intros)+

text \<open>A vector of the standard dialect that is not empty does not begin with a zero byte.\<close>

lemma standard_vector_head:
  assumes "encode_vector StandardStrategy [x] = Inr v" "x \<noteq> []"
  shows "\<exists>b vs. v = b # vs \<and> b \<noteq> 0"
proof -
  from assms(1) obtain pre where v: "v = pre @ x" and pre: "tls_varint (int (length x)) = Inr pre"
    by (auto simp: StandardStrategy_def standard_encode_vector_def)
  have d: "varint_decode (pre @ x) 0 = Inr (int (length x), length pre)"
    using reads_start [OF roundtripsD [OF rt_varint pre]] .
  from assms(2) v have "v \<noteq> []" by simp
  then obtain b vs where bv: "v = b # vs" by (cases v) simp_all
  have "b \<noteq> 0"
  proof
    assume "b = 0"
    with bv v have "varint_decode (pre @ x) 0 = Inr (0, 1)" by (simp add: varint_decode_def byte_at_def)
    with d assms(2) show False by simp
  qed
  with bv show ?thesis by blast
qed

lemma header_offset:
  assumes "get_dialect REGISTRY nm = Inr S" "encode_vector S [x] = Inr v" "x \<noteq> []"
    and "data = strategy_header S @ [0x00, 0x01] @ v @ rest"
  shows "(if strategy_header S \<noteq> [] \<and> startswith data (strategy_header S) then length (strategy_header S)
     else if strategy_name S = ''standard'' \<and> startswith data [0x00, 0x01, 0x00, 0x03] then 4 else 0)
     = length (strategy_header S)"
proof (cases "S = StandardStrategy")
  case True
  with assms(2,3) standard_vector_head obtain b vs where "v = b # vs" "b \<noteq> 0" by blast
  with assms(4) True show ?thesis by (simp add: StandardStrategy_def startswith_def)
next
  case False
  with assms(1,4) show ?thesis
    by (auto simp: get_dialect_def REGISTRY_def startswith_def StandardStrategy_def CiscoStrategy_def MlsppStrategy_def
        split: if_splits)
qed

lemma py_index_single [simp]: "py_index [x] 0 = Inr x"
  by (simp add: py_index_def py_pos_def)

lemma Welcome_from_to:
  assumes "Welcome_to_bytes REGISTRY w = Inr bs" "w_encrypted_group_secrets w \<noteq> []"
  shows "Welcome_from_bytes REGISTRY (bs @ post) (Some (dialect_name (w_dialect w)))
       = Inr (w\<lparr>w_cipher_suite := WELCOME_CIPHER_SUITE, w_dialect := Some (dialect_name (w_dialect w))\<rparr>)"
proof -
  let ?es = "w_encrypted_group_secrets w" and ?gi = "w_encrypted_group_info w"
  from assms(1) obtain S sb v u where S: "get_dialect REGISTRY (dialect_name (w_dialect w)) = Inr S"
    and sb: "cat_res (map EncryptedGroupSecrets_to_bytes ?es) = Inr sb"
    and v: "encode_vector S [sb] = Inr v" and u: "encode_vector S [?gi] = Inr u"
    and bs: "bs = strategy_header S @ [0x00, 0x01] @ v @ u"
    by (auto simp: Welcome_to_bytes_def tls_u16_def WELCOME_CIPHER_SUITE_def numeral_2_eq_2)
  have loop: "while_read EncryptedGroupSecrets_from_bytes sb (length sb) 0 = Some (Inr (?es, length sb))"
    by (rule group_secrets_entry.loop_reads_back) (simp_all add: sb list_all_iff)
  from assms(2) obtain e es where "?es = e # es" by (cases ?es) auto
  with sb group_secrets_entry.enc_nonempty [of e] have ne: "sb \<noteq> []" by auto
  let ?d = "bs @ post" and ?h = "length (strategy_header S)"
  have off: "(if strategy_header S \<noteq> [] \<and> startswith ?d (strategy_header S) then ?h
     else if strategy_name S = ''standard'' \<and> startswith ?d [0x00, 0x01, 0x00, 0x03] then 4 else 0) = ?h"
    by (rule header_offset [OF S v ne, where rest = "u @ post"]) (simp add: bs)
  have "reads read_u16 [0x00, 0x01] 1"
    by (rule roundtripsD [OF rt_u16]) (simp add: tls_u16_def numeral_2_eq_2)
  then have r1: "read_u16 ?d ?h = Inr (1, ?h + 2)"
    using readsD [of read_u16 "[0x00, 0x01]" 1 ?h ?d "v @ u @ post"] by (simp add: bs)
  note D = registered_cases [OF S]
  have r2: "decode_vector S ?d (?h + 2) = Inr ([sb], ?h + 2 + length v)"
    using readsD [OF roundtripsD [OF dialect.vector_back [OF D] v], of "?h + 2" ?d "u @ post"] by (simp add: bs)
  have r3: "decode_vector S ?d (?h + 2 + length v) = Inr ([?gi], ?h + 2 + length v + length u)"
    using readsD [OF roundtripsD [OF dialect.vector_back [OF D] u], of "?h + 2 + length v" ?d post] by (simp add: bs)
  show ?thesis
    unfolding Welcome_from_bytes_def Let_def option.case S bindR.simps off r1 prod.case r2 py_index_single loop
      returned_simps r3
    by (cases w) (simp add: WELCOME_CIPHER_SUITE_def)
qed

subsection \<open>GroupInfo\<close>

lemma GroupInfo_tbs_alt:
  "GroupInfo_tbs_bytes gi = cat_res [GroupContext_to_bytes (gi_group_context gi), tls_opaque (gi_extensions_bytes gi),
     tls_opaque (gi_confirmation_tag gi), tls_u32 (gi_signer gi)]"
  by (simp add: GroupInfo_tbs_bytes_def tls_opaque_def)

definition read_signer :: "int reader" where
  "read_signer data off = Inr (from_be (slice data off (off + 4)), off + 4)"

lemma rt_signer: "roundtrips (tls_u32 v) read_signer v"
proof (intro roundtripsI readsI)
  fix bs buf :: bytes and off rest
  assume "tls_u32 v = Inr bs" "off \<le> length buf" and d: "drop off buf = bs @ rest"
  then have "0 \<le> v" "v < 256 ^ 4" "bs = be_bytes 4 v" by (simp_all add: tls_u32_def)
  with slice_prefix [OF d] show "read_signer buf off = Inr (v, off + length bs)" by (simp add: read_signer_def)
qed

definition GroupInfo_reader :: "bytes \<Rightarrow> GroupInfo reader" where
  "GroupInfo_reader raw data off0 =
     bindR (GroupContext_from_bytes_at data off0) (\<lambda>(gc, off1).
     bindR (read_clamped data off1) (\<lambda>(exts, off2).
     bindR (read_opaque data off2) (\<lambda>(tag, off3).
     bindR (read_signer data off3) (\<lambda>(signer, off4).
     bindR (read_opaque data off4) (\<lambda>(sg, off5).
     Inr (\<lparr>gi_group_context = gc, gi_extensions_bytes = exts, gi_confirmation_tag = tag, gi_signer = signer,
          gi_signature = sg, gi_raw_data = raw\<rparr>, off5))))))"

lemma GroupInfo_from_bytes_alt:
  "GroupInfo_from_bytes data = bindR (GroupInfo_reader data data 0) (\<lambda>(gi, _). Inr gi)"
  by (simp add: GroupInfo_from_bytes_def GroupInfo_reader_def read_clamped_def read_signer_def bindR_case Let_def
      split: sum.split)

lemma rt_GroupInfo: "roundtrips (GroupInfo_to_bytes gi) (GroupInfo_reader raw) (gi\<lparr>gi_raw_data := raw\<rparr>)"
proof -
  have e: "GroupInfo_to_bytes gi = cat_res [GroupContext_to_bytes (gi_group_context gi), tls_opaque (gi_extensions_bytes gi),
     tls_opaque (gi_confirmation_tag gi), tls_u32 (gi_signer gi), tls_opaque (gi_signature gi)]"
    by (simp add: GroupInfo_to_bytes_def GroupInfo_tbs_alt bindR_assoc)
  show ?thesis unfolding e GroupInfo_reader_def [abs_def]
    by (cases gi) (simp only: GroupInfo.simps, (rule rt_seq rt_return rt_GroupContext rt_clamped rt_opaque rt_signer)+)
qed

lemma GroupInfo_from_to:
  "GroupInfo_to_bytes gi = Inr bs \<Longrightarrow> GroupInfo_from_bytes (bs @ post) = Inr (gi\<lparr>gi_raw_data := bs @ post\<rparr>)"
  using reads_start [OF roundtripsD [OF rt_GroupInfo], of gi bs "bs @ post" post]
  by (simp add: GroupInfo_from_bytes_alt)

lemma GroupInfo_payload_frame [simp]:
  "GroupInfo_payload (gi\<lparr>gi_signature := s\<rparr>) = GroupInfo_payload gi"
  "GroupInfo_payload (gi\<lparr>gi_raw_data := r\<rparr>) = GroupInfo_payload gi"
  by (simp_all add: GroupInfo_payload_def GroupInfo_tbs_bytes_def)

lemma GroupInfo_signed:
  assumes "GroupInfo_build_and_sign C gc tag signer sk es = Inr gi" "signatures_verify C"
  shows "GroupInfo_verify C gi (sig_public_bytes C sk) = Inr ()"
    "gi_group_context gi = gc" "gi_confirmation_tag gi = tag" "gi_signer gi = signer"
    "cat_res (map tls_extension (case es of None \<Rightarrow> [] | Some xs \<Rightarrow> xs)) = Inr (gi_extensions_bytes gi)"
proof -
  from assms(1) obtain x p where x: "cat_res (map tls_extension (case es of None \<Rightarrow> [] | Some xs \<Rightarrow> xs)) = Inr x"
    and p: "GroupInfo_payload \<lparr>gi_group_context = gc, gi_extensions_bytes = x, gi_confirmation_tag = tag,
               gi_signer = signer, gi_signature = [], gi_raw_data = []\<rparr> = Inr p"
    and gi: "gi = \<lparr>gi_group_context = gc, gi_extensions_bytes = x, gi_confirmation_tag = tag,
               gi_signer = signer, gi_signature = [], gi_raw_data = []\<rparr>\<lparr>gi_signature := sig_sign C sk p\<rparr>"
    by (auto simp: GroupInfo_build_and_sign_def Let_def tls_extension_def split: option.splits simp del: cat_res.simps(2))
  have "GroupInfo_payload gi = Inr p" using p by (simp only: gi GroupInfo_payload_frame)
  moreover have "gi_signature gi = sig_sign C sk p" by (simp add: gi)
  moreover have "sig_verify C (sig_public_bytes C sk) (sig_sign C sk p) p"
    using sig_sign_verifies [OF assms(2)] by (simp add: sig_verify_iff)
  ultimately show "GroupInfo_verify C gi (sig_public_bytes C sk) = Inr ()" by (simp add: GroupInfo_verify_def)
  show "gi_group_context gi = gc" "gi_confirmation_tag gi = tag" "gi_signer gi = signer"
    "cat_res (map tls_extension (case es of None \<Rightarrow> [] | Some xs \<Rightarrow> xs)) = Inr (gi_extensions_bytes gi)"
    using x by (simp_all add: gi)
qed

subsection \<open>Decryption of the group secrets\<close>

lemma open_first_skips:
  assumes "list_all (\<lambda>e. hpke_open C k (egs_kem_output e) (egs_ciphertext e) [] 0 info = Inl InvalidTag) es"
    and "hpke_open C k (egs_kem_output e) (egs_ciphertext e) [] 0 info = Inr b"
  shows "open_first C k info (es @ e # fs) = Inr (Some b)"
  using assms by (induction es) auto

lemma welcome_info_eq:
  "cat_res [tls_varint (int (length l)), Inr l, tls_varint (int (length g)), Inr g] = cat_res [tls_opaque l, tls_opaque g]"
  by (simp add: tls_opaque_def bindR_assoc)

lemma egs_info_standard:
  "egs_info g = cat_res [tls_opaque (welcome_label StandardStrategy), tls_opaque g]"
  by (simp add: egs_info_def make_hpke_info_def StandardStrategy_def encode_str_def)

section \<open>Properties\<close>

text \<open>C23: A Welcome with at least one recipient survives the wire in every registered dialect: read back
  in the dialect it was written in, it has the same recipients and the same encrypted group info,
  also when other bytes follow it.\<close>

theorem Welcome_roundtrip:
  assumes "Welcome_to_bytes REGISTRY w = Inr bs" "w_encrypted_group_secrets w \<noteq> []"
  shows "Welcome_from_bytes REGISTRY (bs @ post) (Some (dialect_name (w_dialect w)))
       = Inr (w\<lparr>w_cipher_suite := WELCOME_CIPHER_SUITE, w_dialect := Some (dialect_name (w_dialect w))\<rparr>)"
  using assms by (rule Welcome_from_to)

theorem Welcome_roundtrip_witness:
  "Welcome_from_bytes REGISTRY [0xCC, 1, 0, 1, 0, 5, 1, 7, 0, 1, 9, 0, 2, 3, 4] (Some ''cisco'')
   = Inr \<lparr>w_cipher_suite = 1,
          w_encrypted_group_secrets = [\<lparr>egs_new_member = [7], egs_kem_output = [], egs_ciphertext = [9]\<rparr>],
          w_encrypted_group_info = [3, 4], w_dialect = Some ''cisco''\<rparr>"
proof -
  let ?w = "\<lparr>w_cipher_suite = 1,
          w_encrypted_group_secrets = [\<lparr>egs_new_member = [7], egs_kem_output = [], egs_ciphertext = [9]\<rparr>],
          w_encrypted_group_info = [3, 4], w_dialect = Some ''cisco''\<rparr>"
  have "Welcome_to_bytes REGISTRY ?w = Inr [0xCC, 1, 0, 1, 0, 5, 1, 7, 0, 1, 9, 0, 2, 3, 4]" by code_simp
  from Welcome_roundtrip [OF this, of "[]"] show ?thesis
    by (simp add: dialect_name_def WELCOME_CIPHER_SUITE_def)
qed

text \<open>C24: Group information is authentic. What \<open>build_and_sign\<close> returns carries the given context,
  tag and signer; written, read back and verified under the signer's public key, it passes.\<close>

theorem GroupInfo_authentic:
  assumes "signatures_verify C" "GroupInfo_build_and_sign C gc tag signer sk es = Inr gi"
    and "GroupInfo_to_bytes gi = Inr bs"
  shows "\<exists>gi'. GroupInfo_from_bytes bs = Inr gi' \<and> GroupInfo_verify C gi' (sig_public_bytes C sk) = Inr ()
     \<and> gi_group_context gi' = gc \<and> gi_confirmation_tag gi' = tag \<and> gi_signer gi' = signer
     \<and> cat_res (map tls_extension (case es of None \<Rightarrow> [] | Some xs \<Rightarrow> xs)) = Inr (gi_extensions_bytes gi')"
proof -
  note f = GroupInfo_signed [OF assms(2,1)]
  have "GroupInfo_verify C (gi\<lparr>gi_raw_data := bs\<rparr>) (sig_public_bytes C sk) = Inr ()"
    using f(1) by (simp add: GroupInfo_verify_def)
  with GroupInfo_from_to [OF assms(3), of "[]"] f(2-) show ?thesis by simp
qed

definition demo_context :: GroupContext where
  "demo_context = \<lparr>gc_group_id = [1], gc_epoch = 3, gc_tree_hash = [2], gc_confirmed_transcript_hash = [],
     gc_extensions_bytes = []\<rparr>"

theorem GroupInfo_authentic_witness:
  "\<exists>gi bs gi'. GroupInfo_build_and_sign demo_crypto demo_context [9] 0 \<lparr>sig_private = [3]\<rparr> (Some [(2, [8])]) = Inr gi
     \<and> GroupInfo_to_bytes gi = Inr bs \<and> GroupInfo_from_bytes bs = Inr gi'
     \<and> GroupInfo_verify demo_crypto gi' (sig_public_bytes demo_crypto \<lparr>sig_private = [3]\<rparr>) = Inr ()"
proof -
  let ?b = "GroupInfo_build_and_sign demo_crypto demo_context [9] 0 \<lparr>sig_private = [3]\<rparr> (Some [(2, [8])])"
  have "\<not> isl (bindR ?b GroupInfo_to_bytes)" by code_simp
  then obtain gi bs where b: "?b = Inr gi" "GroupInfo_to_bytes gi = Inr bs"
    by (auto dest!: not_isl_Inr)
  from GroupInfo_authentic [OF demo_crypto_laws(1) b] b show ?thesis by blast
qed

text \<open>A joiner finds its secrets. When the entries before it are refused and one entry was sealed
  to the joiner's init key under the label of the dialect, \<open>decrypt_group_secrets\<close> returns the
  group secrets that were sealed.\<close>

theorem decrypt_group_secrets_finds:
  assumes "dh_agrees C" "gcm_decrypts C" "get_dialect reg (dialect_name (w_dialect w)) = Inr S"
    and "cat_res [tls_opaque (welcome_label S), tls_opaque (w_encrypted_group_info w)] = Inr info"
    and "GroupSecrets_to_bytes gs = Inr b"
    and "hpke_seal C eph (kem_public_bytes C k) b [] 0 info = Inr (egs_kem_output e, egs_ciphertext e)"
    and "w_encrypted_group_secrets w = es @ e # fs"
    and "list_all (\<lambda>e. hpke_open C k (egs_kem_output e) (egs_ciphertext e) [] 0 info = Inl InvalidTag) es"
  shows "decrypt_group_secrets C reg w k = Inr (Some (gs_canon gs))"
proof -
  have "open_first C k info (w_encrypted_group_secrets w) = Inr (Some b)"
    unfolding assms(7) using assms(8) hpke_open_seal [OF assms(1,2,6)] by (rule open_first_skips)
  with GroupSecrets_from_to [OF assms(5), of "[]"] assms(3,4) show ?thesis
    by (simp add: decrypt_group_secrets_def Let_def welcome_info_eq del: cat_res.simps)
qed

theorem decrypt_group_secrets_finds_witness:
  "\<exists>w. decrypt_group_secrets demo_crypto REGISTRY w \<lparr>kem_private = [7]\<rparr>
     = Inr (Some \<lparr>gs_joiner_secret = [5], gs_path_secret = None, gs_psks = []\<rparr>)"
proof -
  let ?e = "\<lparr>kem_private = [3]\<rparr>" and ?k = "\<lparr>kem_private = [7]\<rparr>"
    and ?gs = "\<lparr>gs_joiner_secret = [5], gs_path_secret = None, gs_psks = []\<rparr>"
  obtain info where i: "cat_res [tls_opaque (welcome_label StandardStrategy), tls_opaque [1]] = Inr info"
    by (simp add: StandardStrategy_def tls_opaque_small)
  have b: "GroupSecrets_to_bytes ?gs = Inr [1, 5, 0, 0]" by code_simp
  have "\<exists>ct. hpke_seal demo_crypto ?e (kem_public_bytes demo_crypto ?k) [1, 5, 0, 0] [] 0 info
      = Inr (kem_public_bytes demo_crypto ?e, ct)"
    by (rule hpke_seal_ok [where dh = "map2 (XOR) (pad_to 32 [3]) (pad_to 32 [7])"])
      (simp_all add: demo_crypto_def dh_exchange_def kem_public_bytes_def)
  then obtain ct where s: "hpke_seal demo_crypto ?e (kem_public_bytes demo_crypto ?k) [1, 5, 0, 0] [] 0 info
      = Inr (kem_public_bytes demo_crypto ?e, ct)" by blast
  define en where "en = \<lparr>egs_new_member = [], egs_kem_output = kem_public_bytes demo_crypto ?e, egs_ciphertext = ct\<rparr>"
  define w where "w = \<lparr>w_cipher_suite = 1, w_encrypted_group_secrets = [] @ en # [],
    w_encrypted_group_info = [1], w_dialect = None\<rparr>"
  have "decrypt_group_secrets demo_crypto REGISTRY w ?k = Inr (Some (gs_canon ?gs))"
    by (rule decrypt_group_secrets_finds [OF demo_crypto_laws(2,3), where S = StandardStrategy and e = en
          and es = "[]" and fs = "[]" and info = info and eph = ?e, OF _ _ b])
      (use s i in \<open>simp_all add: w_def en_def dialect_name_def get_dialect_def REGISTRY_def del: cat_res.simps\<close>)
  then show ?thesis by (auto simp: gs_canon_def)
qed

end
