(* ===== verification/Epochs.thy ===== *)
theory Epochs
  imports KeySchedules RatchetTrees
begin

text \<open>
  \<open>epoch.py\<close>: the state of a group in one epoch (identifier, number, tree, key schedule), its
  creation, its transition to the next epoch, and its persisted form. The theorems: epochs advance
  one by one with a frozen well-formed tree and a schedule chained to the epoch before; the
  persisted form is read back.
\<close>

section \<open>Model\<close>

record EpochState =
  ep_group_id :: bytes
  ep_epoch_id :: int
  ep_tree :: RatchetTree
  ep_key_schedule :: KeySchedule

text \<open>The constructor: \<open>__post_init__\<close> replaces the tree by a frozen deep copy.\<close>

definition EpochState_init :: "bytes \<Rightarrow> int \<Rightarrow> RatchetTree \<Rightarrow> KeySchedule \<Rightarrow> EpochState" where
  "EpochState_init gid eid tree ks =
     \<lparr>ep_group_id = gid, ep_epoch_id = eid, ep_tree = freeze tree, ep_key_schedule = ks\<rparr>"

definition advance_epoch ::
    "EpochState \<Rightarrow> bytes \<Rightarrow> RatchetTree \<Rightarrow> bytes \<Rightarrow> (PreSharedKeyID \<times> bytes) list option \<Rightarrow> EpochState res" where
  "advance_epoch s commit_secret next_tree group_context psk_list =
     bindR (KeySchedule_derive (init_secret (ep_key_schedule s)) commit_secret group_context psk_list) (\<lambda>next_schedule.
     Inr (EpochState_init (ep_group_id s) (ep_epoch_id s + 1) next_tree next_schedule))"

definition genesis :: "bytes \<Rightarrow> RatchetTree \<Rightarrow> bytes \<Rightarrow> EpochState res" where
  "genesis gid creator_tree group_context_bytes =
     (let genesis_init = replicate 32 0; blank_commit = replicate 32 0 in
      bindR (KeySchedule_derive genesis_init blank_commit group_context_bytes None) (\<lambda>ks.
      Inr (EpochState_init gid 0 creator_tree ks)))"

definition EpochState_to_bytes :: "EpochState \<Rightarrow> bytes res" where
  "EpochState_to_bytes s =
     bindR (RatchetTree_to_bytes (ep_tree s)) (\<lambda>tree_bytes.
     cat_res [int_to_bytes 2 (int (length (ep_group_id s))), Inr (ep_group_id s),
              int_to_bytes 8 (ep_epoch_id s), int_to_bytes 4 (int (length tree_bytes)), Inr tree_bytes,
              Inr (KeySchedule_to_bytes (ep_key_schedule s))])"

text \<open>All slices are clamped; only the tree and the key schedule check what they get.\<close>

definition EpochState_from_bytes :: "bytes \<Rightarrow> EpochState res" where
  "EpochState_from_bytes data =
     (let off0 = 0;
          gid_len = nat (from_be (slice data off0 (off0 + 2))); off1 = off0 + 2;
          gid = slice data off1 (off1 + gid_len); off2 = off1 + gid_len;
          eid = from_be (slice data off2 (off2 + 8)); off3 = off2 + 8;
          t_len = nat (from_be (slice data off3 (off3 + 4))); off4 = off3 + 4 in
      bindR (RatchetTree_from_bytes (slice data off4 (off4 + t_len))) (\<lambda>tree.
      let off5 = off4 + t_len in
      bindR (KeySchedule_from_bytes (slice data off5 (off5 + KeySchedule_SIZE))) (\<lambda>ks.
      Inr (EpochState_init gid eid tree ks))))"

section \<open>Lemmas\<close>

lemma RatchetTree_from_to:
  assumes "tree_wf t" "RatchetTree_to_bytes t = Inr bs"
  shows "RatchetTree_from_bytes bs = Inr (tree_canon t)"
proof -
  from assms(1) obtain d where "tree_shape t d" by (auto simp: tree_wf_def)
  from reads_start [OF roundtripsD [OF rt_RatchetTree [OF this] assms(2)], of "[]"]
  show ?thesis by (auto simp: RatchetTree_from_bytes_def RatchetTree_from_bytes_at_def)
qed

lemma EpochState_from_to:
  assumes "tree_wf (ep_tree s)" "schedule_wf (ep_key_schedule s)" "EpochState_to_bytes s = Inr bs"
  shows "EpochState_from_bytes bs = Inr (s\<lparr>ep_tree := freeze (tree_canon (ep_tree s))\<rparr>)"
proof -
  let ?g = "ep_group_id s" and ?k = "KeySchedule_to_bytes (ep_key_schedule s)"
  from assms(3) obtain tb where tb: "RatchetTree_to_bytes (ep_tree s) = Inr tb"
    and r: "length ?g < 65536" "0 \<le> ep_epoch_id s" "ep_epoch_id s < 256 ^ 8" "int (length tb) < 256 ^ 4"
    and bs: "bs = be_bytes 2 (int (length ?g)) @ ?g @ be_bytes 8 (ep_epoch_id s) @ be_bytes 4 (int (length tb)) @ tb @ ?k"
    by (auto simp: EpochState_to_bytes_def)
  let ?a = "be_bytes 2 (int (length ?g))" and ?e = "be_bytes 8 (ep_epoch_id s)" and ?t = "be_bytes 4 (int (length tb))"
  have s: "slice bs 0 2 = ?a" "slice bs 2 (2 + length ?g) = ?g"
    "slice bs (2 + length ?g) (2 + length ?g + 8) = ?e"
    "slice bs (2 + length ?g + 8) (2 + length ?g + 8 + 4) = ?t"
    "slice bs (2 + length ?g + 8 + 4) (2 + length ?g + 8 + 4 + length tb) = tb"
    "slice bs (2 + length ?g + 8 + 4 + length tb) (2 + length ?g + 8 + 4 + length tb + KeySchedule_SIZE) = ?k"
    using length_KeySchedule_to_bytes [OF assms(2)] by (simp_all add: bs Prelude.slice_def)
  have f: "from_be ?a = int (length ?g)" "from_be ?e = ep_epoch_id s" "from_be ?t = int (length tb)"
    using r by simp_all
  show ?thesis
    unfolding EpochState_from_bytes_def Let_def add_0 s(1) f(1) nat_int s(2-4) f(2,3) s(5,6)
      RatchetTree_from_to [OF assms(1) tb] KeySchedule_from_to [OF assms(2)] bindR.simps
    by (simp add: EpochState_init_def)
qed

definition epoch_wf :: "EpochState \<Rightarrow> bool" where
  "epoch_wf s \<longleftrightarrow> tree_wf (ep_tree s) \<and> frozen (ep_tree s) \<and> schedule_wf (ep_key_schedule s) \<and> 0 \<le> ep_epoch_id s"

lemma freeze_simps [simp]: "frozen (freeze t)" "get_node (freeze t) = get_node t"
  by (simp_all add: freeze_def get_node_def fun_eq_iff)

lemma tree_wf_freeze [simp]: "tree_wf (freeze t) = tree_wf t"
  by (simp add: tree_wf_def tree_shape_def freeze_def)

section \<open>Properties\<close>

text \<open>C34: the life of an epoch. \<open>genesis\<close> on a well-formed tree returns epoch 0, and \<open>advance_epoch\<close> from
  any epoch with any commit secret and well-formed next tree returns the next epoch of the same
  group: the epoch number grows by exactly one, the schedule is derived from the init secret of
  the epoch before, and the tree is frozen, so that no later write through it succeeds.\<close>

theorem epoch_lifecycle:
  assumes "tree_wf t" "length gc < 2 ^ 30" "psks_ok psks"
  shows "(\<exists>s0. genesis gid t gc = Inr s0 \<and> epoch_wf s0 \<and> ep_epoch_id s0 = 0 \<and> ep_group_id s0 = gid
            \<and> isl (set_leaf (ep_tree s0) x leaf) \<and> isl (set_parent (ep_tree s0) x p) \<and> isl (blank_node (ep_tree s0) x))
       \<and> (epoch_wf s \<longrightarrow> (\<exists>s' k. advance_epoch s commit_secret t gc psks = Inr s' \<and> epoch_wf s'
            \<and> ep_epoch_id s' = ep_epoch_id s + 1 \<and> ep_group_id s' = ep_group_id s
            \<and> KeySchedule_derive (init_secret (ep_key_schedule s)) commit_secret gc psks = Inr k
            \<and> ep_key_schedule s' = k \<and> get_node (ep_tree s') = get_node t))"
proof -
  obtain k0 where k0: "KeySchedule_derive (replicate 32 0) (replicate 32 0) gc None = Inr k0" "schedule_wf k0"
    using KeySchedule_derive_ok [OF assms(2), of None] by (auto simp: psks_ok_def)
  obtain k where k: "KeySchedule_derive (init_secret (ep_key_schedule s)) commit_secret gc psks = Inr k" "schedule_wf k"
    using KeySchedule_derive_ok [OF assms(2,3)] by blast
  have f: "isl (set_leaf (freeze t) x leaf)" "isl (set_parent (freeze t) x p)" "isl (blank_node (freeze t) x)"
    by (simp_all add: set_leaf_def set_parent_def blank_node_def freeze_def)
  with k0 k assms(1) show ?thesis
    by (auto simp: genesis_def advance_epoch_def EpochState_init_def epoch_wf_def)
qed

theorem epoch_lifecycle_witness:
  "\<exists>s0. genesis [1] demo_tree [] = Inr s0 \<and> ep_epoch_id s0 = 0"
  using epoch_lifecycle [OF demo_tree_wf, of "[]" None "[1]" 0 demo_leaf
      "\<lparr>parent_public_key = [], parent_parent_hash = [], unmerged_leaves = []\<rparr>"] by (auto simp: psks_ok_def)

text \<open>An epoch survives persistence: \<open>from_bytes\<close> of what \<open>to_bytes\<close> wrote is the same epoch, the
  leaves of its tree in canonical form.\<close>

theorem EpochState_roundtrip:
  assumes "epoch_wf s" "EpochState_to_bytes s = Inr bs"
  shows "EpochState_from_bytes bs = Inr (s\<lparr>ep_tree := freeze (tree_canon (ep_tree s))\<rparr>)"
  using assms by (intro EpochState_from_to) (auto simp: epoch_wf_def)

theorem EpochState_roundtrip_witness:
  "\<exists>s bs. genesis [1] demo_tree [] = Inr s \<and> EpochState_to_bytes s = Inr bs
     \<and> EpochState_from_bytes bs = Inr (s\<lparr>ep_tree := freeze (tree_canon (ep_tree s))\<rparr>)"
proof -
  obtain k where k: "KeySchedule_derive (replicate 32 0) (replicate 32 0) [] None = Inr k" "schedule_wf k"
    using KeySchedule_derive_ok [of "[]" None] by (auto simp: psks_ok_def)
  let ?s = "EpochState_init [1] 0 demo_tree k"
  have g: "genesis [1] demo_tree [] = Inr ?s" using k by (simp add: genesis_def)
  have "\<exists>tb. RatchetTree_to_bytes (freeze demo_tree) = Inr tb \<and> length tb < 200"
  proof -
    have "case RatchetTree_to_bytes (freeze demo_tree) of Inl e \<Rightarrow> False | Inr tb \<Rightarrow> length tb < 200" by code_simp
    then show ?thesis by (auto split: sum.splits)
  qed
  then obtain tb where "RatchetTree_to_bytes (freeze demo_tree) = Inr tb" "length tb < 200" by blast
  then obtain bs where bs: "EpochState_to_bytes ?s = Inr bs"
    by (simp add: EpochState_to_bytes_def EpochState_init_def int_to_bytes_def)
  have "epoch_wf ?s" using k demo_tree_wf by (simp add: epoch_wf_def EpochState_init_def)
  from EpochState_roundtrip [OF this bs] g bs show ?thesis by blast
qed
end
