(* ===== verification/Commits.thy ===== *)
theory Commits
  imports GroupInfos Epochs "HOL-Library.List_Lexorder" "HOL-Library.Product_Lexorder"
begin

text \<open>
  \<open>group.py\<close>, lines 526 to 931: the commit (\<open>GroupUpdate\<close>) with its update path, the framing that is
  signed and authenticated, and the envelopes \<open>PublicMessage\<close> and \<open>MLSMessage\<close>. The theorems: the signed
  bytes bind context and content; a commit survives the wire and the envelopes.
\<close>

section \<open>Counted vectors\<close>

text \<open>\<open>for _ in range(n): x, offset = d(data, offset); out.append(x)\<close>.\<close>

fun read_n :: "nat \<Rightarrow> 'a reader \<Rightarrow> 'a list reader" where
  "read_n 0 d data off = Inr ([], off)"
| "read_n (Suc n) d data off =
     bindR (d data off) (\<lambda>(x, off1). bindR (read_n n d data off1) (\<lambda>(xs, off2). Inr (x # xs, off2)))"

section \<open>UpdatePath\<close>

record HPKECiphertext =
  hc_kem_output :: bytes
  hc_ciphertext :: bytes

definition HPKECiphertext_to_bytes :: "HPKECiphertext \<Rightarrow> bytes res" where
  "HPKECiphertext_to_bytes c = cat_res [tls_opaque (hc_kem_output c), tls_opaque (hc_ciphertext c)]"

definition HPKECiphertext_from_bytes :: "HPKECiphertext reader" where
  "HPKECiphertext_from_bytes data off0 =
     bindR (read_opaque data off0) (\<lambda>(ko, off1).
     bindR (read_opaque data off1) (\<lambda>(ct, off2).
     Inr (\<lparr>hc_kem_output = ko, hc_ciphertext = ct\<rparr>, off2)))"

record UpdatePathNode =
  upn_new_public_key :: bytes
  upn_encrypted_path_secret :: "HPKECiphertext list"

definition UpdatePathNode_to_bytes :: "UpdatePathNode \<Rightarrow> bytes res" where
  "UpdatePathNode_to_bytes n =
     bindR (cat_res (map HPKECiphertext_to_bytes (upn_encrypted_path_secret n))) (\<lambda>enc.
     cat_res [tls_opaque (upn_new_public_key n), tls_u32 (int (length (upn_encrypted_path_secret n))), Inr enc])"

definition UpdatePathNode_from_bytes :: "UpdatePathNode reader" where
  "UpdatePathNode_from_bytes data off0 =
     bindR (read_opaque data off0) (\<lambda>(pk, off1).
     bindR (read_u32 data off1) (\<lambda>(n, off2).
     bindR (read_n (nat n) HPKECiphertext_from_bytes data off2) (\<lambda>(cts, off3).
     Inr (\<lparr>upn_new_public_key = pk, upn_encrypted_path_secret = cts\<rparr>, off3))))"

record UpdatePath =
  up_leaf_key_package :: KeyPackage
  up_nodes :: "UpdatePathNode list"

definition UpdatePath_to_bytes :: "UpdatePath \<Rightarrow> bytes res" where
  "UpdatePath_to_bytes p =
     bindR (KeyPackage_to_bytes (up_leaf_key_package p)) (\<lambda>kp_bytes.
     bindR (cat_res (map UpdatePathNode_to_bytes (up_nodes p))) (\<lambda>nodes_bytes.
     cat_res [tls_opaque kp_bytes, tls_u32 (int (length (up_nodes p))), Inr nodes_bytes]))"

definition UpdatePath_from_bytes :: "UpdatePath reader" where
  "UpdatePath_from_bytes data off0 =
     bindR (read_opaque data off0) (\<lambda>(kp_bytes, off1).
     bindR (KeyPackage_from_bytes kp_bytes) (\<lambda>kp.
     bindR (read_u32 data off1) (\<lambda>(n, off2).
     bindR (read_n (nat n) UpdatePathNode_from_bytes data off2) (\<lambda>(ns, off3).
     Inr (\<lparr>up_leaf_key_package = kp, up_nodes = ns\<rparr>, off3)))))"

section \<open>GroupUpdate\<close>

text \<open>
  The dictionary of encrypted commit secrets is an association list in insertion order; writing it
  to a key that is there keeps its place.
\<close>

record GroupUpdate =
  gu_epoch_id :: int
  gu_tree :: RatchetTree
  gu_encrypted_commit_secrets :: "(bytes \<times> bytes) list"
  gu_committer_index :: int
  gu_signature :: bytes
  gu_group_id :: bytes
  gu_update_path :: "UpdatePath option"
  gu_group_ctx :: "GroupContext option"
  gu_old_group_ctx :: "GroupContext option"
  gu_confirmation_key :: "bytes option"
  gu_epoch_authenticator :: "bytes option"
  gu_membership_key :: "bytes option"
  gu_transcript_hash :: "bytes option"
  gu_confirmation_tag :: "bytes option"
  gu_membership_tag :: "bytes option"

definition GroupUpdate_init ::
    "int \<Rightarrow> RatchetTree \<Rightarrow> (bytes \<times> bytes) list \<Rightarrow> int \<Rightarrow> bytes \<Rightarrow> bytes \<Rightarrow> UpdatePath option \<Rightarrow> GroupUpdate" where
  "GroupUpdate_init epoch tree secrets committer signature gid path =
     \<lparr>gu_epoch_id = epoch, gu_tree = tree, gu_encrypted_commit_secrets = secrets, gu_committer_index = committer,
      gu_signature = signature, gu_group_id = gid, gu_update_path = path, gu_group_ctx = None,
      gu_old_group_ctx = None, gu_confirmation_key = None, gu_epoch_authenticator = None,
      gu_membership_key = None, gu_transcript_hash = None, gu_confirmation_tag = None, gu_membership_tag = None\<rparr>"

definition secret_entry_bytes :: "bytes \<times> bytes \<Rightarrow> bytes res" where
  "secret_entry_bytes = (\<lambda>(kp_ref, enc_ct). cat_res [tls_opaque kp_ref, tls_opaque enc_ct])"

definition GroupUpdate_body_bytes :: "GroupUpdate \<Rightarrow> bytes res" where
  "GroupUpdate_body_bytes u =
     bindR (RatchetTree_to_bytes (gu_tree u)) (\<lambda>tree_raw.
     bindR (cat_res (map secret_entry_bytes (sort (gu_encrypted_commit_secrets u)))) (\<lambda>secrets_parts.
     cat_res
       ([tls_u64 (gu_epoch_id u), tls_opaque32 tree_raw, tls_u32 (int (length (gu_encrypted_commit_secrets u))),
         Inr secrets_parts, tls_u32 (gu_committer_index u)]
        @ (case gu_update_path u of
             Some p \<Rightarrow> [Inr [0x01], bindR (UpdatePath_to_bytes p) tls_opaque32]
           | None \<Rightarrow> [Inr [0x00]]))))"

definition GroupUpdate_to_bytes :: "GroupUpdate \<Rightarrow> bytes res" where
  "GroupUpdate_to_bytes u = cat_res [GroupUpdate_body_bytes u, tls_opaque (gu_signature u)]"

definition read_secret_entry :: "(bytes \<times> bytes) reader" where
  "read_secret_entry data off0 =
     bindR (read_opaque data off0) (\<lambda>(kp_ref, off1).
     bindR (read_opaque data off1) (\<lambda>(enc_ct, off2). Inr ((kp_ref, enc_ct), off2)))"

text \<open>\<open>d[k] = v\<close> for the pairs read, in order.\<close>

definition dict_of :: "('k \<times> 'v) list \<Rightarrow> ('k \<times> 'v) list" where
  "dict_of kvs = foldl (\<lambda>d (k, v). AList.update k v d) [] kvs"

definition read_update_path :: "UpdatePath option reader" where
  "read_update_path data off0 =
     bindR (byte_at data off0) (\<lambda>has_up.
     if has_up \<noteq> 0 then
       bindR (read_opaque32 data (off0 + 1)) (\<lambda>(up_bytes, off1).
       bindR (UpdatePath_from_bytes up_bytes 0) (\<lambda>(p, _). Inr (Some p, off1)))
     else Inr (None, off0 + 1))"

definition GroupUpdate_from_bytes :: "bytes \<Rightarrow> GroupUpdate res" where
  "GroupUpdate_from_bytes data =
     bindR (read_u64 data 0) (\<lambda>(epoch_id, off1).
     bindR (read_opaque32 data off1) (\<lambda>(tree_raw, off2).
     bindR (RatchetTree_from_bytes tree_raw) (\<lambda>tree.
     bindR (read_u32 data off2) (\<lambda>(secrets_count, off3).
     bindR (read_n (nat secrets_count) read_secret_entry data off3) (\<lambda>(entries, off4).
     bindR (read_u32 data off4) (\<lambda>(committer, off5).
     bindR (read_update_path data off5) (\<lambda>(path, off6).
     bindR (read_opaque data off6) (\<lambda>(sg, off7).
     Inr (GroupUpdate_init epoch_id tree (dict_of entries) committer sg [] path)))))))))"

section \<open>FramedContent and PublicMessage\<close>

record FramedContent =
  fc_group_id :: bytes
  fc_epoch :: int
  fc_sender_leaf_index :: int
  fc_authenticated_data :: bytes
  fc_content :: bytes

definition CONTENT_TYPE_COMMIT :: int where "CONTENT_TYPE_COMMIT = 0x03"

definition FramedContent_to_bytes :: "FramedContent \<Rightarrow> bytes res" where
  "FramedContent_to_bytes c =
     cat_res [tls_opaque (fc_group_id c), tls_u64 (fc_epoch c), tls_u8 0x01, tls_u32 (fc_sender_leaf_index c),
              tls_opaque (fc_authenticated_data c), tls_u8 CONTENT_TYPE_COMMIT, tls_opaque32 (fc_content c)]"

definition FramedContent_from_bytes :: "bytes \<Rightarrow> FramedContent res" where
  "FramedContent_from_bytes data =
     bindR (read_opaque data 0) (\<lambda>(gid, off1).
     bindR (read_u64 data off1) (\<lambda>(epoch, off2).
     bindR (read_u8 data off2) (\<lambda>(sender_type, off3).
     if sender_type \<noteq> 0x01 then Inl (ValueError ''Unsupported SenderType'')
     else
       bindR (read_u32 data off3) (\<lambda>(sender, off4).
       bindR (read_opaque data off4) (\<lambda>(ad, off5).
       bindR (read_u8 data off5) (\<lambda>(content_type, off6).
       if content_type \<noteq> CONTENT_TYPE_COMMIT then Inl (ValueError ''Unsupported ContentType'')
       else
         bindR (read_opaque32 data off6) (\<lambda>(content, off7).
         Inr \<lparr>fc_group_id = gid, fc_epoch = epoch, fc_sender_leaf_index = sender,
              fc_authenticated_data = ad, fc_content = content\<rparr>)))))))"

definition make_framed_content_tbs :: "GroupContext \<Rightarrow> FramedContent \<Rightarrow> bytes res" where
  "make_framed_content_tbs group_ctx framed =
     cat_res [tls_u16 0x0001, tls_u16 0x0001, GroupContext_to_bytes group_ctx, FramedContent_to_bytes framed]"

record FramedContentAuthData =
  ad_signature :: bytes
  ad_confirmation_tag :: bytes

definition FramedContentAuthData_to_bytes :: "FramedContentAuthData \<Rightarrow> bytes res" where
  "FramedContentAuthData_to_bytes a = cat_res [tls_opaque (ad_signature a), tls_opaque (ad_confirmation_tag a)]"

definition FramedContentAuthData_from_bytes :: "FramedContentAuthData reader" where
  "FramedContentAuthData_from_bytes data off0 =
     bindR (read_opaque data off0) (\<lambda>(sg, off1).
     bindR (read_opaque data off1) (\<lambda>(tag, off2).
     Inr (\<lparr>ad_signature = sg, ad_confirmation_tag = tag\<rparr>, off2)))"

record PublicMessage =
  pm_content :: FramedContent
  pm_auth :: FramedContentAuthData
  pm_membership_tag :: bytes

definition PublicMessage_to_bytes :: "PublicMessage \<Rightarrow> bytes res" where
  "PublicMessage_to_bytes m =
     cat_res [bindR (FramedContent_to_bytes (pm_content m)) tls_opaque32,
              bindR (FramedContentAuthData_to_bytes (pm_auth m)) tls_opaque32, tls_opaque (pm_membership_tag m)]"

definition PublicMessage_from_bytes :: "bytes \<Rightarrow> PublicMessage res" where
  "PublicMessage_from_bytes data =
     bindR (read_opaque32 data 0) (\<lambda>(content_bytes, off1).
     bindR (read_opaque32 data off1) (\<lambda>(auth_bytes, off2).
     bindR (read_opaque data off2) (\<lambda>(tag, off3).
     bindR (FramedContent_from_bytes content_bytes) (\<lambda>content.
     bindR (FramedContentAuthData_from_bytes auth_bytes 0) (\<lambda>(auth, _).
     Inr \<lparr>pm_content = content, pm_auth = auth, pm_membership_tag = tag\<rparr>)))))"

definition PublicMessage_from_group_update ::
    "GroupUpdate \<Rightarrow> bytes \<Rightarrow> bytes \<Rightarrow> GroupContext \<Rightarrow> PublicMessage res" where
  "PublicMessage_from_group_update update conf_key th old_ctx =
     bindR (GroupUpdate_to_bytes update) (\<lambda>commit_body.
     let framed = \<lparr>fc_group_id = gc_group_id old_ctx, fc_epoch = gc_epoch old_ctx,
                   fc_sender_leaf_index = gu_committer_index update, fc_authenticated_data = [],
                   fc_content = commit_body\<rparr>;
         conf_tag = hmac_digest sha256 conf_key th;
         auth = \<lparr>ad_signature = gu_signature update, ad_confirmation_tag = conf_tag\<rparr>
     in case gu_membership_tag update of
          None \<Rightarrow> Inl (ValueError ''GroupUpdate is missing _membership_tag'')
        | Some mem_tag \<Rightarrow> Inr \<lparr>pm_content = framed, pm_auth = auth, pm_membership_tag = mem_tag\<rparr>)"

definition PublicMessage_to_group_update :: "PublicMessage \<Rightarrow> GroupUpdate res" where
  "PublicMessage_to_group_update m =
     bindR (GroupUpdate_from_bytes (fc_content (pm_content m))) (\<lambda>update.
     Inr (update\<lparr>gu_signature := ad_signature (pm_auth m),
                 gu_confirmation_tag := Some (ad_confirmation_tag (pm_auth m)),
                 gu_group_id := fc_group_id (pm_content m),
                 gu_membership_tag := Some (pm_membership_tag m)\<rparr>))"

section \<open>MLSMessage\<close>

datatype WireFormat =
  RESERVED | MLS_PUBLIC_MESSAGE | MLS_PRIVATE_MESSAGE | MLS_WELCOME | MLS_GROUP_INFO | MLS_KEY_PACKAGE

fun wire_format_value :: "WireFormat \<Rightarrow> int" where
  "wire_format_value RESERVED = 0x0000"
| "wire_format_value MLS_PUBLIC_MESSAGE = 0x0001"
| "wire_format_value MLS_PRIVATE_MESSAGE = 0x0002"
| "wire_format_value MLS_WELCOME = 0x0003"
| "wire_format_value MLS_GROUP_INFO = 0x0004"
| "wire_format_value MLS_KEY_PACKAGE = 0x0005"

record MLSMessage =
  wire_format :: int
  body :: bytes

definition MLSMESSAGE_VERSION :: int where "MLSMESSAGE_VERSION = 0x0001"

definition MLSMessage_to_bytes :: "MLSMessage \<Rightarrow> bytes res" where
  "MLSMessage_to_bytes m = cat_res [tls_u16 MLSMESSAGE_VERSION, tls_u16 (wire_format m), tls_opaque32 (body m)]"

definition MLSMessage_from_bytes :: "bytes \<Rightarrow> MLSMessage res" where
  "MLSMessage_from_bytes data =
     bindR (read_u16 data 0) (\<lambda>(version, off1).
     if version \<noteq> MLSMESSAGE_VERSION then Inl (ValueError ''Unsupported MLSMessage version'')
     else
       bindR (read_u16 data off1) (\<lambda>(wf, off2).
       bindR (read_opaque32 data off2) (\<lambda>(b, off3). Inr \<lparr>wire_format = wf, body = b\<rparr>)))"

definition wrap_welcome :: "registry \<Rightarrow> Welcome \<Rightarrow> MLSMessage res" where
  "wrap_welcome reg w =
     bindR (Welcome_to_bytes reg w) (\<lambda>b. Inr \<lparr>wire_format = wire_format_value MLS_WELCOME, body = b\<rparr>)"

definition wrap_commit :: "GroupUpdate \<Rightarrow> MLSMessage res" where
  "wrap_commit commit =
     (case (gu_group_ctx commit, gu_old_group_ctx commit, gu_confirmation_key commit,
            gu_epoch_authenticator commit, gu_membership_key commit, gu_transcript_hash commit) of
        (Some _, Some old_ctx, Some conf_key, Some _, Some _, Some th) \<Rightarrow>
          bindR (PublicMessage_from_group_update commit conf_key th old_ctx) (\<lambda>pm.
          bindR (PublicMessage_to_bytes pm) (\<lambda>b.
          Inr \<lparr>wire_format = wire_format_value MLS_PUBLIC_MESSAGE, body = b\<rparr>))
      | _ \<Rightarrow> Inl (ValueError ''wrap_commit() requires a GroupUpdate produced by add_member() or remove_member()''))"

definition unwrap_welcome :: "registry \<Rightarrow> MLSMessage \<Rightarrow> Welcome res" where
  "unwrap_welcome reg m =
     (if wire_format m \<noteq> wire_format_value MLS_WELCOME then Inl (ValueError ''Expected MLS_WELCOME'')
      else Welcome_from_bytes reg (body m) None)"

definition unwrap_commit :: "MLSMessage \<Rightarrow> GroupUpdate res" where
  "unwrap_commit m =
     (if wire_format m \<noteq> wire_format_value MLS_PUBLIC_MESSAGE then Inl (ValueError ''Expected MLS_PUBLIC_MESSAGE'')
      else bindR (PublicMessage_from_bytes (body m)) PublicMessage_to_group_update)"

definition wrap_key_package :: "KeyPackage \<Rightarrow> MLSMessage res" where
  "wrap_key_package kp =
     bindR (KeyPackage_to_bytes kp) (\<lambda>b. Inr \<lparr>wire_format = wire_format_value MLS_KEY_PACKAGE, body = b\<rparr>)"

definition unwrap_key_package :: "MLSMessage \<Rightarrow> KeyPackage res" where
  "unwrap_key_package m =
     (if wire_format m \<noteq> wire_format_value MLS_KEY_PACKAGE then Inl (ValueError ''Expected MLS_KEY_PACKAGE'')
      else KeyPackage_from_bytes (body m))"

section \<open>Lemmas\<close>

subsection \<open>Counted vectors\<close>

lemma reads_read_n:
  "list_all2 (reads d) bss xs \<Longrightarrow> reads (read_n (length xs) d) (concat bss) xs"
proof (induction rule: list_all2_induct)
  case Nil
  then show ?case by (simp add: reads_def)
next
  case (Cons b bss x xs)
  have r: "read_n (Suc n) d = (\<lambda>data off. bindR (d data off) (\<lambda>(y, off1).
      bindR (read_n n d data off1) (\<lambda>(ys, off2). Inr (y # ys, off2))))" for n
    by (intro ext) simp
  have "reads (\<lambda>data off. bindR (read_n (length xs) d data off) (\<lambda>(ys, off2). Inr (x # ys, off2))) (concat bss @ []) (x # xs)"
    using Cons.IH by (rule reads_bind) (rule reads_return)
  then have "reads (\<lambda>data off. bindR (read_n (length xs) d data off) (\<lambda>(ys, off2). Inr (x # ys, off2))) (concat bss) (x # xs)"
    by simp
  from reads_bind [OF Cons.hyps(1), where ?d2.0 = "\<lambda>y data off. bindR (read_n (length xs) d data off) (\<lambda>(ys, off2). Inr (y # ys, off2))", OF this]
  show ?case by (simp only: length_Cons r concat.simps)
qed

lemma reads_cat_read_n:
  assumes "cat_res (map enc xs) = Inr bs" "\<And>x. x \<in> set xs \<Longrightarrow> roundtrips (enc x) d (f x)"
  shows "reads (read_n (length xs) d) bs (map f xs)"
proof -
  from cat_res_map_pieces [OF assms(1), of "\<lambda>b x. reads d b (f x)"] assms(2)
  obtain bss where bss: "bs = concat bss" "list_all2 (\<lambda>b x. reads d b (f x)) bss xs"
    by (auto dest: roundtripsD)
  then have "list_all2 (reads d) bss (map f xs)" by (simp add: list.rel_map)
  from reads_read_n [OF this] bss(1) show ?thesis by simp
qed

text \<open>A counted vector behind its 32-bit count, as the tail of a structure.\<close>

lemma rt_counted:
  assumes "cat_res (map enc xs) = Inr b" "\<And>x. x \<in> set xs \<Longrightarrow> roundtrips (enc x) d (f x)" "n = int (length xs)"
    and "roundtrips (cat_res es) (k (map f xs)) y"
  shows "roundtrips (cat_res (tls_u32 n # Inr b # es))
     (\<lambda>data off0. bindR (read_u32 data off0) (\<lambda>(n, off1).
        bindR (read_n (nat n) d data off1) (\<lambda>(ys, off2). k ys data off2))) y"
proof (rule roundtripsI)
  fix bs assume "cat_res (tls_u32 n # Inr b # es) = Inr bs"
  then obtain p q where p: "tls_u32 (int (length xs)) = Inr p"
    and q: "cat_res es = Inr q" and bs: "bs = p @ (b @ q)" using assms(3) by auto
  have "reads (read_n (nat (int (length xs))) d) b (map f xs)"
    using reads_cat_read_n [OF assms(1,2)] by simp
  then have "reads (\<lambda>data off1. bindR (read_n (nat (int (length xs))) d data off1) (\<lambda>(ys, off2). k ys data off2)) (b @ q) y"
    using roundtripsD [OF assms(4) q] by (rule reads_bind)
  with roundtripsD [OF rt_u32 p]
  show "reads (\<lambda>data off0. bindR (read_u32 data off0) (\<lambda>(n, off1).
        bindR (read_n (nat n) d data off1) (\<lambda>(ys, off2). k ys data off2))) bs y"
    unfolding bs by (rule reads_bind)
qed

lemma rt_counted_end:
  assumes "\<And>x. roundtrips (enc x) d x"
  shows "roundtrips (bindR (cat_res (map enc xs)) (\<lambda>b. cat_res [tls_u32 (int (length xs)), Inr b]))
     (\<lambda>data off0. bindR (read_u32 data off0) (\<lambda>(n, off1).
        bindR (read_n (nat n) d data off1) (\<lambda>(ys, off2). Inr (g ys, off2)))) (g xs)"
proof (rule roundtripsI)
  fix bs assume "bindR (cat_res (map enc xs)) (\<lambda>b. cat_res [tls_u32 (int (length xs)), Inr b]) = Inr bs"
  then obtain b where b: "cat_res (map enc xs) = Inr b" and bs: "cat_res [tls_u32 (int (length xs)), Inr b] = Inr bs"
    by (auto simp del: cat_res.simps(2))
  have "roundtrips (cat_res []) (\<lambda>data off. Inr (g (map (\<lambda>x. x) xs), off)) (g xs)" using rt_return by simp
  from roundtripsD [OF rt_counted [OF b _ refl, where f = "\<lambda>x. x" and es = "[]" and k = "\<lambda>ys data off. Inr (g ys, off)", OF assms this] bs]
  show "reads (\<lambda>data off0. bindR (read_u32 data off0) (\<lambda>(n, off1).
        bindR (read_n (nat n) d data off1) (\<lambda>(ys, off2). Inr (g ys, off2)))) bs (g xs)" .
qed

lemma halts_read_n [halt_intros]: "halts d \<Longrightarrow> halts (read_n n d)"
proof (induction n)
  case 0
  then show ?case by (simp add: halts_def)
next
  case (Suc n)
  then show ?case by (auto simp: halts_def bindR_eq_Inl)
qed

subsection \<open>UpdatePath\<close>

lemma rt_HPKECiphertext [rt_intros]: "roundtrips (HPKECiphertext_to_bytes c) HPKECiphertext_from_bytes c"
  unfolding HPKECiphertext_to_bytes_def HPKECiphertext_from_bytes_def [abs_def]
  by (cases c) (simp only: HPKECiphertext.simps, (rule rt_intros)+)

lemma halts_HPKECiphertext [halt_intros]: "halts HPKECiphertext_from_bytes"
  unfolding HPKECiphertext_from_bytes_def [abs_def] by (intro halt_intros)

lemma cat_after:
  assumes "bindR m (\<lambda>b. cat_res (e # f b)) = Inr bs"
  shows "cat_res [e, bindR m (\<lambda>b. cat_res (f b))] = Inr bs"
  using assms by auto

lemma rt_after:
  assumes "roundtrips (cat_res [e, bindR m (\<lambda>b. cat_res (f b))]) d x"
  shows "roundtrips (bindR m (\<lambda>b. cat_res (e # f b))) d x"
  using assms cat_after by (auto simp: roundtrips_def)

lemma rt_last: "roundtrips e d x \<Longrightarrow> roundtrips (cat_res [e]) d x"
  by (cases e) simp_all

lemma rt_UpdatePathNode [rt_intros]: "roundtrips (UpdatePathNode_to_bytes n) UpdatePathNode_from_bytes n"
  unfolding UpdatePathNode_to_bytes_def UpdatePathNode_from_bytes_def [abs_def]
  by (cases n) (simp only: UpdatePathNode.simps, rule rt_after, rule rt_seq [OF rt_opaque], rule rt_last,
      rule rt_counted_end [OF rt_HPKECiphertext])

lemma halts_UpdatePathNode [halt_intros]: "halts UpdatePathNode_from_bytes"
  unfolding UpdatePathNode_from_bytes_def [abs_def] by (intro halt_intros)

definition up_canon :: "UpdatePath \<Rightarrow> UpdatePath" where
  "up_canon p = p\<lparr>up_leaf_key_package := kp_canon (up_leaf_key_package p)\<rparr>"

lemma rt_UpdatePath [rt_intros]: "roundtrips (UpdatePath_to_bytes p) UpdatePath_from_bytes (up_canon p)"
proof (rule roundtripsI)
  fix bs assume "UpdatePath_to_bytes p = Inr bs"
  then obtain kb a c where kb: "KeyPackage_to_bytes (up_leaf_key_package p) = Inr kb" and a: "tls_opaque kb = Inr a"
    and c: "bindR (cat_res (map UpdatePathNode_to_bytes (up_nodes p))) (\<lambda>b. cat_res [tls_u32 (int (length (up_nodes p))), Inr b]) = Inr c"
    and bs: "bs = a @ c" by (auto simp: UpdatePath_to_bytes_def)
  have "roundtrips (bindR (cat_res (map UpdatePathNode_to_bytes (up_nodes p))) (\<lambda>b. cat_res [tls_u32 (int (length (up_nodes p))), Inr b]))
     (\<lambda>data off1. bindR (read_u32 data off1) (\<lambda>(n, off2).
       bindR (read_n (nat n) UpdatePathNode_from_bytes data off2) (\<lambda>(ns, off3).
       Inr (\<lparr>up_leaf_key_package = kp_canon (up_leaf_key_package p), up_nodes = ns\<rparr>, off3)))) (up_canon p)"
    using rt_counted_end [OF rt_UpdatePathNode,
        where g = "\<lambda>ns. \<lparr>up_leaf_key_package = kp_canon (up_leaf_key_package p), up_nodes = ns\<rparr>" and xs = "up_nodes p"]
    by (cases p) (simp add: up_canon_def del: cat_res.simps)
  then have "reads (\<lambda>data off1. bindR (KeyPackage_from_bytes kb) (\<lambda>kp. bindR (read_u32 data off1) (\<lambda>(n, off2).
       bindR (read_n (nat n) UpdatePathNode_from_bytes data off2) (\<lambda>(ns, off3).
       Inr (\<lparr>up_leaf_key_package = kp, up_nodes = ns\<rparr>, off3))))) c (up_canon p)"
    using c by (simp only: KeyPackage_from_to_bytes(2) [OF kb] bindR.simps roundtripsD)
  with roundtripsD [OF rt_opaque a] show "reads UpdatePath_from_bytes bs (up_canon p)"
    unfolding bs UpdatePath_from_bytes_def [abs_def] by (rule reads_bind)
qed

subsection \<open>GroupUpdate\<close>

lemma update_fresh: "k \<notin> fst ` set d \<Longrightarrow> AList.update k v d = d @ [(k, v)]"
  by (induction d) auto

lemma dict_of_append:
  "distinct (map fst (d @ kvs)) \<Longrightarrow> foldl (\<lambda>d (k, v). AList.update k v d) d kvs = d @ kvs"
proof (induction kvs arbitrary: d)
  case (Cons kv kvs)
  obtain k v where kv: "kv = (k, v)" by (cases kv)
  with Cons.prems have "AList.update k v d = d @ [(k, v)]" by (intro update_fresh) auto
  with Cons.IH [of "d @ [(k, v)]"] Cons.prems kv show ?case by simp
qed simp

lemma dict_of_distinct: "distinct (map fst kvs) \<Longrightarrow> dict_of kvs = kvs"
  using dict_of_append [of "[]" kvs] by (simp add: dict_of_def)

lemma distinct_fst_sort: "distinct (map fst (sort kvs)) = distinct (map fst kvs)"
  for kvs :: "(bytes \<times> bytes) list"
  by (simp add: distinct_map)

lemma rt_secret_entry: "roundtrips (secret_entry_bytes e) read_secret_entry e"
  unfolding secret_entry_bytes_def read_secret_entry_def [abs_def]
  by (cases e) (simp only: prod.case, (rule rt_intros)+)

definition update_path_bytes :: "UpdatePath option \<Rightarrow> bytes res" where
  "update_path_bytes p = (case p of
     Some q \<Rightarrow> cat_res [Inr [0x01], bindR (UpdatePath_to_bytes q) tls_opaque32] | None \<Rightarrow> Inr [0x00])"

lemma rt_update_path: "roundtrips (update_path_bytes p) read_update_path (map_option up_canon p)"
proof (cases p)
  case None
  then show ?thesis
    by (auto intro!: roundtripsI readsI simp: update_path_bytes_def read_update_path_def dest: reads_prefix_bytes(1))
next
  case (Some q)
  show ?thesis
  proof (rule roundtripsI)
    fix bs assume "update_path_bytes p = Inr bs"
    with Some obtain u b where u: "UpdatePath_to_bytes q = Inr u" "tls_opaque32 u = Inr b" "bs = 1 # b"
      by (auto simp: update_path_bytes_def)
    from reads_start [OF roundtripsD [OF rt_UpdatePath u(1)], of "[]"]
    have "UpdatePath_from_bytes u 0 = Inr (up_canon q, length u)" by simp
    then have "reads read_update_path (1 # b) (map_option up_canon (Some q))"
      using reads_prefix_bytes roundtripsD [OF rt_opaque32 u(2)]
      by (auto intro!: readsI simp: read_update_path_def readsD)
    with u(3) Some show "reads read_update_path bs (map_option up_canon p)" by simp
  qed
qed

definition gu_canon :: "GroupUpdate \<Rightarrow> GroupUpdate" where
  "gu_canon u = GroupUpdate_init (gu_epoch_id u) (tree_canon (gu_tree u)) (sort (gu_encrypted_commit_secrets u))
     (gu_committer_index u) (gu_signature u) [] (map_option up_canon (gu_update_path u))"

lemma GroupUpdate_to_bytes_pieces:
  assumes "GroupUpdate_to_bytes u = Inr bs"
  shows "\<exists>tree_raw b. RatchetTree_to_bytes (gu_tree u) = Inr tree_raw
     \<and> cat_res (map secret_entry_bytes (sort (gu_encrypted_commit_secrets u))) = Inr b
     \<and> cat_res [tls_u64 (gu_epoch_id u), tls_opaque32 tree_raw, tls_u32 (int (length (gu_encrypted_commit_secrets u))),
         Inr b, tls_u32 (gu_committer_index u), update_path_bytes (gu_update_path u), tls_opaque (gu_signature u)] = Inr bs"
  using assms
  by (auto simp: GroupUpdate_to_bytes_def GroupUpdate_body_bytes_def update_path_bytes_def split: option.splits)

lemma rt_pure:
  "m = Inr v \<Longrightarrow> roundtrips e (k v) y \<Longrightarrow> roundtrips e (\<lambda>data off. bindR m (\<lambda>x. k x data off)) y"
  by simp

lemma GroupUpdate_from_to:
  assumes "GroupUpdate_to_bytes u = Inr bs" "tree_wf (gu_tree u)" "distinct (map fst (gu_encrypted_commit_secrets u))"
  shows "GroupUpdate_from_bytes (bs @ post) = Inr (gu_canon u)"
proof -
  obtain tree_raw b where t: "RatchetTree_to_bytes (gu_tree u) = Inr tree_raw"
     and b: "cat_res (map secret_entry_bytes (sort (gu_encrypted_commit_secrets u))) = Inr b"
     and bs: "cat_res [tls_u64 (gu_epoch_id u), tls_opaque32 tree_raw, tls_u32 (int (length (gu_encrypted_commit_secrets u))),
         Inr b, tls_u32 (gu_committer_index u), update_path_bytes (gu_update_path u), tls_opaque (gu_signature u)] = Inr bs"
    using GroupUpdate_to_bytes_pieces [OF assms(1)] by blast
  have d: "dict_of (map (\<lambda>x. x) (sort (gu_encrypted_commit_secrets u))) = sort (gu_encrypted_commit_secrets u)"
    using assms(3) by (simp add: dict_of_distinct distinct_fst_sort)
  let ?R = "\<lambda>data off0.
     bindR (read_u64 data off0) (\<lambda>(epoch_id, off1).
     bindR (read_opaque32 data off1) (\<lambda>(tree_raw, off2).
     bindR (RatchetTree_from_bytes tree_raw) (\<lambda>tree.
     bindR (read_u32 data off2) (\<lambda>(secrets_count, off3).
     bindR (read_n (nat secrets_count) read_secret_entry data off3) (\<lambda>(entries, off4).
     bindR (read_u32 data off4) (\<lambda>(committer, off5).
     bindR (read_update_path data off5) (\<lambda>(path, off6).
     bindR (read_opaque data off6) (\<lambda>(sg, off7).
     Inr (GroupUpdate_init epoch_id tree (dict_of entries) committer sg [] path, off7)))))))))"
  have "roundtrips (cat_res [tls_u64 (gu_epoch_id u), tls_opaque32 tree_raw, tls_u32 (int (length (gu_encrypted_commit_secrets u))),
         Inr b, tls_u32 (gu_committer_index u), update_path_bytes (gu_update_path u), tls_opaque (gu_signature u)])
     ?R (GroupUpdate_init (gu_epoch_id u) (tree_canon (gu_tree u)) (dict_of (map (\<lambda>x. x) (sort (gu_encrypted_commit_secrets u))))
       (gu_committer_index u) (gu_signature u) [] (map_option up_canon (gu_update_path u)))"
    by (rule rt_seq [OF rt_u64], rule rt_seq [OF rt_opaque32], rule rt_pure [OF RatchetTree_from_to [OF assms(2) t]],
        rule rt_counted [OF b rt_secret_entry], simp,
        rule rt_seq [OF rt_u32], rule rt_seq [OF rt_update_path], rule rt_seq [OF rt_opaque], rule rt_return)
  from reads_start [OF roundtripsD [OF this bs], of post] show ?thesis
    unfolding d gu_canon_def by (auto simp: GroupUpdate_from_bytes_def)
qed

subsection \<open>FramedContent, PublicMessage, MLSMessage\<close>

definition FramedContent_reader :: "FramedContent reader" where
  "FramedContent_reader data off0 =
     bindR (read_opaque data off0) (\<lambda>(gid, off1).
     bindR (read_u64 data off1) (\<lambda>(epoch, off2).
     bindR (read_u8 data off2) (\<lambda>(sender_type, off3).
     if sender_type \<noteq> 0x01 then Inl (ValueError ''Unsupported SenderType'')
     else
       bindR (read_u32 data off3) (\<lambda>(sender, off4).
       bindR (read_opaque data off4) (\<lambda>(ad, off5).
       bindR (read_u8 data off5) (\<lambda>(content_type, off6).
       if content_type \<noteq> CONTENT_TYPE_COMMIT then Inl (ValueError ''Unsupported ContentType'')
       else
         bindR (read_opaque32 data off6) (\<lambda>(content, off7).
         Inr (\<lparr>fc_group_id = gid, fc_epoch = epoch, fc_sender_leaf_index = sender,
              fc_authenticated_data = ad, fc_content = content\<rparr>, off7))))))))"

lemma FramedContent_reader_eq: "FramedContent_from_bytes data = bindR (FramedContent_reader data 0) (\<lambda>(x, _). Inr x)"
  by (simp add: FramedContent_from_bytes_def FramedContent_reader_def bindR_case split: sum.split)

lemma rt_FramedContent [rt_intros]: "roundtrips (FramedContent_to_bytes c) FramedContent_reader c"
  unfolding FramedContent_to_bytes_def FramedContent_reader_def [abs_def]
  by (cases c) (simp only: FramedContent.simps, (rule rt_intros)+)

lemma progresses_FramedContent [progress_intros]: "progresses FramedContent_reader"
  unfolding FramedContent_reader_def [abs_def] by (intro progress_intros)

interpretation framed_content: wire_codec FramedContent_to_bytes FramedContent_reader "\<lambda>_. True"
  by unfold_locales (intro rt_intros progress_intros)+

lemma rt_FramedContentAuthData [rt_intros]:
  "roundtrips (FramedContentAuthData_to_bytes a) FramedContentAuthData_from_bytes a"
  unfolding FramedContentAuthData_to_bytes_def FramedContentAuthData_from_bytes_def [abs_def]
  by (cases a) (simp only: FramedContentAuthData.simps, (rule rt_intros)+)

lemma PublicMessage_from_to:
  assumes "PublicMessage_to_bytes m = Inr bs"
  shows "PublicMessage_from_bytes (bs @ post) = Inr m"
proof -
  from assms obtain c a where c: "FramedContent_to_bytes (pm_content m) = Inr c"
    and a: "FramedContentAuthData_to_bytes (pm_auth m) = Inr a"
    and bs: "cat_res [tls_opaque32 c, tls_opaque32 a, tls_opaque (pm_membership_tag m)] = Inr bs"
    by (auto simp: PublicMessage_to_bytes_def)
  have "reads (\<lambda>data off0. bindR (read_opaque32 data off0) (\<lambda>(cb, off1).
     bindR (read_opaque32 data off1) (\<lambda>(ab, off2).
     bindR (read_opaque data off2) (\<lambda>(tag, off3). Inr ((cb, ab, tag), off3))))) bs (c, a, pm_membership_tag m)"
    by (rule roundtripsD [OF _ bs]) (rule rt_intros)+
  from reads_start [OF this, of post] reads_start [OF roundtripsD [OF rt_FramedContent c], of "[]"]
    reads_start [OF roundtripsD [OF rt_FramedContentAuthData a], of "[]"]
  show ?thesis by (auto simp: PublicMessage_from_bytes_def FramedContent_reader_eq)
qed

lemma MLSMessage_from_to:
  assumes "MLSMessage_to_bytes m = Inr bs"
  shows "MLSMessage_from_bytes (bs @ post) = Inr m"
proof -
  have "reads (\<lambda>data off0. bindR (read_u16 data off0) (\<lambda>(version, off1).
     if version \<noteq> MLSMESSAGE_VERSION then Inl (ValueError ''Unsupported MLSMessage version'')
     else bindR (read_u16 data off1) (\<lambda>(wf, off2).
       bindR (read_opaque32 data off2) (\<lambda>(b, off3). Inr (\<lparr>wire_format = wf, body = b\<rparr>, off3))))) bs m"
    by (rule roundtripsD [OF _ assms], unfold MLSMessage_to_bytes_def, cases m)
      (simp only: MLSMessage.simps, (rule rt_intros)+)
  from reads_start [OF this, of post] show ?thesis
    by (auto simp: MLSMessage_from_bytes_def split: if_splits)
qed

lemma rt_framed_tbs:
  "roundtrips (make_framed_content_tbs gc fc) (\<lambda>data off0.
     bindR (read_u16 data off0) (\<lambda>(v, off1). bindR (read_u16 data off1) (\<lambda>(w, off2).
     bindR (GroupContext_from_bytes_at data off2) (\<lambda>(gc, off3).
     bindR (FramedContent_reader data off3) (\<lambda>(fc, off4). Inr ((gc, fc), off4)))))) (gc, fc)"
  unfolding make_framed_content_tbs_def by (rule rt_intros)+

section \<open>Properties\<close>

text \<open>C21: What a committer signs binds everything: two commits with the same bytes to be signed have the
  same group, epoch, tree hash and transcript of the group context and the same sender, data and
  content.\<close>

theorem framed_tbs_binds:
  assumes "make_framed_content_tbs gc fc = Inr bs" "make_framed_content_tbs gc' fc' = Inr bs"
  shows "gc = gc' \<and> fc = fc'"
  using roundtrips_inj [OF rt_framed_tbs rt_framed_tbs assms] by simp

theorem framed_tbs_binds_witness:
  "\<exists>bs. make_framed_content_tbs demo_context \<lparr>fc_group_id = [1], fc_epoch = 3, fc_sender_leaf_index = 0,
      fc_authenticated_data = [], fc_content = [7]\<rparr> = Inr bs
     \<and> (make_framed_content_tbs demo_context \<lparr>fc_group_id = [1], fc_epoch = 3, fc_sender_leaf_index = 1,
      fc_authenticated_data = [], fc_content = [7]\<rparr> \<noteq> Inr bs)"
proof -
  let ?f = "\<lambda>i. \<lparr>fc_group_id = [1], fc_epoch = 3, fc_sender_leaf_index = i, fc_authenticated_data = [], fc_content = [7 :: byte]\<rparr>"
  have "\<not> isl (make_framed_content_tbs demo_context (?f 0))" by code_simp
  then obtain bs where bs: "make_framed_content_tbs demo_context (?f 0) = Inr bs" by (auto dest!: not_isl_Inr)
  with framed_tbs_binds [OF bs, of demo_context "?f 1"] show ?thesis by auto
qed

text \<open>C22: A commit survives the wire: the update that \<open>from_bytes\<close> reads has the epoch, tree, secrets,
  committer, signature and path of the one written (leaves in canonical form, secrets sorted by
  reference), and no key material of the epoch.\<close>

theorem GroupUpdate_roundtrip:
  assumes "GroupUpdate_to_bytes u = Inr bs" "tree_wf (gu_tree u)" "distinct (map fst (gu_encrypted_commit_secrets u))"
  shows "GroupUpdate_from_bytes (bs @ post) = Inr (gu_canon u)"
  using assms by (rule GroupUpdate_from_to)

definition demo_update :: GroupUpdate where
  "demo_update = GroupUpdate_init 7 demo_tree [([2], [5]), ([1], [6])] 1 [9] []
     (Some \<lparr>up_leaf_key_package = LeafNode_key_package demo_leaf,
        up_nodes = [\<lparr>upn_new_public_key = [4], upn_encrypted_path_secret = [\<lparr>hc_kem_output = [1], hc_ciphertext = [2]\<rparr>]\<rparr>]\<rparr>)"

theorem GroupUpdate_roundtrip_witness:
  "\<exists>bs. GroupUpdate_to_bytes demo_update = Inr bs \<and> GroupUpdate_from_bytes bs = Inr (gu_canon demo_update)
     \<and> gu_encrypted_commit_secrets (gu_canon demo_update) = [([1], [6]), ([2], [5])]"
proof -
  have "\<not> isl (GroupUpdate_to_bytes demo_update)" by code_simp
  then obtain bs where bs: "GroupUpdate_to_bytes demo_update = Inr bs" by (auto dest!: not_isl_Inr)
  have t: "tree_wf (gu_tree demo_update)" using demo_tree_wf by (simp add: demo_update_def GroupUpdate_init_def)
  have d: "distinct (map fst (gu_encrypted_commit_secrets demo_update))" by (simp add: demo_update_def GroupUpdate_init_def)
  have "gu_encrypted_commit_secrets (gu_canon demo_update) = [([1], [6]), ([2], [5])]" by code_simp
  with GroupUpdate_roundtrip [OF bs t d, of "[]"] bs show ?thesis by simp
qed

text \<open>A commit delivered as an \<open>MLSMessage\<close>. When an update wraps and encodes, decoding and
  unwrapping give back its canonical form with the signature, the group, the confirmation tag
  recomputed from the confirmation key, and the membership tag; an update without the key material
  of its epoch is refused.\<close>

theorem commit_delivery:
  assumes "wrap_commit u = Inr m" "MLSMessage_to_bytes m = Inr bs"
    and "tree_wf (gu_tree u)" "distinct (map fst (gu_encrypted_commit_secrets u))"
  shows "\<exists>old_ctx ck th tag. gu_old_group_ctx u = Some old_ctx \<and> gu_confirmation_key u = Some ck
     \<and> gu_transcript_hash u = Some th \<and> gu_membership_tag u = Some tag
     \<and> bindR (MLSMessage_from_bytes bs) unwrap_commit
       = Inr ((gu_canon u)\<lparr>gu_group_id := gc_group_id old_ctx,
                gu_confirmation_tag := Some (hmac_digest sha256 ck th), gu_membership_tag := Some tag\<rparr>)"
proof -
  from assms(1) obtain old_ctx ck th pm b where o: "gu_old_group_ctx u = Some old_ctx" "gu_confirmation_key u = Some ck"
    "gu_transcript_hash u = Some th" and pm: "PublicMessage_from_group_update u ck th old_ctx = Inr pm"
    and b: "PublicMessage_to_bytes pm = Inr b" and m: "m = \<lparr>wire_format = 1, body = b\<rparr>"
    by (auto simp: wrap_commit_def split: option.splits)
  from pm obtain c tag where c: "GroupUpdate_to_bytes u = Inr c" and t: "gu_membership_tag u = Some tag"
    and pm': "pm = \<lparr>pm_content = \<lparr>fc_group_id = gc_group_id old_ctx, fc_epoch = gc_epoch old_ctx,
                   fc_sender_leaf_index = gu_committer_index u, fc_authenticated_data = [], fc_content = c\<rparr>,
        pm_auth = \<lparr>ad_signature = gu_signature u, ad_confirmation_tag = hmac_digest sha256 ck th\<rparr>,
        pm_membership_tag = tag\<rparr>"
    by (auto simp: PublicMessage_from_group_update_def Let_def split: option.splits)
  have "unwrap_commit m = Inr ((gu_canon u)\<lparr>gu_group_id := gc_group_id old_ctx,
                gu_confirmation_tag := Some (hmac_digest sha256 ck th), gu_membership_tag := Some tag\<rparr>)"
    using PublicMessage_from_to [OF b, of "[]"] GroupUpdate_from_to [OF c assms(3,4), of "[]"] m
    by (simp add: unwrap_commit_def PublicMessage_to_group_update_def pm' gu_canon_def GroupUpdate_init_def)
  with MLSMessage_from_to [OF assms(2), of "[]"] o t show ?thesis by simp
qed

theorem commit_delivery_witness:
  "\<exists>m bs u. wrap_commit (demo_update\<lparr>gu_group_ctx := Some demo_context, gu_old_group_ctx := Some demo_context,
       gu_confirmation_key := Some [1], gu_epoch_authenticator := Some [2], gu_membership_key := Some [3],
       gu_transcript_hash := Some [4], gu_membership_tag := Some [5]\<rparr>) = Inr m
     \<and> MLSMessage_to_bytes m = Inr bs \<and> bindR (MLSMessage_from_bytes bs) unwrap_commit = Inr u
     \<and> gu_group_id u = gc_group_id demo_context \<and> gu_membership_tag u = Some [5]"
proof -
  define d where "d = demo_update\<lparr>gu_group_ctx := Some demo_context, gu_old_group_ctx := Some demo_context,
       gu_confirmation_key := Some [1], gu_epoch_authenticator := Some [2], gu_membership_key := Some [3],
       gu_transcript_hash := Some [4], gu_membership_tag := Some [5]\<rparr>"
  have fd: "gu_old_group_ctx d = Some demo_context" "gu_membership_tag d = Some [5]" and f_tree: "gu_tree d = demo_tree"
    and f_secrets: "gu_encrypted_commit_secrets d = [([2], [5]), ([1], [6])]"
    by (simp_all add: d_def demo_update_def GroupUpdate_init_def)
  have "case GroupUpdate_to_bytes d of Inl _ \<Rightarrow> False | Inr c \<Rightarrow> length c \<le> 1000" unfolding d_def by code_simp
  then obtain c where c: "GroupUpdate_to_bytes d = Inr c" "length c \<le> 1000" by (auto split: sum.splits)
  obtain pm where pm: "PublicMessage_from_group_update d [1] [4] demo_context = Inr pm"
    and sizes: "length (fc_content (pm_content pm)) \<le> 1000" "fc_group_id (pm_content pm) = [1]" "fc_epoch (pm_content pm) = 3"
      "fc_sender_leaf_index (pm_content pm) = 1" "fc_authenticated_data (pm_content pm) = []"
      "ad_signature (pm_auth pm) = [9]" "length (ad_confirmation_tag (pm_auth pm)) \<le> 32" "pm_membership_tag pm = [5]"
    using c by (simp add: PublicMessage_from_group_update_def d_def demo_context_def demo_update_def GroupUpdate_init_def)
  note size_rules = fits_cat_Cons fits_cat_Nil fits_ints(1-4) fits_opaque fits_opaque32
  have "fits (4 + 1 + (8 + (1 + (4 + (4 + 0 + (1 + (4 + 1000 + 0))))))) (FramedContent_to_bytes (pm_content pm))"
    unfolding FramedContent_to_bytes_def using sizes
    by (intro size_rules) (simp_all add: CONTENT_TYPE_COMMIT_def)
  then have f: "fits 1027 (FramedContent_to_bytes (pm_content pm))" by simp
  have "fits (4 + 1 + (4 + 32 + 0)) (FramedContentAuthData_to_bytes (pm_auth pm))"
    unfolding FramedContentAuthData_to_bytes_def using sizes by (intro size_rules) simp_all
  then have a: "fits 41 (FramedContentAuthData_to_bytes (pm_auth pm))" by simp
  have "fits (4 + 1027 + (4 + 41 + (4 + 1 + 0))) (PublicMessage_to_bytes pm)"
    unfolding PublicMessage_to_bytes_def using sizes
    by (intro fits_cat_Cons fits_cat_Nil fits_bind [OF f] fits_bind [OF a] fits_opaque fits_opaque32) simp_all
  then obtain b where b: "PublicMessage_to_bytes pm = Inr b" "length b \<le> 2000" by (auto elim!: fitsE)
  have w: "wrap_commit d = Inr \<lparr>wire_format = 1, body = b\<rparr>"
    using pm b by (simp add: wrap_commit_def d_def)
  have "fits (2 + (2 + (4 + 2000 + 0))) (MLSMessage_to_bytes \<lparr>wire_format = 1, body = b\<rparr>)"
    unfolding MLSMessage_to_bytes_def using b(2) by (intro size_rules) (simp_all add: MLSMESSAGE_VERSION_def)
  then obtain bs where m: "MLSMessage_to_bytes \<lparr>wire_format = 1, body = b\<rparr> = Inr bs" by (auto elim!: fitsE)
  have t: "tree_wf (gu_tree d)" "distinct (map fst (gu_encrypted_commit_secrets d))" using demo_tree_wf by (simp_all add: f_tree f_secrets)
  from commit_delivery [OF w m t] w m fd show ?thesis unfolding d_def [symmetric] by auto
qed

end
