(* ===== verification/TreeEquiv.thy ===== *)
theory TreeEquiv
  imports Commits
begin

text \<open>
  Trees up to the wire. A tree that was sent and read back has its leaves in canonical form; a
  tree held in memory by its creator may not. Two trees with the same canonical form are
  interchangeable for everything a member computes from them: paths, resolutions, hashes, encoded
  bytes, signature checks. The second half describes trees without unmerged leaves, the only ones
  the program builds.
\<close>

section \<open>Interchangeable trees\<close>

definition tree_equiv :: "RatchetTree \<Rightarrow> RatchetTree \<Rightarrow> bool" where
  "tree_equiv t t' \<longleftrightarrow> tree_canon t = tree_canon t'"

lemma tree_equiv_refl [simp, intro]: "tree_equiv t t"
  by (simp add: tree_equiv_def)

lemma tree_equiv_sym: "tree_equiv t t' \<Longrightarrow> tree_equiv t' t"
  by (simp add: tree_equiv_def)

lemma tree_equiv_trans [trans]: "tree_equiv a b \<Longrightarrow> tree_equiv b c \<Longrightarrow> tree_equiv a c"
  by (simp add: tree_equiv_def)

lemma node_canon_idem [simp]: "node_canon (node_canon x) = node_canon x"
  by (cases x rule: node_canon.cases) simp_all

lemma tree_canon_idem [simp]: "tree_canon (tree_canon t) = tree_canon t"
  by (simp add: tree_canon_def comp_def)

lemma tree_canon_freeze [simp]: "tree_canon (freeze t) = tree_canon t"
  by (simp add: tree_canon_def freeze_def)

lemma tree_equiv_frames [simp]:
  "tree_equiv (freeze t) t' = tree_equiv t t'" "tree_equiv t (freeze t') = tree_equiv t t'"
  "tree_equiv (tree_canon t) t' = tree_equiv t t'" "tree_equiv t (tree_canon t') = tree_equiv t t'"
  by (simp_all add: tree_equiv_def)

lemma node_canon_simps [simp]:
  "node_canon x = None \<longleftrightarrow> x = None" "node_canon x = Some (Parent p) \<longleftrightarrow> x = Some (Parent p)"
  by (cases x rule: node_canon.cases; simp)+

lemma node_canon_leaf: "node_canon x = Some (Leaf l) \<longleftrightarrow> (\<exists>l'. x = Some (Leaf l') \<and> l = leaf_canon l')"
  by (cases x rule: node_canon.cases) auto

lemma optional_body_canon [simp]: "optional_body (node_canon x) = optional_body x"
  by (cases x rule: node_canon.cases) (simp_all add: optional_body_def del: cat_res.simps)

lemma get_node_canon: "get_node (tree_canon t) x = node_canon (get_node t x)"
  by (simp add: get_node_def tree_canon_def nat_less_iff)

lemma tree_equivD:
  assumes "tree_equiv t t'"
  shows "num_leaves t = num_leaves t'" "length (nodes t) = length (nodes t')"
    "node_canon (get_node t x) = node_canon (get_node t' x)"
proof -
  from assms have c: "tree_canon t = tree_canon t'" by (simp add: tree_equiv_def)
  from arg_cong [OF c, of num_leaves] show "num_leaves t = num_leaves t'" by (simp add: tree_canon_def)
  from arg_cong [OF c, of "\<lambda>t. length (nodes t)"] show "length (nodes t) = length (nodes t')" by (simp add: tree_canon_def)
  from c show "node_canon (get_node t x) = node_canon (get_node t' x)" by (simp flip: get_node_canon)
qed

lemma tree_equiv_leaf:
  assumes "tree_equiv t t'" "get_node t x = Some (Leaf l)"
  shows "\<exists>l'. get_node t' x = Some (Leaf l') \<and> leaf_canon l' = leaf_canon l"
  using tree_equivD(3) [OF assms(1), of x] assms(2) by (auto simp: node_canon_leaf dest!: sym [of "Some _"])

lemma tree_equiv_none: "tree_equiv t t' \<Longrightarrow> get_node t x = None \<longleftrightarrow> get_node t' x = None"
  using tree_equivD(3) [of t t' x] by (metis node_canon_simps(1))

lemma tree_equiv_parent: "tree_equiv t t' \<Longrightarrow> get_node t x = Some (Parent p) \<Longrightarrow> get_node t' x = Some (Parent p)"
  using tree_equivD(3) [of t t' x] by (metis node_canon_simps(2))

lemma tree_equiv_shape: "tree_equiv t t' \<Longrightarrow> tree_shape t d = tree_shape t' d"
  using tree_equivD(1,2) [of t t'] by (simp add: tree_shape_def)

lemma node_fits_canon [simp]: "node_fits i (node_canon x) = node_fits i x"
  by (cases x rule: node_canon.cases) simp_all

lemma tree_wf_canon [simp]: "tree_wf (tree_canon t) = tree_wf t"
  by (simp add: tree_wf_def tree_shape_def tree_typed_def tree_canon_def)

lemma tree_equiv_wf: "tree_equiv t t' \<Longrightarrow> tree_wf t = tree_wf t'"
  unfolding tree_equiv_def by (metis tree_wf_canon)

lemma optional_body_equiv: "tree_equiv t t' \<Longrightarrow> optional_body (get_node t x) = optional_body (get_node t' x)"
  using arg_cong [OF tree_equivD(3), of t t' optional_body x] by simp

lemma hash_input_equiv: "tree_equiv t t' \<Longrightarrow> hash_input t k j = hash_input t' k j"
  by (induction k arbitrary: j) (simp_all add: optional_body_equiv del: cat_res.simps)

lemma tree_hash_equiv:
  assumes "tree_equiv t t'" "tree_wf t"
  shows "tree_hash t = tree_hash t'"
proof -
  from assms(2) obtain d where d: "tree_shape t d" by (auto simp: tree_wf_def)
  with tree_equiv_shape [OF assms(1)] have d': "tree_shape t' d" by simp
  show ?thesis unfolding tree_hash_root [OF d] tree_hash_root [OF d'] hash_input_equiv [OF assms(1)] ..
qed

lemma make_group_context_equiv:
  "tree_equiv t t' \<Longrightarrow> tree_wf t \<Longrightarrow> make_group_context gid e t h = make_group_context gid e t' h"
  by (simp add: make_group_context_def tree_hash_equiv)

lemma resolve_equiv: "tree_equiv t t' \<Longrightarrow> resolve t k j = resolve t' k j"
proof (induction t k j rule: resolve.induct)
  case (1 t j)
  then show ?case using tree_equiv_none [of t t'] by simp
next
  case (2 t k j)
  show ?case
  proof (cases "get_node t (tnode (Suc k) j)")
    case None
    with tree_equiv_none [OF 2(3)] have "get_node t' (tnode (Suc k) j) = None" by metis
    with None 2 show ?thesis by simp
  next
    case (Some nd)
    then show ?thesis using tree_equiv_leaf [OF 2(3)] tree_equiv_parent [OF 2(3)]
      by (cases nd) fastforce+
  qed
qed

lemma LeafNode_verify_canon: "LeafNode_verify_signature C (leaf_canon l) g i = LeafNode_verify_signature C l g i"
  by (simp add: LeafNode_verify_signature_def)

lemma make_kp_ref_canon: "make_kp_ref (LeafNode_key_package (leaf_canon l)) = make_kp_ref (LeafNode_key_package l)"
  by (simp add: make_kp_ref_def KeyPackage_to_bytes_def LeafNode_key_package_def del: cat_res.simps)

lemma leaf_canon_eqD:
  assumes "leaf_canon l = leaf_canon l'"
  shows "encryption_key l = encryption_key l'" "signature_key l = signature_key l'"
    "LeafNode_verify_signature C l g i = LeafNode_verify_signature C l' g i"
    "make_kp_ref (LeafNode_key_package l) = make_kp_ref (LeafNode_key_package l')"
  using arg_cong [OF assms, of encryption_key] arg_cong [OF assms, of signature_key]
    arg_cong [OF assms, of "\<lambda>l. LeafNode_verify_signature C l g i"]
    arg_cong [OF assms, of "\<lambda>l. make_kp_ref (LeafNode_key_package l)"]
  by (simp_all add: LeafNode_verify_canon make_kp_ref_canon)

section \<open>Trees without unmerged leaves\<close>

definition no_unmerged :: "RatchetTree \<Rightarrow> bool" where
  "no_unmerged t \<longleftrightarrow> (\<forall>x p. get_node t x = Some (Parent p) \<longrightarrow> unmerged_leaves p = [])"

lemma no_unmerged_equiv: "tree_equiv t t' \<Longrightarrow> no_unmerged t \<Longrightarrow> no_unmerged t'"
  unfolding no_unmerged_def by (meson tree_equiv_parent tree_equiv_sym)

text \<open>There a resolution lists occupied nodes only, each once.\<close>

lemma resolve_occupied: "no_unmerged t \<Longrightarrow> x \<in> set (resolve t k j) \<Longrightarrow> get_node t x \<noteq> None"
proof (induction t k j rule: resolve.induct)
  case (2 t k j)
  then show ?case
    by (cases "get_node t (tnode (Suc k) j)") (auto simp: no_unmerged_def split: Node.splits option.splits)
qed (auto split: if_splits)

end
