(* ===== verification/SecretTrees.thy ===== *)
theory SecretTrees
  imports TreeMath Hkdf
begin

text \<open>
  \<open>secret_tree.py\<close>: the per-leaf symmetric ratchets with their cache and generation counters. The
  theorems: whatever the interleaving of requests, the cached tree hands out exactly the keys of
  the ratchets without a cache, never a sending generation twice and never a past one; sender and
  receiver agree; keys exist; wiping erases.
\<close>

section \<open>Model\<close>

definition ST_KEY_LEN :: nat where "ST_KEY_LEN = 16"
definition ST_NONCE_LEN :: nat where "ST_NONCE_LEN = 12"
definition ST_NH :: nat where "ST_NH = 32"

text \<open>
  \<open>_generations\<close> and \<open>_leaf_cache\<close> are dictionaries; a cache entry maps a secret type to the
  generation of the tip of the ratchet and its secret.
\<close>

record SecretTree =
  st_secret :: bytes
  st_n_leaves :: int
  st_generations :: "int \<rightharpoonup> int"
  st_leaf_cache :: "int \<rightharpoonup> (string \<rightharpoonup> int \<times> bytes)"

definition SecretTree_init :: "bytes \<Rightarrow> int \<Rightarrow> SecretTree" where
  "SecretTree_init secret n =
     \<lparr>st_secret = secret, st_n_leaves = n, st_generations = Map.empty, st_leaf_cache = Map.empty\<rparr>"

fun direction_str :: "direction \<Rightarrow> string" where
  "direction_str go_left = ''left''"
| "direction_str go_right = ''right''"

fun walk_down :: "bytes \<Rightarrow> direction list \<Rightarrow> bytes res" where
  "walk_down secret [] = Inr secret"
| "walk_down secret (d # path) =
     bindR (expand_with_label secret ''tree'' (encode_str (direction_str d)) ST_NH sha256) (\<lambda>s. walk_down s path)"

definition derive_leaf_node_secret :: "SecretTree \<Rightarrow> int \<Rightarrow> bytes res" where
  "derive_leaf_node_secret st leaf_index =
     bindR (get_path leaf_index (st_n_leaves st)) (\<lambda>path. walk_down (st_secret st) path)"

text \<open>\<open>for g in range(g, g + n)\<close>: \<open>n\<close> steps of the ratchet.\<close>

fun ratchet :: "nat \<Rightarrow> int \<Rightarrow> bytes \<Rightarrow> bytes res" where
  "ratchet 0 g secret = Inr secret"
| "ratchet (Suc n) g secret =
     bindR (struct_pack 4 g) (\<lambda>context.
     bindR (expand_with_label secret ''secret'' context ST_NH sha256) (\<lambda>s. ratchet n (g + 1) s))"

text \<open>
  The methods change the object and may raise; they return their result with the object after
  the call.
\<close>

definition get_ratchet_secret :: "SecretTree \<Rightarrow> int \<Rightarrow> int \<Rightarrow> string \<Rightarrow> bytes res \<times> SecretTree" where
  "get_ratchet_secret st leaf_index generation secret_type =
     (let cache = (case st_leaf_cache st leaf_index of None \<Rightarrow> Map.empty | Some c \<Rightarrow> c);
          st1 = st\<lparr>st_leaf_cache := (st_leaf_cache st)(leaf_index \<mapsto> cache)\<rparr>;
          (tip_gen, tip_secret) = (case cache secret_type of None \<Rightarrow> (-1, []) | Some e \<Rightarrow> e)
      in if tip_gen = generation then (Inr tip_secret, st1)
         else if generation < tip_gen then (Inl (ValueError ''SecretTree forward-secrecy''), st1)
         else
           let start =
             (if tip_gen \<ge> 0 then Inr (tip_gen, tip_secret)
              else bindR (derive_leaf_node_secret st leaf_index) (\<lambda>node_secret.
                   bindR (expand_with_label node_secret secret_type [] ST_NH sha256) (\<lambda>s. Inr (0, s))))
           in case bindR start (\<lambda>(cur_gen, cur_secret). ratchet (nat (generation - cur_gen)) cur_gen cur_secret) of
                Inl e \<Rightarrow> (Inl e, st1)
              | Inr s \<Rightarrow>
                  (Inr s, st1\<lparr>st_leaf_cache := (st_leaf_cache st1)(leaf_index \<mapsto> cache(secret_type \<mapsto> (generation, s)))\<rparr>))"

definition key_and_nonce :: "bytes \<Rightarrow> int \<Rightarrow> (bytes \<times> bytes) res" where
  "key_and_nonce ratchet_secret generation =
     bindR (struct_pack 4 generation) (\<lambda>context.
     bindR (expand_with_label ratchet_secret ''key'' context ST_KEY_LEN sha256) (\<lambda>key.
     bindR (expand_with_label ratchet_secret ''nonce'' context ST_NONCE_LEN sha256) (\<lambda>nonce.
     Inr (key, nonce))))"

definition get_key_and_nonce_for_gen ::
    "SecretTree \<Rightarrow> int \<Rightarrow> int \<Rightarrow> string \<Rightarrow> (bytes \<times> bytes) res \<times> SecretTree" where
  "get_key_and_nonce_for_gen st leaf_index generation secret_type =
     (case get_ratchet_secret st leaf_index generation secret_type of
        (Inl e, st1) \<Rightarrow> (Inl e, st1)
      | (Inr ratchet_secret, st1) \<Rightarrow> (key_and_nonce ratchet_secret generation, st1))"

definition get_key_and_nonce :: "SecretTree \<Rightarrow> int \<Rightarrow> string \<Rightarrow> (bytes \<times> bytes \<times> int) res \<times> SecretTree" where
  "get_key_and_nonce st leaf_index secret_type =
     (let gen = (case st_generations st leaf_index of None \<Rightarrow> 0 | Some g \<Rightarrow> g) in
      case get_key_and_nonce_for_gen st leaf_index gen secret_type of
        (Inl e, st1) \<Rightarrow> (Inl e, st1)
      | (Inr (key, nonce), st1) \<Rightarrow>
          (Inr (key, nonce, gen), st1\<lparr>st_generations := (st_generations st1)(leaf_index \<mapsto> gen + 1)\<rparr>))"

text \<open>\<open>wipe\<close> overwrites the secret in place and clears both dictionaries.\<close>

definition st_wipe :: "SecretTree \<Rightarrow> SecretTree" where
  "st_wipe st = st\<lparr>st_secret := replicate (length (st_secret st)) 0,
                 st_leaf_cache := Map.empty, st_generations := Map.empty\<rparr>"

definition derive_sender_data_key :: "bytes \<Rightarrow> bytes \<Rightarrow> bytes res" where
  "derive_sender_data_key sender_data_sec ciphertext_sample =
     expand_with_label sender_data_sec ''key'' ciphertext_sample ST_KEY_LEN sha256"

definition derive_sender_data_nonce :: "bytes \<Rightarrow> bytes \<Rightarrow> bytes res" where
  "derive_sender_data_nonce sender_data_sec ciphertext_sample =
     expand_with_label sender_data_sec ''nonce'' ciphertext_sample ST_NONCE_LEN sha256"

section \<open>Reference: the ratchets without a cache\<close>

text \<open>The secret of a generation, from the root of the tree every time.\<close>

definition ratchet_secret_ref :: "bytes \<Rightarrow> int \<Rightarrow> int \<Rightarrow> string \<Rightarrow> nat \<Rightarrow> bytes res" where
  "ratchet_secret_ref secret n leaf_index secret_type gen =
     bindR (get_path leaf_index n) (\<lambda>path.
     bindR (walk_down secret path) (\<lambda>node_secret.
     bindR (expand_with_label node_secret secret_type [] ST_NH sha256) (\<lambda>s.
     ratchet gen 0 s)))"

definition key_nonce_ref :: "bytes \<Rightarrow> int \<Rightarrow> int \<Rightarrow> string \<Rightarrow> nat \<Rightarrow> (bytes \<times> bytes) res" where
  "key_nonce_ref secret n leaf_index secret_type gen =
     bindR (ratchet_secret_ref secret n leaf_index secret_type gen) (\<lambda>s. key_and_nonce s (int gen))"

abbreviation st_ref :: "SecretTree \<Rightarrow> int \<Rightarrow> string \<Rightarrow> nat \<Rightarrow> bytes res" where
  "st_ref st leaf ty gen \<equiv> ratchet_secret_ref (st_secret st) (st_n_leaves st) leaf ty gen"

definition cached :: "SecretTree \<Rightarrow> int \<Rightarrow> string \<Rightarrow> (int \<times> bytes) option" where
  "cached st leaf ty = Option.bind (st_leaf_cache st leaf) (\<lambda>c. c ty)"

text \<open>The invariant: every cached tip is the reference secret of its generation.\<close>

definition cache_ok :: "SecretTree \<Rightarrow> bool" where
  "cache_ok st \<longleftrightarrow>
     (\<forall>leaf ty g s. cached st leaf ty = Some (g, s) \<longrightarrow> 0 \<le> g \<and> st_ref st leaf ty (nat g) = Inr s)"

definition tip :: "SecretTree \<Rightarrow> int \<Rightarrow> string \<Rightarrow> int" where
  "tip st leaf ty = (case cached st leaf ty of None \<Rightarrow> -1 | Some (g, s) \<Rightarrow> g)"

section \<open>Lemmas\<close>

lemma ratchet_add: "ratchet (m + n) g s = bindR (ratchet m g s) (\<lambda>s'. ratchet n (g + int m) s')"
  by (induction m arbitrary: g s) (auto simp: bindR_assoc algebra_simps intro!: bindR_cong)

lemma ref_add:
  "ratchet_secret_ref secret n leaf ty (m + k) = bindR (ratchet_secret_ref secret n leaf ty m) (\<lambda>s. ratchet k (int m) s)"
  by (simp add: ratchet_secret_ref_def ratchet_add bindR_assoc)

lemma cache_okD:
  "cache_ok st \<Longrightarrow> cached st leaf ty = Some (g, s) \<Longrightarrow> 0 \<le> g \<and> st_ref st leaf ty (nat g) = Inr s"
  unfolding cache_ok_def by blast

lemma tip_ge: "cache_ok st \<Longrightarrow> -1 \<le> tip st leaf ty"
  by (auto simp: tip_def dest: cache_okD split: option.splits)

lemma cached_lookup:
  "(case st_leaf_cache st leaf of None \<Rightarrow> Map.empty | Some c \<Rightarrow> c) ty = cached st leaf ty"
  by (simp add: cached_def split: option.splits)

text \<open>One request: its result, and what it leaves in the cache.\<close>

lemma get_ratchet_secret_spec:
  assumes "cache_ok st" "0 \<le> gen"
  shows "fst (get_ratchet_secret st leaf gen ty) =
      (if gen < tip st leaf ty then Inl (ValueError ''SecretTree forward-secrecy'') else st_ref st leaf ty (nat gen))"
proof (cases "cached st leaf ty")
  case None
  then have "tip st leaf ty = -1" by (simp add: tip_def)
  with None assms(2) show ?thesis unfolding get_ratchet_secret_def
    by (auto simp: Let_def cached_lookup ratchet_secret_ref_def derive_leaf_node_secret_def bindR_assoc split: sum.splits)
next
  case (Some e)
  obtain g s where e: "e = (g, s)" by (cases e)
  with Some have t: "tip st leaf ty = g" and g: "0 \<le> g" "st_ref st leaf ty (nat g) = Inr s"
    using cache_okD [OF assms(1), of leaf ty g s] by (auto simp: tip_def)
  have "st_ref st leaf ty (nat gen) = ratchet (nat (gen - g)) g s" if "g \<le> gen"
    using ref_add [of _ _ leaf ty "nat g" "nat (gen - g)"] that g by (simp flip: nat_add_distrib)
  then show ?thesis using Some e t g unfolding get_ratchet_secret_def
    by (auto simp: Let_def cached_lookup split: sum.splits)
qed

lemma get_ratchet_secret_state:
  "st_secret (snd (get_ratchet_secret st leaf gen ty)) = st_secret st"
  "st_n_leaves (snd (get_ratchet_secret st leaf gen ty)) = st_n_leaves st"
  "st_generations (snd (get_ratchet_secret st leaf gen ty)) = st_generations st"
  by (auto simp: get_ratchet_secret_def Let_def split: sum.splits prod.splits option.splits)

lemma get_ratchet_secret_cached:
  assumes "0 \<le> gen"
  shows "cached (snd (get_ratchet_secret st leaf gen ty)) leaf' ty' =
     (case fst (get_ratchet_secret st leaf gen ty) of
        Inr s \<Rightarrow> if leaf' = leaf \<and> ty' = ty then Some (gen, s) else cached st leaf' ty'
      | Inl e \<Rightarrow> cached st leaf' ty')"
proof (cases "st_leaf_cache st leaf")
  case None
  with assms show ?thesis unfolding get_ratchet_secret_def
    by (auto simp: Let_def cached_def split: sum.splits)
next
  case (Some c)
  show ?thesis
  proof (cases "c ty")
    case None
    with Some assms show ?thesis unfolding get_ratchet_secret_def
      by (auto simp: Let_def cached_def split: sum.splits)
  next
    case (Some e)
    with \<open>st_leaf_cache st leaf = Some c\<close> assms show ?thesis unfolding get_ratchet_secret_def
      by (cases e) (auto simp: Let_def cached_def split: sum.splits)
  qed
qed

lemma get_ratchet_secret_cache_ok:
  assumes "cache_ok st" "0 \<le> gen"
  shows "cache_ok (snd (get_ratchet_secret st leaf gen ty))"
  unfolding cache_ok_def get_ratchet_secret_state get_ratchet_secret_cached [OF assms(2)]
    get_ratchet_secret_spec [OF assms]
  using assms by (auto split: sum.splits if_splits dest: cache_okD)

lemma get_for_gen_spec:
  assumes "cache_ok st" "0 \<le> gen"
  shows "fst (get_key_and_nonce_for_gen st leaf gen ty) =
      (if gen < tip st leaf ty then Inl (ValueError ''SecretTree forward-secrecy'')
       else key_nonce_ref (st_secret st) (st_n_leaves st) leaf ty (nat gen))"
  using get_ratchet_secret_spec [OF assms, of leaf ty] assms(2)
  by (cases "get_ratchet_secret st leaf gen ty")
    (auto simp: get_key_and_nonce_for_gen_def key_nonce_ref_def split: sum.splits)

lemma get_for_gen_state:
  assumes "cache_ok st" "0 \<le> gen"
  shows "cache_ok (snd (get_key_and_nonce_for_gen st leaf gen ty))"
    "st_secret (snd (get_key_and_nonce_for_gen st leaf gen ty)) = st_secret st"
    "st_n_leaves (snd (get_key_and_nonce_for_gen st leaf gen ty)) = st_n_leaves st"
    "st_generations (snd (get_key_and_nonce_for_gen st leaf gen ty)) = st_generations st"
    "tip st leaf' ty' \<le> tip (snd (get_key_and_nonce_for_gen st leaf gen ty)) leaf' ty'"
    "fst (get_key_and_nonce_for_gen st leaf gen ty) = Inr kn \<Longrightarrow>
       tip (snd (get_key_and_nonce_for_gen st leaf gen ty)) leaf ty = gen"
proof -
  have e: "snd (get_key_and_nonce_for_gen st leaf gen ty) = snd (get_ratchet_secret st leaf gen ty)"
    by (cases "get_ratchet_secret st leaf gen ty") (auto simp: get_key_and_nonce_for_gen_def split: sum.splits)
  show "cache_ok (snd (get_key_and_nonce_for_gen st leaf gen ty))"
    "st_secret (snd (get_key_and_nonce_for_gen st leaf gen ty)) = st_secret st"
    "st_n_leaves (snd (get_key_and_nonce_for_gen st leaf gen ty)) = st_n_leaves st"
    "st_generations (snd (get_key_and_nonce_for_gen st leaf gen ty)) = st_generations st"
    unfolding e using get_ratchet_secret_cache_ok [OF assms] by (simp_all add: get_ratchet_secret_state)
  show "tip st leaf' ty' \<le> tip (snd (get_key_and_nonce_for_gen st leaf gen ty)) leaf' ty'"
    unfolding e tip_def [of "snd _"] get_ratchet_secret_cached [OF assms(2)] get_ratchet_secret_spec [OF assms]
    using assms(2) by (auto simp: tip_def split: sum.splits)
  show "tip (snd (get_key_and_nonce_for_gen st leaf gen ty)) leaf ty = gen"
    if "fst (get_key_and_nonce_for_gen st leaf gen ty) = Inr kn"
  proof -
    from that obtain s where "fst (get_ratchet_secret st leaf gen ty) = Inr s"
      by (cases "get_ratchet_secret st leaf gen ty") (auto simp: get_key_and_nonce_for_gen_def split: sum.splits)
    then show ?thesis unfolding e by (simp add: tip_def get_ratchet_secret_cached [OF assms(2)])
  qed
qed

lemma negative_generation:
  assumes "cache_ok st" "gen < 0"
  shows "isl (fst (get_key_and_nonce_for_gen st leaf gen ty))"
    "cached (snd (get_key_and_nonce_for_gen st leaf gen ty)) = cached st"
    "st_secret (snd (get_key_and_nonce_for_gen st leaf gen ty)) = st_secret st"
    "st_n_leaves (snd (get_key_and_nonce_for_gen st leaf gen ty)) = st_n_leaves st"
    "st_generations (snd (get_key_and_nonce_for_gen st leaf gen ty)) = st_generations st"
proof -
  let ?c = "case st_leaf_cache st leaf of None \<Rightarrow> Map.empty | Some c \<Rightarrow> c"
  let ?st1 = "st\<lparr>st_leaf_cache := (st_leaf_cache st)(leaf \<mapsto> ?c)\<rparr>"
  have t: "gen \<le> (case cached st leaf ty of None \<Rightarrow> -1 | Some (g, s) \<Rightarrow> g)"
    using assms by (auto dest: cache_okD split: option.splits)
  have g: "\<exists>r. get_ratchet_secret st leaf gen ty = (r, ?st1)"
    using t by (auto simp: get_ratchet_secret_def Let_def cached_lookup split: option.splits)
  then obtain r where r: "get_ratchet_secret st leaf gen ty = (r, ?st1)" by blast
  have k: "isl (key_and_nonce x gen)" for x using assms(2) by (simp add: key_and_nonce_def struct_pack_def)
  have e: "snd (get_key_and_nonce_for_gen st leaf gen ty) = ?st1"
    using r by (cases r) (auto simp: get_key_and_nonce_for_gen_def)
  show "isl (fst (get_key_and_nonce_for_gen st leaf gen ty))"
    using r k by (cases r) (auto simp: get_key_and_nonce_for_gen_def)
  show "cached (snd (get_key_and_nonce_for_gen st leaf gen ty)) = cached st"
    unfolding e by (intro ext) (auto simp: cached_def split: option.splits)
  show "st_secret (snd (get_key_and_nonce_for_gen st leaf gen ty)) = st_secret st"
    "st_n_leaves (snd (get_key_and_nonce_for_gen st leaf gen ty)) = st_n_leaves st"
    "st_generations (snd (get_key_and_nonce_for_gen st leaf gen ty)) = st_generations st"
    unfolding e by simp_all
qed

section \<open>Runs of a secret tree\<close>

text \<open>
  A secret tree in use: any sequence of sender requests (which consume a generation) and receiver
  requests (for a generation named by the other side), some of which raise.
\<close>

datatype st_event =
    Sent int string int bytes bytes
  | Received int string int bytes bytes
  | Refused py_error

inductive st_step :: "SecretTree \<Rightarrow> st_event \<Rightarrow> SecretTree \<Rightarrow> bool" where
  send: "get_key_and_nonce st leaf ty = (Inr (k, n, g), st') \<Longrightarrow> st_step st (Sent leaf ty g k n) st'"
| send_raises: "get_key_and_nonce st leaf ty = (Inl e, st') \<Longrightarrow> st_step st (Refused e) st'"
| receive: "get_key_and_nonce_for_gen st leaf g ty = (Inr (k, n), st') \<Longrightarrow> st_step st (Received leaf ty g k n) st'"
| receive_raises: "get_key_and_nonce_for_gen st leaf g ty = (Inl e, st') \<Longrightarrow> st_step st (Refused e) st'"

inductive st_run :: "SecretTree \<Rightarrow> st_event list \<Rightarrow> SecretTree \<Rightarrow> bool" where
  start: "st_run st [] st"
| more: "st_run st es st' \<Longrightarrow> st_step st' e st'' \<Longrightarrow> st_run st (es @ [e]) st''"

inductive_simps st_run_empty: "st_run st [] st'"

definition next_gen :: "SecretTree \<Rightarrow> int \<Rightarrow> int" where
  "next_gen st leaf = (case st_generations st leaf of None \<Rightarrow> 0 | Some g \<Rightarrow> g)"

fun sent_gens :: "int \<Rightarrow> st_event list \<Rightarrow> int list" where
  "sent_gens leaf [] = []"
| "sent_gens leaf (Sent l ty g k n # es) = (if l = leaf then g # sent_gens leaf es else sent_gens leaf es)"
| "sent_gens leaf (e # es) = sent_gens leaf es"

lemma sent_gens_append: "sent_gens leaf (es @ fs) = sent_gens leaf es @ sent_gens leaf fs"
  by (induction leaf es rule: sent_gens.induct) auto

fun event_ok :: "bytes \<Rightarrow> int \<Rightarrow> st_event \<Rightarrow> bool" where
  "event_ok secret m (Sent leaf ty g k n) \<longleftrightarrow> 0 \<le> g \<and> key_nonce_ref secret m leaf ty (nat g) = Inr (k, n)"
| "event_ok secret m (Received leaf ty g k n) \<longleftrightarrow> 0 \<le> g \<and> key_nonce_ref secret m leaf ty (nat g) = Inr (k, n)"
| "event_ok secret m (Refused e) \<longleftrightarrow> True"

fun event_gen :: "st_event \<Rightarrow> (int \<times> string \<times> int) option" where
  "event_gen (Sent leaf ty g k n) = Some (leaf, ty, g)"
| "event_gen (Received leaf ty g k n) = Some (leaf, ty, g)"
| "event_gen (Refused e) = None"

definition st_inv :: "bytes \<Rightarrow> int \<Rightarrow> st_event list \<Rightarrow> SecretTree \<Rightarrow> bool" where
  "st_inv secret m es st \<longleftrightarrow> st_secret st = secret \<and> st_n_leaves st = m \<and> cache_ok st
     \<and> (\<forall>leaf. 0 \<le> next_gen st leaf \<and> sent_gens leaf es = map int [0..<nat (next_gen st leaf)])
     \<and> (\<forall>e\<in>set es. event_ok secret m e)
     \<and> (\<forall>e\<in>set es. \<forall>leaf ty g. event_gen e = Some (leaf, ty, g) \<longrightarrow> g \<le> tip st leaf ty)"

lemma st_inv_for_gen:
  assumes "st_inv secret m es st" "get_key_and_nonce_for_gen st leaf g ty = (r, st')"
  shows "st_inv secret m es st'" "next_gen st' = next_gen st"
    "r = Inr (k, n) \<Longrightarrow> 0 \<le> g \<and> key_nonce_ref secret m leaf ty (nat g) = Inr (k, n) \<and> tip st' leaf ty = g"
proof -
  have inv: "st_secret st = secret" "st_n_leaves st = m" "cache_ok st" using assms(1) by (auto simp: st_inv_def)
  have st': "st' = snd (get_key_and_nonce_for_gen st leaf g ty)" "r = fst (get_key_and_nonce_for_gen st leaf g ty)"
    using assms(2) by simp_all
  have f: "st_secret st' = secret \<and> st_n_leaves st' = m \<and> st_generations st' = st_generations st \<and> cache_ok st'
      \<and> (\<forall>l t. tip st l t \<le> tip st' l t)"
  proof (cases "0 \<le> g")
    case True
    with get_for_gen_state [OF inv(3) True] inv st' show ?thesis by simp
  next
    case False
    then have "g < 0" by simp
    note n = negative_generation [OF inv(3) this, of leaf ty]
    with inv st' show ?thesis by (simp add: cache_ok_def tip_def)
  qed
  then show ng: "next_gen st' = next_gen st" by (intro ext) (simp add: next_gen_def)
  show "st_inv secret m es st'"
    using assms(1) f unfolding st_inv_def ng by (meson order_trans)
  assume r: "r = Inr (k, n)"
  have g: "0 \<le> g" using negative_generation(1) [OF inv(3), of g leaf ty] r st' by (cases "g < 0") auto
  with get_for_gen_spec [OF inv(3) g, of leaf ty] get_for_gen_state(6) [OF inv(3) g, of leaf ty] r st' inv
  show "0 \<le> g \<and> key_nonce_ref secret m leaf ty (nat g) = Inr (k, n) \<and> tip st' leaf ty = g"
    by (auto split: if_splits)
qed

lemma st_inv_add:
  assumes "st_inv secret m es st" "event_ok secret m e" "sent_gens leaf [e] = []" "\<And>l. sent_gens l [e] = []"
    and "\<And>l t g. event_gen e = Some (l, t, g) \<Longrightarrow> g \<le> tip st l t"
  shows "st_inv secret m (es @ [e]) st"
  using assms by (auto simp: st_inv_def sent_gens_append)

lemma st_inv_step:
  assumes "st_inv secret m es st" "st_step st e st'"
  shows "st_inv secret m (es @ [e]) st'"
  using assms(2)
proof cases
  case (send leaf ty k n g)
  then obtain st1 where s: "get_key_and_nonce_for_gen st leaf (next_gen st leaf) ty = (Inr (k, n), st1)"
    and g: "g = next_gen st leaf" "st' = st1\<lparr>st_generations := (st_generations st1)(leaf \<mapsto> g + 1)\<rparr>"
    by (auto simp: get_key_and_nonce_def next_gen_def Let_def split: prod.splits sum.splits)
  note i = st_inv_for_gen [OF assms(1) s]
  have f: "next_gen st' l = (if l = leaf then g + 1 else next_gen st l)" "tip st' = tip st1" "cache_ok st' = cache_ok st1" for l
    using fun_cong [OF i(2), of l] g by (auto simp: next_gen_def tip_def cached_def cache_ok_def fun_eq_iff)
  have "nat (g + 1) = Suc (nat g)" using i(3) [OF refl] g by (simp add: nat_add_distrib)
  then show ?thesis using i(1) i(2) i(3) [OF refl] send(1) g f
    by (auto simp: st_inv_def sent_gens_append)
next
  case (send_raises leaf ty x)
  then have "\<exists>x. get_key_and_nonce_for_gen st leaf (next_gen st leaf) ty = (Inl x, st')"
    by (auto simp: get_key_and_nonce_def next_gen_def Let_def split: prod.splits sum.splits)
  with st_inv_for_gen(1) [OF assms(1)] send_raises(1) show ?thesis by (auto intro!: st_inv_add)
next
  case (receive leaf g ty k n)
  with st_inv_for_gen [OF assms(1) receive(2)] show ?thesis by (auto intro!: st_inv_add)
next
  case (receive_raises leaf g ty x)
  with st_inv_for_gen [OF assms(1) receive_raises(2)] show ?thesis by (auto intro!: st_inv_add)
qed

lemma st_inv_start: "st_inv secret m [] (SecretTree_init secret m)"
  by (simp add: st_inv_def SecretTree_init_def cache_ok_def cached_def next_gen_def)

lemma st_inv_run: "st_run st0 es st \<Longrightarrow> st_inv secret m [] st0 \<Longrightarrow> st_inv secret m es st"
  by (induction rule: st_run.induct) (auto intro: st_inv_step)

section \<open>Keys exist\<close>

lemma walk_down_ok: "\<exists>s. walk_down secret path = Inr s"
proof (induction path arbitrary: secret)
  case (Cons d path)
  have "length (encode_str (direction_str d)) < 2 ^ 30" by (cases d) simp_all
  then obtain s where "expand_with_label secret ''tree'' (encode_str (direction_str d)) 32 sha256 = Inr s"
    using expand_with_label_sha256 [of "''tree''" _ 32] by fastforce
  with Cons show ?case by (simp add: ST_NH_def)
qed simp

lemma ratchet_ok: "0 \<le> g \<Longrightarrow> g + int n \<le> 2 ^ 32 \<Longrightarrow> \<exists>s'. ratchet n g s = Inr s'"
proof (induction n arbitrary: g s)
  case (Suc n)
  have c: "struct_pack 4 g = Inr (be_bytes 4 g)" using Suc.prems by simp
  obtain s1 where "expand_with_label s ''secret'' (be_bytes 4 g) 32 sha256 = Inr s1"
    using expand_with_label_sha256 [of "''secret''" "be_bytes 4 g" 32 s] by auto
  with c Suc.IH [of "g + 1" s1] Suc.prems show ?case by (simp add: ST_NH_def)
qed simp

lemma key_nonce_ref_ok:
  assumes "d \<le> 31" "0 \<le> leaf" "leaf < 2 ^ d" "length ty < 56" "int gen < 2 ^ 32"
  shows "\<exists>k n. key_nonce_ref secret (2 ^ d) leaf ty gen = Inr (k, n) \<and> length k = 16 \<and> length n = 12"
proof -
  obtain ns where "walk_down secret (rev (map (\<lambda>k. turn (leaf div 2 ^ k)) [0..<d])) = Inr ns"
    using walk_down_ok by blast
  moreover obtain s0 where "expand_with_label ns ty [] 32 sha256 = Inr s0"
    using expand_with_label_sha256 [of ty "[]" 32 ns] assms(4) by auto
  moreover obtain s where "ratchet gen 0 s0 = Inr s" using ratchet_ok [of 0 gen s0] assms(5) by auto
  moreover obtain k where "expand_with_label s ''key'' (be_bytes 4 (int gen)) 16 sha256 = Inr k" "length k = 16"
    using expand_with_label_sha256 [of "''key''" "be_bytes 4 (int gen)" 16 s] by auto
  moreover obtain n where "expand_with_label s ''nonce'' (be_bytes 4 (int gen)) 12 sha256 = Inr n" "length n = 12"
    using expand_with_label_sha256 [of "''nonce''" "be_bytes 4 (int gen)" 12 s] by auto
  ultimately show ?thesis using get_path_pow2 [OF assms(1-3)] assms(5)
    by (simp add: key_nonce_ref_def ratchet_secret_ref_def key_and_nonce_def ST_NH_def ST_KEY_LEN_def ST_NONCE_LEN_def
        struct_pack_def)
qed

section \<open>Properties\<close>

text \<open>C14: the secret tree in use. In every run from a fresh tree, whatever the interleaving of
  sender and receiver requests: each key and nonce handed out is the one of the ratchet without
  a cache for its leaf, type and generation; the generations handed out for sending from a leaf
  are 0, 1, 2, ... in this order, so no sending key is ever used twice; and every request for a
  generation before one already handed out is refused (forward secrecy).\<close>

theorem secret_tree_run_sound:
  assumes "st_run (SecretTree_init secret m) es st"
  shows "(\<forall>e\<in>set es. event_ok secret m e)
   \<and> (\<forall>leaf. sent_gens leaf es = map int [0..<length (sent_gens leaf es)])
   \<and> (\<forall>e\<in>set es. \<forall>leaf ty g g'. event_gen e = Some (leaf, ty, g) \<longrightarrow> 0 \<le> g' \<longrightarrow> g' < g \<longrightarrow>
        fst (get_key_and_nonce_for_gen st leaf g' ty) = Inl (ValueError ''SecretTree forward-secrecy''))"
proof -
  have inv: "st_inv secret m es st" using st_inv_run [OF assms st_inv_start] .
  then have c: "cache_ok st" and ev: "\<forall>e\<in>set es. event_ok secret m e"
    and sg: "\<And>leaf. sent_gens leaf es = map int [0..<nat (next_gen st leaf)]"
    and tp: "\<forall>e\<in>set es. \<forall>leaf ty g. event_gen e = Some (leaf, ty, g) \<longrightarrow> g \<le> tip st leaf ty"
    by (auto simp: st_inv_def)
  have "sent_gens leaf es = map int [0..<length (sent_gens leaf es)]" for leaf unfolding sg by simp
  moreover have "fst (get_key_and_nonce_for_gen st leaf g' ty) = Inl (ValueError ''SecretTree forward-secrecy'')"
    if "e \<in> set es" "event_gen e = Some (leaf, ty, g)" "0 \<le> g'" "g' < g" for e leaf ty g g'
    using tp that get_for_gen_spec [OF c that(3), of leaf ty] by fastforce
  ultimately show ?thesis using ev by blast
qed

text \<open>Sender and receiver agree. Two members hold a secret tree of the same epoch, each after
  an arbitrary run of its own. When one asks for its next sending key and gets it with
  generation \<open>g\<close>, the other, asked for generation \<open>g\<close> of that leaf and not yet past it, gets the same
  key and nonce.\<close>

theorem sender_receiver_agree:
  assumes "st_run (SecretTree_init secret m) es sender" "st_run (SecretTree_init secret m) fs receiver"
    and "get_key_and_nonce sender leaf ty = (Inr (key, nonce, g), sender')"
    and "tip receiver leaf ty \<le> g"
  shows "fst (get_key_and_nonce_for_gen receiver leaf g ty) = Inr (key, nonce)"
proof -
  have i: "st_inv secret m es sender" "st_inv secret m fs receiver"
    using assms(1,2) st_inv_run st_inv_start by blast+
  have "st_step sender (Sent leaf ty g key nonce) sender'" using assms(3) by (rule st_step.send)
  from st_inv_step [OF i(1) this] have "0 \<le> g" "key_nonce_ref secret m leaf ty (nat g) = Inr (key, nonce)"
    by (auto simp: st_inv_def)
  with i(2) get_for_gen_spec [of receiver g leaf ty] assms(4) show ?thesis by (auto simp: st_inv_def)
qed

text \<open>Keys are there when they should be: in a tree of \<open>2^d\<close> leaves, after any run, every
  generation of every leaf that is not behind the tip and fits into 32 bits gives a 16-byte key
  and a 12-byte nonce; nothing raises.\<close>

theorem secret_tree_key_available:
  assumes "st_run (SecretTree_init secret (2 ^ d)) es st" "d \<le> 31" "0 \<le> leaf" "leaf < 2 ^ d"
    and "length ty < 56" "0 \<le> g" "tip st leaf ty \<le> g" "g < 2 ^ 32"
  shows "\<exists>key nonce. fst (get_key_and_nonce_for_gen st leaf g ty) = Inr (key, nonce)
           \<and> length key = 16 \<and> length nonce = 12"
proof -
  have "st_inv secret (2 ^ d) es st" using st_inv_run [OF assms(1) st_inv_start] .
  then have "cache_ok st" "st_secret st = secret" "st_n_leaves st = 2 ^ d" by (auto simp: st_inv_def)
  with get_for_gen_spec [of st g leaf ty] key_nonce_ref_ok [OF assms(2-5), of "nat g" secret] assms(6-8)
  show ?thesis by simp
qed

text \<open>Wiping erases: what is left of a wiped secret tree depends on nothing but the length of
  its secret and the number of leaves.\<close>

theorem wipe_erases:
  assumes "length (st_secret st) = length (st_secret st')" "st_n_leaves st = st_n_leaves st'"
  shows "st_wipe st = st_wipe st' \<and> set (st_secret (st_wipe st)) \<subseteq> {0}
       \<and> st_leaf_cache (st_wipe st) = Map.empty \<and> st_generations (st_wipe st) = Map.empty"
  using assms by (cases st; cases st') (auto simp: st_wipe_def)

theorem wipe_erases_witness:
  "st_wipe (SecretTree_init [1, 2] 4) = st_wipe (SecretTree_init [3, 4] 4)"
  using wipe_erases [of "SecretTree_init [1, 2] 4" "SecretTree_init [3, 4] 4"] by (simp add: SecretTree_init_def)

lemma demo_send:
  "\<exists>k n st'. get_key_and_nonce (SecretTree_init [1] (2 ^ 1)) 1 ''application'' = (Inr (k, n, 0), st')"
proof -
  have c: "cache_ok (SecretTree_init [1] (2 ^ 1))" using st_inv_start by (simp add: st_inv_def)
  obtain k n where "key_nonce_ref [1] (2 ^ 1) 1 ''application'' 0 = Inr (k, n)"
    using key_nonce_ref_ok [of 1 1 "''application''" 0 "[1]"] by auto
  with get_for_gen_spec [OF c, of 0 1 "''application''"]
  have "fst (get_key_and_nonce_for_gen (SecretTree_init [1] (2 ^ 1)) 1 0 ''application'') = Inr (k, n)"
    by (simp add: SecretTree_init_def tip_def cached_def)
  then show ?thesis
    by (cases "get_key_and_nonce_for_gen (SecretTree_init [1] (2 ^ 1)) 1 0 ''application''")
      (auto simp: get_key_and_nonce_def SecretTree_init_def split: prod.splits)
qed

theorem sender_receiver_agree_witness:
  "\<exists>k n st'. get_key_and_nonce (SecretTree_init [1] (2 ^ 1)) 1 ''application'' = (Inr (k, n, 0), st')
     \<and> fst (get_key_and_nonce_for_gen (SecretTree_init [1] (2 ^ 1)) 1 0 ''application'') = Inr (k, n)"
proof -
  obtain k n st' where g: "get_key_and_nonce (SecretTree_init [1] (2 ^ 1)) 1 ''application'' = (Inr (k, n, 0), st')"
    using demo_send by blast
  have "tip (SecretTree_init [1] (2 ^ 1)) 1 ''application'' \<le> 0" by (simp add: SecretTree_init_def tip_def cached_def)
  with sender_receiver_agree [OF st_run.start st_run.start g] g show ?thesis by blast
qed

theorem secret_tree_run_sound_witness:
  "\<exists>k n st'. st_run (SecretTree_init [1] (2 ^ 1)) [Sent 1 ''application'' 0 k n] st'
     \<and> key_nonce_ref [1] (2 ^ 1) 1 ''application'' 0 = Inr (k, n)"
proof -
  obtain k n st' where g: "get_key_and_nonce (SecretTree_init [1] (2 ^ 1)) 1 ''application'' = (Inr (k, n, 0), st')"
    using demo_send by blast
  have "st_run (SecretTree_init [1] (2 ^ 1)) ([] @ [Sent 1 ''application'' 0 k n]) st'"
    by (rule st_run.more [OF st_run.start st_step.send [OF g]])
  then have r: "st_run (SecretTree_init [1] (2 ^ 1)) [Sent 1 ''application'' 0 k n] st'" by simp
  from secret_tree_run_sound [OF r] r show ?thesis by auto
qed

theorem secret_tree_key_available_witness:
  "\<exists>key nonce. fst (get_key_and_nonce_for_gen (SecretTree_init [1] (2 ^ 2)) 3 5 ''handshake'') = Inr (key, nonce)
     \<and> length key = 16 \<and> length nonce = 12"
  by (rule secret_tree_key_available [OF st_run.start]) (simp_all add: SecretTree_init_def tip_def cached_def)
end
