(* ===== verification/Committing.thy ===== *)
theory Committing
  imports TreeEquiv SecretTrees
begin

text \<open>
  The first half of class \<open>MLSGroup\<close> of \<open>group.py\<close>: the state of a member, the creation of a group and
  the three operations that commit (\<open>add_member\<close>, \<open>remove_member\<close>, \<open>update_key\<close>).
\<close>

section \<open>The state of a member\<close>

record MLSGroup =
  g_state :: EpochState
  g_my_index :: int
  g_my_sig_key :: SignatureKey
  g_my_kem_key :: KemKey
  g_interim_transcript_hash :: bytes
  g_consumed_key_packages :: "bytes set"
  g_secret_tree :: "SecretTree option"

abbreviation g_group_id :: "MLSGroup \<Rightarrow> bytes" where "g_group_id g \<equiv> ep_group_id (g_state g)"
abbreviation g_epoch_id :: "MLSGroup \<Rightarrow> int" where "g_epoch_id g \<equiv> ep_epoch_id (g_state g)"
abbreviation g_tree :: "MLSGroup \<Rightarrow> RatchetTree" where "g_tree g \<equiv> ep_tree (g_state g)"
abbreviation g_schedule :: "MLSGroup \<Rightarrow> KeySchedule" where "g_schedule g \<equiv> ep_key_schedule (g_state g)"

definition MLSGroup_init :: "EpochState \<Rightarrow> int \<Rightarrow> SignatureKey \<Rightarrow> KemKey \<Rightarrow> bytes \<Rightarrow> MLSGroup" where
  "MLSGroup_init state my_index my_sig_key my_kem_key interim =
     \<lparr>g_state = state, g_my_index = my_index, g_my_sig_key = my_sig_key, g_my_kem_key = my_kem_key,
      g_interim_transcript_hash = interim, g_consumed_key_packages = {}, g_secret_tree = None\<rparr>"

text \<open>The secret tree of the epoch, created on first use; the object after the call comes with it.\<close>

definition get_secret_tree :: "MLSGroup \<Rightarrow> SecretTree \<times> MLSGroup" where
  "get_secret_tree g =
     (case g_secret_tree g of
        Some st \<Rightarrow> (st, g)
      | None \<Rightarrow>
          let n_leaves = (int (length (nodes (g_tree g))) + 1) div 2;
              st = SecretTree_init (encryption_secret (g_schedule g)) n_leaves
          in (st, g\<lparr>g_secret_tree := Some st\<rparr>))"

text \<open>The wiped tree is dropped: nothing refers to it any more.\<close>

definition wipe_secret_tree :: "MLSGroup \<Rightarrow> MLSGroup" where
  "wipe_secret_tree g =
     (case g_secret_tree g of
        None \<Rightarrow> g
      | Some st \<Rightarrow> g\<lparr>g_secret_tree := Some (st_wipe st)\<rparr>\<lparr>g_secret_tree := None\<rparr>)"

section \<open>Creating a group\<close>

text \<open>A key package that a member signs for itself; \<open>init_kem\<close> is the fresh \<open>KemKey()\<close> of the init key.\<close>

definition own_key_package :: "crypto \<Rightarrow> SignatureKey \<Rightarrow> KemKey \<Rightarrow> KemKey \<Rightarrow> KeyPackage res" where
  "own_key_package C sig_key kem init_kem =
     KeyPackage_create (kem_public_bytes C kem) (kem_public_bytes C init_kem) (sig_public_bytes C sig_key)
       (sig_public_bytes C sig_key) (sig_sign C sig_key)"

definition create :: "crypto \<Rightarrow> KemKey \<Rightarrow> bytes \<Rightarrow> SignatureKey \<Rightarrow> KemKey \<Rightarrow> MLSGroup res" where
  "create C init_kem gid creator_sig_key creator_kem_key =
     (let tree = RatchetTree_init 1 in
      bindR (own_key_package C creator_sig_key creator_kem_key init_kem) (\<lambda>kp.
      bindR (set_leaf tree 0 (leaf_node kp)) (\<lambda>tree1.
      bindR (make_group_context gid 0 tree1 []) (\<lambda>genesis_ctx.
      bindR (GroupContext_to_bytes genesis_ctx) (\<lambda>ctx_bytes.
      bindR (genesis gid tree1 ctx_bytes) (\<lambda>state.
      Inr (MLSGroup_init state 0 creator_sig_key creator_kem_key [])))))))"

section \<open>The blocks of a commit\<close>

text \<open>
  \<open>add_member\<close>, \<open>remove_member\<close> and \<open>update_key\<close> repeat the same statements; each block is one
  definition here. What a commit draws at random is its argument: the leaf path secret
  (\<open>os.urandom(32)\<close>), the fresh keys of the committer, and the ephemeral key of every HPKE seal, by
  the place it is used at.
\<close>

record entropy =
  ent_leaf_path_secret :: bytes
  ent_committer_kem :: KemKey
  ent_init_kem :: KemKey
  ent_path_eph :: "nat \<Rightarrow> nat \<Rightarrow> KemKey"
  ent_leaf_eph :: "nat \<Rightarrow> KemKey"
  ent_welcome_eph :: KemKey

text \<open>The copy of the old tree into a new one.\<close>

fun copy_tree :: "int \<Rightarrow> Node option list \<Rightarrow> RatchetTree \<Rightarrow> RatchetTree res" where
  "copy_tree i [] new_tree = Inr new_tree"
| "copy_tree i (None # ns) new_tree = copy_tree (i + 1) ns new_tree"
| "copy_tree i (Some (Leaf l) # ns) new_tree = bindR (set_leaf new_tree i l) (copy_tree (i + 1) ns)"
| "copy_tree i (Some (Parent p) # ns) new_tree = bindR (set_parent new_tree i p) (copy_tree (i + 1) ns)"

text \<open>\<open>for _ in direct: current_secret = _derive_next_path_secret(current_secret)\<close>.\<close>

fun path_secrets :: "'a list \<Rightarrow> bytes \<Rightarrow> bytes list res" where
  "path_secrets [] current_secret = Inr []"
| "path_secrets (_ # direct) current_secret =
     bindR (derive_next_path_secret current_secret) (\<lambda>s.
     bindR (path_secrets direct s) (\<lambda>ss. Inr (s # ss)))"

definition commit_secret_of :: "bytes list \<Rightarrow> bytes \<Rightarrow> bytes" where
  "commit_secret_of pss leaf_path_secret = (if pss \<noteq> [] then last pss else leaf_path_secret)"

definition node_pub :: "crypto \<Rightarrow> bytes \<Rightarrow> bytes res" where
  "node_pub C ps =
     bindR (derive_path_node_key ps) (\<lambda>node_secret.
     bindR (kem_from_secret node_secret) (\<lambda>k. Inr (kem_public_bytes C k)))"

text \<open>
  The loop that goes down from the root: it returns the parent hash it computed last (for the
  node below) with the tree.
\<close>

fun fill_path :: "RatchetTree \<Rightarrow> (int \<times> int \<times> bytes) list \<Rightarrow> (bytes \<times> RatchetTree) res" where
  "fill_path t [] = Inr ([], t)"
| "fill_path t ((dp_idx, cop_idx, pub) # rest) =
     bindR (fill_path t rest) (\<lambda>(ph_above, t1).
     bindR (subtree_hash t1 cop_idx) (\<lambda>sh.
     bindR (compute_parent_hash pub ph_above sh) (\<lambda>ph.
     bindR (set_parent t1 dp_idx \<lparr>parent_public_key = pub, parent_parent_hash = ph, unmerged_leaves = []\<rparr>) (\<lambda>t2.
     Inr (ph, t2)))))"

record rekeyed =
  rk_tree :: RatchetTree
  rk_direct :: "int list"
  rk_cop :: "int list"
  rk_path_secrets :: "bytes list"
  rk_node_pubs :: "bytes list"
  rk_key_package :: KeyPackage

text \<open>New path secrets, a new leaf for the committer, new parents up to the root.\<close>

definition rekey_path :: "crypto \<Rightarrow> entropy \<Rightarrow> MLSGroup \<Rightarrow> RatchetTree \<Rightarrow> rekeyed res" where
  "rekey_path C ent g new_tree =
     (let my_node_idx = 2 * g_my_index g in
      bindR (direct_path new_tree my_node_idx) (\<lambda>direct.
      bindR (copath new_tree my_node_idx) (\<lambda>cop.
      bindR (path_secrets direct (ent_leaf_path_secret ent)) (\<lambda>pss.
      bindR (own_key_package C (g_my_sig_key g) (ent_committer_kem ent) (ent_init_kem ent)) (\<lambda>kp.
      bindR (set_leaf new_tree my_node_idx (leaf_node kp)) (\<lambda>tree1.
      bindR (mapR (node_pub C) pss) (\<lambda>pubs.
      bindR (fill_path tree1 (zip direct (zip cop pubs))) (\<lambda>(_, tree2).
      Inr \<lparr>rk_tree = tree2, rk_direct = direct, rk_cop = cop, rk_path_secrets = pss, rk_node_pubs = pubs,
           rk_key_package = kp\<rparr>))))))))"

fun node_public_key :: "Node \<Rightarrow> bytes" where
  "node_public_key (Leaf l) = encryption_key l"
| "node_public_key (Parent p) = parent_public_key p"

text \<open>\<open>_up_info(group_ctx_pre.to_bytes())\<close>.\<close>

definition path_info :: "GroupContext \<Rightarrow> bytes res" where
  "path_info ctx = bindR (GroupContext_to_bytes ctx) up_info"

fun seal_to_resolution ::
    "crypto \<Rightarrow> (nat \<Rightarrow> KemKey) \<Rightarrow> RatchetTree \<Rightarrow> GroupContext \<Rightarrow> bytes \<Rightarrow> nat \<Rightarrow> int list \<Rightarrow> HPKECiphertext list res" where
  "seal_to_resolution C eph t ctx ps pos [] = Inr []"
| "seal_to_resolution C eph t ctx ps pos (res_idx # resolved) =
     (case get_node t res_idx of
        None \<Rightarrow> seal_to_resolution C eph t ctx ps (pos + 1) resolved
      | Some res_node \<Rightarrow>
          bindR (path_info ctx) (\<lambda>info.
          bindR (hpke_seal C (eph pos) (node_public_key res_node) ps [] 0 info) (\<lambda>(enc, ct).
          bindR (seal_to_resolution C eph t ctx ps (pos + 1) resolved) (\<lambda>ctexts.
          Inr (\<lparr>hc_kem_output = enc, hc_ciphertext = ct\<rparr> # ctexts)))))"

fun update_path_nodes ::
    "crypto \<Rightarrow> (nat \<Rightarrow> nat \<Rightarrow> KemKey) \<Rightarrow> RatchetTree \<Rightarrow> GroupContext \<Rightarrow> nat \<Rightarrow> (int \<times> bytes \<times> bytes) list \<Rightarrow> UpdatePathNode list res" where
  "update_path_nodes C eph t ctx i [] = Inr []"
| "update_path_nodes C eph t ctx i ((cop_idx, ps, new_pub) # rest) =
     bindR (resolution t cop_idx) (\<lambda>resolved.
     bindR (seal_to_resolution C (eph i) t ctx ps 0 resolved) (\<lambda>ctexts.
     bindR (update_path_nodes C eph t ctx (i + 1) rest) (\<lambda>ns.
     Inr (\<lparr>upn_new_public_key = new_pub, upn_encrypted_path_secret = ctexts\<rparr> # ns))))"

text \<open>
  The commit secret sealed to each other leaf. \<open>add_member\<close> runs over all nodes and seals before it
  computes the reference; \<open>remove_member\<close> and \<open>update_key\<close> run over the even indices and compute the
  reference first.
\<close>

fun seal_to_leaves_add ::
    "crypto \<Rightarrow> (nat \<Rightarrow> KemKey) \<Rightarrow> GroupContext \<Rightarrow> bytes \<Rightarrow> int \<Rightarrow> nat \<Rightarrow> Node option list \<Rightarrow> (bytes \<times> bytes) list \<Rightarrow> (bytes \<times> bytes) list res" where
  "seal_to_leaves_add C eph ctx secret mine i [] d = Inr d"
| "seal_to_leaves_add C eph ctx secret mine i (node # ns) d =
     (case node of
        Some (Leaf l) \<Rightarrow>
          if int i \<noteq> mine then
            bindR (path_info ctx) (\<lambda>info.
            bindR (hpke_seal C (eph i) (encryption_key l) secret [] 0 info) (\<lambda>(enc, ct).
            bindR (make_kp_ref (LeafNode_key_package l)) (\<lambda>kp_ref.
            seal_to_leaves_add C eph ctx secret mine (i + 1) ns (AList.update kp_ref (enc @ ct) d))))
          else seal_to_leaves_add C eph ctx secret mine (i + 1) ns d
      | _ \<Rightarrow> seal_to_leaves_add C eph ctx secret mine (i + 1) ns d)"

fun seal_to_leaves ::
    "crypto \<Rightarrow> (nat \<Rightarrow> KemKey) \<Rightarrow> GroupContext \<Rightarrow> bytes \<Rightarrow> int \<Rightarrow> nat \<Rightarrow> Node option list \<Rightarrow> (bytes \<times> bytes) list \<Rightarrow> (bytes \<times> bytes) list res" where
  "seal_to_leaves C eph ctx secret mine i [] d = Inr d"
| "seal_to_leaves C eph ctx secret mine i (node # ns) d =
     (if odd i then seal_to_leaves C eph ctx secret mine (i + 1) ns d
      else case node of
        Some (Leaf l) \<Rightarrow>
          if int i = mine then seal_to_leaves C eph ctx secret mine (i + 1) ns d
          else
            bindR (make_kp_ref (LeafNode_key_package l)) (\<lambda>kp_ref.
            bindR (path_info ctx) (\<lambda>info.
            bindR (hpke_seal C (eph i) (encryption_key l) secret [] 0 info) (\<lambda>(enc, ct).
            seal_to_leaves C eph ctx secret mine (i + 1) ns (AList.update kp_ref (enc @ ct) d))))
      | _ \<Rightarrow> seal_to_leaves C eph ctx secret mine (i + 1) ns d)"

text \<open>The unsigned update, its framing under the old group context, the signature, the transcript.\<close>

record signed_commit =
  sc_update :: GroupUpdate
  sc_old_ctx :: GroupContext
  sc_tbs :: bytes
  sc_transcript_hash :: bytes

definition framed_commit :: "MLSGroup \<Rightarrow> int \<Rightarrow> bytes \<Rightarrow> FramedContent" where
  "framed_commit g sender content =
     \<lparr>fc_group_id = g_group_id g, fc_epoch = g_epoch_id g, fc_sender_leaf_index = sender,
      fc_authenticated_data = [], fc_content = content\<rparr>"

definition sign_commit ::
    "crypto \<Rightarrow> MLSGroup \<Rightarrow> int \<Rightarrow> RatchetTree \<Rightarrow> (bytes \<times> bytes) list \<Rightarrow> UpdatePath \<Rightarrow> signed_commit res" where
  "sign_commit C g new_epoch_id new_tree secrets update_path =
     (let update = GroupUpdate_init new_epoch_id new_tree secrets (g_my_index g) [] (g_group_id g) (Some update_path) in
      bindR (GroupUpdate_body_bytes update) (\<lambda>unsigned_body.
      let framed = framed_commit g (g_my_index g) unsigned_body in
      bindR (FramedContent_to_bytes framed) (\<lambda>framed_content_bytes.
      bindR (make_group_context (g_group_id g) (g_epoch_id g) (g_tree g) (g_interim_transcript_hash g)) (\<lambda>old_ctx.
      bindR (make_framed_content_tbs old_ctx framed) (\<lambda>tbs.
      let signature = sig_sign C (g_my_sig_key g) tbs in
      bindR (confirmed_transcript_hash_input framed_content_bytes signature) (\<lambda>confirmed_input.
      Inr \<lparr>sc_update = update\<lparr>gu_signature := signature\<rparr>, sc_old_ctx = old_ctx, sc_tbs = tbs,
           sc_transcript_hash = compute_confirmed_transcript_hash (g_interim_transcript_hash g) confirmed_input\<rparr>))))))"

text \<open>The confirmation tag of the new epoch, the new interim hash, the new epoch state.\<close>

record confirmed =
  cf_tag :: bytes
  cf_interim :: bytes
  cf_ctx :: GroupContext
  cf_state :: EpochState

definition provisional_tag :: "MLSGroup \<Rightarrow> int \<Rightarrow> RatchetTree \<Rightarrow> bytes \<Rightarrow> bytes \<Rightarrow> bytes res" where
  "provisional_tag g new_epoch_id new_tree commit_secret transcript_hash =
     bindR (make_group_context (g_group_id g) new_epoch_id new_tree transcript_hash) (\<lambda>provisional_ctx.
     bindR (GroupContext_to_bytes provisional_ctx) (\<lambda>pctx_bytes.
     bindR (derive_confirmation_key (init_secret (g_schedule g)) commit_secret pctx_bytes None) (\<lambda>conf_key.
     Inr (hmac_digest sha256 conf_key transcript_hash))))"

definition confirm_commit :: "MLSGroup \<Rightarrow> int \<Rightarrow> RatchetTree \<Rightarrow> bytes \<Rightarrow> bytes \<Rightarrow> confirmed res" where
  "confirm_commit g new_epoch_id new_tree commit_secret transcript_hash =
     bindR (provisional_tag g new_epoch_id new_tree commit_secret transcript_hash) (\<lambda>conf_tag.
     let new_interim = compute_interim_transcript_hash transcript_hash conf_tag in
     bindR (make_group_context (g_group_id g) new_epoch_id new_tree transcript_hash) (\<lambda>new_ctx.
     bindR (GroupContext_to_bytes new_ctx) (\<lambda>ctx_bytes.
     bindR (advance_epoch (g_state g) commit_secret new_tree ctx_bytes None) (\<lambda>next_state.
     Inr \<lparr>cf_tag = conf_tag, cf_interim = new_interim, cf_ctx = new_ctx, cf_state = next_state\<rparr>))))"

text \<open>The fields \<open>wrap_commit\<close> needs, and the membership tag under the old epoch's key.\<close>

definition attach_context :: "MLSGroup \<Rightarrow> signed_commit \<Rightarrow> confirmed \<Rightarrow> bytes \<Rightarrow> GroupUpdate" where
  "attach_context g sc cf tag =
     (sc_update sc)\<lparr>gu_group_ctx := Some (cf_ctx cf), gu_old_group_ctx := Some (sc_old_ctx sc),
        gu_confirmation_key := Some (confirmation_key (ep_key_schedule (cf_state cf))),
        gu_epoch_authenticator := Some (epoch_authenticator (ep_key_schedule (cf_state cf))),
        gu_membership_key := Some (membership_key (ep_key_schedule (cf_state cf))),
        gu_transcript_hash := Some (sc_transcript_hash sc),
        gu_confirmation_tag := Some tag,
        gu_membership_tag := Some (hmac_digest sha256 (membership_key (g_schedule g)) (sc_tbs sc))\<rparr>"

definition next_group :: "MLSGroup \<Rightarrow> confirmed \<Rightarrow> KemKey \<Rightarrow> MLSGroup" where
  "next_group g cf kem =
     (MLSGroup_init (cf_state cf) (g_my_index g) (g_my_sig_key g) kem (cf_interim cf))
       \<lparr>g_consumed_key_packages := g_consumed_key_packages g\<rparr>"

section \<open>update_key and remove_member\<close>

text \<open>The statements the two methods share after they have built \<open>new_tree\<close>.\<close>

definition commit_tree ::
    "crypto \<Rightarrow> entropy \<Rightarrow> MLSGroup \<Rightarrow> RatchetTree \<Rightarrow> KemKey \<Rightarrow> (MLSGroup \<times> GroupUpdate) res" where
  "commit_tree C ent g new_tree next_kem =
     (let new_epoch_id = g_epoch_id g + 1 in
      bindR (rekey_path C ent g new_tree) (\<lambda>rk.
      let commit_secret = commit_secret_of (rk_path_secrets rk) (ent_leaf_path_secret ent) in
      bindR (make_group_context (g_group_id g) new_epoch_id (rk_tree rk) (g_interim_transcript_hash g)) (\<lambda>group_ctx_pre.
      bindR (update_path_nodes C (ent_path_eph ent) (rk_tree rk) group_ctx_pre 0
               (zip (rk_cop rk) (zip (rk_path_secrets rk) (rk_node_pubs rk)))) (\<lambda>upns.
      bindR (seal_to_leaves C (ent_leaf_eph ent) group_ctx_pre commit_secret (2 * g_my_index g) 0 (nodes (rk_tree rk)) []) (\<lambda>secrets.
      bindR (sign_commit C g new_epoch_id (rk_tree rk) secrets
               \<lparr>up_leaf_key_package = rk_key_package rk, up_nodes = upns\<rparr>) (\<lambda>sc.
      bindR (confirm_commit g new_epoch_id (rk_tree rk) commit_secret (sc_transcript_hash sc)) (\<lambda>cf.
      Inr (next_group g cf next_kem, attach_context g sc cf (cf_tag cf)))))))))"

definition update_key :: "crypto \<Rightarrow> entropy \<Rightarrow> MLSGroup \<Rightarrow> (MLSGroup \<times> GroupUpdate) res \<times> MLSGroup" where
  "update_key C ent g =
     (case bindR (copy_tree 0 (nodes (g_tree g)) (RatchetTree_init (num_leaves (g_tree g)))) (\<lambda>new_tree.
           commit_tree C ent g new_tree (ent_committer_kem ent)) of
        Inl e \<Rightarrow> (Inl e, g)
      | Inr r \<Rightarrow> (Inr r, wipe_secret_tree g))"

text \<open>The new group keeps the member's old KEM key, not the one whose public key went into the tree.\<close>

definition remove_member :: "crypto \<Rightarrow> entropy \<Rightarrow> MLSGroup \<Rightarrow> int \<Rightarrow> (MLSGroup \<times> GroupUpdate) res \<times> MLSGroup" where
  "remove_member C ent g target_leaf_index =
     (if target_leaf_index = g_my_index g then (Inl (ValueError ''Cannot remove yourself''), g)
      else if \<not> (0 \<le> target_leaf_index \<and> target_leaf_index < num_leaves (g_tree g))
      then (Inl (ValueError ''target_leaf_index out of range''), g)
      else case bindR (remove_leaf (g_tree g) (2 * target_leaf_index)) (\<lambda>new_tree.
                commit_tree C ent g new_tree (g_my_kem_key g)) of
             Inl e \<Rightarrow> (Inl e, g)
           | Inr r \<Rightarrow> (Inr r, wipe_secret_tree g))"

section \<open>add_member\<close>

definition find_blank :: "RatchetTree \<Rightarrow> int option" where
  "find_blank t = find (\<lambda>li. get_node t (2 * li) = None) (map int [0..<nat (num_leaves t)])"

fun blank_nodes :: "int list \<Rightarrow> RatchetTree \<Rightarrow> RatchetTree res" where
  "blank_nodes [] t = Inr t"
| "blank_nodes (a # as) t = bindR (blank_node t a) (blank_nodes as)"

text \<open>Step 1: the tree with the new member in it.\<close>

definition place_member :: "RatchetTree \<Rightarrow> LeafNode \<Rightarrow> RatchetTree res" where
  "place_member t leaf =
     (let (new_num_leaves, new_leaf_idx) =
        (case find_blank t of
           None \<Rightarrow> (num_leaves t * 2, 2 * num_leaves t)
         | Some blank_leaf \<Rightarrow> (num_leaves t, 2 * blank_leaf)) in
      bindR (copy_tree 0 (nodes t) (RatchetTree_init new_num_leaves)) (\<lambda>tree1.
      bindR (set_leaf tree1 new_leaf_idx leaf) (\<lambda>tree2.
      bindR (direct_path tree2 new_leaf_idx) (\<lambda>ancestors.
      blank_nodes ancestors tree2))))"

text \<open>Step 4: the Welcome. No attribute \<open>psk_list\<close> is ever set, so \<open>_psk_secret(None)\<close> is used.\<close>

definition build_welcome ::
    "crypto \<Rightarrow> KemKey \<Rightarrow> MLSGroup \<Rightarrow> KeyPackage \<Rightarrow> RatchetTree \<Rightarrow> EpochState \<Rightarrow> bytes \<Rightarrow> Welcome res" where
  "build_welcome C eph g key_package new_tree next_state transcript_hash =
     (let conf_tag = hmac_digest sha256 (confirmation_key (ep_key_schedule next_state)) transcript_hash in
      bindR (make_group_context (g_group_id g) (ep_epoch_id next_state) new_tree transcript_hash) (\<lambda>gi_group_ctx.
      bindR (RatchetTree_to_bytes new_tree) (\<lambda>tree_bytes.
      bindR (GroupInfo_build_and_sign C gi_group_ctx conf_tag (g_my_index g) (g_my_sig_key g)
               (Some [(0x0002, tree_bytes)])) (\<lambda>group_info.
      let joiner = joiner_secret (ep_key_schedule next_state) in
      bindR (psk_secret None) (\<lambda>psk_res.
      bindR (derive_welcome_key joiner (Some psk_res)) (\<lambda>welcome_key.
      bindR (derive_welcome_nonce joiner (Some psk_res)) (\<lambda>welcome_nonce.
      bindR (GroupInfo_to_bytes group_info) (\<lambda>gi_plaintext.
      bindR (gcm_encrypt C welcome_key welcome_nonce gi_plaintext []) (\<lambda>egi.
      bindR (GroupSecrets_to_bytes \<lparr>gs_joiner_secret = joiner, gs_path_secret = None, gs_psks = []\<rparr>) (\<lambda>gs_bytes.
      bindR (egs_info egi) (\<lambda>info.
      bindR (hpke_seal C eph (init_key_pub key_package) gs_bytes [] 0 info) (\<lambda>(gs_enc, gs_ct).
      bindR (make_kp_ref key_package) (\<lambda>kp_ref.
      Inr \<lparr>w_cipher_suite = WELCOME_CIPHER_SUITE,
           w_encrypted_group_secrets = [\<lparr>egs_new_member = kp_ref, egs_kem_output = gs_enc, egs_ciphertext = gs_ct\<rparr>],
           w_encrypted_group_info = egi, w_dialect = None\<rparr>)))))))))))))"

definition add_commit ::
    "crypto \<Rightarrow> entropy \<Rightarrow> MLSGroup \<Rightarrow> KeyPackage \<Rightarrow> (MLSGroup \<times> Welcome \<times> GroupUpdate) res" where
  "add_commit C ent g key_package =
     bindR (place_member (g_tree g) (leaf_node key_package)) (\<lambda>new_tree.
     bindR (KeyPackage_verify_signature C key_package) (\<lambda>_.
     let new_epoch_id = g_epoch_id g + 1 in
     bindR (rekey_path C ent g new_tree) (\<lambda>rk.
     let commit_secret = commit_secret_of (rk_path_secrets rk) (ent_leaf_path_secret ent) in
     bindR (make_group_context (g_group_id g) new_epoch_id (rk_tree rk) (g_interim_transcript_hash g)) (\<lambda>group_ctx_pre.
     bindR (update_path_nodes C (ent_path_eph ent) (rk_tree rk) group_ctx_pre 0
              (zip (rk_cop rk) (zip (rk_path_secrets rk) (rk_node_pubs rk)))) (\<lambda>upns.
     bindR (seal_to_leaves_add C (ent_leaf_eph ent) group_ctx_pre commit_secret (2 * g_my_index g) 0 (nodes (rk_tree rk)) []) (\<lambda>secrets.
     bindR (sign_commit C g new_epoch_id (rk_tree rk) secrets
              \<lparr>up_leaf_key_package = rk_key_package rk, up_nodes = upns\<rparr>) (\<lambda>sc.
     bindR (confirm_commit g new_epoch_id (rk_tree rk) commit_secret (sc_transcript_hash sc)) (\<lambda>cf.
     bindR (build_welcome C (ent_welcome_eph ent) g key_package (rk_tree rk) (cf_state cf) (sc_transcript_hash sc)) (\<lambda>welcome.
     let conf_tag_sender = hmac_digest sha256 (confirmation_key (ep_key_schedule (cf_state cf))) (sc_transcript_hash sc) in
     Inr (next_group g cf (ent_committer_kem ent), welcome, attach_context g sc cf conf_tag_sender))))))))))"

text \<open>The reference is recorded as consumed before anything else is checked.\<close>

definition add_member ::
    "crypto \<Rightarrow> entropy \<Rightarrow> MLSGroup \<Rightarrow> KeyPackage \<Rightarrow> (MLSGroup \<times> Welcome \<times> GroupUpdate) res \<times> MLSGroup" where
  "add_member C ent g key_package =
     (case make_kp_ref key_package of
        Inl e \<Rightarrow> (Inl e, g)
      | Inr kp_ref \<Rightarrow>
          if kp_ref \<in> g_consumed_key_packages g then (Inl (ValueError ''KeyPackage Replay''), g)
          else let g1 = g\<lparr>g_consumed_key_packages := insert kp_ref (g_consumed_key_packages g)\<rparr> in
            case add_commit C ent g1 key_package of
              Inl e \<Rightarrow> (Inl e, g1)
            | Inr r \<Rightarrow> (Inr r, wipe_secret_tree g1))"

end
