(* ===== verification/Receiving.thy ===== *)
theory Receiving
  imports Committing
begin

text \<open>
  The receiving half of class \<open>MLSGroup\<close> of \<open>group.py\<close>: processing the commit of another member
  (\<open>process_update\<close>) and joining from a Welcome (\<open>join\<close>).
\<close>

section \<open>process_update\<close>

fun verify_leaves :: "crypto \<Rightarrow> bytes \<Rightarrow> RatchetTree \<Rightarrow> int list \<Rightarrow> unit res" where
  "verify_leaves C gid t [] = Inr ()"
| "verify_leaves C gid t (li # lis) =
     (case get_node t (2 * li) of
        Some (Leaf ln) \<Rightarrow> bindR (LeafNode_verify_signature C ln gid li) (\<lambda>_. verify_leaves C gid t lis)
      | _ \<Rightarrow> verify_leaves C gid t lis)"

text \<open>\<open>for _ in range(n): _ps = _derive_next_path_secret(_ps)\<close>.\<close>

fun advance_secret :: "nat \<Rightarrow> bytes \<Rightarrow> bytes res" where
  "advance_secret 0 ps = Inr ps"
| "advance_secret (Suc n) ps = bindR (derive_next_path_secret ps) (advance_secret n)"

definition index_of :: "int \<Rightarrow> int list \<Rightarrow> nat" where
  "index_of x xs = length (takeWhile (\<lambda>y. y \<noteq> x) xs)"

text \<open>
  The search for the own position in the copath resolutions; \<open>n\<close> is \<open>len(direct)\<close>, \<open>i\<close> the index of
  the first entry left.
\<close>

fun open_path ::
    "crypto \<Rightarrow> KemKey \<Rightarrow> int \<Rightarrow> RatchetTree \<Rightarrow> GroupContext \<Rightarrow> nat \<Rightarrow> nat \<Rightarrow> (int \<times> int \<times> UpdatePathNode) list \<Rightarrow> bytes option res" where
  "open_path C kem mine t ctx n i [] = Inr None"
| "open_path C kem mine t ctx n i ((dp_idx, cop_idx, up_node) # rest) =
     bindR (resolution t cop_idx) (\<lambda>resolved.
     if mine \<in> set resolved \<and> index_of mine resolved < length (upn_encrypted_path_secret up_node) then
       let ct = upn_encrypted_path_secret up_node ! index_of mine resolved in
       bindR (path_info ctx) (\<lambda>info.
       bindR (hpke_open C kem (hc_kem_output ct) (hc_ciphertext ct) [] 0 info) (\<lambda>path_secret.
       bindR (advance_secret (n - i - 1) path_secret) (\<lambda>ps. Inr (Some ps))))
     else open_path C kem mine t ctx n (i + 1) rest)"

definition path_commit_secret :: "crypto \<Rightarrow> MLSGroup \<Rightarrow> GroupUpdate \<Rightarrow> GroupContext \<Rightarrow> bytes option res" where
  "path_commit_secret C g update ctx =
     (case gu_update_path update of
        None \<Rightarrow> Inr None
      | Some path \<Rightarrow>
          if up_nodes path = [] then Inr None
          else
            bindR (direct_path (gu_tree update) (2 * gu_committer_index update)) (\<lambda>direct.
            bindR (copath (gu_tree update) (2 * gu_committer_index update)) (\<lambda>cop.
            open_path C (g_my_kem_key g) (2 * g_my_index g) (gu_tree update) ctx (length direct) 0
              (zip direct (zip cop (up_nodes path))))))"

definition legacy_commit_secret :: "crypto \<Rightarrow> MLSGroup \<Rightarrow> GroupUpdate \<Rightarrow> GroupContext \<Rightarrow> bytes \<Rightarrow> bytes res" where
  "legacy_commit_secret C g update ctx my_kp_ref =
     (case map_of (gu_encrypted_commit_secrets update) my_kp_ref of
        None \<Rightarrow> Inl (ValueError ''Not invited to this epoch (KeyPackageRef not found in commit)'')
      | Some enc_ct \<Rightarrow>
          bindR (path_info ctx) (\<lambda>info.
          hpke_open C (g_my_kem_key g) (take 32 enc_ct) (drop 32 enc_ct) [] 0 info))"

text \<open>Step 3, with the translation of exceptions; it returns the bytes that were signed.\<close>

definition verify_commit_signature :: "crypto \<Rightarrow> MLSGroup \<Rightarrow> LeafNode \<Rightarrow> FramedContent \<Rightarrow> bytes \<Rightarrow> bytes res" where
  "verify_commit_signature C g committer framed signature =
     (case bindR (make_group_context (g_group_id g) (g_epoch_id g) (g_tree g) (g_interim_transcript_hash g)) (\<lambda>old_ctx.
           if \<not> ed_load C (signature_key committer) then Inl (ValueError ''Ed25519 public key'')
           else bindR (make_framed_content_tbs old_ctx framed) (\<lambda>tbs.
                bindR (ed25519_verify C (signature_key committer) signature tbs) (\<lambda>_. Inr tbs))) of
        Inr tbs \<Rightarrow> Inr tbs
      | Inl InvalidSignature \<Rightarrow> Inl (ValueError ''Commit Forgery Detected: Invalid Signature in update'')
      | Inl (ValueError _) \<Rightarrow> Inl (ValueError ''Malformed update signature'')
      | Inl (TypeError _) \<Rightarrow> Inl (ValueError ''Malformed update signature'')
      | Inl e \<Rightarrow> Inl e)"

definition process_commit :: "crypto \<Rightarrow> MLSGroup \<Rightarrow> GroupUpdate \<Rightarrow> MLSGroup res" where
  "process_commit C g update =
     (if gu_group_id update \<noteq> g_group_id g then Inl (ValueError ''GroupUpdate group_id mismatch'')
      else if gu_epoch_id update \<noteq> g_epoch_id g + 1 then Inl (ValueError ''Out of order update'')
      else case get_node (g_tree g) (2 * gu_committer_index update) of
        Some (Leaf committer) \<Rightarrow>
          bindR (verify_leaves C (g_group_id g) (gu_tree update) (map int [0..<nat (num_leaves (gu_tree update))])) (\<lambda>_.
          case get_node (g_tree g) (2 * g_my_index g) of
            Some (Leaf my_kp) \<Rightarrow>
              bindR (make_group_context (g_group_id g) (gu_epoch_id update) (gu_tree update) (g_interim_transcript_hash g)) (\<lambda>group_ctx.
              bindR (make_kp_ref (LeafNode_key_package my_kp)) (\<lambda>my_kp_ref.
              bindR (path_commit_secret C g update group_ctx) (\<lambda>found.
              bindR (case found of Some s \<Rightarrow> Inr s | None \<Rightarrow> legacy_commit_secret C g update group_ctx my_kp_ref) (\<lambda>commit_secret.
              bindR (GroupUpdate_body_bytes update) (\<lambda>content.
              let framed = framed_commit g (gu_committer_index update) content in
              bindR (FramedContent_to_bytes framed) (\<lambda>framed_content_bytes.
              bindR (verify_commit_signature C g committer framed (gu_signature update)) (\<lambda>tbs.
              case gu_membership_tag update of
                None \<Rightarrow> Inl (ValueError ''membership_tag absent'')
              | Some mem_tag \<Rightarrow>
                  if hmac_digest sha256 (membership_key (g_schedule g)) tbs \<noteq> mem_tag
                  then Inl (ValueError ''Membership tag mismatch'')
                  else
                    bindR (confirmed_transcript_hash_input framed_content_bytes (gu_signature update)) (\<lambda>confirmed_input.
                    let transcript_hash = compute_confirmed_transcript_hash (g_interim_transcript_hash g) confirmed_input in
                    bindR (provisional_tag g (gu_epoch_id update) (gu_tree update) commit_secret transcript_hash) (\<lambda>conf_tag.
                    case gu_confirmation_tag update of
                      None \<Rightarrow> Inl (ValueError ''Confirmation tag absent'')
                    | Some tag \<Rightarrow>
                        if conf_tag \<noteq> tag then Inl (ValueError ''Confirmation tag mismatch'')
                        else
                          let new_interim = compute_interim_transcript_hash transcript_hash conf_tag in
                          bindR (make_group_context (g_group_id g) (gu_epoch_id update) (gu_tree update) transcript_hash) (\<lambda>ctx_verify.
                          bindR (GroupContext_to_bytes ctx_verify) (\<lambda>ctx_bytes.
                          bindR (advance_epoch (g_state g) commit_secret (gu_tree update) ctx_bytes None) (\<lambda>next_state.
                          Inr (MLSGroup_init next_state (g_my_index g) (g_my_sig_key g) (g_my_kem_key g) new_interim)))))))))))))
          | _ \<Rightarrow> Inl (ValueError ''My leaf node not found in tree''))
      | _ \<Rightarrow> Inl (ValueError ''Invalid committer index''))"

definition process_update :: "crypto \<Rightarrow> MLSGroup \<Rightarrow> GroupUpdate \<Rightarrow> MLSGroup res \<times> MLSGroup" where
  "process_update C g update =
     (case process_commit C g update of
        Inl e \<Rightarrow> (Inl e, g)
      | Inr g' \<Rightarrow> (Inr g', wipe_secret_tree g))"

definition apply_commit :: "crypto \<Rightarrow> MLSGroup \<Rightarrow> GroupUpdate \<Rightarrow> MLSGroup res \<times> MLSGroup" where
  "apply_commit C g commit = process_update C g commit"

section \<open>join\<close>

text \<open>The trial over the entries: \<open>InvalidTag\<close> and \<open>ValueError\<close> move on.\<close>

fun open_candidates :: "crypto \<Rightarrow> KemKey \<Rightarrow> bytes \<Rightarrow> EncryptedGroupSecrets list \<Rightarrow> bytes option res" where
  "open_candidates C kem egi [] = Inr None"
| "open_candidates C kem egi (candidate # rest) =
     (case bindR (egs_info egi) (\<lambda>info.
           hpke_open C kem (egs_kem_output candidate) (egs_ciphertext candidate) [] 0 info) of
        Inr b \<Rightarrow> Inr (Some b)
      | Inl InvalidTag \<Rightarrow> open_candidates C kem egi rest
      | Inl (ValueError _) \<Rightarrow> open_candidates C kem egi rest
      | Inl e \<Rightarrow> Inl e)"

text \<open>A dictionary comprehension: the last entry of an identifier counts.\<close>

fun resolve_psks :: "(bytes \<rightharpoonup> bytes) \<Rightarrow> PreSharedKeyID list \<Rightarrow> (PreSharedKeyID \<times> bytes) list res" where
  "resolve_psks psk_map [] = Inr []"
| "resolve_psks psk_map (k # ks) =
     (case psk_map (psk_id k) of
        None \<Rightarrow> Inl (ValueError ''Required PSK not found in provided psk_list'')
      | Some v \<Rightarrow> bindR (resolve_psks psk_map ks) (\<lambda>r. Inr ((k, v) # r)))"

definition match_psks ::
    "PreSharedKeyID list \<Rightarrow> (PreSharedKeyID \<times> bytes) list option \<Rightarrow> (PreSharedKeyID \<times> bytes) list res" where
  "match_psks required psk_list =
     (if required = [] then Inr []
      else case psk_list of
        None \<Rightarrow> Inl (ValueError ''Welcome message requires PSKs, but none were provided'')
      | Some ps \<Rightarrow>
          if ps = [] then Inl (ValueError ''Welcome message requires PSKs, but none were provided'')
          else resolve_psks (map_of (rev (map (\<lambda>(p, v). (psk_id p, v)) ps))) required)"

definition welcome_decrypt :: "crypto \<Rightarrow> bytes \<Rightarrow> bytes \<Rightarrow> bytes \<Rightarrow> bytes res" where
  "welcome_decrypt C joiner psk gi_ct =
     bindR (derive_welcome_key joiner (Some psk)) (\<lambda>wk.
     bindR (derive_welcome_nonce joiner (Some psk)) (\<lambda>wn.
     gcm_decrypt C wk wn gi_ct []))"

definition decrypt_group_info :: "crypto \<Rightarrow> bytes \<Rightarrow> bytes \<Rightarrow> bytes \<Rightarrow> bytes res" where
  "decrypt_group_info C joiner psk gi_ct =
     (let second =
        (case welcome_decrypt C joiner (replicate 32 0) gi_ct of
           Inr b \<Rightarrow> Inr b
         | Inl InvalidTag \<Rightarrow> Inl (ValueError ''Failed to decrypt GroupInfo'')
         | Inl (ValueError _) \<Rightarrow> Inl (ValueError ''Failed to decrypt GroupInfo'')
         | Inl e \<Rightarrow> Inl e)
      in case welcome_decrypt C joiner psk gi_ct of
           Inr b \<Rightarrow> Inr b
         | Inl InvalidTag \<Rightarrow> second
         | Inl (ValueError _) \<Rightarrow> second
         | Inl e \<Rightarrow> Inl e)"

text \<open>The search for the ratchet tree among the extensions, which stops at the first one.\<close>

partial_function (option) find_tree_extension :: "bytes \<Rightarrow> nat \<Rightarrow> RatchetTree option res option" where
  "find_tree_extension raw off =
     (if off < length raw then
        (case read_extension raw off of
           Inl e \<Rightarrow> Some (Inl e)
         | Inr (ext, off') \<Rightarrow>
             if fst ext = 0x0002 then Some (bindR (RatchetTree_from_bytes (snd ext)) (\<lambda>t. Inr (Some t)))
             else find_tree_extension raw off')
      else Some (Inr None))"

fun find_leaf :: "bytes \<Rightarrow> nat \<Rightarrow> Node option list \<Rightarrow> int option" where
  "find_leaf sig_pub i [] = None"
| "find_leaf sig_pub i (node # ns) =
     (case node of
        Some (Leaf l) \<Rightarrow> if even i \<and> signature_key l = sig_pub then Some (int (i div 2)) else find_leaf sig_pub (i + 1) ns
      | _ \<Rightarrow> find_leaf sig_pub (i + 1) ns)"

text \<open>Steps 3 to 6 of \<open>join\<close>, from the decrypted group information on.\<close>

definition join_group_info ::
    "crypto \<Rightarrow> SignatureKey \<Rightarrow> KemKey \<Rightarrow> bytes \<Rightarrow> (PreSharedKeyID \<times> bytes) list \<Rightarrow> RatchetTree option \<Rightarrow> bytes \<Rightarrow> MLSGroup res" where
  "join_group_info C my_sig_key my_kem_key joiner resolved_psks ratchet_tree gi_bytes =
     bindR (GroupInfo_from_bytes gi_bytes) (\<lambda>gi.
     let gi_ctx = gi_group_context gi in
     bindR (case ratchet_tree of
              Some t \<Rightarrow> Inr (Some t)
            | None \<Rightarrow> returned (find_tree_extension (gi_extensions_bytes gi) 0)) (\<lambda>found.
     case found of
       None \<Rightarrow> Inl (ValueError ''ratchet_tree extension absent from GroupInfo and no external tree provided'')
     | Some tree \<Rightarrow>
         bindR (tree_hash tree) (\<lambda>th.
         if th \<noteq> gc_tree_hash gi_ctx then Inl (ValueError ''ratchet_tree does not match the signed tree_hash in GroupInfo'')
         else case get_node tree (2 * gi_signer gi) of
           Some (Leaf committer) \<Rightarrow>
             (case GroupInfo_verify C gi (signature_key committer) of
                Inl e \<Rightarrow> Inl (if e = Nontermination then e else ValueError ''GroupInfo signature verification failed'')
              | Inr _ \<Rightarrow>
                  (case find_leaf (sig_public_bytes C my_sig_key) 0 (nodes tree) of
                     None \<Rightarrow> Inl (ValueError ''My leaf not found in GroupInfo tree'')
                   | Some my_index \<Rightarrow>
                       bindR (GroupContext_to_bytes gi_ctx) (\<lambda>ctx_bytes.
                       bindR (joiner_schedule joiner ctx_bytes (Some resolved_psks)) (\<lambda>ks.
                       let state = EpochState_init (gc_group_id gi_ctx) (gc_epoch gi_ctx) tree ks;
                           expected = hmac_digest sha256 (confirmation_key ks) (gc_confirmed_transcript_hash gi_ctx)
                       in if expected \<noteq> gi_confirmation_tag gi
                          then Inl (ValueError ''GroupInfo confirmation_tag verification failed'')
                          else Inr (MLSGroup_init state my_index my_sig_key my_kem_key
                                 (compute_interim_transcript_hash (gc_confirmed_transcript_hash gi_ctx) (gi_confirmation_tag gi)))))))
         | _ \<Rightarrow> Inl (ValueError ''GroupInfo.signer is not a leaf node''))))"

definition join ::
    "crypto \<Rightarrow> Welcome \<Rightarrow> SignatureKey \<Rightarrow> KemKey \<Rightarrow> (PreSharedKeyID \<times> bytes) list option \<Rightarrow> RatchetTree option \<Rightarrow> MLSGroup res" where
  "join C welcome my_sig_key my_kem_key psk_list ratchet_tree =
     bindR (open_candidates C my_kem_key (w_encrypted_group_info welcome) (w_encrypted_group_secrets welcome)) (\<lambda>found.
     case found of
       None \<Rightarrow> Inl (ValueError ''No EncryptedGroupSecrets could be decrypted with the provided KEM key'')
     | Some gs_bytes \<Rightarrow>
         bindR (GroupSecrets_from_bytes gs_bytes) (\<lambda>gs.
         bindR (match_psks (gs_psks gs) psk_list) (\<lambda>resolved.
         bindR (psk_secret (Some resolved)) (\<lambda>psk.
         bindR (decrypt_group_info C (gs_joiner_secret gs) psk (w_encrypted_group_info welcome)) (\<lambda>gi_bytes.
         join_group_info C my_sig_key my_kem_key (gs_joiner_secret gs) resolved ratchet_tree gi_bytes)))))"

text \<open>\<open>join\<close> called with the bytes of a Welcome.\<close>

definition join_bytes ::
    "crypto \<Rightarrow> registry \<Rightarrow> bytes \<Rightarrow> SignatureKey \<Rightarrow> KemKey \<Rightarrow> (PreSharedKeyID \<times> bytes) list option \<Rightarrow> RatchetTree option \<Rightarrow> MLSGroup res" where
  "join_bytes C reg data my_sig_key my_kem_key psk_list ratchet_tree =
     (case Welcome_from_bytes reg data None of
        Inl e \<Rightarrow> Inl (if e = Nontermination then e else ValueError ''Failed to parse Welcome TLS bytes'')
      | Inr welcome \<Rightarrow> join C welcome my_sig_key my_kem_key psk_list ratchet_tree)"

end
