(* ===== verification/CommitFacts.thy ===== *)
theory CommitFacts
  imports Committing
begin

text \<open>
  What the blocks of a commit do: the copied and re-keyed tree, the nodes of the update path, the
  commit secret sealed to the leaves, the record of a whole commit (\<open>commit_log\<close>), the leaf a new
  member gets and the leaf a removed member leaves.
\<close>

section \<open>Lemmas: trees\<close>

lemma copy_tree_typed:
  assumes "\<forall>k<length ns. node_fits (i + k) (ns ! k)"
  shows "copy_tree (int i) ns t = copy_nodes (int i) ns t"
  using assms
proof (induction ns arbitrary: i t)
  case (Cons x ns)
  from Cons.prems have "\<forall>k<length ns. node_fits (Suc i + k) (ns ! k)" by fastforce
  from Cons.IH [OF this] have IH: "copy_tree (int i + 1) ns t' = copy_nodes (int i + 1) ns t'" for t'
    by (simp add: add.commute)
  have "node_fits i x" using Cons.prems by auto
  moreover have "even i \<longleftrightarrow> int i mod 2 = 0" by presburger
  ultimately show ?case using IH by (cases "(i, x)" rule: node_fits.cases) (auto cong: bindR_cong)
qed simp

lemma copy_tree_eq:
  assumes "tree_wf t" "num_leaves t \<le> n"
  shows "copy_tree 0 (nodes t) (RatchetTree_init n)
       = Inr \<lparr>num_leaves = n, nodes = nodes t @ replicate (nat (2 * n - 1) - length (nodes t)) None, frozen = False\<rparr>"
proof -
  from assms(1) obtain d where d: "tree_shape t d" "tree_typed (nodes t)" by (auto simp: tree_wf_def)
  have n: "0 < n" "tree_size t \<le> 2 * n - 1"
    using assms(2) shape_leaves [OF d(1)] shape_size [OF d(1)] by auto
  have "copy_tree 0 (nodes t) (RatchetTree_init n) = copy_nodes 0 (nodes t) (RatchetTree_init n)"
    using copy_tree_typed [of "nodes t" 0] d(2) by (simp add: tree_typed_def)
  also have "\<dots> = Inr ((RatchetTree_init n)\<lparr>nodes := nodes t @ drop (length (nodes t)) (nodes (RatchetTree_init n))\<rparr>)"
    using n by (intro copy_nodes_spec d(2)) (simp_all add: RatchetTree_init_def)
  finally show ?thesis using n by (simp add: RatchetTree_init_def)
qed

lemma copy_tree_same:
  assumes "tree_wf t"
  shows "copy_tree 0 (nodes t) (RatchetTree_init (num_leaves t)) = Inr (t\<lparr>frozen := False\<rparr>)"
proof -
  from assms obtain d where "tree_shape t d" by (auto simp: tree_wf_def)
  then have "nat (2 * num_leaves t - 1) - length (nodes t) = 0" using shape_size shape_leaves by fastforce
  with copy_tree_eq [OF assms order_refl] show ?thesis by (cases t) simp
qed

text \<open>Writing one node, with the shape kept in sight.\<close>

lemma set_leaf_eq:
  assumes "\<not> frozen t" "0 \<le> x" "x < tree_size t" "even x"
  shows "set_leaf t x l = Inr (t\<lparr>nodes := (nodes t)[nat x := Some (Leaf l)]\<rparr>)"
  using tree_put_eq [of t x "Some (Leaf l)"] assms by (simp add: even_nat_iff)

lemma set_parent_eq:
  assumes "\<not> frozen t" "0 \<le> x" "x < tree_size t" "odd x"
  shows "set_parent t x p = Inr (t\<lparr>nodes := (nodes t)[nat x := Some (Parent p)]\<rparr>)"
  using tree_put_eq [of t x "Some (Parent p)"] assms by (simp add: even_nat_iff)

text \<open>A tree that differs from another of the same size in some places only.\<close>

definition same_frame :: "RatchetTree \<Rightarrow> RatchetTree \<Rightarrow> bool" where
  "same_frame t t' \<longleftrightarrow> tree_wf t' \<and> \<not> frozen t' \<and> num_leaves t' = num_leaves t \<and> length (nodes t') = length (nodes t)"

lemma same_frame_refl: "tree_wf t \<Longrightarrow> \<not> frozen t \<Longrightarrow> same_frame t t"
  by (simp add: same_frame_def)

lemma same_frame_update:
  "same_frame t t' \<Longrightarrow> node_fits k v \<Longrightarrow> same_frame t (t'\<lparr>nodes := (nodes t')[k := v]\<rparr>)"
  by (simp add: same_frame_def tree_wf_update)

lemma same_frame_shape: "same_frame t t' \<Longrightarrow> tree_shape t d \<Longrightarrow> tree_shape t' d \<and> tree_typed (nodes t')"
  by (simp add: same_frame_def tree_shape_def tree_wf_def)

lemma fill_path_spec:
  assumes "fill_path t ps = Inr (h, t')" "tree_wf t" "\<not> frozen t"
    and "\<forall>y\<in>fst ` set ps. 0 \<le> y \<and> y < tree_size t \<and> odd y"
  shows "same_frame t t' \<and> (\<forall>y. y \<notin> fst ` set ps \<longrightarrow> get_node t' y = get_node t y)
     \<and> (\<forall>y\<in>fst ` set ps. \<exists>p. get_node t' y = Some (Parent p) \<and> unmerged_leaves p = [])"
  using assms(1,4)
proof (induction ps arbitrary: h t')
  case Nil
  with assms(2,3) show ?case by (simp add: same_frame_refl)
next
  case (Cons a ps)
  obtain x c pub where a: "a = (x, c, pub)" by (cases a)
  from Cons.prems(1) a obtain ph0 t1 ph where t1: "fill_path t ps = Inr (ph0, t1)"
    and t': "set_parent t1 x \<lparr>parent_public_key = pub, parent_parent_hash = ph, unmerged_leaves = []\<rparr> = Inr t'"
    by auto
  let ?p = "\<lparr>parent_public_key = pub, parent_parent_hash = ph, unmerged_leaves = []\<rparr>"
  have IH: "same_frame t t1" "\<forall>y. y \<notin> fst ` set ps \<longrightarrow> get_node t1 y = get_node t y"
    "\<forall>y\<in>fst ` set ps. \<exists>p. get_node t1 y = Some (Parent p) \<and> unmerged_leaves p = []"
    using Cons.IH [OF t1] Cons.prems(2) by auto
  have x: "0 \<le> x" "x < tree_size t1" "odd x" "\<not> frozen t1"
    using Cons.prems(2) IH(1) by (auto simp: a same_frame_def)
  have e: "t' = t1\<lparr>nodes := (nodes t1)[nat x := Some (Parent ?p)]\<rparr>"
    using t' set_parent_eq [of t1 x ?p] x by simp
  have "get_node t' = (get_node t1)(x := Some (Parent ?p))"
    unfolding e using x by (intro get_node_update) auto
  moreover have "same_frame t t'"
    unfolding e using IH(1) x by (intro same_frame_update) (auto simp: even_nat_iff)
  ultimately show ?case using IH(2,3) by (auto simp: a)
qed

lemma path_odd: "odd (tnode (Suc k) j)"
  by simp

text \<open>The tree of a commit: a new own leaf, new parents on the direct path, the rest untouched.\<close>

lemma rekey_path_spec:
  assumes r: "rekey_path C ent g t = Inr rk"
    and t: "tree_shape t d" "tree_wf t" "\<not> frozen t" and i: "0 \<le> g_my_index g" "g_my_index g < 2 ^ d"
  defines "P \<equiv> (\<lambda>k. tnode (Suc k) (g_my_index g div 2 ^ Suc k)) ` {0..<d}"
  shows "rk_direct rk = map (\<lambda>k. tnode (Suc k) (g_my_index g div 2 ^ Suc k)) [0..<d]"
    "rk_cop rk = map (\<lambda>k. tnode k (sibling_pos (g_my_index g div 2 ^ k))) [0..<d]"
    "path_secrets (rk_direct rk) (ent_leaf_path_secret ent) = Inr (rk_path_secrets rk)"
    "mapR (node_pub C) (rk_path_secrets rk) = Inr (rk_node_pubs rk)"
    "own_key_package C (g_my_sig_key g) (ent_committer_kem ent) (ent_init_kem ent) = Inr (rk_key_package rk)"
    "same_frame t (rk_tree rk)"
    "get_node (rk_tree rk) (2 * g_my_index g) = Some (Leaf (leaf_node (rk_key_package rk)))"
    "\<And>y. y \<noteq> 2 * g_my_index g \<Longrightarrow> y \<notin> P \<Longrightarrow> get_node (rk_tree rk) y = get_node t y"
    "\<And>y. y \<in> P \<Longrightarrow> \<exists>p. get_node (rk_tree rk) y = Some (Parent p) \<and> unmerged_leaves p = []"
proof -
  let ?i = "g_my_index g" and ?D = "map (\<lambda>k. tnode (Suc k) (g_my_index g div 2 ^ Suc k)) [0..<d]"
  let ?Cp = "map (\<lambda>k. tnode k (sibling_pos (g_my_index g div 2 ^ k))) [0..<d]"
  from r obtain t1 h where dp: "rk_direct rk = ?D" "rk_cop rk = ?Cp"
    and s: "path_secrets ?D (ent_leaf_path_secret ent) = Inr (rk_path_secrets rk)"
    and kp: "own_key_package C (g_my_sig_key g) (ent_committer_kem ent) (ent_init_kem ent) = Inr (rk_key_package rk)"
    and t1: "set_leaf t (2 * ?i) (leaf_node (rk_key_package rk)) = Inr t1"
    and pubs: "mapR (node_pub C) (rk_path_secrets rk) = Inr (rk_node_pubs rk)"
    and f: "fill_path t1 (zip ?D (zip ?Cp (rk_node_pubs rk))) = Inr (h, rk_tree rk)"
    by (auto simp: rekey_path_def Let_def direct_path_shape [OF t(1) i] copath_shape [OF t(1) i] simp del: power_Suc)
  have len: "length (rk_node_pubs rk) = d"
  proof -
    have "path_secrets ds s0 = Inr ss \<Longrightarrow> length ss = length ds" for ds :: "int list" and s0 ss
      by (induction ds arbitrary: s0 ss) auto
    from this [OF s] mapR_Inr_length [OF pubs] show ?thesis by simp
  qed
  then have fst: "fst ` set (zip ?D (zip ?Cp (rk_node_pubs rk))) = P"
    unfolding set_map [symmetric] map_fst_zip_take by (simp add: P_def)
  have x: "0 \<le> 2 * ?i" "2 * ?i < tree_size t" using i by (simp_all add: shape_facts [OF t(1)])
  have e1: "t1 = t\<lparr>nodes := (nodes t)[nat (2 * ?i) := Some (Leaf (leaf_node (rk_key_package rk)))]\<rparr>"
    using t1 set_leaf_eq [OF t(3) x] by simp
  have g1: "get_node t1 = (get_node t)(2 * ?i := Some (Leaf (leaf_node (rk_key_package rk))))"
    unfolding e1 using x by (rule get_node_update)
  have f1: "same_frame t t1"
    unfolding e1 using t x by (intro same_frame_update same_frame_refl) (simp_all add: even_nat_iff)
  then have w: "tree_wf t1" "\<not> frozen t1" "tree_size t1 = tree_size t" by (simp_all add: same_frame_def)
  have P: "\<forall>y\<in>P. 0 \<le> y \<and> y < tree_size t1 \<and> odd y"
    using path_in_tree [OF t(1) i] w(3) by (auto simp: P_def simp del: power_Suc)
  note F = fill_path_spec [OF f w(1,2), unfolded fst, OF P]
  have me: "2 * ?i \<notin> P"
  proof
    assume "2 * ?i \<in> P"
    from bspec [OF P this] show False by simp
  qed
  show "rk_direct rk = ?D" "rk_cop rk = ?Cp" "mapR (node_pub C) (rk_path_secrets rk) = Inr (rk_node_pubs rk)"
    "own_key_package C (g_my_sig_key g) (ent_committer_kem ent) (ent_init_kem ent) = Inr (rk_key_package rk)"
    "path_secrets (rk_direct rk) (ent_leaf_path_secret ent) = Inr (rk_path_secrets rk)"
    using dp pubs kp s by simp_all
  show "same_frame t (rk_tree rk)" using conjunct1 [OF F] f1 by (simp add: same_frame_def)
  show "get_node (rk_tree rk) (2 * ?i) = Some (Leaf (leaf_node (rk_key_package rk)))" using conjunct1 [OF conjunct2 [OF F]] me g1 by simp
  show "get_node (rk_tree rk) y = get_node t y" if "y \<noteq> 2 * ?i" "y \<notin> P" for y using conjunct1 [OF conjunct2 [OF F]] g1 that by simp
  show "\<exists>p. get_node (rk_tree rk) y = Some (Parent p) \<and> unmerged_leaves p = []" if "y \<in> P" for y using conjunct2 [OF conjunct2 [OF F]] that by blast
qed

section \<open>Lemmas: secrets\<close>

lemma path_secrets_length: "path_secrets ds s = Inr ss \<Longrightarrow> length ss = length ds"
  by (induction ds arbitrary: s ss) auto

lemma seal_to_resolution_nth:
  assumes "seal_to_resolution C eph t ctx ps pos rs = Inr cts" "\<forall>x\<in>set rs. get_node t x \<noteq> None"
  shows "length cts = length rs \<and> (\<forall>k<length rs. \<exists>nd info e.
     get_node t (rs ! k) = Some nd \<and> path_info ctx = Inr info
     \<and> hpke_seal C e (node_public_key nd) ps [] 0 info = Inr (hc_kem_output (cts ! k), hc_ciphertext (cts ! k)))"
  using assms
proof (induction rs arbitrary: pos cts)
  case (Cons r rs)
  then obtain nd info enc ct cts' where h: "get_node t r = Some nd" "path_info ctx = Inr info"
    "hpke_seal C (eph pos) (node_public_key nd) ps [] 0 info = Inr (enc, ct)"
    "seal_to_resolution C eph t ctx ps (pos + 1) rs = Inr cts'" "cts = \<lparr>hc_kem_output = enc, hc_ciphertext = ct\<rparr> # cts'"
    by auto
  from Cons.IH [OF h(4)] Cons.prems(2) have IH: "length cts' = length rs"
    "\<forall>k<length rs. \<exists>nd info e. get_node t (rs ! k) = Some nd \<and> path_info ctx = Inr info
     \<and> hpke_seal C e (node_public_key nd) ps [] 0 info = Inr (hc_kem_output (cts' ! k), hc_ciphertext (cts' ! k))"
    by auto
  have "\<exists>nd info e. get_node t ((r # rs) ! k) = Some nd \<and> path_info ctx = Inr info
     \<and> hpke_seal C e (node_public_key nd) ps [] 0 info = Inr (hc_kem_output (cts ! k), hc_ciphertext (cts ! k))"
    if "k < length (r # rs)" for k
    using that IH(2) h by (cases k) auto
  with IH(1) h(5) show ?case by simp
qed simp

lemma update_path_nodes_nth:
  assumes "update_path_nodes C eph t ctx i xs = Inr ns"
  shows "length ns = length xs \<and> (\<forall>k<length xs. \<exists>rs.
     resolution t (fst (xs ! k)) = Inr rs
     \<and> seal_to_resolution C (eph (i + k)) t ctx (fst (snd (xs ! k))) 0 rs = Inr (upn_encrypted_path_secret (ns ! k)))"
  using assms
proof (induction xs arbitrary: i ns)
  case (Cons x xs)
  obtain c p u where x: "x = (c, p, u)" by (cases x)
  with Cons.prems obtain rs cts ns' where h: "resolution t c = Inr rs" "seal_to_resolution C (eph i) t ctx p 0 rs = Inr cts"
    "update_path_nodes C eph t ctx (i + 1) xs = Inr ns'"
    "ns = \<lparr>upn_new_public_key = u, upn_encrypted_path_secret = cts\<rparr> # ns'" by auto
  note IH = Cons.IH [OF h(3)]
  have "\<exists>rs. resolution t (fst ((x # xs) ! k)) = Inr rs
     \<and> seal_to_resolution C (eph (i + k)) t ctx (fst (snd ((x # xs) ! k))) 0 rs = Inr (upn_encrypted_path_secret (ns ! k))"
    if "k < length (x # xs)" for k
    using that IH h x by (cases k) auto
  with IH h(4) show ?case by simp
qed simp

text \<open>
  The dictionary of secrets sealed to leaves. An entry is good when it was sealed to the key of a
  leaf with that reference.
\<close>

definition sealed_entry :: "crypto \<Rightarrow> GroupContext \<Rightarrow> bytes \<Rightarrow> LeafNode set \<Rightarrow> bytes \<Rightarrow> bytes \<Rightarrow> bool" where
  "sealed_entry C ctx secret L r v \<longleftrightarrow>
     (\<exists>l e info enc ct. l \<in> L \<and> make_kp_ref (LeafNode_key_package l) = Inr r \<and> path_info ctx = Inr info
        \<and> hpke_seal C e (encryption_key l) secret [] 0 info = Inr (enc, ct) \<and> v = enc @ ct)"

lemma map_of_update [simp]: "map_of (AList.update k v d) = (map_of d)(k \<mapsto> v)"
  by (rule update_conv')

lemma seal_to_leaves_step:
  assumes "seal_to_leaves C eph ctx s mine i (node # ns) d = Inr d'"
  obtains (skip) "seal_to_leaves C eph ctx s mine (i + 1) ns d = Inr d'"
      "\<And>l. node = Some (Leaf l) \<Longrightarrow> even i \<Longrightarrow> int i = mine"
    | (seal) l r info enc ct where "node = Some (Leaf l)" "even i" "int i \<noteq> mine"
      "make_kp_ref (LeafNode_key_package l) = Inr r" "path_info ctx = Inr info"
      "hpke_seal C (eph i) (encryption_key l) s [] 0 info = Inr (enc, ct)"
      "seal_to_leaves C eph ctx s mine (i + 1) ns (AList.update r (enc @ ct) d) = Inr d'"
  using assms by (auto split: if_splits option.splits Node.splits)

lemma seal_to_leaves_entries:
  assumes "seal_to_leaves C eph ctx s mine i ns d = Inr d'"
    and "\<And>r v. map_of d r = Some v \<Longrightarrow> sealed_entry C ctx s L r v"
    and "\<And>l. Some (Leaf l) \<in> set ns \<Longrightarrow> l \<in> L"
    and "map_of d' r = Some v"
  shows "sealed_entry C ctx s L r v"
  using assms(1-3)
proof (induction ns arbitrary: i d)
  case Nil
  with assms(4) show ?case by simp
next
  case (Cons node ns)
  from Cons.prems(1) show ?case
  proof (cases rule: seal_to_leaves_step)
    case skip
    from Cons.IH [OF skip(1) Cons.prems(2)] Cons.prems(3) show ?thesis by simp
  next
    case (seal l q info enc ct)
    then have "sealed_entry C ctx s L q (enc @ ct)"
      unfolding sealed_entry_def using Cons.prems(3) [of l] by (metis list.set_intros(1))
    then show ?thesis using Cons.prems(2,3)
      by (intro Cons.IH [OF seal(7)]) (auto split: if_splits)
  qed
qed

lemma seal_to_leaves_dom:
  assumes "seal_to_leaves C eph ctx s mine i ns d = Inr d'" "map_of d r \<noteq> None"
  shows "map_of d' r \<noteq> None"
  using assms
proof (induction ns arbitrary: i d)
  case (Cons node ns)
  from Cons.prems(1) show ?case
  proof (cases rule: seal_to_leaves_step)
    case skip
    from Cons.IH [OF skip(1) Cons.prems(2)] show ?thesis .
  next
    case (seal l q info enc ct)
    show ?thesis by (rule Cons.IH [OF seal(7)]) (use Cons.prems(2) in simp)
  qed
qed simp

lemma seal_to_leaves_reaches:
  assumes "seal_to_leaves C eph ctx s mine i ns d = Inr d'"
    and "k < length ns" "even (i + k)" "ns ! k = Some (Leaf l)" "int (i + k) \<noteq> mine"
  shows "\<exists>r. make_kp_ref (LeafNode_key_package l) = Inr r \<and> map_of d' r \<noteq> None"
  using assms
proof (induction ns arbitrary: i d k)
  case (Cons node ns)
  from Cons.prems(1) show ?case
  proof (cases rule: seal_to_leaves_step)
    case skip
    then show ?thesis using Cons.prems(2-) Cons.IH [OF skip(1), of "k - 1"] by (cases k) auto
  next
    case (seal l' r info enc ct)
    show ?thesis
    proof (cases k)
      case 0
      then have "l' = l" using seal(1) Cons.prems(4) by simp
      with seal(4) seal_to_leaves_dom [OF seal(7), of r] show ?thesis by auto
    next
      case (Suc m)
      then show ?thesis using Cons.prems(2-) by (intro Cons.IH [OF seal(7), of m]) auto
    qed
  qed
qed simp

text \<open>The loop of \<open>add_member\<close> returns the same dictionary, when it returns.\<close>

lemma seal_to_leaves_add_same:
  assumes "seal_to_leaves_add C eph ctx s mine i ns d = Inr d'" "\<forall>k<length ns. node_fits (i + k) (ns ! k)"
  shows "seal_to_leaves C eph ctx s mine i ns d = Inr d'"
  using assms
proof (induction ns arbitrary: i d)
  case (Cons node ns)
  have f: "\<forall>k<length ns. node_fits (Suc i + k) (ns ! k)" "node_fits i node" using Cons.prems(2) by fastforce+
  then show ?case using Cons.prems(1) Cons.IH [of "Suc i"]
    by (cases "(i, node)" rule: node_fits.cases) (auto split: if_splits)
qed simp

section \<open>Lemmas: keys of the committer\<close>

text \<open>The signature of a leaf from a key package does not depend on group and position.\<close>

lemma key_package_leaf_verify:
  assumes "leaf_node_source l = LEAF_NODE_SOURCE_KEY_PACKAGE"
  shows "LeafNode_verify_signature C l gid i = LeafNode_verify_signature C l [] 0"
proof -
  have "LeafNode_tbs_bytes l gid i = LeafNode_tbs_bytes l [] 0"
    using assms by (simp add: LeafNode_tbs_bytes_def source_defs del: cat_res.simps)
  then show ?thesis by (simp only: LeafNode_verify_signature_def)
qed

lemma own_key_package_facts:
  assumes "own_key_package C sk kem init_kem = Inr kp" "signatures_verify C"
  shows "encryption_key (leaf_node kp) = kem_public_bytes C kem" "signature_key (leaf_node kp) = sig_public_bytes C sk"
    "init_key_pub kp = kem_public_bytes C init_kem"
    "LeafNode_verify_signature C (leaf_node kp) gid li = Inr ()"
proof -
  let ?n = "\<lparr>encryption_key = kem_public_bytes C kem, signature_key = sig_public_bytes C sk,
     credential = Credential_basic (sig_public_bytes C sk), capabilities = Capabilities_default,
     leaf_node_source = LEAF_NODE_SOURCE_KEY_PACKAGE, lifetime = None, leaf_parent_hash = None,
     leaf_extensions = [], leaf_signature = []\<rparr>"
  from assms(1) obtain ln where ln: "LeafNode_sign ?n (sig_sign C sk) [] 0 = Inr ln"
    and kp: "leaf_node kp = ln" "init_key_pub kp = kem_public_bytes C init_kem"
    by (auto simp: own_key_package_def KeyPackage_create_def LeafNode_create_def Let_def)
  have v: "LeafNode_verify_signature C ln [] 0 = Inr ()" "ln = ?n\<lparr>leaf_signature := leaf_signature ln\<rparr>"
    using LeafNode_sign_verifies [OF assms(2) ln] by simp_all
  have s: "leaf_node_source ln = LEAF_NODE_SOURCE_KEY_PACKAGE" by (subst v(2)) simp
  show "LeafNode_verify_signature C (leaf_node kp) gid li = Inr ()"
    unfolding kp using trans [OF key_package_leaf_verify [OF s] v(1)] .
  show "encryption_key (leaf_node kp) = kem_public_bytes C kem" "signature_key (leaf_node kp) = sig_public_bytes C sk"
    unfolding kp by (subst v(2), simp)+
  show "init_key_pub kp = kem_public_bytes C init_kem" by (rule kp)
qed

text \<open>What the new tree of a commit inherits.\<close>

lemma leaf_off_path: "2 * j \<notin> (\<lambda>k. tnode (Suc k) (f k)) ` S"
proof
  assume "2 * j \<in> (\<lambda>k. tnode (Suc k) (f k)) ` S"
  then obtain k where "2 * j = tnode (Suc k) (f k)" by blast
  then have "even (tnode (Suc k) (f k))" by (metis dvd_triv_left)
  then show False by simp
qed

definition leaves_verify :: "crypto \<Rightarrow> bytes \<Rightarrow> RatchetTree \<Rightarrow> bool" where
  "leaves_verify C gid t \<longleftrightarrow> (\<forall>i l. get_node t (2 * i) = Some (Leaf l) \<longrightarrow> LeafNode_verify_signature C l gid i = Inr ())"

lemma rekeyed_tree:
  assumes "rekey_path C ent g t = Inr rk" "tree_shape t d" "tree_wf t" "\<not> frozen t"
    and "0 \<le> g_my_index g" "g_my_index g < 2 ^ d"
  shows "get_node (rk_tree rk) (2 * j)
       = (if j = g_my_index g then Some (Leaf (leaf_node (rk_key_package rk))) else get_node t (2 * j))"
    "tree_shape (rk_tree rk) d" "tree_wf (rk_tree rk)" "\<not> frozen (rk_tree rk)"
    "no_unmerged t \<Longrightarrow> no_unmerged (rk_tree rk)"
    "signatures_verify C \<Longrightarrow> leaves_verify C gid t \<Longrightarrow> leaves_verify C gid (rk_tree rk)"
proof -
  note R = rekey_path_spec [OF assms]
  show leaf: "get_node (rk_tree rk) (2 * j)
       = (if j = g_my_index g then Some (Leaf (leaf_node (rk_key_package rk))) else get_node t (2 * j))" for j
    using R(7) R(8) [of "2 * j"] leaf_off_path [of j] by auto
  show "tree_shape (rk_tree rk) d" "tree_wf (rk_tree rk)" "\<not> frozen (rk_tree rk)"
    using same_frame_shape [OF R(6) assms(2)] R(6) by (simp_all add: same_frame_def)
  show "no_unmerged (rk_tree rk)" if "no_unmerged t"
    unfolding no_unmerged_def
  proof (intro allI impI)
    fix x p assume x: "get_node (rk_tree rk) x = Some (Parent p)"
    show "unmerged_leaves p = []"
      using R(7) R(8) [of x] R(9) [of x] x that
      by (cases "x \<in> (\<lambda>k. tnode (Suc k) (g_my_index g div 2 ^ Suc k)) ` {0..<d}"; cases "x = 2 * g_my_index g")
        (auto simp: no_unmerged_def)
  qed
  show "leaves_verify C gid (rk_tree rk)" if "signatures_verify C" "leaves_verify C gid t"
    unfolding leaves_verify_def
  proof (intro allI impI)
    fix j l assume j: "get_node (rk_tree rk) (2 * j) = Some (Leaf l)"
    show "LeafNode_verify_signature C l gid j = Inr ()"
      using j leaf [of j] that own_key_package_facts(4) [OF R(5) that(1), of gid j]
      by (auto simp: leaves_verify_def split: if_splits)
  qed
qed

section \<open>What a commit consists of\<close>

text \<open>
  The intermediate values of a commit of \<open>g\<close> over the tree \<open>t\<close>: the new tree with its secrets, the
  provisional context, the sealed path secrets, the secrets sealed to leaves, the signed
  update, the new epoch.
\<close>

definition commit_log ::
    "crypto \<Rightarrow> entropy \<Rightarrow> MLSGroup \<Rightarrow> RatchetTree \<Rightarrow> rekeyed \<Rightarrow> GroupContext \<Rightarrow> UpdatePathNode list
      \<Rightarrow> (bytes \<times> bytes) list \<Rightarrow> signed_commit \<Rightarrow> confirmed \<Rightarrow> bool" where
  "commit_log C ent g t rk ctx upns secrets sc cf \<longleftrightarrow>
     rekey_path C ent g t = Inr rk
   \<and> make_group_context (g_group_id g) (g_epoch_id g + 1) (rk_tree rk) (g_interim_transcript_hash g) = Inr ctx
   \<and> update_path_nodes C (ent_path_eph ent) (rk_tree rk) ctx 0
       (zip (rk_cop rk) (zip (rk_path_secrets rk) (rk_node_pubs rk))) = Inr upns
   \<and> seal_to_leaves C (ent_leaf_eph ent) ctx (commit_secret_of (rk_path_secrets rk) (ent_leaf_path_secret ent))
       (2 * g_my_index g) 0 (nodes (rk_tree rk)) [] = Inr secrets
   \<and> sign_commit C g (g_epoch_id g + 1) (rk_tree rk) secrets
       \<lparr>up_leaf_key_package = rk_key_package rk, up_nodes = upns\<rparr> = Inr sc
   \<and> confirm_commit g (g_epoch_id g + 1) (rk_tree rk) (commit_secret_of (rk_path_secrets rk) (ent_leaf_path_secret ent))
       (sc_transcript_hash sc) = Inr cf"

lemma commit_tree_log:
  assumes "commit_tree C ent g t kem = Inr (g', u)"
  obtains rk ctx upns secrets sc cf where "commit_log C ent g t rk ctx upns secrets sc cf"
    "g' = next_group g cf kem" "u = attach_context g sc cf (cf_tag cf)"
  using assms by (auto simp: commit_tree_def commit_log_def Let_def)

lemma confirm_commit_tag:
  assumes "confirm_commit g e t s h = Inr cf"
  shows "cf_tag cf = hmac_digest sha256 (confirmation_key (ep_key_schedule (cf_state cf))) h"
    "make_group_context (g_group_id g) e t h = Inr (cf_ctx cf)"
proof -
  from assms show "cf_tag cf = hmac_digest sha256 (confirmation_key (ep_key_schedule (cf_state cf))) h"
    by (auto simp: confirm_commit_def provisional_tag_def advance_epoch_def EpochState_init_def
        KeySchedules.confirmation_key_shortcut Let_def)
  from assms show "make_group_context (g_group_id g) e t h = Inr (cf_ctx cf)"
    by (auto simp: confirm_commit_def Let_def)
qed

text \<open>The secret tree of the old epoch has no part in a commit.\<close>

lemma add_commit_log:
  assumes "add_commit C ent g kp = Inr (g', w, u)"
  obtains t rk ctx upns secrets sc cf where "place_member (g_tree g) (leaf_node kp) = Inr t"
    "KeyPackage_verify_signature C kp = Inr ()"
    "tree_wf (rk_tree rk) \<Longrightarrow> commit_log C ent g t rk ctx upns secrets sc cf"
    "rekey_path C ent g t = Inr rk"
    "g' = next_group g cf (ent_committer_kem ent)" "u = attach_context g sc cf (cf_tag cf)"
    "build_welcome C (ent_welcome_eph ent) g kp (rk_tree rk) (cf_state cf) (sc_transcript_hash sc) = Inr w"
proof -
  from assms obtain t rk ctx upns secrets sc cf where h: "place_member (g_tree g) (leaf_node kp) = Inr t"
    "KeyPackage_verify_signature C kp = Inr ()" "rekey_path C ent g t = Inr rk"
    "make_group_context (g_group_id g) (g_epoch_id g + 1) (rk_tree rk) (g_interim_transcript_hash g) = Inr ctx"
    "update_path_nodes C (ent_path_eph ent) (rk_tree rk) ctx 0
       (zip (rk_cop rk) (zip (rk_path_secrets rk) (rk_node_pubs rk))) = Inr upns"
    "seal_to_leaves_add C (ent_leaf_eph ent) ctx (commit_secret_of (rk_path_secrets rk) (ent_leaf_path_secret ent))
       (2 * g_my_index g) 0 (nodes (rk_tree rk)) [] = Inr secrets"
    "sign_commit C g (g_epoch_id g + 1) (rk_tree rk) secrets
       \<lparr>up_leaf_key_package = rk_key_package rk, up_nodes = upns\<rparr> = Inr sc"
    "confirm_commit g (g_epoch_id g + 1) (rk_tree rk) (commit_secret_of (rk_path_secrets rk) (ent_leaf_path_secret ent))
       (sc_transcript_hash sc) = Inr cf"
    "build_welcome C (ent_welcome_eph ent) g kp (rk_tree rk) (cf_state cf) (sc_transcript_hash sc) = Inr w"
    "g' = next_group g cf (ent_committer_kem ent)"
    "u = attach_context g sc cf (hmac_digest sha256 (confirmation_key (ep_key_schedule (cf_state cf))) (sc_transcript_hash sc))"
    by (auto simp: add_commit_def Let_def)
  have "commit_log C ent g t rk ctx upns secrets sc cf" if "tree_wf (rk_tree rk)"
    using that h seal_to_leaves_add_same [OF h(6)] by (auto simp: commit_log_def tree_wf_def tree_typed_def)
  then show ?thesis using h confirm_commit_tag(1) [OF h(8)] by (intro that [of t rk ctx upns secrets sc cf]) simp_all
qed

section \<open>Lemmas: placing and removing a member\<close>

lemma wf_leaves: "tree_wf t \<Longrightarrow> 2 * num_leaves t = tree_size t + 1"
  by (auto simp: tree_wf_def shape_facts)

lemma find_blank_Some:
  assumes "find_blank t = Some i"
  shows "0 \<le> i" "i < num_leaves t" "get_node t (2 * i) = None" "\<And>j. 0 \<le> j \<Longrightarrow> j < i \<Longrightarrow> get_node t (2 * j) \<noteq> None"
proof -
  from assms obtain k where k: "k < nat (num_leaves t)" "i = int k" "get_node t (2 * int k) = None"
    "\<forall>m<k. get_node t (2 * int m) \<noteq> None"
    by (auto simp: find_blank_def find_Some_iff)
  show "0 \<le> i" "i < num_leaves t" "get_node t (2 * i) = None" using k(1,2,3) by simp_all
  show "get_node t (2 * j) \<noteq> None" if "0 \<le> j" "j < i" for j
    using k(4) [rule_format, of "nat j"] that k(2) by simp
qed

lemma find_blank_None:
  assumes "find_blank t = None" "0 \<le> j" "j < num_leaves t"
  shows "get_node t (2 * j) \<noteq> None"
proof -
  have "j \<in> set (map int [0..<nat (num_leaves t)])" using assms(2,3) by (auto intro!: image_eqI [of _ _ "nat j"])
  with assms(1) show ?thesis by (fastforce simp: find_blank_def find_None_iff)
qed

lemma map_of_blank: "map_of (map (\<lambda>a. (a, v)) as) y = (if y \<in> set as then Some v else None)"
  by (induction "as") auto

lemma blank_nodes_put_all: "blank_nodes as t = tree_store.put_all t (map (\<lambda>a. (a, None)) as)"
  by (induction "as" arbitrary: t) (auto cong: bindR_cong)

lemma copy_larger:
  assumes "tree_wf t" "num_leaves t \<le> 2 ^ e" "e \<le> 31"
  shows "\<exists>t1. copy_tree 0 (nodes t) (RatchetTree_init (2 ^ e)) = Inr t1 \<and> tree_shape t1 e \<and> tree_wf t1
     \<and> \<not> frozen t1 \<and> get_node t1 = get_node t"
proof -
  from assms(1) obtain d where d: "tree_shape t d" "tree_typed (nodes t)" by (auto simp: tree_wf_def)
  let ?t1 = "\<lparr>num_leaves = 2 ^ e, nodes = nodes t @ replicate (nat (2 * 2 ^ e - 1) - length (nodes t)) None, frozen = False\<rparr>"
  have n: "length (nodes t) \<le> nat (2 * 2 ^ e - 1)" using wf_leaves [OF assms(1)] assms(2) by linarith
  have "tree_shape ?t1 e" using n assms(3) by (simp add: tree_shape_def)
  moreover from this have "tree_wf ?t1" using d(2)
    by (intro tree_wfI) (auto simp: tree_typed_def nth_append)
  moreover have "get_node ?t1 = get_node t" using n
    by (intro ext) (auto simp: get_node_def nth_append nat_less_iff)
  ultimately show ?thesis using copy_tree_eq [OF assms(1,2)] by simp
qed

text \<open>Placing a leaf in a tree with room for it.\<close>

lemma put_leaf_blank_path:
  assumes "tree_shape t e" "tree_wf t" "\<not> frozen t" "0 \<le> i" "i < 2 ^ e"
  defines "P \<equiv> map (\<lambda>k. tnode (Suc k) (i div 2 ^ Suc k)) [0..<e]"
  shows "\<exists>t'. bindR (set_leaf t (2 * i) l) (\<lambda>t2. bindR (direct_path t2 (2 * i)) (\<lambda>as. blank_nodes as t2)) = Inr t'
     \<and> tree_shape t' e \<and> tree_wf t' \<and> \<not> frozen t' \<and> num_leaves t' = num_leaves t
     \<and> (\<forall>x. get_node t' x = (if x = 2 * i then Some (Leaf l) else if x \<in> set P then None else get_node t x))"
proof -
  have x: "0 \<le> 2 * i" "2 * i < tree_size t" using assms(4,5) by (simp_all add: shape_facts [OF assms(1)])
  define t2 where "t2 = t\<lparr>nodes := (nodes t)[nat (2 * i) := Some (Leaf l)]\<rparr>"
  have s: "set_leaf t (2 * i) l = Inr t2" unfolding t2_def using set_leaf_eq [OF assms(3) x] by simp
  have f: "same_frame t t2"
    unfolding t2_def using assms(2,3) by (intro same_frame_update same_frame_refl) (simp_all add: even_nat_iff x)
  have g2: "get_node t2 = (get_node t)(2 * i := Some (Leaf l))" unfolding t2_def by (rule get_node_update [OF x])
  have sh: "tree_shape t2 e" using same_frame_shape [OF f assms(1)] by simp
  have dp: "direct_path t2 (2 * i) = Inr P" unfolding P_def by (rule direct_path_shape [OF sh assms(4,5)])
  have "\<exists>t'. tree_store.put_all t2 (map (\<lambda>a. (a, None)) P) = Inr t' \<and> (tree_wf t' \<and> \<not> frozen t')
     \<and> tree_size t' = tree_size t2
     \<and> (\<forall>y. get_node t' y = (case map_of (map (\<lambda>a. (a, None)) P) y of Some v \<Rightarrow> v | None \<Rightarrow> get_node t2 y))"
  proof (rule tree_store.put_all_spec)
    show "tree_wf t2 \<and> \<not> frozen t2" using f by (simp add: same_frame_def)
    show "\<forall>(y, v)\<in>set (map (\<lambda>a. (a, None)) P). 0 \<le> y \<and> y < tree_size t2 \<and> node_fits (nat y) v"
      using path_in_tree [OF sh assms(4,5)] by (auto simp: P_def simp del: power_Suc)
    show "distinct (map fst (map (\<lambda>a. (a, None)) P))"
      by (auto simp: P_def comp_def distinct_map inj_on_def tnode_inj simp del: power_Suc)
  qed
  then obtain t' where t': "blank_nodes P t2 = Inr t'" "tree_wf t'" "\<not> frozen t'" "tree_size t' = tree_size t2"
    "\<And>y. get_node t' y = (case map_of (map (\<lambda>a. (a, None)) P) y of Some v \<Rightarrow> v | None \<Rightarrow> get_node t2 y)"
    unfolding blank_nodes_put_all by blast
  have "2 * i \<notin> set P" using leaf_off_path [of i "\<lambda>k. i div 2 ^ Suc k" "{0..<e}"] by (simp add: P_def del: power_Suc)
  then have get: "get_node t' y = (if y = 2 * i then Some (Leaf l) else if y \<in> set P then None else get_node t y)" for y
    unfolding t'(5) map_of_blank g2 by simp
  have n: "num_leaves t' = num_leaves t"
    using wf_leaves [OF t'(2)] wf_leaves [OF assms(2)] t'(4) f by (simp add: same_frame_def)
  moreover have "tree_shape t' e"
    using n assms(1) wf_leaves [OF t'(2)] wf_leaves [OF assms(2)] by (simp add: tree_shape_def)
  ultimately show ?thesis using s dp t'(1-3) get by (intro exI [of _ t']) simp
qed

text \<open>\<open>place_member\<close>, node by node.\<close>

lemma place_member_exact:
  assumes "tree_wf t" "num_leaves t < 2 ^ 31"
  shows "\<exists>t' i dp. place_member t l = Inr t' \<and> tree_wf t' \<and> \<not> frozen t' \<and> 0 \<le> i \<and> i < num_leaves t'
     \<and> num_leaves t' = (if \<exists>j. 0 \<le> j \<and> j < num_leaves t \<and> get_node t (2 * j) = None then num_leaves t else 2 * num_leaves t)
     \<and> get_node t (2 * i) = None \<and> (\<forall>j. 0 \<le> j \<and> j < i \<longrightarrow> get_node t (2 * j) \<noteq> None)
     \<and> direct_path t' (2 * i) = Inr dp \<and> (\<forall>x\<in>set dp. odd x)
     \<and> (\<forall>x. get_node t' x = (if x = 2 * i then Some (Leaf l) else if x \<in> set dp then None else get_node t x))"
proof -
  from assms(1) obtain d where d: "tree_shape t d" by (auto simp: tree_wf_def)
  note n = shape_leaves [OF d]
  define i where "i = (case find_blank t of None \<Rightarrow> num_leaves t | Some b \<Rightarrow> b)"
  define e where "e = (case find_blank t of None \<Rightarrow> Suc d | Some b \<Rightarrow> d)"
  have "(2 :: int) ^ d < 2 ^ 31" using assms(2) n by simp
  then have "d < 31" using power_less_imp_less_exp [of "2 :: int" d 31] by simp
  then have e: "e \<le> 31" "num_leaves t \<le> 2 ^ e" by (auto simp: e_def n split: option.splits)
  have full: "2 ^ e = (if \<exists>j. 0 \<le> j \<and> j < num_leaves t \<and> get_node t (2 * j) = None then num_leaves t else 2 * num_leaves t)"
    using find_blank_Some(1-3) [of t] find_blank_None [of t] by (cases "find_blank t") (auto simp: e_def n)
  have out: "get_node t (2 * num_leaves t) = None" using wf_leaves [OF assms(1)] by (simp add: get_node_def)
  have i: "0 \<le> i" "i < 2 ^ e" "get_node t (2 * i) = None" "\<And>j. 0 \<le> j \<Longrightarrow> j < i \<Longrightarrow> get_node t (2 * j) \<noteq> None"
    using find_blank_Some [of t] find_blank_None [of t] out n
    by (auto simp: i_def e_def split: option.splits simp del: not_None_eq)
  from copy_larger [OF assms(1) e(2,1)] obtain t1 where t1: "copy_tree 0 (nodes t) (RatchetTree_init (2 ^ e)) = Inr t1"
    "tree_shape t1 e" "tree_wf t1" "\<not> frozen t1" "get_node t1 = get_node t" by blast
  let ?P = "map (\<lambda>k. tnode (Suc k) (i div 2 ^ Suc k)) [0..<e]"
  from put_leaf_blank_path [OF t1(2-4) i(1,2), of l] obtain t' where
    t': "bindR (set_leaf t1 (2 * i) l) (\<lambda>t2. bindR (direct_path t2 (2 * i)) (\<lambda>as. blank_nodes as t2)) = Inr t'"
     "tree_shape t' e" "tree_wf t'" "\<not> frozen t'" "num_leaves t' = num_leaves t1"
     "\<forall>x. get_node t' x = (if x = 2 * i then Some (Leaf l) else if x \<in> set ?P then None else get_node t1 x)" by blast
  have pm: "place_member t l = Inr t'"
    using t1(1) t'(1) n by (auto simp: place_member_def i_def e_def mult.commute split: option.splits)
  have nl: "num_leaves t' = 2 ^ e" by (rule shape_leaves [OF t'(2)])
  have "\<forall>x\<in>set ?P. odd x" by (auto simp: tnode_arith)
  moreover have "\<forall>j. 0 \<le> j \<and> j < i \<longrightarrow> get_node t (2 * j) \<noteq> None" using i(4) by blast
  moreover have "i < num_leaves t'" using i(2) nl by simp
  ultimately show ?thesis using direct_path_shape [OF t'(2) i(1,2)] pm t'(3,4) i(1,3) nl full t'(6) t1(5)
    by (intro exI [of _ t'] exI [of _ i] exI [of _ ?P]) (simp del: power_Suc)
qed

lemma place_member_spec:
  assumes "tree_wf t" "num_leaves t < 2 ^ 31"
  shows "\<exists>t' i. place_member t l = Inr t' \<and> tree_wf t' \<and> \<not> frozen t' \<and> 0 \<le> i \<and> i < num_leaves t'
     \<and> num_leaves t \<le> num_leaves t' \<and> num_leaves t' \<le> 2 * num_leaves t
     \<and> get_node t (2 * i) = None
     \<and> get_node t' (2 * i) = Some (Leaf l) \<and> (\<forall>j. j \<noteq> i \<longrightarrow> get_node t' (2 * j) = get_node t (2 * j))
     \<and> (\<forall>x p. get_node t' x = Some (Parent p) \<longrightarrow> get_node t x = Some (Parent p))"
proof -
  obtain t' i dp where p: "place_member t l = Inr t'" "tree_wf t'" "\<not> frozen t'" "0 \<le> i" "i < num_leaves t'"
    "num_leaves t' = (if \<exists>j. 0 \<le> j \<and> j < num_leaves t \<and> get_node t (2 * j) = None then num_leaves t else 2 * num_leaves t)"
    "get_node t (2 * i) = None" "\<forall>x\<in>set dp. odd x"
    "\<forall>x. get_node t' x = (if x = 2 * i then Some (Leaf l) else if x \<in> set dp then None else get_node t x)"
    using place_member_exact [OF assms, of l] by (elim exE conjE) (rule that; assumption)
  have even: "2 * j \<notin> set dp" for j using p(8) by auto
  have "get_node t' (2 * i) = Some (Leaf l)" "\<forall>j. j \<noteq> i \<longrightarrow> get_node t' (2 * j) = get_node t (2 * j)"
    using even by (simp_all add: p(9))
  moreover have "get_node t x = Some (Parent q)" if "get_node t' x = Some (Parent q)" for x q
    using that by (simp add: p(9) split: if_splits)
  moreover have "num_leaves t \<le> num_leaves t' \<and> num_leaves t' \<le> 2 * num_leaves t"
    using p(6) wf_leaves [OF assms(1)] by (auto split: if_splits)
  ultimately show ?thesis using p(1-5,7) by blast
qed

text \<open>Removing a leaf leaves every other node as it was or blank.\<close>

lemma remove_leaf_nodes:
  assumes "tree_wf t" "0 \<le> i" "i < num_leaves t" "remove_leaf t (2 * i) = Inr t'"
  shows "get_node t' x = None \<or> get_node t' x = get_node t x"
proof -
  from assms(1) obtain d where d: "tree_shape t d" by (auto simp: tree_wf_def)
  from assms(3) have i: "i < 2 ^ d" by (simp add: shape_facts [OF d])
  define n where "n = nat (2 * next_pow2 (rightmost_leaf 0 (blanked t d i) (- 1) div 2 + 1) - 1)"
  have "nodes t' = [] \<or> nodes t' = take n (blanked t d i)"
    using remove_leaf_shape [OF d assms(2) i] assms(4) by (auto simp: Let_def n_def split: if_splits)
  then show ?thesis by (auto simp: get_node_def nth_blanked nat_less_iff)
qed

end
