(* ===== verification/ReceiveFacts.thy ===== *)
theory ReceiveFacts
  imports Receiving CommitFacts
begin

text \<open>
  A member that receives a commit: it finds the path secret sealed to it, reaches the committer's
  commit secret, accepts the signature and the tags and derives the committer's new epoch.
\<close>

section \<open>Lemmas: the commit secret\<close>

lemma advance_path_secret:
  assumes "path_secrets ds s = Inr ss" "k < length ss"
  shows "advance_secret (length ss - k - 1) (ss ! k) = Inr (last ss)"
  using assms
proof (induction ds arbitrary: s ss k)
  case (Cons d ds)
  then obtain s1 ss1 where s: "derive_next_path_secret s = Inr s1" "path_secrets ds s1 = Inr ss1" "ss = s1 # ss1" by auto
  show ?case
  proof (cases k)
    case 0
    show ?thesis
    proof (cases ss1)
      case (Cons s2 ss2)
      from s(2) Cons obtain d' ds' where "ds = d' # ds'" by (cases ds) auto
      with s(2) Cons have "derive_next_path_secret s1 = Inr s2" by auto
      with Cons.IH [OF s(2), of 0] Cons 0 s(3) show ?thesis by simp
    qed (use 0 s(3) in simp)
  next
    case (Suc m)
    with Cons.IH [OF s(2), of m] Cons.prems(2) s(3) show ?thesis by (cases ss1) auto
  qed
qed simp

lemma index_of_nth: "x \<in> set xs \<Longrightarrow> index_of x xs < length xs \<and> xs ! index_of x xs = x"
  by (induction xs) (auto simp: index_of_def)

text \<open>The search along the path finds nothing or the commit secret.\<close>

lemma open_path_secret:
  assumes "\<And>k. i \<le> k \<Longrightarrow> k < n \<Longrightarrow> \<exists>rs. resolution t (c k) = Inr rs
      \<and> (mine \<in> set rs \<longrightarrow> index_of mine rs < length (upn_encrypted_path_secret (N k)) \<longrightarrow>
          (let ct = upn_encrypted_path_secret (N k) ! index_of mine rs in
           \<exists>info. path_info ctx = Inr info \<and> hpke_open C kem (hc_kem_output ct) (hc_ciphertext ct) [] 0 info = Inr (S k))
          \<and> advance_secret (n - k - 1) (S k) = Inr cs)"
  shows "open_path C kem mine t ctx n i (map (\<lambda>k. (p k, c k, N k)) [i..<n]) \<in> {Inr None, Inr (Some cs)}"
  using assms
proof (induction "n - i" arbitrary: i)
  case (Suc m)
  then have "i < n" by simp
  then have e: "[i..<n] = i # [Suc i..<n]" by (simp add: upt_conv_Cons)
  from Suc.prems [of i] \<open>i < n\<close> obtain rs where rs: "resolution t (c i) = Inr rs"
    "mine \<in> set rs \<and> index_of mine rs < length (upn_encrypted_path_secret (N i)) \<longrightarrow>
          (let ct = upn_encrypted_path_secret (N i) ! index_of mine rs in
           \<exists>info. path_info ctx = Inr info \<and> hpke_open C kem (hc_kem_output ct) (hc_ciphertext ct) [] 0 info = Inr (S i))
          \<and> advance_secret (n - i - 1) (S i) = Inr cs" by auto
  show ?case
  proof (cases "mine \<in> set rs \<and> index_of mine rs < length (upn_encrypted_path_secret (N i))")
    case True
    with rs show ?thesis by (auto simp: e Let_def)
  next
    case False
    have "open_path C kem mine t ctx n (Suc i) (map (\<lambda>k. (p k, c k, N k)) [Suc i..<n]) \<in> {Inr None, Inr (Some cs)}"
      using Suc.hyps(2) by (intro Suc.hyps(1) Suc.prems) auto
    with False rs(1) show ?thesis by (auto simp: e)
  qed
qed simp

text \<open>KeyPackageRefs identify keys: a collision of SHA-256 apart, this holds in every tree.\<close>

definition refs_identify :: "RatchetTree \<Rightarrow> bool" where
  "refs_identify t \<longleftrightarrow> (\<forall>x y l l' r. get_node t x = Some (Leaf l) \<longrightarrow> get_node t y = Some (Leaf l') \<longrightarrow>
     make_kp_ref (LeafNode_key_package l) = Inr r \<longrightarrow> make_kp_ref (LeafNode_key_package l') = Inr r \<longrightarrow>
     encryption_key l = encryption_key l')"

lemma in_nodes_get: "Some nd \<in> set (nodes t) \<Longrightarrow> \<exists>x. get_node t x = Some nd"
proof -
  assume "Some nd \<in> set (nodes t)"
  then obtain k where "k < length (nodes t)" "nodes t ! k = Some nd" by (auto simp: in_set_conv_nth)
  then show ?thesis by (intro exI [of _ "int k"]) (simp add: get_node_def)
qed

text \<open>Laws of the primitives, together.\<close>

definition crypto_laws :: "crypto \<Rightarrow> bool" where
  "crypto_laws C \<longleftrightarrow> signatures_verify C \<and> dh_agrees C \<and> gcm_decrypts C \<and> keys_sized C"

lemma hpke_seal_enc: "hpke_seal C e pk pt aad seq info = Inr (enc, ct) \<Longrightarrow> enc = kem_public_bytes C e"
  by (auto simp: hpke_seal_def Let_def)

lemma legacy_secret:
  assumes "crypto_laws C" "seal_to_leaves C eph ctx s mine 0 (nodes t) [] = Inr secrets"
    and "get_node t x = Some (Leaf l)" "even x" "x \<noteq> mine" "refs_identify t"
    and "encryption_key l = kem_public_bytes C (g_my_kem_key g)" "make_kp_ref (LeafNode_key_package l) = Inr r"
    and "map_of (gu_encrypted_commit_secrets u) = map_of secrets"
  shows "legacy_commit_secret C g u ctx r = Inr s"
proof -
  have x: "0 \<le> x" "nat x < length (nodes t)" "nodes t ! nat x = Some (Leaf l)"
    using assms(3) by (auto simp: get_node_def split: if_splits)
  from seal_to_leaves_reaches [OF assms(2) x(2) _ x(3)] x(1) assms(4,5,8)
  obtain v where v: "map_of secrets r = Some v" by (auto simp: even_nat_iff)
  have "sealed_entry C ctx s {l. Some (Leaf l) \<in> set (nodes t)} r v"
    by (rule seal_to_leaves_entries [OF assms(2) _ _ v]) auto
  then obtain l' e info enc ct y where e: "get_node t y = Some (Leaf l')" "make_kp_ref (LeafNode_key_package l') = Inr r"
    "path_info ctx = Inr info" "hpke_seal C e (encryption_key l') s [] 0 info = Inr (enc, ct)" "v = enc @ ct"
    by (auto simp: sealed_entry_def dest!: in_nodes_get)
  have "encryption_key l' = kem_public_bytes C (g_my_kem_key g)"
    using assms(3,6,7,8) e(1,2) unfolding refs_identify_def by metis
  with e(4) hpke_open_seal [of C e "g_my_kem_key g"] assms(1)
  have "hpke_open C (g_my_kem_key g) enc ct [] 0 info = Inr s" by (simp add: crypto_laws_def)
  moreover have "length enc = 32"
    using hpke_seal_enc [OF e(4)] assms(1) by (simp add: crypto_laws_def keys_sized_def kem_public_bytes_def)
  ultimately show ?thesis using v e(3,5) assms(9) by (simp add: legacy_commit_secret_def)
qed

text \<open>A member in the resolution of a copath node opens the path secret sealed there.\<close>

lemma path_secret_opens:
  assumes laws: "crypto_laws C" and rr: "resolution R cop_idx = Inr rs"
    and upns: "update_path_nodes C eph R ctx 0 xs = Inr upns" and k: "k < length xs" "xs ! k = (cop_idx, ps, pub)"
    and R: "\<forall>x\<in>set rs. get_node R x \<noteq> None"
    and l: "get_node R m = Some (Leaf l)" "encryption_key l = kem_public_bytes C kem" and m: "m \<in> set rs"
  shows "\<exists>info. path_info ctx = Inr info \<and> hpke_open C kem
     (hc_kem_output (upn_encrypted_path_secret (upns ! k) ! index_of m rs))
     (hc_ciphertext (upn_encrypted_path_secret (upns ! k) ! index_of m rs)) [] 0 info = Inr ps"
proof -
  from update_path_nodes_nth [OF upns] k rr
  have s: "seal_to_resolution C (eph k) R ctx ps 0 rs = Inr (upn_encrypted_path_secret (upns ! k))"
    by (auto dest!: spec [of _ k])
  from seal_to_resolution_nth [OF s R] index_of_nth [OF m] obtain nd info e where
    "get_node R m = Some nd" "path_info ctx = Inr info"
    "hpke_seal C e (node_public_key nd) ps [] 0 info
      = Inr (hc_kem_output (upn_encrypted_path_secret (upns ! k) ! index_of m rs),
             hc_ciphertext (upn_encrypted_path_secret (upns ! k) ! index_of m rs))" by metis
  with l hpke_open_seal [of C e kem] laws show ?thesis by (auto simp: crypto_laws_def)
qed

lemma rekeyed_lengths:
  assumes "commit_log C ent A t rk ctx upns secrets sc cf" "length (rk_direct rk) = d" "length (rk_cop rk) = d"
  shows "length (rk_path_secrets rk) = d" "length (rk_node_pubs rk) = d" "length upns = d"
    "k < d \<Longrightarrow> zip (rk_cop rk) (zip (rk_path_secrets rk) (rk_node_pubs rk)) ! k
       = (rk_cop rk ! k, rk_path_secrets rk ! k, rk_node_pubs rk ! k)"
    "k < d \<Longrightarrow> advance_secret (d - k - 1) (rk_path_secrets rk ! k)
       = Inr (commit_secret_of (rk_path_secrets rk) (ent_leaf_path_secret ent))"
proof -
  have rk: "path_secrets (rk_direct rk) (ent_leaf_path_secret ent) = Inr (rk_path_secrets rk)"
    "mapR (node_pub C) (rk_path_secrets rk) = Inr (rk_node_pubs rk)"
    using assms(1) by (auto simp: commit_log_def rekey_path_def Let_def)
  show len: "length (rk_path_secrets rk) = d" "length (rk_node_pubs rk) = d"
    using path_secrets_length [OF rk(1)] mapR_Inr_length [OF rk(2)] assms(2) by simp_all
  have "update_path_nodes C (ent_path_eph ent) (rk_tree rk) ctx 0
      (zip (rk_cop rk) (zip (rk_path_secrets rk) (rk_node_pubs rk))) = Inr upns" using assms(1) by (simp add: commit_log_def)
  from update_path_nodes_nth [OF this] len assms(3) show "length upns = d" by simp
  show "k < d \<Longrightarrow> zip (rk_cop rk) (zip (rk_path_secrets rk) (rk_node_pubs rk)) ! k
       = (rk_cop rk ! k, rk_path_secrets rk ! k, rk_node_pubs rk ! k)" using len assms(3) by simp
  show "k < d \<Longrightarrow> advance_secret (d - k - 1) (rk_path_secrets rk ! k)
       = Inr (commit_secret_of (rk_path_secrets rk) (ent_leaf_path_secret ent))"
    using advance_path_secret [OF rk(1), of k] len by (auto simp: commit_secret_of_def)
qed

lemma path_secret_received:
  assumes laws: "crypto_laws C" and log: "commit_log C ent A t rk ctx upns secrets sc cf"
    and R: "tree_shape (rk_tree rk) d" "no_unmerged (rk_tree rk)" "rk_cop rk = map (\<lambda>k. tnode k (sibling_pos (g_my_index A div 2 ^ k))) [0..<d]"
      "length (rk_direct rk) = d"
    and i: "0 \<le> g_my_index A" "g_my_index A < 2 ^ d"
    and l: "get_node (rk_tree rk) (2 * g_my_index B) = Some (Leaf l)" "encryption_key l = kem_public_bytes C (g_my_kem_key B)"
    and u: "tree_equiv (rk_tree rk) (gu_tree u)" "gu_committer_index u = g_my_index A" "map_option up_nodes (gu_update_path u) = Some upns"
  shows "path_commit_secret C B u ctx
    \<in> {Inr None, Inr (Some (commit_secret_of (rk_path_secrets rk) (ent_leaf_path_secret ent)))}" (is "_ \<in> {_, Inr (Some ?cs)}")
proof -
  let ?i = "g_my_index A" and ?m = "2 * g_my_index B" and ?R = "rk_tree rk" and ?ss = "rk_path_secrets rk"
  let ?p = "\<lambda>k. tnode (Suc k) (?i div 2 ^ Suc k)" and ?c = "\<lambda>k. tnode k (sibling_pos (?i div 2 ^ k))"
  have "length (rk_cop rk) = d" using R(3) by simp
  note len = rekeyed_lengths [OF log R(4) this]
  have shape': "tree_shape (gu_tree u) d" using tree_equiv_shape [OF u(1)] R(1) by simp
  have log_u: "update_path_nodes C (ent_path_eph ent) ?R ctx 0 (zip (rk_cop rk) (zip ?ss (rk_node_pubs rk))) = Inr upns"
    using log by (simp add: commit_log_def)
  obtain pth where pth: "gu_update_path u = Some pth" "up_nodes pth = upns" using u(3) by (cases "gu_update_path u") auto
  have z: "zip (map ?p [0..<d]) (zip (map ?c [0..<d]) upns) = map (\<lambda>k. (?p k, ?c k, upns ! k)) [0..<d]"
    using len(3) by (intro nth_equalityI) (simp_all del: power_Suc)
  have "open_path C (g_my_kem_key B) ?m (gu_tree u) ctx d 0 (map (\<lambda>k. (?p k, ?c k, upns ! k)) [0..<d])
      \<in> {Inr None, Inr (Some ?cs)}"
  proof (rule open_path_secret [where S = "\<lambda>k. ?ss ! k"])
    fix k assume k: "k < d"
    let ?rs = "resolve ?R k (sibling_pos (?i div 2 ^ k))"
    have r': "resolution (gu_tree u) (?c k) = Inr ?rs"
      using resolution_copath [OF shape' i(1,2) k] resolve_equiv [OF u(1)] by simp
    have rr: "resolution ?R (?c k) = Inr ?rs" using resolution_copath [OF R(1) i(1,2) k] .
    have xs: "k < length (zip (rk_cop rk) (zip ?ss (rk_node_pubs rk)))"
      "zip (rk_cop rk) (zip ?ss (rk_node_pubs rk)) ! k = (?c k, ?ss ! k, rk_node_pubs rk ! k)"
      using k len(1,2,4) R(3) by simp_all
    have occ: "\<forall>x\<in>set ?rs. get_node ?R x \<noteq> None" using resolve_occupied [OF R(2)] by blast
    note op = path_secret_opens [OF laws rr log_u xs occ l]
    show "\<exists>rs. resolution (gu_tree u) (?c k) = Inr rs
      \<and> (?m \<in> set rs \<longrightarrow> index_of ?m rs < length (upn_encrypted_path_secret (upns ! k)) \<longrightarrow>
          (let ct = upn_encrypted_path_secret (upns ! k) ! index_of ?m rs in
           \<exists>info. path_info ctx = Inr info \<and> hpke_open C (g_my_kem_key B) (hc_kem_output ct) (hc_ciphertext ct) [] 0 info = Inr (?ss ! k))
          \<and> advance_secret (d - k - 1) (?ss ! k) = Inr ?cs)"
      using r' op len(5) [OF k] by (intro exI [of _ ?rs]) (simp add: Let_def)
  qed
  then show ?thesis using pth z direct_path_shape [OF shape' i(1,2)] copath_shape [OF shape' i(1,2)]
    by (simp add: path_commit_secret_def u(2) del: power_Suc)
qed

text \<open>Both ways lead to the commit secret.\<close>

lemma received_secret:
  assumes laws: "crypto_laws C" and log: "commit_log C ent A t rk ctx upns secrets sc cf"
    and t: "tree_shape t d" "tree_wf t" "\<not> frozen t" "no_unmerged t"
    and i: "0 \<le> g_my_index A" "g_my_index A < 2 ^ d" "g_my_index B \<noteq> g_my_index A"
    and l: "get_node t (2 * g_my_index B) = Some (Leaf l)" "encryption_key l = kem_public_bytes C (g_my_kem_key B)"
    and refs: "refs_identify (rk_tree rk)" and r: "make_kp_ref (LeafNode_key_package l) = Inr r"
    and u: "tree_equiv (rk_tree rk) (gu_tree u)" "gu_committer_index u = g_my_index A"
      "map_of (gu_encrypted_commit_secrets u) = map_of secrets" "map_option up_nodes (gu_update_path u) = Some upns"
  shows "bindR (path_commit_secret C B u ctx) (\<lambda>found.
      case found of Some s \<Rightarrow> Inr s | None \<Rightarrow> legacy_commit_secret C B u ctx r)
    = Inr (commit_secret_of (rk_path_secrets rk) (ent_leaf_path_secret ent))"
proof -
  have rk: "rekey_path C ent A t = Inr rk" using log by (simp add: commit_log_def)
  note R = rekey_path_spec [OF rk t(1-3) i(1,2)] and T = rekeyed_tree [OF rk t(1-3) i(1,2)]
  have ml: "get_node (rk_tree rk) (2 * g_my_index B) = Some (Leaf l)" using T(1) i(3) l by simp
  have "legacy_commit_secret C B u ctx r = Inr (commit_secret_of (rk_path_secrets rk) (ent_leaf_path_secret ent))"
    by (rule legacy_secret [OF laws _ ml _ _ refs l(2) r u(3)]) (use log i(3) in \<open>auto simp: commit_log_def\<close>)
  with path_secret_received [OF laws log T(2) T(5) R(2) _ i(1,2) ml l(2) u(1,2,4)] t(4) R(1) show ?thesis by auto
qed

section \<open>Lemmas: processing a commit\<close>

text \<open>Two members in the same epoch of the same group.\<close>

definition same_epoch :: "MLSGroup \<Rightarrow> MLSGroup \<Rightarrow> bool" where
  "same_epoch A B \<longleftrightarrow> g_group_id A = g_group_id B \<and> g_epoch_id A = g_epoch_id B \<and> g_schedule A = g_schedule B
     \<and> g_interim_transcript_hash A = g_interim_transcript_hash B \<and> tree_equiv (g_tree A) (g_tree B)"

lemma same_epoch_sym: "same_epoch a b \<Longrightarrow> same_epoch b a"
  by (auto simp: same_epoch_def intro: tree_equiv_sym)

lemma same_epoch_trans: "same_epoch a b \<Longrightarrow> same_epoch b c \<Longrightarrow> same_epoch a c"
  by (auto simp: same_epoch_def tree_equiv_def)

text \<open>A member whose leaf in the tree \<open>t\<close> carries its own keys.\<close>

definition holds_leaf :: "crypto \<Rightarrow> RatchetTree \<Rightarrow> MLSGroup \<Rightarrow> bool" where
  "holds_leaf C t g \<longleftrightarrow> 0 \<le> g_my_index g \<and> g_my_index g < num_leaves t
     \<and> (\<exists>l. get_node t (2 * g_my_index g) = Some (Leaf l) \<and> encryption_key l = kem_public_bytes C (g_my_kem_key g)
          \<and> signature_key l = sig_public_bytes C (g_my_sig_key g))"

lemma verify_leaves_ok: "leaves_verify C gid t \<Longrightarrow> verify_leaves C gid t is = Inr ()"
  by (induction "is") (auto simp: leaves_verify_def split: option.splits Node.splits)

lemma leaves_verify_equiv: "tree_equiv t t' \<Longrightarrow> leaves_verify C gid t \<Longrightarrow> leaves_verify C gid t'"
  unfolding leaves_verify_def by (metis leaf_canon_eqD(3) tree_equiv_leaf tree_equiv_sym)

lemma holds_leaf_equiv:
  assumes "tree_equiv t t'" "holds_leaf C t g"
  shows "holds_leaf C t' g"
proof -
  from assms(2) obtain l where l: "get_node t (2 * g_my_index g) = Some (Leaf l)"
    "encryption_key l = kem_public_bytes C (g_my_kem_key g)" "signature_key l = sig_public_bytes C (g_my_sig_key g)"
    by (auto simp: holds_leaf_def)
  from tree_equiv_leaf [OF assms(1) l(1)] obtain l' where
    "get_node t' (2 * g_my_index g) = Some (Leaf l')" "leaf_canon l' = leaf_canon l" by blast
  with l leaf_canon_eqD(1,2) [OF this(2)] assms tree_equivD(1) [OF assms(1)] show ?thesis by (simp add: holds_leaf_def)
qed

text \<open>The same commit, in memory or read from the wire.\<close>

definition same_commit :: "GroupUpdate \<Rightarrow> GroupUpdate \<Rightarrow> bool" where
  "same_commit u v \<longleftrightarrow> gu_epoch_id v = gu_epoch_id u \<and> gu_committer_index v = gu_committer_index u
     \<and> gu_signature v = gu_signature u \<and> gu_group_id v = gu_group_id u
     \<and> gu_membership_tag v = gu_membership_tag u \<and> gu_confirmation_tag v = gu_confirmation_tag u
     \<and> tree_equiv (gu_tree u) (gu_tree v)
     \<and> map_of (gu_encrypted_commit_secrets v) = map_of (gu_encrypted_commit_secrets u)
     \<and> map_option up_nodes (gu_update_path v) = map_option up_nodes (gu_update_path u)
     \<and> GroupUpdate_body_bytes v = GroupUpdate_body_bytes u"

lemma same_commit_refl [simp]: "same_commit u u"
  by (simp add: same_commit_def)

lemma body_bytes_frame:
  "GroupUpdate_body_bytes (attach_context g sc cf tag) = GroupUpdate_body_bytes (sc_update sc)"
  "GroupUpdate_body_bytes (u\<lparr>gu_signature := s\<rparr>) = GroupUpdate_body_bytes u"
  by (simp_all add: GroupUpdate_body_bytes_def attach_context_def)

text \<open>What \<open>sign_commit\<close> leaves behind.\<close>

lemma sign_commit_facts:
  assumes "sign_commit C g e t secrets path = Inr sc"
  obtains body fcb ci where
    "sc_update sc = (GroupUpdate_init e t secrets (g_my_index g) [] (g_group_id g) (Some path))
        \<lparr>gu_signature := sig_sign C (g_my_sig_key g) (sc_tbs sc)\<rparr>"
    "GroupUpdate_body_bytes (sc_update sc) = Inr body"
    "FramedContent_to_bytes (framed_commit g (g_my_index g) body) = Inr fcb"
    "make_group_context (g_group_id g) (g_epoch_id g) (g_tree g) (g_interim_transcript_hash g) = Inr (sc_old_ctx sc)"
    "make_framed_content_tbs (sc_old_ctx sc) (framed_commit g (g_my_index g) body) = Inr (sc_tbs sc)"
    "confirmed_transcript_hash_input fcb (gu_signature (sc_update sc)) = Inr ci"
    "sc_transcript_hash sc = compute_confirmed_transcript_hash (g_interim_transcript_hash g) ci"
proof -
  let ?u = "GroupUpdate_init e t secrets (g_my_index g) [] (g_group_id g) (Some path)"
  from assms obtain body fcb ctx tbs ci where h: "GroupUpdate_body_bytes ?u = Inr body"
    "FramedContent_to_bytes (framed_commit g (g_my_index g) body) = Inr fcb"
    "make_group_context (g_group_id g) (g_epoch_id g) (g_tree g) (g_interim_transcript_hash g) = Inr ctx"
    "make_framed_content_tbs ctx (framed_commit g (g_my_index g) body) = Inr tbs"
    "confirmed_transcript_hash_input fcb (sig_sign C (g_my_sig_key g) tbs) = Inr ci"
    "sc = \<lparr>sc_update = ?u\<lparr>gu_signature := sig_sign C (g_my_sig_key g) tbs\<rparr>, sc_old_ctx = ctx, sc_tbs = tbs,
           sc_transcript_hash = compute_confirmed_transcript_hash (g_interim_transcript_hash g) ci\<rparr>"
    by (auto simp: sign_commit_def Let_def)
  show ?thesis by (rule that [of body fcb ci]) (use h in \<open>simp_all add: body_bytes_frame\<close>)
qed

lemma verify_commit_signature_ok:
  assumes "signatures_verify C" "signature_key l = sig_public_bytes C sk"
    and "make_group_context (g_group_id g) (g_epoch_id g) (g_tree g) (g_interim_transcript_hash g) = Inr ctx"
    and "make_framed_content_tbs ctx framed = Inr tbs" "s = sig_sign C sk tbs"
  shows "verify_commit_signature C g l framed s = Inr tbs"
proof -
  have "ed_load C (sig_public_bytes C sk)" using assms(1) by (simp add: signatures_verify_def sig_public_bytes_def)
  moreover have "ed_verify C (sig_public_bytes C sk) (sig_sign C sk tbs) tbs"
    using sig_sign_verifies [OF assms(1), of sk tbs] by simp
  ultimately show ?thesis using assms by (simp add: verify_commit_signature_def ed25519_verify_def)
qed

text \<open>The fields of a commit that arrives.\<close>

lemma committed_update:
  assumes log: "commit_log C ent A t rk ctx upns secrets sc cf" and u: "same_commit (attach_context A sc cf (cf_tag cf)) u"
  shows "gu_epoch_id u = g_epoch_id A + 1" "gu_committer_index u = g_my_index A" "gu_group_id u = g_group_id A"
    "gu_signature u = sig_sign C (g_my_sig_key A) (sc_tbs sc)" "gu_confirmation_tag u = Some (cf_tag cf)"
    "gu_membership_tag u = Some (hmac_digest sha256 (membership_key (g_schedule A)) (sc_tbs sc))"
    "tree_equiv (rk_tree rk) (gu_tree u)" "map_of (gu_encrypted_commit_secrets u) = map_of secrets"
    "map_option up_nodes (gu_update_path u) = Some upns"
    "GroupUpdate_body_bytes u = GroupUpdate_body_bytes (sc_update sc)" "gu_signature (sc_update sc) = gu_signature u"
proof -
  have "sign_commit C A (g_epoch_id A + 1) (rk_tree rk) secrets \<lparr>up_leaf_key_package = rk_key_package rk, up_nodes = upns\<rparr> = Inr sc"
    using log by (simp add: commit_log_def)
  then have S: "sc_update sc = (GroupUpdate_init (g_epoch_id A + 1) (rk_tree rk) secrets (g_my_index A) [] (g_group_id A)
          (Some \<lparr>up_leaf_key_package = rk_key_package rk, up_nodes = upns\<rparr>))
        \<lparr>gu_signature := sig_sign C (g_my_sig_key A) (sc_tbs sc)\<rparr>" by (rule sign_commit_facts)
  show b: "GroupUpdate_body_bytes u = GroupUpdate_body_bytes (sc_update sc)"
    using u by (simp add: same_commit_def body_bytes_frame)
  show "gu_epoch_id u = g_epoch_id A + 1" "gu_committer_index u = g_my_index A" "gu_group_id u = g_group_id A"
    "gu_signature u = sig_sign C (g_my_sig_key A) (sc_tbs sc)" "gu_confirmation_tag u = Some (cf_tag cf)"
    "gu_membership_tag u = Some (hmac_digest sha256 (membership_key (g_schedule A)) (sc_tbs sc))"
    "tree_equiv (rk_tree rk) (gu_tree u)" "map_of (gu_encrypted_commit_secrets u) = map_of secrets"
    "map_option up_nodes (gu_update_path u) = Some upns" "gu_signature (sc_update sc) = gu_signature u"
    using u S by (simp_all add: same_commit_def) (simp_all add: attach_context_def GroupUpdate_init_def)
qed

text \<open>The signature of the commit verifies under the receiver's own context.\<close>

lemma committed_signature:
  assumes laws: "crypto_laws C" and log: "commit_log C ent A t rk ctx upns secrets sc cf"
    and se: "same_epoch A B" and wf: "tree_wf (g_tree A)" and hA: "holds_leaf C (g_tree A) A"
    and u: "same_commit (attach_context A sc cf (cf_tag cf)) u"
  obtains committer body fcb ci where
    "get_node (g_tree B) (2 * g_my_index A) = Some (Leaf committer)" "GroupUpdate_body_bytes u = Inr body"
    "FramedContent_to_bytes (framed_commit B (g_my_index A) body) = Inr fcb"
    "verify_commit_signature C B committer (framed_commit B (g_my_index A) body) (gu_signature u) = Inr (sc_tbs sc)"
    "confirmed_transcript_hash_input fcb (gu_signature u) = Inr ci"
    "compute_confirmed_transcript_hash (g_interim_transcript_hash B) ci = sc_transcript_hash sc"
proof -
  note U = committed_update [OF log u]
  have "sign_commit C A (g_epoch_id A + 1) (rk_tree rk) secrets \<lparr>up_leaf_key_package = rk_key_package rk, up_nodes = upns\<rparr> = Inr sc"
    using log by (simp add: commit_log_def)
  from sign_commit_facts [OF this] obtain body fcb ci where S: "GroupUpdate_body_bytes (sc_update sc) = Inr body"
    "FramedContent_to_bytes (framed_commit A (g_my_index A) body) = Inr fcb"
    "make_group_context (g_group_id A) (g_epoch_id A) (g_tree A) (g_interim_transcript_hash A) = Inr (sc_old_ctx sc)"
    "make_framed_content_tbs (sc_old_ctx sc) (framed_commit A (g_my_index A) body) = Inr (sc_tbs sc)"
    "confirmed_transcript_hash_input fcb (gu_signature (sc_update sc)) = Inr ci"
    "sc_transcript_hash sc = compute_confirmed_transcript_hash (g_interim_transcript_hash A) ci" by metis
  have E: "g_group_id B = g_group_id A" "g_epoch_id B = g_epoch_id A"
    "g_interim_transcript_hash B = g_interim_transcript_hash A" "tree_equiv (g_tree A) (g_tree B)"
    using se by (simp_all add: same_epoch_def)
  obtain lA where lA: "get_node (g_tree B) (2 * g_my_index A) = Some (Leaf lA)"
    "signature_key lA = sig_public_bytes C (g_my_sig_key A)"
    using holds_leaf_equiv [OF E(4) hA] by (auto simp: holds_leaf_def)
  have fr: "framed_commit B (g_my_index A) body = framed_commit A (g_my_index A) body"
    by (simp add: framed_commit_def E)
  have old: "make_group_context (g_group_id B) (g_epoch_id B) (g_tree B) (g_interim_transcript_hash B) = Inr (sc_old_ctx sc)"
    using make_group_context_equiv [OF E(4) wf] E S(3) by simp
  have "verify_commit_signature C B lA (framed_commit B (g_my_index A) body) (gu_signature u) = Inr (sc_tbs sc)"
    by (rule verify_commit_signature_ok [OF _ lA(2) old _ U(4)]) (use laws S(4) fr in \<open>simp_all add: crypto_laws_def\<close>)
  with lA(1) S U(10,11) fr E(3) show ?thesis by (intro that [of lA body fcb ci]) simp_all
qed

text \<open>Both ends compute the tag and the state of the new epoch from equivalent trees.\<close>

lemma new_epoch_agrees:
  assumes se: "same_epoch A B" and eq: "tree_equiv R t'" "tree_wf R" and cf: "confirm_commit A e R cs th = Inr cf"
    and e: "e = g_epoch_id A + 1"
  obtains ctx cb where "provisional_tag B e t' cs th = Inr (cf_tag cf)"
    "make_group_context (g_group_id B) e t' th = Inr ctx" "GroupContext_to_bytes ctx = Inr cb"
    "advance_epoch (g_state B) cs t' cb None = Inr ((cf_state cf)\<lparr>ep_tree := freeze t'\<rparr>)"
    "cf_interim cf = compute_interim_transcript_hash th (cf_tag cf)"
proof -
  have E: "g_group_id B = g_group_id A" "g_epoch_id B = g_epoch_id A" "g_schedule B = g_schedule A"
    using se by (simp_all add: same_epoch_def)
  have ctxs: "make_group_context (g_group_id A) e t' h = make_group_context (g_group_id A) e R h" for h
    using make_group_context_equiv [OF eq] by simp
  from cf obtain cb where P: "provisional_tag A e R cs th = Inr (cf_tag cf)"
    "make_group_context (g_group_id A) e R th = Inr (cf_ctx cf)"
    "GroupContext_to_bytes (cf_ctx cf) = Inr cb" "advance_epoch (g_state A) cs R cb None = Inr (cf_state cf)"
    "cf_interim cf = compute_interim_transcript_hash th (cf_tag cf)"
    by (auto simp: confirm_commit_def Let_def)
  have "advance_epoch (g_state B) cs t' cb None = Inr ((cf_state cf)\<lparr>ep_tree := freeze t'\<rparr>)"
    using P(4) E by (auto simp: advance_epoch_def EpochState_init_def dest!: sym [of _ "cf_state cf"])
  moreover have "provisional_tag B e t' cs th = Inr (cf_tag cf)" using P(1) by (simp add: provisional_tag_def ctxs E)
  ultimately show ?thesis using P(2,3,5) E by (intro that [of "cf_ctx cf" cb]) (simp_all add: ctxs)
qed

text \<open>The central lemma: the receiver derives the committer's new epoch.\<close>

lemma process_commit_agrees:
  assumes laws: "crypto_laws C" and log: "commit_log C ent A t rk ctx upns secrets sc cf"
    and se: "same_epoch A B" and wf: "tree_wf (g_tree A)"
    and hA: "holds_leaf C (g_tree A) A" and hB: "holds_leaf C (g_tree B) B" and hBt: "holds_leaf C t B"
    and t: "tree_shape t d" "tree_wf t" "\<not> frozen t" "no_unmerged t" "leaves_verify C (g_group_id A) t"
    and i: "g_my_index A < 2 ^ d" "g_my_index B \<noteq> g_my_index A"
    and same: "node_canon (get_node t (2 * g_my_index B)) = node_canon (get_node (g_tree B) (2 * g_my_index B))"
    and refs: "refs_identify (rk_tree rk)"
    and u: "same_commit (attach_context A sc cf (cf_tag cf)) u"
  shows "process_commit C B u = Inr (MLSGroup_init ((cf_state cf)\<lparr>ep_tree := freeze (gu_tree u)\<rparr>)
     (g_my_index B) (g_my_sig_key B) (g_my_kem_key B) (cf_interim cf))"
proof -
  let ?R = "rk_tree rk" and ?cs = "commit_secret_of (rk_path_secrets rk) (ent_leaf_path_secret ent)"
  have i0: "0 \<le> g_my_index A" using hA by (simp add: holds_leaf_def)
  have L: "rekey_path C ent A t = Inr rk"
    "make_group_context (g_group_id A) (g_epoch_id A + 1) ?R (g_interim_transcript_hash A) = Inr ctx"
    "seal_to_leaves C (ent_leaf_eph ent) ctx ?cs (2 * g_my_index A) 0 (nodes ?R) [] = Inr secrets"
    "confirm_commit A (g_epoch_id A + 1) ?R ?cs (sc_transcript_hash sc) = Inr cf"
    using log by (simp_all add: commit_log_def)
  have E: "g_group_id B = g_group_id A" "g_epoch_id B = g_epoch_id A" "g_schedule B = g_schedule A"
    "g_interim_transcript_hash B = g_interim_transcript_hash A" using se by (simp_all add: same_epoch_def)
  note U = committed_update [OF log u] and T = rekeyed_tree [OF L(1) t(1-3) i0 i(1)]
  obtain l where l: "get_node t (2 * g_my_index B) = Some (Leaf l)" "encryption_key l = kem_public_bytes C (g_my_kem_key B)"
    using hBt by (auto simp: holds_leaf_def)
  obtain lB where lB: "get_node (g_tree B) (2 * g_my_index B) = Some (Leaf lB)" "leaf_canon lB = leaf_canon l"
    using same l(1) hB by (auto simp: holds_leaf_def)
  have "get_node ?R (2 * g_my_index B) = Some (Leaf l)" using T(1) i(2) l(1) by simp
  then have mR: "nat (2 * g_my_index B) < length (nodes ?R)" "nodes ?R ! nat (2 * g_my_index B) = Some (Leaf l)" "0 \<le> g_my_index B"
    by (auto simp: get_node_def split: if_splits)
  from seal_to_leaves_reaches [OF L(3) mR(1) _ mR(2)] mR(3) i(2)
  obtain r where r: "make_kp_ref (LeafNode_key_package l) = Inr r" by (auto simp: even_nat_iff)
  then have r': "make_kp_ref (LeafNode_key_package lB) = Inr r" using leaf_canon_eqD(4) [OF lB(2)] by simp
  from received_secret [OF laws log t(1-4) i0 i l refs r U(7,2,8,9)] obtain f where
    f: "path_commit_secret C B u ctx = Inr f"
      "(case f of Some s \<Rightarrow> Inr s | None \<Rightarrow> legacy_commit_secret C B u ctx r) = Inr ?cs" by auto
  have ctx: "make_group_context (g_group_id B) (g_epoch_id A + 1) (gu_tree u) (g_interim_transcript_hash B) = Inr ctx"
    using make_group_context_equiv [OF U(7) T(3)] L(2) E by simp
  have "leaves_verify C (g_group_id A) ?R" using T(6) laws t(5) by (simp add: crypto_laws_def)
  from verify_leaves_ok [OF leaves_verify_equiv [OF U(7) this]]
  have vl: "verify_leaves C (g_group_id B) (gu_tree u) js = Inr ()" for js by (simp add: E(1))
  show ?thesis
  proof (rule committed_signature [OF laws log se wf hA u], rule new_epoch_agrees [OF se U(7) T(3) L(4) refl])
    fix committer body fcb ci ctx' cb
    assume s: "get_node (g_tree B) (2 * g_my_index A) = Some (Leaf committer)" "GroupUpdate_body_bytes u = Inr body"
      "FramedContent_to_bytes (framed_commit B (g_my_index A) body) = Inr fcb"
      "verify_commit_signature C B committer (framed_commit B (g_my_index A) body) (gu_signature u) = Inr (sc_tbs sc)"
      "confirmed_transcript_hash_input fcb (gu_signature u) = Inr ci"
      "compute_confirmed_transcript_hash (g_interim_transcript_hash B) ci = sc_transcript_hash sc"
    assume n: "provisional_tag B (g_epoch_id A + 1) (gu_tree u) ?cs (sc_transcript_hash sc) = Inr (cf_tag cf)"
      "make_group_context (g_group_id B) (g_epoch_id A + 1) (gu_tree u) (sc_transcript_hash sc) = Inr ctx'"
      "GroupContext_to_bytes ctx' = Inr cb"
      "advance_epoch (g_state B) ?cs (gu_tree u) cb None = Inr ((cf_state cf)\<lparr>ep_tree := freeze (gu_tree u)\<rparr>)"
      "cf_interim cf = compute_interim_transcript_hash (sc_transcript_hash sc) (cf_tag cf)"
    show ?thesis using lB(1) r' U(1-3,5,6) E(1-3) ctx f vl s n by (simp add: process_commit_def Let_def)
  qed
qed

end
