(* ===== verification/Members.thy ===== *)
theory Members
  imports ReceiveFacts
begin

text \<open>
  Members in order: what holds of a member that can commit, the trees the three committing
  operations prepare, the state a receiver and a newcomer reach, commits that travel as encoded
  messages.
\<close>

section \<open>Lemmas: members in step\<close>

text \<open>What holds of a member that can commit.\<close>

definition tree_good :: "crypto \<Rightarrow> bytes \<Rightarrow> RatchetTree \<Rightarrow> bool" where
  "tree_good C gid t \<longleftrightarrow> tree_wf t \<and> no_unmerged t \<and> leaves_verify C gid t"

definition member_ok :: "crypto \<Rightarrow> MLSGroup \<Rightarrow> bool" where
  "member_ok C g \<longleftrightarrow> tree_good C (g_group_id g) (g_tree g) \<and> holds_leaf C (g_tree g) g"

lemma tree_good_equiv: "tree_equiv t t' \<Longrightarrow> tree_good C gid t \<Longrightarrow> tree_good C gid t'"
  by (simp add: tree_good_def tree_equiv_wf leaves_verify_equiv no_unmerged_equiv)

lemma refs_identify_equiv: "tree_equiv t t' \<Longrightarrow> refs_identify t \<Longrightarrow> refs_identify t'"
  unfolding refs_identify_def
proof (intro allI impI)
  fix x y l l' r
  assume eq: "tree_equiv t t'" and t: "\<forall>x y l l' r. get_node t x = Some (Leaf l) \<longrightarrow> get_node t y = Some (Leaf l') \<longrightarrow>
     make_kp_ref (LeafNode_key_package l) = Inr r \<longrightarrow> make_kp_ref (LeafNode_key_package l') = Inr r \<longrightarrow>
     encryption_key l = encryption_key l'"
    and l: "get_node t' x = Some (Leaf l)" "get_node t' y = Some (Leaf l')"
      "make_kp_ref (LeafNode_key_package l) = Inr r" "make_kp_ref (LeafNode_key_package l') = Inr r"
  from tree_equiv_leaf [OF tree_equiv_sym [OF eq] l(1)] tree_equiv_leaf [OF tree_equiv_sym [OF eq] l(2)]
  obtain m m' where m: "get_node t x = Some (Leaf m)" "leaf_canon m = leaf_canon l"
    "get_node t y = Some (Leaf m')" "leaf_canon m' = leaf_canon l'" by blast
  with t l(3,4) leaf_canon_eqD(1,4) [OF m(2)] leaf_canon_eqD(1,4) [OF m(4)]
  show "encryption_key l = encryption_key l'" by metis
qed

text \<open>A tree prepared for a commit: all members in it are where they were.\<close>

definition prepared :: "crypto \<Rightarrow> MLSGroup \<Rightarrow> RatchetTree \<Rightarrow> bool" where
  "prepared C g t \<longleftrightarrow> tree_good C (g_group_id g) t \<and> \<not> frozen t \<and> g_my_index g < num_leaves t"

lemma commit_log_tree:
  assumes "commit_log C ent g t rk ctx upns secrets sc cf" "signatures_verify C" "prepared C g t" "0 \<le> g_my_index g"
  shows "tree_good C (g_group_id g) (rk_tree rk)" "\<not> frozen (rk_tree rk)" "num_leaves (rk_tree rk) = num_leaves t"
    "get_node (rk_tree rk) (2 * j)
       = (if j = g_my_index g then Some (Leaf (leaf_node (rk_key_package rk))) else get_node t (2 * j))"
    "encryption_key (leaf_node (rk_key_package rk)) = kem_public_bytes C (ent_committer_kem ent)"
    "signature_key (leaf_node (rk_key_package rk)) = sig_public_bytes C (g_my_sig_key g)"
    "\<exists>k. cf_state cf = EpochState_init (g_group_id g) (g_epoch_id g + 1) (rk_tree rk) k \<and> schedule_wf k"
    "tree_shape t d \<Longrightarrow> tree_shape (rk_tree rk) d"
proof -
  have r: "rekey_path C ent g t = Inr rk" using assms(1) by (simp add: commit_log_def)
  from assms(3) obtain e where e: "tree_shape t e" by (auto simp: prepared_def tree_good_def tree_wf_def)
  have t: "tree_wf t" "\<not> frozen t" "g_my_index g < 2 ^ e" "no_unmerged t" "leaves_verify C (g_group_id g) t"
    using assms(3) shape_leaves [OF e] by (simp_all add: prepared_def tree_good_def)
  note T = rekeyed_tree [OF r e t(1,2) assms(4) t(3)] and R = rekey_path_spec [OF r e t(1,2) assms(4) t(3)]
  show "tree_good C (g_group_id g) (rk_tree rk)" "\<not> frozen (rk_tree rk)"
    using T t(4,5) assms(2) by (simp_all add: tree_good_def)
  show "num_leaves (rk_tree rk) = num_leaves t" using R(6) by (simp add: same_frame_def)
  show "get_node (rk_tree rk) (2 * j)
       = (if j = g_my_index g then Some (Leaf (leaf_node (rk_key_package rk))) else get_node t (2 * j))" by (rule T(1))
  show "encryption_key (leaf_node (rk_key_package rk)) = kem_public_bytes C (ent_committer_kem ent)"
    "signature_key (leaf_node (rk_key_package rk)) = sig_public_bytes C (g_my_sig_key g)"
    using own_key_package_facts(1,2) [OF R(5) assms(2)] .
  show "\<exists>k. cf_state cf = EpochState_init (g_group_id g) (g_epoch_id g + 1) (rk_tree rk) k \<and> schedule_wf k"
    using assms(1) by (auto simp: commit_log_def confirm_commit_def advance_epoch_def Let_def dest: KeySchedule_derive_wf)
  show "tree_shape t d \<Longrightarrow> tree_shape (rk_tree rk) d"
    using R(6) by (simp add: same_frame_def tree_shape_def)
qed

text \<open>Any commit over a prepared tree brings the receivers along.\<close>

lemma commit_received:
  assumes laws: "crypto_laws C" and log: "commit_log C ent A t rk ctx upns secrets sc cf" and A: "member_ok C A" "prepared C A t"
    and B: "same_epoch A B" "holds_leaf C (g_tree B) B" "g_my_index B \<noteq> g_my_index A"
      "get_node t (2 * g_my_index B) = get_node (g_tree A) (2 * g_my_index B)"
    and v: "same_commit (attach_context A sc cf (cf_tag cf)) v" and refs: "refs_identify (rk_tree rk)"
  shows "\<exists>B'. process_commit C B v = Inr B' \<and> same_epoch (next_group A cf kem) B' \<and> member_ok C B'
     \<and> g_my_index B' = g_my_index B \<and> g_my_sig_key B' = g_my_sig_key B \<and> g_my_kem_key B' = g_my_kem_key B"
proof -
  have sv: "signatures_verify C" using laws by (simp add: crypto_laws_def)
  have i0: "0 \<le> g_my_index A" using A(1) by (simp add: member_ok_def holds_leaf_def)
  note T = commit_log_tree [OF log sv A(2) i0]
  from A(2) obtain d where d: "tree_shape t d" by (auto simp: prepared_def tree_good_def tree_wf_def)
  have t: "tree_wf t" "\<not> frozen t" "no_unmerged t" "leaves_verify C (g_group_id A) t" "g_my_index A < 2 ^ d"
    using A(2) shape_leaves [OF d] by (simp_all add: prepared_def tree_good_def)
  have E: "tree_equiv (g_tree A) (g_tree B)" using B(1) by (simp add: same_epoch_def)
  have hA: "holds_leaf C (g_tree A) B" using holds_leaf_equiv [OF tree_equiv_sym [OF E] B(2)] .
  then obtain l where l: "get_node t (2 * g_my_index B) = Some (Leaf l)" "encryption_key l = kem_public_bytes C (g_my_kem_key B)"
      "signature_key l = sig_public_bytes C (g_my_sig_key B)" "0 \<le> g_my_index B"
    using B(4) by (auto simp: holds_leaf_def)
  then have "2 * g_my_index B < tree_size t" by (auto simp: get_node_def split: if_splits)
  then have ht: "holds_leaf C t B" using l shape_facts [OF d] by (auto simp: holds_leaf_def)
  have u: "tree_equiv (rk_tree rk) (gu_tree v)"
  proof -
    have "sign_commit C A (g_epoch_id A + 1) (rk_tree rk) secrets
       \<lparr>up_leaf_key_package = rk_key_package rk, up_nodes = upns\<rparr> = Inr sc" using log by (simp add: commit_log_def)
    then have "gu_tree (sc_update sc) = rk_tree rk" by (rule sign_commit_facts) (simp add: GroupUpdate_init_def)
    with v show ?thesis by (simp add: same_commit_def attach_context_def)
  qed
  let ?B = "MLSGroup_init ((cf_state cf)\<lparr>ep_tree := freeze (gu_tree v)\<rparr>) (g_my_index B) (g_my_sig_key B) (g_my_kem_key B) (cf_interim cf)"
  have p: "process_commit C B v = Inr ?B"
  proof (rule process_commit_agrees [OF laws log B(1) _ _ B(2) ht d t(1-5) B(3) _ refs v])
    show "tree_wf (g_tree A)" "holds_leaf C (g_tree A) A" using A(1) by (simp_all add: member_ok_def tree_good_def)
    show "node_canon (get_node t (2 * g_my_index B)) = node_canon (get_node (g_tree B) (2 * g_my_index B))"
      using B(4) tree_equivD(3) [OF E] by simp
  qed
  obtain k where k: "cf_state cf = EpochState_init (g_group_id A) (g_epoch_id A + 1) (rk_tree rk) k" using T(7) by blast
  have "holds_leaf C (rk_tree rk) B" using ht T(3,4) B(3) by (simp add: holds_leaf_def)
  from holds_leaf_equiv [OF u this] tree_good_equiv [OF u T(1)] have "member_ok C ?B"
    by (simp add: member_ok_def MLSGroup_init_def k EpochState_init_def tree_good_def holds_leaf_def
        leaves_verify_def no_unmerged_def) (simp add: freeze_def)
  moreover have "same_epoch (next_group A cf kem) ?B"
    using u by (simp add: same_epoch_def next_group_def MLSGroup_init_def k EpochState_init_def)
  ultimately show ?thesis using p by (simp add: MLSGroup_init_def)
qed

text \<open>The committer itself is in order again when it keeps the key of its new leaf.\<close>

lemma committer_ok:
  assumes "commit_log C ent A t rk ctx upns secrets sc cf" "signatures_verify C" "prepared C A t" "0 \<le> g_my_index A"
  shows "member_ok C (next_group A cf (ent_committer_kem ent))"
    "g_epoch_id (next_group A cf kem) = g_epoch_id A + 1" "g_group_id (next_group A cf kem) = g_group_id A"
    "g_tree (next_group A cf kem) = freeze (rk_tree rk)"
proof -
  note T = commit_log_tree [OF assms]
  obtain k where k: "cf_state cf = EpochState_init (g_group_id A) (g_epoch_id A + 1) (rk_tree rk) k" using T(7) by blast
  show "g_epoch_id (next_group A cf kem) = g_epoch_id A + 1" "g_group_id (next_group A cf kem) = g_group_id A"
    "g_tree (next_group A cf kem) = freeze (rk_tree rk)"
    by (simp_all add: next_group_def MLSGroup_init_def k EpochState_init_def)
  have "holds_leaf C (rk_tree rk) (next_group A cf (ent_committer_kem ent))"
    using T(3) T(4) [of "g_my_index A"] T(5,6) assms(3,4) by (simp add: holds_leaf_def next_group_def MLSGroup_init_def prepared_def)
  with T(1) show "member_ok C (next_group A cf (ent_committer_kem ent))"
    by (simp add: member_ok_def tree_good_def next_group_def MLSGroup_init_def k EpochState_init_def holds_leaf_def
        leaves_verify_def no_unmerged_def) (simp add: freeze_def)
qed

lemma prepared_update:
  assumes "member_ok C A"
  shows "prepared C A ((g_tree A)\<lparr>frozen := False\<rparr>)"
proof -
  have "get_node ((g_tree A)\<lparr>frozen := False\<rparr>) = get_node (g_tree A)" by (simp add: get_node_def fun_eq_iff)
  then show ?thesis using assms
    by (simp add: prepared_def member_ok_def tree_good_def holds_leaf_def tree_wf_def tree_shape_def no_unmerged_def
        leaves_verify_def)
qed

lemma prepared_remove:
  assumes "member_ok C A" "i \<noteq> g_my_index A" "0 \<le> i" "i < num_leaves (g_tree A)" "remove_leaf (g_tree A) (2 * i) = Inr t"
  shows "prepared C A t" "j \<noteq> i \<Longrightarrow> get_node t (2 * j) = get_node (g_tree A) (2 * j)" "get_node t (2 * i) = None"
proof -
  have wf: "tree_wf (g_tree A)" using assms(1) by (simp add: member_ok_def tree_good_def)
  then obtain d where d: "tree_shape (g_tree A) d" "tree_typed (nodes (g_tree A))" by (auto simp: tree_wf_def)
  have "i < 2 ^ d" using assms(4) shape_leaves [OF d(1)] by simp
  from remove_leaf_facts [OF d assms(3) this] assms(5) have
    r: "tree_wf t \<or> num_leaves t = 0 \<and> nodes t = []" "\<not> frozen t"
      "\<And>j. get_node t (2 * j) = (if j = i then None else get_node (g_tree A) (2 * j))" by auto
  obtain l where l: "get_node (g_tree A) (2 * g_my_index A) = Some (Leaf l)" using assms(1) by (auto simp: member_ok_def holds_leaf_def)
  then have "get_node t (2 * g_my_index A) = Some (Leaf l)" using r(3) assms(2) by simp
  then have "2 * g_my_index A < tree_size t" by (auto simp: get_node_def split: if_splits)
  moreover from this assms(1) have "tree_wf t" using r(1) by (auto simp: member_ok_def holds_leaf_def)
  moreover have "no_unmerged t"
    using assms(1) remove_leaf_nodes [OF wf assms(3,4,5)]
    unfolding member_ok_def tree_good_def no_unmerged_def by (metis option.distinct(1))
  moreover have "leaves_verify C (g_group_id A) t"
    using assms(1) r(3) by (auto simp: member_ok_def tree_good_def leaves_verify_def split: if_splits)
  ultimately show "prepared C A t" using r(2) wf_leaves [of t] by (simp add: prepared_def tree_good_def)
  show "j \<noteq> i \<Longrightarrow> get_node t (2 * j) = get_node (g_tree A) (2 * j)" "get_node t (2 * i) = None" using r(3) by simp_all
qed

section \<open>Lemmas: joining\<close>

lemma prepared_add:
  assumes "member_ok C A" "num_leaves (g_tree A) < 2 ^ 31" "place_member (g_tree A) (leaf_node kp) = Inr t"
    and "KeyPackage_verify_signature C kp = Inr ()" "leaf_node_source (leaf_node kp) = LEAF_NODE_SOURCE_KEY_PACKAGE"
  shows "prepared C A t"
    "\<exists>i. 0 \<le> i \<and> i < num_leaves t \<and> get_node t (2 * i) = Some (Leaf (leaf_node kp)) \<and> get_node (g_tree A) (2 * i) = None
       \<and> num_leaves t \<le> 2 * num_leaves (g_tree A)
       \<and> (\<forall>j. j \<noteq> i \<longrightarrow> get_node t (2 * j) = get_node (g_tree A) (2 * j))"
proof -
  have wf: "tree_wf (g_tree A)" "no_unmerged (g_tree A)" "leaves_verify C (g_group_id A) (g_tree A)"
    using assms(1) by (simp_all add: member_ok_def tree_good_def)
  from place_member_spec [OF wf(1) assms(2), of "leaf_node kp"] assms(3) obtain i where
    t: "tree_wf t" "\<not> frozen t" "0 \<le> i" "i < num_leaves t" "num_leaves (g_tree A) \<le> num_leaves t"
      "get_node (g_tree A) (2 * i) = None" "get_node t (2 * i) = Some (Leaf (leaf_node kp))"
      "\<forall>j. j \<noteq> i \<longrightarrow> get_node t (2 * j) = get_node (g_tree A) (2 * j)"
      "\<forall>x p. get_node t x = Some (Parent p) \<longrightarrow> get_node (g_tree A) x = Some (Parent p)"
      "num_leaves t \<le> 2 * num_leaves (g_tree A)" by auto
  have v: "LeafNode_verify_signature C (leaf_node kp) [] 0 = Inr ()"
    using assms(4) by (auto simp: KeyPackage_verify_signature_def)
  then have "LeafNode_verify_signature C (leaf_node kp) (g_group_id A) i = Inr ()"
    by (rule trans [OF key_package_leaf_verify [OF assms(5)]])
  then have "leaves_verify C (g_group_id A) t"
    using t(7,8) wf(3) unfolding leaves_verify_def by (metis Node.inject(1) option.inject)
  moreover have "no_unmerged t" using t(9) wf(2) unfolding no_unmerged_def by blast
  moreover have "g_my_index A < num_leaves t" using assms(1) t(5) by (simp add: member_ok_def holds_leaf_def)
  ultimately show "prepared C A t" using t(1,2) by (simp add: prepared_def tree_good_def)
  show "\<exists>i. 0 \<le> i \<and> i < num_leaves t \<and> get_node t (2 * i) = Some (Leaf (leaf_node kp)) \<and> get_node (g_tree A) (2 * i) = None
       \<and> num_leaves t \<le> 2 * num_leaves (g_tree A)
       \<and> (\<forall>j. j \<noteq> i \<longrightarrow> get_node t (2 * j) = get_node (g_tree A) (2 * j))"
    using t by blast
qed

lemma psk_secret_empty: "psk_secret (Some []) = psk_secret None"
  by (simp add: psk_secret_def)

lemma joiner_schedule_derived:
  assumes "KeySchedule_derive init_sec commit_secret gc None = Inr k"
  shows "joiner_schedule (joiner_secret k) gc (Some []) = Inr k"
proof -
  from assms obtain e j m where d: "derive_epoch_secret init_sec commit_secret gc None = Inr (e, j, m)"
    and k: "from_epoch_secret e j = Inr k" by (auto simp: KeySchedule_derive_def)
  with from_epoch_secret_fields(1) [OF k] show ?thesis
    by (auto simp: joiner_schedule_def derive_epoch_secret_def NH_def Let_def psk_secret_empty)
qed

lemma find_leaf_spec:
  assumes "k < length ns" "even (i + k)" "ns ! k = Some (Leaf l)" "signature_key l = pub"
    and "\<And>m l'. m < k \<Longrightarrow> even (i + m) \<Longrightarrow> ns ! m = Some (Leaf l') \<Longrightarrow> signature_key l' \<noteq> pub"
  shows "find_leaf pub i ns = Some (int ((i + k) div 2))"
  using assms
proof (induction ns arbitrary: i k)
  case (Cons x ns)
  show ?case
  proof (cases k)
    case 0
    with Cons.prems(2-4) show ?thesis by simp
  next
    case (Suc m)
    have "find_leaf pub (i + 1) ns = Some (int ((i + 1 + m) div 2))"
      using Cons.prems(1-4) Cons.prems(5) [of "Suc _"] Suc by (intro Cons.IH) auto
    moreover have "find_leaf pub i (x # ns) = find_leaf pub (i + 1) ns"
      using Cons.prems(5) [of 0] Suc by (auto split: option.splits Node.splits)
    ultimately show ?thesis using Suc by simp
  qed
qed simp

text \<open>The signature key of the joiner stands at one leaf of the tree only.\<close>

definition sole_signer :: "RatchetTree \<Rightarrow> int \<Rightarrow> bytes \<Rightarrow> bool" where
  "sole_signer t i pub \<longleftrightarrow> (\<forall>j l. get_node t (2 * j) = Some (Leaf l) \<longrightarrow> j \<noteq> i \<longrightarrow> signature_key l \<noteq> pub)"

lemma find_leaf_sole:
  assumes "get_node t (2 * i) = Some (Leaf l)" "signature_key l = pub" "sole_signer t i pub"
  shows "find_leaf pub 0 (nodes t) = Some i"
proof -
  have i: "0 \<le> i" "nat (2 * i) < length (nodes t)" "nodes t ! nat (2 * i) = Some (Leaf l)"
    using assms(1) by (auto simp: get_node_def split: if_splits)
  have "signature_key l' \<noteq> pub" if "m < nat (2 * i)" "even (0 + m)" "nodes t ! m = Some (Leaf l')" for m l'
  proof -
    from that(2) obtain j where "m = 2 * j" by auto
    with that i have "get_node t (2 * int j) = Some (Leaf l')" "int j \<noteq> i" by (auto simp: get_node_def nat_mult_distrib)
    with assms(3) show ?thesis by (auto simp: sole_signer_def)
  qed
  then have "find_leaf pub 0 (nodes t) = Some (int ((0 + nat (2 * i)) div 2))"
    using i assms(2) by (intro find_leaf_spec [of _ _ _ l]) (auto simp: even_nat_iff)
  then show ?thesis using i(1) by (simp add: nat_mult_distrib)
qed

lemma find_tree_extension_first:
  assumes "tls_extension (0x0002, b) = Inr raw" "RatchetTree_from_bytes b = Inr t"
  shows "find_tree_extension raw 0 = Some (Inr (Some t))"
proof -
  have r: "read_extension raw 0 = Inr ((0x0002, b), length raw)"
    using reads_start [OF roundtripsD [OF rt_extension assms(1)], of "[]"] by simp
  with progressesD [OF progresses_extension r] assms(2) show ?thesis
    by (subst find_tree_extension.simps) simp
qed

text \<open>From the Welcome to the decrypted group information.\<close>

lemma join_opens:
  assumes laws: "dh_agrees C" "gcm_decrypts C"
    and w: "build_welcome C eph g kp t s th = Inr w" and pub: "init_key_pub kp = kem_public_bytes C kem"
  obtains ctx tb gi gib where
    "make_group_context (g_group_id g) (ep_epoch_id s) t th = Inr ctx" "RatchetTree_to_bytes t = Inr tb"
    "GroupInfo_build_and_sign C ctx (hmac_digest sha256 (confirmation_key (ep_key_schedule s)) th) (g_my_index g)
       (g_my_sig_key g) (Some [(0x0002, tb)]) = Inr gi"
    "GroupInfo_to_bytes gi = Inr gib"
    "join C w sk kem psks None = join_group_info C sk kem (joiner_secret (ep_key_schedule s)) [] None gib"
proof -
  let ?j = "joiner_secret (ep_key_schedule s)" and ?gs = "\<lparr>gs_joiner_secret = joiner_secret (ep_key_schedule s), gs_path_secret = None, gs_psks = []\<rparr>"
  from w obtain ctx tb gi psk wk wn gib egi gsb info enc ct r where h:
    "make_group_context (g_group_id g) (ep_epoch_id s) t th = Inr ctx" "RatchetTree_to_bytes t = Inr tb"
    "GroupInfo_build_and_sign C ctx (hmac_digest sha256 (confirmation_key (ep_key_schedule s)) th) (g_my_index g)
       (g_my_sig_key g) (Some [(0x0002, tb)]) = Inr gi"
    "psk_secret None = Inr psk" "derive_welcome_key ?j (Some psk) = Inr wk" "derive_welcome_nonce ?j (Some psk) = Inr wn"
    "GroupInfo_to_bytes gi = Inr gib" "gcm_encrypt C wk wn gib [] = Inr egi" "GroupSecrets_to_bytes ?gs = Inr gsb"
    "egs_info egi = Inr info" "hpke_seal C eph (init_key_pub kp) gsb [] 0 info = Inr (enc, ct)"
    "w_encrypted_group_secrets w = [\<lparr>egs_new_member = r, egs_kem_output = enc, egs_ciphertext = ct\<rparr>]"
    "w_encrypted_group_info w = egi"
    by (auto simp: build_welcome_def Let_def)
  have o: "hpke_open C kem enc ct [] 0 info = Inr gsb" using hpke_open_seal [OF laws] h(11) pub by simp
  have gs: "GroupSecrets_from_bytes gsb = Inr ?gs"
    using GroupSecrets_from_to [OF h(9), of "[]"] by (simp add: gs_canon_def)
  have "decrypt_group_info C ?j psk egi = Inr gib"
    using h(5,6,8) laws(2) by (simp add: decrypt_group_info_def welcome_decrypt_def gcm_decrypts_def)
  then have "join C w sk kem psks None = join_group_info C sk kem ?j [] None gib"
    using h(4,10,12,13) o gs by (simp add: join_def match_psks_def psk_secret_empty)
  then show ?thesis using that h(1,2,3,7) by blast
qed

text \<open>A newcomer reaches the state of the group.\<close>

lemma join_agrees:
  assumes laws: "crypto_laws C" and w: "build_welcome C eph g kp t s th = Inr w"
    and s: "s = EpochState_init (g_group_id g) e t k" "KeySchedule_derive i c cb None = Inr k"
      "make_group_context (g_group_id g) e t th = Inr ctx" "GroupContext_to_bytes ctx = Inr cb"
    and t: "tree_wf t" "get_node t (2 * g_my_index g) = Some (Leaf lg)" "signature_key lg = sig_public_bytes C (g_my_sig_key g)"
    and j: "get_node t (2 * ji) = Some (Leaf lj)" "signature_key lj = sig_public_bytes C sk" "sole_signer t ji (sig_public_bytes C sk)"
    and pub: "init_key_pub kp = kem_public_bytes C kem"
  shows "join C w sk kem psks None = Inr (MLSGroup_init (EpochState_init (g_group_id g) e (tree_canon t) k) ji sk kem
     (compute_interim_transcript_hash th (hmac_digest sha256 (confirmation_key k) th)))"
proof -
  have laws': "signatures_verify C" "dh_agrees C" "gcm_decrypts C" using laws by (simp_all add: crypto_laws_def)
  have sk: "ep_key_schedule s = k" "ep_epoch_id s = e" by (simp_all add: s(1) EpochState_init_def)
  let ?tag = "hmac_digest sha256 (confirmation_key k) th"
  obtain ctx' tb gi gib where c: "make_group_context (g_group_id g) e t th = Inr ctx'"
    and o: "RatchetTree_to_bytes t = Inr tb"
    "GroupInfo_build_and_sign C ctx' ?tag (g_my_index g) (g_my_sig_key g) (Some [(0x0002, tb)]) = Inr gi"
    "GroupInfo_to_bytes gi = Inr gib"
    "join C w sk kem psks None = join_group_info C sk kem (joiner_secret k) [] None gib"
    using join_opens [OF laws'(2,3) w pub, of sk psks] unfolding sk by blast
  from c s(3) have [simp]: "ctx' = ctx" by simp
  note G = GroupInfo_signed [OF o(2) laws'(1)]
  let ?gi = "gi\<lparr>gi_raw_data := gib\<rparr>"
  have gi: "GroupInfo_from_bytes gib = Inr ?gi" using GroupInfo_from_to [OF o(3), of "[]"] by simp
  have "tls_extension (0x0002, tb) = Inr (gi_extensions_bytes gi)" using G(5) by simp
  from find_tree_extension_first [OF this RatchetTree_from_to [OF t(1) o(1)]]
  have ext: "find_tree_extension (gi_extensions_bytes ?gi) 0 = Some (Inr (Some (tree_canon t)))" by simp
  have th: "tree_hash (tree_canon t) = Inr (gc_tree_hash ctx)" "gc_group_id ctx = g_group_id g" "gc_epoch ctx = e"
    "gc_confirmed_transcript_hash ctx = th"
    using s(3) tree_hash_equiv [of "tree_canon t" t] t(1) by (auto simp: make_group_context_def)
  have com: "get_node (tree_canon t) (2 * g_my_index g) = Some (Leaf (leaf_canon lg))" using t(2) by (simp add: get_node_canon)
  have ver: "GroupInfo_verify C ?gi (sig_public_bytes C (g_my_sig_key g)) = Inr ()"
    using G(1) by (simp add: GroupInfo_verify_def)
  have "sole_signer (tree_canon t) ji (sig_public_bytes C sk)"
    using j(3) unfolding sole_signer_def by (auto simp: get_node_canon node_canon_leaf)
  then have fl: "find_leaf (sig_public_bytes C sk) 0 (nodes (tree_canon t)) = Some ji"
    using j(1,2) by (intro find_leaf_sole [of _ _ "leaf_canon lj"]) (simp_all add: get_node_canon)
  have "joiner_schedule (joiner_secret k) cb (Some []) = Inr k" by (rule joiner_schedule_derived [OF s(2)])
  then show ?thesis
    unfolding o(4) join_group_info_def gi using ext th com ver fl G(2-4) s(4) t(3) by (simp add: Let_def)
qed

section \<open>Commits over the wire\<close>

lemma RatchetTree_to_bytes_canon [simp]: "RatchetTree_to_bytes (tree_canon t) = RatchetTree_to_bytes t"
  by (simp add: RatchetTree_to_bytes_def tree_canon_def comp_def)

lemma KeyPackage_to_bytes_canon [simp]: "KeyPackage_to_bytes (kp_canon kp) = KeyPackage_to_bytes kp"
  by (simp add: KeyPackage_to_bytes_def kp_canon_def del: cat_res.simps)

lemma UpdatePath_to_bytes_canon [simp]: "UpdatePath_to_bytes (up_canon p) = UpdatePath_to_bytes p"
  by (simp add: UpdatePath_to_bytes_def up_canon_def)

lemma body_bytes_canon:
  assumes "gu_epoch_id v = gu_epoch_id u" "gu_tree v = tree_canon (gu_tree u)"
    "gu_encrypted_commit_secrets v = sort (gu_encrypted_commit_secrets u)"
    "gu_committer_index v = gu_committer_index u" "gu_update_path v = map_option up_canon (gu_update_path u)"
  shows "GroupUpdate_body_bytes v = GroupUpdate_body_bytes u"
proof -
  have "sort (sort (gu_encrypted_commit_secrets u)) = sort (gu_encrypted_commit_secrets u)"
    using sort_key_id_if_sorted [of "\<lambda>x. x" "sort (gu_encrypted_commit_secrets u)"] by simp
  then show ?thesis unfolding GroupUpdate_body_bytes_def assms
    by (cases "gu_update_path u") (simp_all del: cat_res.simps)
qed

lemma map_of_sort: "distinct (map fst kvs) \<Longrightarrow> map_of (sort kvs) = map_of kvs"
  for kvs :: "(bytes \<times> bytes) list"
  by (intro map_of_eqI) (auto simp: distinct_fst_sort map_of_eq_Some_iff dest: map_of_SomeD)

lemma seal_to_leaves_distinct:
  assumes "seal_to_leaves C eph ctx s mine i ns d = Inr d'" "distinct (map fst d)"
  shows "distinct (map fst d')"
  using assms
proof (induction ns arbitrary: i d)
  case (Cons node ns)
  from Cons.prems(1) show ?case
  proof (cases rule: seal_to_leaves_step)
    case skip
    from Cons.IH [OF skip(1) Cons.prems(2)] show ?thesis .
  next
    case (seal l q info enc ct)
    from Cons.IH [OF seal(7) distinct_update [OF Cons.prems(2)]] show ?thesis .
  qed
qed simp

text \<open>Sent as an \<open>MLSMessage\<close> and read back, a commit is the same commit.\<close>

lemma delivered_same_commit:
  assumes log: "commit_log C ent A t rk ctx upns secrets sc cf" and wf: "tree_wf (rk_tree rk)"
    and u: "u = attach_context A sc cf (cf_tag cf)" and m: "wrap_commit u = Inr m" "MLSMessage_to_bytes m = Inr bs"
  shows "\<exists>v. bindR (MLSMessage_from_bytes bs) unwrap_commit = Inr v \<and> same_commit u v"
proof -
  have L: "sign_commit C A (g_epoch_id A + 1) (rk_tree rk) secrets \<lparr>up_leaf_key_package = rk_key_package rk, up_nodes = upns\<rparr> = Inr sc"
    "confirm_commit A (g_epoch_id A + 1) (rk_tree rk) (commit_secret_of (rk_path_secrets rk) (ent_leaf_path_secret ent))
       (sc_transcript_hash sc) = Inr cf"
    "seal_to_leaves C (ent_leaf_eph ent) ctx (commit_secret_of (rk_path_secrets rk) (ent_leaf_path_secret ent))
       (2 * g_my_index A) 0 (nodes (rk_tree rk)) [] = Inr secrets"
    using log by (simp_all add: commit_log_def)
  obtain sg where sc: "sc_update sc = (GroupUpdate_init (g_epoch_id A + 1) (rk_tree rk) secrets (g_my_index A) [] (g_group_id A)
          (Some \<lparr>up_leaf_key_package = rk_key_package rk, up_nodes = upns\<rparr>))\<lparr>gu_signature := sg\<rparr>"
    "make_group_context (g_group_id A) (g_epoch_id A) (g_tree A) (g_interim_transcript_hash A) = Inr (sc_old_ctx sc)"
    using sign_commit_facts [OF L(1)] by metis
  then have s: "gu_tree (sc_update sc) = rk_tree rk"
    "gu_encrypted_commit_secrets (sc_update sc) = secrets" "gu_group_id (sc_update sc) = g_group_id A"
    by (simp_all add: GroupUpdate_init_def)
  have d: "distinct (map fst secrets)" using seal_to_leaves_distinct [OF L(3)] by simp
  have ut: "gu_tree u = rk_tree rk" "gu_encrypted_commit_secrets u = secrets" "gu_old_group_ctx u = Some (sc_old_ctx sc)"
    "gu_confirmation_key u = Some (confirmation_key (ep_key_schedule (cf_state cf)))"
    "gu_transcript_hash u = Some (sc_transcript_hash sc)" "gu_confirmation_tag u = Some (cf_tag cf)" "gu_group_id u = g_group_id A"
    using s by (simp_all add: u attach_context_def)
  let ?v = "\<lambda>tag. (gu_canon u)\<lparr>gu_group_id := gc_group_id (sc_old_ctx sc),
                gu_confirmation_tag := Some (hmac_digest sha256 (confirmation_key (ep_key_schedule (cf_state cf))) (sc_transcript_hash sc)),
                gu_membership_tag := Some tag\<rparr>"
  from Commits.commit_delivery [OF m] ut wf d obtain tag where
    v: "gu_membership_tag u = Some tag" "bindR (MLSMessage_from_bytes bs) unwrap_commit = Inr (?v tag)" by auto
  have gid: "gc_group_id (sc_old_ctx sc) = g_group_id A" using sc(2) by (auto simp: make_group_context_def dest!: sym [of _ "sc_old_ctx sc"])
  have b: "GroupUpdate_body_bytes (?v tag) = GroupUpdate_body_bytes u"
    by (rule body_bytes_canon) (simp_all add: gu_canon_def GroupUpdate_init_def)
  have "same_commit u (?v tag)"
    unfolding same_commit_def b using v(1) ut gid confirm_commit_tag(1) [OF L(2)] d
    by (simp add: gu_canon_def GroupUpdate_init_def map_of_sort option.map_comp comp_def up_canon_def)
  with v(2) show ?thesis by blast
qed

end
