(* ===== verification/Protocol.thy ===== *)
theory Protocol
  imports Members
begin

text \<open>
  The protocol of a group as an interface, what follows of it for the list of all members, and the
  operations of \<open>MLSGroup\<close> over encoded messages as its model.
\<close>

section \<open>The protocol as an interface\<close>

text \<open>
  A group is the list of its members. Every pair of members is in step, each member is fit to commit.
\<close>

definition all_in_step :: "('m \<Rightarrow> bool) \<Rightarrow> ('m \<Rightarrow> 'm \<Rightarrow> bool) \<Rightarrow> 'm list \<Rightarrow> bool" where
  "all_in_step fit in_step ms \<longleftrightarrow> (\<forall>m\<in>set ms. fit m)
     \<and> (\<forall>i<length ms. \<forall>j<length ms. i \<noteq> j \<longrightarrow> in_step (ms ! i) (ms ! j))"

definition all_receive :: "('m \<Rightarrow> 'c \<Rightarrow> 'm \<Rightarrow> bool) \<Rightarrow> 'm list \<Rightarrow> nat \<Rightarrow> 'c \<Rightarrow> 'm \<Rightarrow> 'm list \<Rightarrow> bool" where
  "all_receive receives ms i c a' ms' \<longleftrightarrow> length ms' = length ms \<and> ms' ! i = a'
     \<and> (\<forall>j<length ms. j \<noteq> i \<longrightarrow> receives (ms ! j) c (ms' ! j))"

locale group_protocol =
  fixes fit :: "'m \<Rightarrow> bool" and in_step :: "'m \<Rightarrow> 'm \<Rightarrow> bool"
    and commits :: "'m \<Rightarrow> 'c \<Rightarrow> 'm \<Rightarrow> bool" and receives :: "'m \<Rightarrow> 'c \<Rightarrow> 'm \<Rightarrow> bool"
    and invites :: "'m \<Rightarrow> 'c \<Rightarrow> 'w \<Rightarrow> 'm \<Rightarrow> bool" and joins :: "'w \<Rightarrow> 'm \<Rightarrow> bool"
  assumes in_step_sym: "in_step a b \<Longrightarrow> in_step b a"
    and commit_fit: "fit a \<Longrightarrow> commits a c a' \<Longrightarrow> fit a'"
    and commit_received: "fit a \<Longrightarrow> in_step a b \<Longrightarrow> commits a c a' \<Longrightarrow> \<exists>b'. receives b c b'"
    and commit_in_step: "fit a \<Longrightarrow> in_step a b \<Longrightarrow> commits a c a' \<Longrightarrow> receives b c b' \<Longrightarrow> fit b' \<and> in_step a' b'"
    and peers_in_step: "fit a \<Longrightarrow> in_step a b \<Longrightarrow> in_step a d \<Longrightarrow> in_step b d \<Longrightarrow> commits a c a' \<Longrightarrow>
        receives b c b' \<Longrightarrow> receives d c d' \<Longrightarrow> in_step b' d'"
    and invitation: "invites a c w a' \<Longrightarrow> commits a c a'"
    and welcomed: "fit a \<Longrightarrow> invites a c w a' \<Longrightarrow> \<exists>n. joins w n"
    and newcomer: "fit a \<Longrightarrow> invites a c w a' \<Longrightarrow> joins w n \<Longrightarrow> fit n \<and> in_step a' n"
    and newcomer_peer: "fit a \<Longrightarrow> in_step a b \<Longrightarrow> invites a c w a' \<Longrightarrow> joins w n \<Longrightarrow> receives b c b' \<Longrightarrow> in_step b' n"
begin

lemma everyone_can_receive:
  assumes "all_in_step fit in_step ms" "i < length ms" "commits (ms ! i) c a'"
  shows "\<exists>ms'. all_receive receives ms i c a' ms'"
proof -
  have "\<exists>b'. j \<noteq> i \<longrightarrow> receives (ms ! j) c b'" if "j < length ms" for j
    using assms commit_received [of "ms ! i" "ms ! j"] that unfolding all_in_step_def by (metis nth_mem)
  then obtain f where f: "\<And>j. j < length ms \<Longrightarrow> j \<noteq> i \<Longrightarrow> receives (ms ! j) c (f j)" by metis
  show ?thesis
    by (rule exI [of _ "map (\<lambda>j. if j = i then a' else f j) [0..<length ms]"])
      (use f assms(2) in \<open>simp add: all_receive_def\<close>)
qed

lemma commit_keeps_group:
  assumes "all_in_step fit in_step ms" "i < length ms" "commits (ms ! i) c a'" "all_receive receives ms i c a' ms'"
  shows "all_in_step fit in_step ms'"
proof -
  have fit: "fit m" if "m \<in> set ms" for m using assms(1) that by (simp add: all_in_step_def)
  have st: "in_step (ms ! j) (ms ! k)" if "j < length ms" "k < length ms" "j \<noteq> k" for j k
    using assms(1) that by (simp add: all_in_step_def)
  have ms': "length ms' = length ms" "ms' ! i = a'" "\<And>j. j < length ms \<Longrightarrow> j \<noteq> i \<Longrightarrow> receives (ms ! j) c (ms' ! j)"
    using assms(4) by (simp_all add: all_receive_def)
  note fi = fit [OF nth_mem [OF assms(2)]]
  have one: "fit (ms' ! j) \<and> in_step a' (ms' ! j)" if "j < length ms" "j \<noteq> i" for j
    using commit_in_step [OF fi st [OF assms(2) that(1)] assms(3) ms'(3)] that by simp
  have two: "in_step (ms' ! j) (ms' ! k)" if "j < length ms" "k < length ms" "j \<noteq> k" for j k
    using one [of j] one [of k] in_step_sym [of a'] ms'(2)
      peers_in_step [OF fi st [OF assms(2) that(1)] st [OF assms(2) that(2)] st [OF that] assms(3) ms'(3) ms'(3)] that
    by (cases "j = i"; cases "k = i") auto
  have "fit (ms' ! j)" if "j < length ms" for j
    using one [OF that] commit_fit [OF fi assms(3)] ms'(2) by (cases "j = i") auto
  with two ms'(1) show ?thesis by (auto simp: all_in_step_def in_set_conv_nth)
qed

lemma invitation_keeps_group:
  assumes "all_in_step fit in_step ms" "i < length ms" "invites (ms ! i) c w a'" "joins w n" "all_receive receives ms i c a' ms'"
  shows "all_in_step fit in_step (ms' @ [n])"
proof -
  have g: "all_in_step fit in_step ms'" by (rule commit_keeps_group [OF assms(1,2) invitation [OF assms(3)] assms(5)])
  have ms': "length ms' = length ms" "ms' ! i = a'" "\<And>j. j < length ms \<Longrightarrow> j \<noteq> i \<Longrightarrow> receives (ms ! j) c (ms' ! j)"
    using assms(5) by (simp_all add: all_receive_def)
  have fi: "fit (ms ! i)" using assms(1,2) by (simp add: all_in_step_def)
  have "in_step (ms' ! j) n" if "j < length ms" for j
  proof (cases "j = i")
    case False
    with assms(1,2) that have "in_step (ms ! i) (ms ! j)" by (simp add: all_in_step_def)
    from newcomer_peer [OF fi this assms(3,4) ms'(3) [OF that False]] show ?thesis .
  qed (use newcomer [OF fi assms(3,4)] ms'(2) in simp)
  with g newcomer [OF fi assms(3,4)] in_step_sym ms'(1) show ?thesis
    by (auto simp: all_in_step_def nth_append)
qed

lemma everyone_can_join:
  "all_in_step fit in_step ms \<Longrightarrow> i < length ms \<Longrightarrow> invites (ms ! i) c w a' \<Longrightarrow> \<exists>n. joins w n"
  by (rule welcomed) (simp_all add: all_in_step_def)

end

section \<open>The protocol of the program\<close>

definition fit_member :: "crypto \<Rightarrow> MLSGroup \<Rightarrow> bool" where
  "fit_member C g \<longleftrightarrow> crypto_laws C \<and> member_ok C g"

definition members_in_step :: "crypto \<Rightarrow> MLSGroup \<Rightarrow> MLSGroup \<Rightarrow> bool" where
  "members_in_step C a b \<longleftrightarrow> same_epoch a b \<and> member_ok C a \<and> member_ok C b \<and> g_my_index a \<noteq> g_my_index b"

text \<open>An update on the wire; references in the new tree identify keys.\<close>

definition on_wire :: "GroupUpdate \<Rightarrow> bytes \<Rightarrow> bool" where
  "on_wire u bs \<longleftrightarrow> bindR (wrap_commit u) MLSMessage_to_bytes = Inr bs \<and> refs_identify (gu_tree u)"

text \<open>A newcomer whose key package carries one KEM key as init key and as leaf key.\<close>

definition newcomer_keys :: "crypto \<Rightarrow> KeyPackage \<Rightarrow> SignatureKey \<Rightarrow> KemKey \<Rightarrow> bool" where
  "newcomer_keys C kp sk kem \<longleftrightarrow> leaf_node_source (leaf_node kp) = LEAF_NODE_SOURCE_KEY_PACKAGE
     \<and> signature_key (leaf_node kp) = sig_public_bytes C sk
     \<and> encryption_key (leaf_node kp) = kem_public_bytes C kem \<and> init_key_pub kp = kem_public_bytes C kem"

definition sends_invitation :: "crypto \<Rightarrow> MLSGroup \<Rightarrow> bytes \<Rightarrow> Welcome \<times> SignatureKey \<times> KemKey \<Rightarrow> MLSGroup \<Rightarrow> bool" where
  "sends_invitation C a bs = (\<lambda>(w, sk, kem) a'. \<exists>ent kp u. fst (add_member C ent a kp) = Inr (a', w, u) \<and> on_wire u bs
     \<and> newcomer_keys C kp sk kem \<and> num_leaves (g_tree a) < 2 ^ 31
     \<and> (\<forall>x l. get_node (g_tree a) x = Some (Leaf l) \<longrightarrow> signature_key l \<noteq> sig_public_bytes C sk))"

definition sends_commit :: "crypto \<Rightarrow> MLSGroup \<Rightarrow> bytes \<Rightarrow> MLSGroup \<Rightarrow> bool" where
  "sends_commit C a bs a' \<longleftrightarrow> (\<exists>ent u. fst (update_key C ent a) = Inr (a', u) \<and> on_wire u bs)
     \<or> (\<exists>w. sends_invitation C a bs w a')"

definition receives_commit :: "crypto \<Rightarrow> MLSGroup \<Rightarrow> bytes \<Rightarrow> MLSGroup \<Rightarrow> bool" where
  "receives_commit C b bs b' \<longleftrightarrow>
     (\<exists>v. bindR (MLSMessage_from_bytes bs) unwrap_commit = Inr v \<and> fst (process_update C b v) = Inr b')"

definition joins_group :: "crypto \<Rightarrow> Welcome \<times> SignatureKey \<times> KemKey \<Rightarrow> MLSGroup \<Rightarrow> bool" where
  "joins_group C = (\<lambda>(w, sk, kem) n. join C w sk kem None None = Inr n)"

lemma update_key_log:
  assumes "fst (update_key C ent A) = Inr (A', u)" "tree_wf (g_tree A)"
  obtains rk ctx upns secrets sc cf where
    "commit_log C ent A ((g_tree A)\<lparr>frozen := False\<rparr>) rk ctx upns secrets sc cf"
    "A' = next_group A cf (ent_committer_kem ent)" "u = attach_context A sc cf (cf_tag cf)"
proof -
  from assms have "commit_tree C ent A ((g_tree A)\<lparr>frozen := False\<rparr>) (ent_committer_kem ent) = Inr (A', u)"
    by (simp add: update_key_def copy_tree_same split: sum.splits)
  then show ?thesis by (rule commit_tree_log) (rule that)
qed

lemma add_member_commits:
  assumes "fst (add_member C ent A kp) = Inr r"
  obtains ref where "make_kp_ref kp = Inr ref" "ref \<notin> g_consumed_key_packages A"
    "add_commit C ent (A\<lparr>g_consumed_key_packages := insert ref (g_consumed_key_packages A)\<rparr>) kp = Inr r"
  using assms by (auto simp: add_member_def Let_def split: sum.splits if_splits)

lemma consumed_irrelevant [simp]:
  "same_epoch (A\<lparr>g_consumed_key_packages := S\<rparr>) B = same_epoch A B"
  "member_ok C (A\<lparr>g_consumed_key_packages := S\<rparr>) = member_ok C A"
  "prepared C (A\<lparr>g_consumed_key_packages := S\<rparr>) t = prepared C A t"
  by (simp_all add: same_epoch_def member_ok_def holds_leaf_def prepared_def)

text \<open>
  What the rest needs of a commit, whichever operation made it: the log over a prepared tree in
  which the leaves of all members stayed where they were.
\<close>

definition commit_by :: "crypto \<Rightarrow> MLSGroup \<Rightarrow> MLSGroup \<Rightarrow> GroupUpdate \<Rightarrow> bool" where
  "commit_by C A A' u \<longleftrightarrow> (\<exists>S ent t rk ctx upns secrets sc cf.
     commit_log C ent (A\<lparr>g_consumed_key_packages := S\<rparr>) t rk ctx upns secrets sc cf \<and> prepared C A t
     \<and> (\<forall>j. get_node (g_tree A) (2 * j) \<noteq> None \<longrightarrow> get_node t (2 * j) = get_node (g_tree A) (2 * j))
     \<and> A' = next_group (A\<lparr>g_consumed_key_packages := S\<rparr>) cf (ent_committer_kem ent)
     \<and> u = attach_context (A\<lparr>g_consumed_key_packages := S\<rparr>) sc cf (cf_tag cf))"

lemma update_key_commit_by:
  assumes "fst (update_key C ent A) = Inr (A', u)" "member_ok C A"
  shows "commit_by C A A' u"
proof -
  have "tree_wf (g_tree A)" using assms(2) by (simp add: member_ok_def tree_good_def)
  from update_key_log [OF assms(1) this] obtain rk ctx upns secrets sc cf where
    l: "commit_log C ent A ((g_tree A)\<lparr>frozen := False\<rparr>) rk ctx upns secrets sc cf"
    "A' = next_group A cf (ent_committer_kem ent)" "u = attach_context A sc cf (cf_tag cf)" .
  have "\<forall>j. get_node (g_tree A) (2 * j) \<noteq> None \<longrightarrow> get_node ((g_tree A)\<lparr>frozen := False\<rparr>) (2 * j) = get_node (g_tree A) (2 * j)"
    by (simp add: get_node_def)
  moreover have "A\<lparr>g_consumed_key_packages := g_consumed_key_packages A\<rparr> = A" by simp
  ultimately show ?thesis using l prepared_update [OF assms(2)] unfolding commit_by_def by metis
qed

lemma add_member_log:
  assumes "fst (add_member C ent A kp) = Inr (A', w, u)" "member_ok C A" "signatures_verify C" "num_leaves (g_tree A) < 2 ^ 31"
    and "leaf_node_source (leaf_node kp) = LEAF_NODE_SOURCE_KEY_PACKAGE"
  obtains ref t i rk ctx upns secrets sc cf where
    "make_kp_ref kp = Inr ref" "ref \<notin> g_consumed_key_packages A"
    "prepared C A t" "0 \<le> i \<and> i < num_leaves t \<and> get_node t (2 * i) = Some (Leaf (leaf_node kp))"
    "num_leaves t \<le> 2 * num_leaves (g_tree A)" "get_node (g_tree A) (2 * i) = None" "\<forall>j. j \<noteq> i \<longrightarrow> get_node t (2 * j) = get_node (g_tree A) (2 * j)"
    "commit_log C ent (A\<lparr>g_consumed_key_packages := insert ref (g_consumed_key_packages A)\<rparr>) t rk ctx upns secrets sc cf"
    "A' = next_group (A\<lparr>g_consumed_key_packages := insert ref (g_consumed_key_packages A)\<rparr>) cf (ent_committer_kem ent)"
    "u = attach_context (A\<lparr>g_consumed_key_packages := insert ref (g_consumed_key_packages A)\<rparr>) sc cf (cf_tag cf)"
    "build_welcome C (ent_welcome_eph ent) (A\<lparr>g_consumed_key_packages := insert ref (g_consumed_key_packages A)\<rparr>) kp
       (rk_tree rk) (cf_state cf) (sc_transcript_hash sc) = Inr w"
proof -
  from add_member_commits [OF assms(1)] obtain ref where ref: "make_kp_ref kp = Inr ref" "ref \<notin> g_consumed_key_packages A"
    "add_commit C ent (A\<lparr>g_consumed_key_packages := insert ref (g_consumed_key_packages A)\<rparr>) kp = Inr (A', w, u)" .
  let ?A = "A\<lparr>g_consumed_key_packages := insert ref (g_consumed_key_packages A)\<rparr>"
  from add_commit_log [OF ref(3)] obtain t rk ctx upns secrets sc cf where
    l: "place_member (g_tree A) (leaf_node kp) = Inr t" "KeyPackage_verify_signature C kp = Inr ()"
    "tree_wf (rk_tree rk) \<Longrightarrow> commit_log C ent ?A t rk ctx upns secrets sc cf" "rekey_path C ent ?A t = Inr rk"
    "A' = next_group ?A cf (ent_committer_kem ent)" "u = attach_context ?A sc cf (cf_tag cf)"
    "build_welcome C (ent_welcome_eph ent) ?A kp (rk_tree rk) (cf_state cf) (sc_transcript_hash sc) = Inr w"
    by (metis (no_types, lifting) MLSGroup.select_convs(1) MLSGroup.surjective MLSGroup.update_convs(6))
  have p: "prepared C A t" using prepared_add(1) [OF assms(2,4) l(1,2) assms(5)] .
  from prepared_add(2) [OF assms(2,4) l(1,2) assms(5)] obtain i where
    i: "0 \<le> i \<and> i < num_leaves t \<and> get_node t (2 * i) = Some (Leaf (leaf_node kp))"
      "num_leaves t \<le> 2 * num_leaves (g_tree A)"
      "get_node (g_tree A) (2 * i) = None" "\<forall>j. j \<noteq> i \<longrightarrow> get_node t (2 * j) = get_node (g_tree A) (2 * j)" by blast
  from p obtain d where d: "tree_shape t d" by (auto simp: prepared_def tree_good_def tree_wf_def)
  have "tree_wf (rk_tree rk)"
    using rekeyed_tree(3) [OF l(4) d] p assms(2) shape_leaves [OF d] by (simp add: prepared_def tree_good_def member_ok_def holds_leaf_def)
  then show ?thesis using that [OF ref(1,2) p i l(3) l(5,6,7)] by blast
qed

lemma sends_commit_by:
  assumes "sends_commit C A bs A'" "fit_member C A"
  shows "\<exists>u. commit_by C A A' u \<and> on_wire u bs"
proof -
  have ok: "member_ok C A" "signatures_verify C" using assms(2) by (simp_all add: fit_member_def crypto_laws_def)
  from assms(1) consider (update) ent u where "fst (update_key C ent A) = Inr (A', u)" "on_wire u bs"
    | (add) w where "sends_invitation C A bs w A'" by (auto simp: sends_commit_def)
  then show ?thesis
  proof cases
    case update
    with update_key_commit_by ok(1) show ?thesis by blast
  next
    case (add wk)
    obtain w sk kem where wk: "wk = (w, sk, kem)" by (cases wk)
    from add [unfolded wk sends_invitation_def] obtain ent kp u where
      a: "fst (add_member C ent A kp) = Inr (A', w, u)" "on_wire u bs" "num_leaves (g_tree A) < 2 ^ 31"
      "leaf_node_source (leaf_node kp) = LEAF_NODE_SOURCE_KEY_PACKAGE" by (auto simp: newcomer_keys_def)
    show ?thesis
    proof (rule add_member_log [OF a(1) ok a(3,4)])
      fix ref t i rk ctx upns secrets sc cf
      let ?A = "A\<lparr>g_consumed_key_packages := insert ref (g_consumed_key_packages A)\<rparr>"
      assume l: "prepared C A t" "get_node (g_tree A) (2 * i) = None"
        "\<forall>j. j \<noteq> i \<longrightarrow> get_node t (2 * j) = get_node (g_tree A) (2 * j)"
        "commit_log C ent ?A t rk ctx upns secrets sc cf"
        "A' = next_group ?A cf (ent_committer_kem ent)" "u = attach_context ?A sc cf (cf_tag cf)"
      have "\<forall>j. get_node (g_tree A) (2 * j) \<noteq> None \<longrightarrow> get_node t (2 * j) = get_node (g_tree A) (2 * j)"
        using l(2,3) by metis
      with l a(2) show ?thesis unfolding commit_by_def by blast
    qed
  qed
qed

text \<open>A commit over a prepared tree reaches every member whose leaf stayed in place.\<close>

lemma commit_delivered:
  assumes laws: "crypto_laws C" and log: "commit_log C ent A t rk ctx upns secrets sc cf" and A: "member_ok C A" "prepared C A t"
    and B: "same_epoch A B" "member_ok C B" "g_my_index B \<noteq> g_my_index A"
    and kept: "get_node (g_tree A) (2 * g_my_index B) \<noteq> None \<Longrightarrow> get_node t (2 * g_my_index B) = get_node (g_tree A) (2 * g_my_index B)"
    and u: "u = attach_context A sc cf (cf_tag cf)" "on_wire u bs"
  shows "\<exists>B'. receives_commit C B bs B' \<and> same_epoch (next_group A cf kem) B' \<and> member_ok C B' \<and> g_my_index B' = g_my_index B"
proof -
  have A0: "signatures_verify C" "0 \<le> g_my_index A" using laws A(1) by (simp_all add: crypto_laws_def member_ok_def holds_leaf_def)
  from u(2) obtain m where m: "wrap_commit u = Inr m" "MLSMessage_to_bytes m = Inr bs" "refs_identify (gu_tree u)"
    by (auto simp: on_wire_def)
  have ut: "gu_tree u = rk_tree rk"
    using log u(1) by (auto simp: commit_log_def attach_context_def GroupUpdate_init_def elim!: sign_commit_facts)
  from delivered_same_commit [OF log _ u(1) m(1,2)] commit_log_tree(1) [OF log A0(1) A(2) A0(2)] obtain v where
    v: "bindR (MLSMessage_from_bytes bs) unwrap_commit = Inr v" "same_commit u v" by (auto simp: tree_good_def)
  have b: "holds_leaf C (g_tree B) B" using B(2) by (simp add: member_ok_def)
  have "holds_leaf C (g_tree A) B" using holds_leaf_equiv [OF tree_equiv_sym b] B(1) by (simp add: same_epoch_def)
  then have "get_node t (2 * g_my_index B) = get_node (g_tree A) (2 * g_my_index B)" using kept by (auto simp: holds_leaf_def)
  from commit_received [OF laws log A B(1) b B(3) this v(2) [unfolded u(1)] m(3) [unfolded ut], of kem] obtain B' where
    B': "process_commit C B v = Inr B'" "same_epoch (next_group A cf kem) B'" "member_ok C B'" "g_my_index B' = g_my_index B" by blast
  have "receives_commit C B bs B'"
    unfolding receives_commit_def using v(1) B'(1) by (intro exI [of _ v]) (simp add: process_update_def)
  with B'(2-4) show ?thesis by blast
qed

lemma commit_by_delivers:
  assumes "commit_by C A A' u" "fit_member C A" "on_wire u bs"
  shows "fit_member C A' \<and> g_epoch_id A' = g_epoch_id A + 1 \<and> g_group_id A' = g_group_id A \<and> g_my_index A' = g_my_index A"
    and "members_in_step C A B \<Longrightarrow> \<exists>B'. receives_commit C B bs B' \<and> members_in_step C A' B' \<and> g_my_index B' = g_my_index B"
proof -
  from assms(1) obtain S ent t rk ctx upns secrets sc cf where
    l: "commit_log C ent (A\<lparr>g_consumed_key_packages := S\<rparr>) t rk ctx upns secrets sc cf" "prepared C A t"
     "\<forall>j. get_node (g_tree A) (2 * j) \<noteq> None \<longrightarrow> get_node t (2 * j) = get_node (g_tree A) (2 * j)"
     "A' = next_group (A\<lparr>g_consumed_key_packages := S\<rparr>) cf (ent_committer_kem ent)"
     "u = attach_context (A\<lparr>g_consumed_key_packages := S\<rparr>) sc cf (cf_tag cf)"
    by (auto simp: commit_by_def)
  let ?A = "A\<lparr>g_consumed_key_packages := S\<rparr>"
  have A: "crypto_laws C" "signatures_verify C" "member_ok C ?A" "prepared C ?A t" "0 \<le> g_my_index ?A"
    using assms(2) l(2) by (simp_all add: fit_member_def crypto_laws_def member_ok_def holds_leaf_def)
  have nx: "member_ok C A'" "g_epoch_id A' = g_epoch_id A + 1" "g_group_id A' = g_group_id A" "g_my_index A' = g_my_index A"
    using committer_ok [OF l(1) A(2,4,5)] by (simp_all add: l(4)) (simp add: next_group_def MLSGroup_init_def)
  then show "fit_member C A' \<and> g_epoch_id A' = g_epoch_id A + 1 \<and> g_group_id A' = g_group_id A \<and> g_my_index A' = g_my_index A"
    using A(1) by (simp add: fit_member_def)
  show "\<exists>B'. receives_commit C B bs B' \<and> members_in_step C A' B' \<and> g_my_index B' = g_my_index B"
    if B: "members_in_step C A B"
  proof -
    have b: "same_epoch ?A B" "member_ok C B" "g_my_index B \<noteq> g_my_index ?A" using B by (auto simp: members_in_step_def)
    have "get_node (g_tree ?A) (2 * g_my_index B) \<noteq> None \<Longrightarrow> get_node t (2 * g_my_index B) = get_node (g_tree ?A) (2 * g_my_index B)"
      using l(3) by simp
    from commit_delivered [OF A(1) l(1) A(3,4) b this l(5) assms(3), of "ent_committer_kem ent"] b(3) nx show ?thesis
      by (auto simp: members_in_step_def l(4))
  qed
qed

lemma same_epoch_peers: "same_epoch a b \<Longrightarrow> same_epoch a d \<Longrightarrow> same_epoch b d"
  by (auto simp: same_epoch_def intro: tree_equiv_trans tree_equiv_sym)

lemma receives_commit_det: "receives_commit C b bs b1 \<Longrightarrow> receives_commit C b bs b2 \<Longrightarrow> b1 = b2"
  by (auto simp: receives_commit_def)

text \<open>What a sent commit does to a receiver.\<close>

lemma delivered_in_step:
  assumes "fit_member C a" "members_in_step C a b" "sends_commit C a bs a'" "receives_commit C b bs b'"
  shows "fit_member C b'" "members_in_step C a' b'" "g_my_index b' = g_my_index b"
proof -
  from sends_commit_by [OF assms(3,1)] obtain u where u: "commit_by C a a' u" "on_wire u bs" by blast
  from commit_by_delivers(2) [OF u(1) assms(1) u(2) assms(2)] receives_commit_det [OF assms(4)]
  have "members_in_step C a' b'" "g_my_index b' = g_my_index b" by blast+
  then show "fit_member C b'" "members_in_step C a' b'" "g_my_index b' = g_my_index b"
    using assms(1) by (simp_all add: fit_member_def members_in_step_def)
qed

lemma sends_commit_member:
  assumes "fit_member C a" "sends_commit C a bs a'"
  shows "fit_member C a' \<and> g_epoch_id a' = g_epoch_id a + 1 \<and> g_group_id a' = g_group_id a \<and> g_my_index a' = g_my_index a"
proof -
  from sends_commit_by [OF assms(2,1)] obtain u where u: "commit_by C a a' u" "on_wire u bs" by blast
  from commit_by_delivers(1) [OF u(1) assms(1) u(2)] show ?thesis .
qed

lemma num_leaves_canon: "num_leaves (tree_canon t) = num_leaves t"
  by (simp add: tree_canon_def)

lemma member_ok_init:
  "member_ok C (MLSGroup_init (EpochState_init gid e t k) i sk kem h) \<longleftrightarrow> tree_good C gid t \<and> 0 \<le> i \<and> i < num_leaves t
     \<and> (\<exists>l. get_node t (2 * i) = Some (Leaf l) \<and> encryption_key l = kem_public_bytes C kem \<and> signature_key l = sig_public_bytes C sk)"
  by (simp add: member_ok_def tree_good_def MLSGroup_init_def EpochState_init_def holds_leaf_def leaves_verify_def
      no_unmerged_def get_node_def) (simp add: freeze_def)

text \<open>The newcomer of an invitation.\<close>

lemma added_state:
  assumes ok: "member_ok C A" "crypto_laws C" and a1: "fst (add_member C ent A kp) = Inr (A', w, u)" "num_leaves (g_tree A) < 2 ^ 31"
    and kp: "leaf_node_source (leaf_node kp) = LEAF_NODE_SOURCE_KEY_PACKAGE" "signature_key (leaf_node kp) = sig_public_bytes C sk"
      "init_key_pub kp = kem_public_bytes C kem"
    and new: "\<forall>x l. get_node (g_tree A) x = Some (Leaf l) \<longrightarrow> signature_key l \<noteq> sig_public_bytes C sk"
  obtains n l where "join C w sk kem None None = Inr n" "same_epoch A' n" "member_ok C A'" "g_my_index n \<noteq> g_my_index A'"
    "tree_good C (g_group_id n) (g_tree n)" "0 \<le> g_my_index n" "g_my_index n < num_leaves (g_tree n)"
    "get_node (g_tree n) (2 * g_my_index n) = Some (Leaf l)" "encryption_key l = encryption_key (leaf_node kp)"
    "signature_key l = sig_public_bytes C sk" "g_my_sig_key n = sk" "g_my_kem_key n = kem" "get_node (g_tree A) (2 * g_my_index n) = None"
proof -
  have ok: "member_ok C A" "signatures_verify C" "crypto_laws C" using ok by (simp_all add: crypto_laws_def)
  show ?thesis
  proof (rule add_member_log [OF a1(1) ok(1,2) a1(2) kp(1)])
    fix ref t i rk ctx upns secrets sc cf
    let ?A = "A\<lparr>g_consumed_key_packages := insert ref (g_consumed_key_packages A)\<rparr>"
    assume l: "prepared C A t" "0 \<le> i \<and> i < num_leaves t \<and> get_node t (2 * i) = Some (Leaf (leaf_node kp))"
      "get_node (g_tree A) (2 * i) = None"
      "\<forall>j. j \<noteq> i \<longrightarrow> get_node t (2 * j) = get_node (g_tree A) (2 * j)"
      "commit_log C ent ?A t rk ctx upns secrets sc cf" "A' = next_group ?A cf (ent_committer_kem ent)"
      "build_welcome C (ent_welcome_eph ent) ?A kp (rk_tree rk) (cf_state cf) (sc_transcript_hash sc) = Inr w"
    have A: "prepared C ?A t" "0 \<le> g_my_index ?A" using l(1) ok(1) by (simp_all add: member_ok_def holds_leaf_def)
    note T = commit_log_tree [OF l(5) ok(2) A] and N = committer_ok [OF l(5) ok(2) A]
    have my: "i \<noteq> g_my_index A" using ok(1) l(3) by (auto simp: member_ok_def holds_leaf_def)
    have sole: "sole_signer (rk_tree rk) i (sig_public_bytes C sk)"
      using T(4,6) l(4) assms(8) ok(1) unfolding sole_signer_def by (auto simp: member_ok_def holds_leaf_def split: if_splits)
    let ?cs = "commit_secret_of (rk_path_secrets rk) (ent_leaf_path_secret ent)"
    have cc: "confirm_commit ?A (g_epoch_id A + 1) (rk_tree rk) ?cs (sc_transcript_hash sc) = Inr cf"
      using l(5) by (simp add: commit_log_def)
    then obtain cb k where c: "make_group_context (g_group_id A) (g_epoch_id A + 1) (rk_tree rk) (sc_transcript_hash sc) = Inr (cf_ctx cf)"
      "GroupContext_to_bytes (cf_ctx cf) = Inr cb"
      "KeySchedule_derive (init_secret (g_schedule A)) ?cs cb None = Inr k"
      "cf_state cf = EpochState_init (g_group_id A) (g_epoch_id A + 1) (rk_tree rk) k"
      "cf_interim cf = compute_interim_transcript_hash (sc_transcript_hash sc) (cf_tag cf)"
      by (auto simp: confirm_commit_def advance_epoch_def Let_def)
    have tag: "cf_tag cf = hmac_digest sha256 (confirmation_key k) (sc_transcript_hash sc)"
      using confirm_commit_tag(1) [OF cc] c(4) by (simp add: EpochState_init_def)
    have me: "get_node (rk_tree rk) (2 * g_my_index ?A) = Some (Leaf (leaf_node (rk_key_package rk)))"
      and new: "get_node (rk_tree rk) (2 * i) = Some (Leaf (leaf_node kp))" using T(4) my l(2) by simp_all
    let ?n = "MLSGroup_init (EpochState_init (g_group_id A) (g_epoch_id A + 1) (tree_canon (rk_tree rk)) k) i sk kem (cf_interim cf)"
    have j: "join C w sk kem None None = Inr ?n"
      using join_agrees [OF ok(3) l(7) _ c(3) _ c(2) _ me T(6) new kp(2) sole kp(3), of "g_epoch_id A + 1" None] T(1) c(1,4)
      by (simp add: tree_good_def c(5) tag)
    have "tree_good C (g_group_id A) (tree_canon (rk_tree rk))"
      using T(1) tree_good_equiv [of "rk_tree rk" "tree_canon (rk_tree rk)"] by simp
    then have "tree_good C (g_group_id ?n) (g_tree ?n)"
      by (simp add: tree_good_def MLSGroup_init_def EpochState_init_def leaves_verify_def no_unmerged_def get_node_def)
    moreover have "same_epoch A' ?n"
      unfolding l(6) next_group_def c(4) by (simp add: same_epoch_def MLSGroup_init_def EpochState_init_def)
    moreover have "g_my_index A' = g_my_index A" by (simp add: l(6) next_group_def MLSGroup_init_def)
    moreover have "get_node (g_tree ?n) (2 * i) = Some (Leaf (leaf_canon (leaf_node kp)))" "num_leaves (g_tree ?n) = num_leaves t"
      using new T(3) by (simp_all add: MLSGroup_init_def EpochState_init_def get_node_canon num_leaves_canon)
        (simp add: freeze_def num_leaves_canon)
    moreover have "member_ok C A'" using N(1) by (simp add: l(6))
    ultimately show ?thesis
      using that [of ?n "leaf_canon (leaf_node kp)"] j my l(2,3) kp(2) by (simp add: MLSGroup_init_def)
  qed
qed

lemma added_joined:
  assumes ok: "member_ok C A" "crypto_laws C" and a1: "fst (add_member C ent A kp) = Inr (A', w, u)" "num_leaves (g_tree A) < 2 ^ 31"
    and kp: "newcomer_keys C kp sk kem"
    and new: "\<forall>x l. get_node (g_tree A) x = Some (Leaf l) \<longrightarrow> signature_key l \<noteq> sig_public_bytes C sk"
  shows "\<exists>n. join C w sk kem None None = Inr n \<and> members_in_step C A' n
     \<and> (\<forall>b. members_in_step C A b \<longrightarrow> g_my_index b \<noteq> g_my_index n)"
proof -
  from kp have k: "leaf_node_source (leaf_node kp) = LEAF_NODE_SOURCE_KEY_PACKAGE" "signature_key (leaf_node kp) = sig_public_bytes C sk"
    "init_key_pub kp = kem_public_bytes C kem" "encryption_key (leaf_node kp) = kem_public_bytes C kem"
    by (simp_all add: newcomer_keys_def)
  obtain n l where n: "join C w sk kem None None = Inr n" "same_epoch A' n" "member_ok C A'" "g_my_index n \<noteq> g_my_index A'"
    "tree_good C (g_group_id n) (g_tree n)" "0 \<le> g_my_index n" "g_my_index n < num_leaves (g_tree n)"
    "get_node (g_tree n) (2 * g_my_index n) = Some (Leaf l)" "encryption_key l = encryption_key (leaf_node kp)"
    "signature_key l = sig_public_bytes C sk" "g_my_sig_key n = sk" "g_my_kem_key n = kem" "get_node (g_tree A) (2 * g_my_index n) = None"
    by (rule added_state [OF ok a1 k(1-3) new])
  then have "members_in_step C A' n" using k(4) by (simp add: members_in_step_def member_ok_def holds_leaf_def)
  moreover have "g_my_index b \<noteq> g_my_index n" if "members_in_step C A b" for b
  proof -
    from that have "holds_leaf C (g_tree A) b"
      by (auto simp: members_in_step_def same_epoch_def member_ok_def intro: holds_leaf_equiv tree_equiv_sym)
    with n(13) show ?thesis by (auto simp: holds_leaf_def)
  qed
  ultimately show ?thesis using n(1) by blast
qed

lemma invitation_joined:
  assumes fit: "fit_member C A" and inv: "sends_invitation C A bs (w, sk, kem) A'"
  shows "\<exists>n. join C w sk kem None None = Inr n \<and> members_in_step C A' n
     \<and> (\<forall>b. members_in_step C A b \<longrightarrow> g_my_index b \<noteq> g_my_index n)"
proof -
  from inv obtain ent kp u where "fst (add_member C ent A kp) = Inr (A', w, u)" "num_leaves (g_tree A) < 2 ^ 31" "newcomer_keys C kp sk kem"
    "\<forall>x l. get_node (g_tree A) x = Some (Leaf l) \<longrightarrow> signature_key l \<noteq> sig_public_bytes C sk"
    by (auto simp: sends_invitation_def)
  with added_joined fit show ?thesis unfolding fit_member_def by blast
qed

text \<open>The interface of the protocol holds of the operations of \<open>MLSGroup\<close> over encoded messages.\<close>

interpretation protocol: group_protocol "fit_member C" "members_in_step C" "sends_commit C" "receives_commit C"
    "sends_invitation C" "joins_group C" for C
proof
  show "members_in_step C b a" if "members_in_step C a b" for a b
    using that by (auto simp: members_in_step_def intro: same_epoch_sym)
  show "fit_member C a'" if "fit_member C a" "sends_commit C a c a'" for a c a'
    using sends_commit_member [OF that] by simp
  show "\<exists>b'. receives_commit C b c b'" if "fit_member C a" "members_in_step C a b" "sends_commit C a c a'" for a b c a'
    using sends_commit_by [OF that(3,1)] commit_by_delivers(2) [OF _ that(1) _ that(2)] by blast
  show "fit_member C b' \<and> members_in_step C a' b'"
    if "fit_member C a" "members_in_step C a b" "sends_commit C a c a'" "receives_commit C b c b'" for a b c a' b'
    using delivered_in_step [OF that] by simp
  show "members_in_step C b' d'"
    if "fit_member C a" "members_in_step C a b" "members_in_step C a d" "members_in_step C b d" "sends_commit C a c a'"
      "receives_commit C b c b'" "receives_commit C d c d'" for a b d c a' b' d'
    using delivered_in_step [OF that(1,2,5,6)] delivered_in_step [OF that(1,3,5,7)] that(4)
    by (auto simp: members_in_step_def intro: same_epoch_peers)
  show "sends_commit C a c a'" if "sends_invitation C a c w a'" for a c w a'
    using that unfolding sends_commit_def by blast
  show "\<exists>n. joins_group C w n" if "fit_member C a" "sends_invitation C a c w a'" for a c w a'
  proof (cases w)
    case (fields w1 sk kem)
    with invitation_joined [OF that(1), of c w1 sk kem a'] that(2) show ?thesis by (auto simp: joins_group_def)
  qed
  show "fit_member C n \<and> members_in_step C a' n"
    if "fit_member C a" "sends_invitation C a c w a'" "joins_group C w n" for a c w a' n
  proof (cases w)
    case (fields w1 sk kem)
    with invitation_joined [OF that(1), of c w1 sk kem a'] that show ?thesis
      by (auto simp: joins_group_def fit_member_def members_in_step_def)
  qed
  show "members_in_step C b' n"
    if "fit_member C a" "members_in_step C a b" "sends_invitation C a c w a'" "joins_group C w n" "receives_commit C b c b'"
    for a b c w a' n b'
  proof (cases w)
    case (fields w1 sk kem)
    with that have s: "sends_commit C a c a'" by (auto simp: sends_commit_def)
    note d = delivered_in_step [OF that(1,2) s that(5)]
    from invitation_joined [OF that(1), of c w1 sk kem a'] that fields
    have "members_in_step C a' n" "g_my_index b \<noteq> g_my_index n" by (auto simp: joins_group_def)
    with d show ?thesis by (auto simp: members_in_step_def intro: same_epoch_peers)
  qed
qed

text \<open>A group starts with its creator.\<close>

lemma one_leaf_tree:
  "set_leaf (RatchetTree_init 1) 0 l = Inr \<lparr>num_leaves = 1, nodes = [Some (Leaf l)], frozen = False\<rparr>"
  using set_leaf_eq [of "RatchetTree_init 1" 0 l] by (simp add: RatchetTree_init_def)

lemma create_facts:
  assumes "create C init gid sk kem = Inr g" "signatures_verify C"
  shows "member_ok C g" "g_epoch_id g = 0" "g_group_id g = gid" "g_my_index g = 0" "num_leaves (g_tree g) = 1" "g_consumed_key_packages g = {}"
    "\<forall>x l. get_node (g_tree g) x = Some (Leaf l) \<longrightarrow>
       signature_key l = sig_public_bytes C sk \<and> encryption_key l = kem_public_bytes C kem"
proof -
  from assms(1) obtain kp k where kp: "own_key_package C sk kem init = Inr kp"
    and g: "g = MLSGroup_init (EpochState_init gid 0 \<lparr>num_leaves = 1, nodes = [Some (Leaf (leaf_node kp))], frozen = False\<rparr> k) 0 sk kem []"
    by (auto simp: create_def genesis_def one_leaf_tree Let_def)
  let ?t = "\<lparr>num_leaves = 1, nodes = [Some (Leaf (leaf_node kp))], frozen = False\<rparr>"
  note f = own_key_package_facts [OF kp assms(2)]
  have gn: "get_node ?t x = (if x = 0 then Some (Leaf (leaf_node kp)) else None)" for x by (simp add: get_node_def)
  have "tree_shape ?t 0" by (simp add: tree_shape_def)
  then have "tree_wf ?t" unfolding tree_wf_def by (intro conjI exI [of _ 0]) (simp_all add: tree_typed_def)
  then have "tree_good C gid ?t" using f(4) by (simp add: tree_good_def no_unmerged_def leaves_verify_def gn)
  then show "member_ok C g" using f(1,2) by (simp add: g member_ok_init gn)
  show "\<forall>x l. get_node (g_tree g) x = Some (Leaf l) \<longrightarrow>
       signature_key l = sig_public_bytes C sk \<and> encryption_key l = kem_public_bytes C kem"
    using f(1,2) by (simp add: g MLSGroup_init_def EpochState_init_def gn)
  show "g_epoch_id g = 0" "g_group_id g = gid" "g_my_index g = 0" "num_leaves (g_tree g) = 1" "g_consumed_key_packages g = {}"
    by (simp_all add: g MLSGroup_init_def EpochState_init_def freeze_def)
qed

end
