(* ===== verification/Liveness.thy ===== *)
theory Liveness
  imports Protocol
begin

text \<open>
  Nothing gets stuck. Sizes are bounded from the bottom up, from keys and nodes to whole messages: when
  the primitives return, the tree has at most 4096 leaves, its nodes are encoded in at most 1000 bytes
  and its keys are usable, then every operation that commits returns, its commit is encoded as a
  message, and the next member has room again.
\<close>

lemmas fit_rules = fits_cat_Cons fits_cat_Nil fits_ints fits_varint fits_opaque fits_opaque32 fits_Inr

section \<open>Keys and nodes of bounded size\<close>

definition key_usable :: "crypto \<Rightarrow> bytes \<Rightarrow> bool" where
  "key_usable C pk \<longleftrightarrow> (\<forall>k. \<not> isl (dh_exchange C k pk))"

definition node_room :: "crypto \<Rightarrow> Node \<Rightarrow> bool" where
  "node_room C nd \<longleftrightarrow> fits 1000 (Node_to_bytes nd) \<and> key_usable C (node_public_key nd)"

definition tree_room :: "crypto \<Rightarrow> RatchetTree \<Rightarrow> bool" where
  "tree_room C t \<longleftrightarrow> num_leaves t \<le> 4096 \<and> (\<forall>x nd. get_node t x = Some nd \<longrightarrow> node_room C nd)"

definition working_crypto :: "crypto \<Rightarrow> bool" where
  "working_crypto C \<longleftrightarrow> crypto_laws C \<and> primitives_return C"

lemma kem_key_usable: "working_crypto C \<Longrightarrow> key_usable C (kem_public_bytes C k)"
  by (auto simp: key_usable_def working_crypto_def crypto_laws_def primitives_return_def dh_agrees_def dh_exchange_def
      kem_public_bytes_def split: option.splits)

lemma key_sizes:
  assumes "working_crypto C"
  shows "length (kem_public_bytes C k) = 32" "length (sig_public_bytes C s) = 32" "length (sig_sign C s m) = 64"
  using assms by (simp_all add: working_crypto_def crypto_laws_def keys_sized_def primitives_return_def kem_public_bytes_def
      sig_public_bytes_def sig_sign_def)

lemma gcm_ok:
  assumes "working_crypto C" "length k = 16" "length n = 12" "length p < 2 ^ 31" "length a < 2 ^ 31"
  shows "\<exists>c. gcm_encrypt C k n p a = Inr c \<and> length c = length p + 16"
  using gcm_returns [OF _ _ assms(3-5)] assms(1,2) unfolding working_crypto_def by blast

lemma seal_ok:
  assumes "working_crypto C" "key_usable C pk" "length pt < 2 ^ 31"
  obtains ct where "hpke_seal C eph pk pt [] 0 info = Inr (kem_public_bytes C eph, ct)" "length ct = length pt + 16"
proof -
  obtain dh where dh: "dh_exchange C eph pk = Inr dh" using assms(2) not_isl_Inr unfolding key_usable_def by blast
  obtain key nonce where kn: "hpke_key_nonce dh (kem_public_bytes C eph @ pk) info 0 = Inr (key, nonce)"
    "length key = 16" "length nonce = 12" using hpke_key_nonce_ok [of 0 dh "kem_public_bytes C eph @ pk" info] by auto
  obtain ct where "gcm_encrypt C key nonce pt [] = Inr ct" "length ct = length pt + 16"
    using gcm_ok [OF assms(1) kn(2,3) assms(3), of "[]"] by auto
  with dh kn(1) that show ?thesis by (simp add: hpke_seal_def Let_def)
qed

text \<open>The key package a member signs for itself.\<close>

lemma capabilities_fit: "fits 40 (Capabilities_marshal Capabilities_default)"
proof -
  have "case Capabilities_marshal Capabilities_default of Inl e \<Rightarrow> False | Inr b \<Rightarrow> length b \<le> 40" by code_simp
  then show ?thesis by (auto simp: fits_def split: sum.splits)
qed

lemma no_extensions_fit: "fits 4 (tls_extensions [])"
proof -
  have "case tls_extensions [] of Inl e \<Rightarrow> False | Inr b \<Rightarrow> length b \<le> 4" by code_simp
  then show ?thesis by (auto simp: fits_def split: sum.splits)
qed

lemma fits_select: "leaf_node_source n = LEAF_NODE_SOURCE_KEY_PACKAGE \<Longrightarrow> lifetime n = None \<Longrightarrow> fits 16 (leaf_select_bytes n)"
  by (simp add: leaf_select_bytes_def fits_def tls_u64_def struct_pack_def)

lemma leaf_fields_fit:
  assumes "length (encryption_key n) = 32" "length (signature_key n) = 32" "credential n = Credential_basic (signature_key n)"
    "capabilities n = Capabilities_default" "leaf_node_source n = LEAF_NODE_SOURCE_KEY_PACKAGE" "lifetime n = None" "leaf_extensions n = []"
    "length (leaf_signature n) \<le> 64"
  shows "fits 300 (LeafNode_to_bytes n)" "fits 300 (LeafNode_tbs_bytes n [] 0)"
proof -
  have c: "fits (2 + ((4 + 32) + 0)) (Credential_to_bytes (credential n))"
    unfolding assms(3) Credential_basic_def Credential_to_bytes_def CREDENTIAL_TYPE_BASIC_def by (intro fit_rules) (simp_all add: assms)
  have "fits ((4 + 32) + ((4 + 32) + ((2 + ((4 + 32) + 0)) + (40 + (1 + (16 + (4 + ((4 + 64) + 0)))))))) (LeafNode_to_bytes n)"
    unfolding LeafNode_to_bytes_def assms(4,5,7)
    by (intro fit_rules c capabilities_fit no_extensions_fit fits_select) (simp_all add: assms source_defs)
  then show "fits 300 (LeafNode_to_bytes n)" by (rule fits_mono) simp
  have "fits (2 + ((4 + 32) + ((4 + 32) + ((2 + ((4 + 32) + 0)) + (40 + (1 + (16 + (4 + 0)))))))) (LeafNode_tbs_bytes n [] 0)"
    unfolding LeafNode_tbs_bytes_def assms(4,5,7) append.simps
    by (simp only: append_Nil2 source_defs insert_iff empty_iff if_False eq_numeral_simps simp_thms, intro fit_rules c capabilities_fit no_extensions_fit fits_select) (simp_all add: assms source_defs TREE_CIPHER_SUITE_def fits_Inr)
  then show "fits 300 (LeafNode_tbs_bytes n [] 0)" by (rule fits_mono) simp
qed

lemma own_key_package_ok:
  assumes "working_crypto C"
  obtains kp where "own_key_package C sk kem init = Inr kp" "node_room C (Leaf (leaf_node kp))" "fits 450 (KeyPackage_to_bytes kp)"
proof -
  let ?l = "\<lparr>encryption_key = kem_public_bytes C kem, signature_key = sig_public_bytes C sk,
     credential = Credential_basic (sig_public_bytes C sk), capabilities = Capabilities_default,
     leaf_node_source = LEAF_NODE_SOURCE_KEY_PACKAGE, lifetime = None, leaf_parent_hash = None, leaf_extensions = [], leaf_signature = []\<rparr>"
  note s = key_sizes [OF assms]
  obtain tbs where tbs: "LeafNode_tbs_bytes ?l [] 0 = Inr tbs"
    using leaf_fields_fit(2) [of ?l] s by (auto elim: fitsE)
  let ?ln = "?l\<lparr>leaf_signature := sig_sign C sk tbs\<rparr>"
  have ln: "fits 300 (LeafNode_to_bytes ?ln)" by (rule leaf_fields_fit(1)) (simp_all add: s)
  let ?kp = "\<lambda>g. \<lparr>leaf_node = ?ln, init_key_pub = kem_public_bytes C init, leaf_node_signature = g\<rparr>"
  have "fits (2 + (2 + ((4 + 32) + (300 + (4 + 0))))) (KeyPackage_tbs_bytes (?kp []))"
    unfolding KeyPackage_tbs_bytes_def KEYPACKAGE_VERSION_def KEYPACKAGE_CIPHER_SUITE_def
    by (intro fit_rules) (use ln in \<open>simp_all add: s\<close>)
  then obtain t where t: "KeyPackage_tbs_bytes (?kp []) = Inr t" by (auto elim: fitsE)
  have "own_key_package C sk kem init = Inr (?kp (sig_sign C sk t))"
    using tbs t by (simp add: own_key_package_def KeyPackage_create_def LeafNode_create_def LeafNode_sign_def Let_def del: cat_res.simps)
  moreover have "fits (2 + (2 + ((4 + 32) + (300 + (4 + ((4 + 64) + 0)))))) (KeyPackage_to_bytes (?kp (sig_sign C sk t)))"
    unfolding KeyPackage_to_bytes_def KEYPACKAGE_VERSION_def KEYPACKAGE_CIPHER_SUITE_def
    by (intro fit_rules) (use ln in \<open>simp_all add: s\<close>)
  then have "fits 450 (KeyPackage_to_bytes (?kp (sig_sign C sk t)))" by (rule fits_mono) simp
  moreover have "node_room C (Leaf ?ln)"
    using fits_mono [OF ln, of 1000] kem_key_usable [OF assms] by (simp add: node_room_def)
  ultimately show ?thesis using that [of "?kp (sig_sign C sk t)"] by simp
qed

text \<open>The reference of a leaf.\<close>

lemma opaque_within: "tls_opaque d = Inr b \<Longrightarrow> length d \<le> length b"
  by (auto simp: tls_opaque_def)

lemma leaf_fields_within:
  assumes "fits n (LeafNode_to_bytes l)"
  shows "length (encryption_key l) \<le> n" "length (leaf_signature l) \<le> n"
  using assms by (auto simp: fits_def LeafNode_to_bytes_def dest!: opaque_within)

lemma make_kp_ref_fits:
  assumes "fits 4000 (KeyPackage_to_bytes kp)"
  obtains r where "make_kp_ref kp = Inr r" "length r = 32"
proof -
  from assms obtain b where b: "KeyPackage_to_bytes kp = Inr b" "length b \<le> 4000" by (rule fitsE)
  have "length KP_REF_LABEL \<le> 60" by code_simp
  then have "fits (4 + (60 + (4 + (4000 + 0)))) (cat_res [tls_varint (int (length KP_REF_LABEL)), Inr KP_REF_LABEL,
                     tls_varint (int (length b)), Inr b])"
    using b(2) by (intro fit_rules) simp_all
  then show ?thesis using that b(1) by (auto simp: make_kp_ref_def elim!: fitsE)
qed

lemma leaf_ref_ok:
  assumes "node_room C (Leaf l)"
  obtains r where "make_kp_ref (LeafNode_key_package l) = Inr r" "length r = 32"
proof -
  have l: "fits 1000 (LeafNode_to_bytes l)" using assms by (simp add: node_room_def)
  note w = leaf_fields_within [OF l]
  have "fits (2 + (2 + ((4 + 1000) + (1000 + (4 + ((4 + 1000) + 0)))))) (KeyPackage_to_bytes (LeafNode_key_package l))"
    unfolding KeyPackage_to_bytes_def KEYPACKAGE_VERSION_def KEYPACKAGE_CIPHER_SUITE_def LeafNode_key_package_def KeyPackage.simps
    by (intro fit_rules l) (use w in simp_all)
  then have "fits 4000 (KeyPackage_to_bytes (LeafNode_key_package l))" by (rule fits_mono) simp
  then show ?thesis by (rule make_kp_ref_fits) (rule that)
qed

text \<open>Path secrets and the keys of the path.\<close>

lemma next_path_secret_ok: "\<exists>s. derive_next_path_secret p = Inr s \<and> length s = 32"
  unfolding derive_next_path_secret_def by (rule expand_with_label_sha256) simp_all

lemma path_secrets_ok: "\<exists>ss. path_secrets ds s = Inr ss \<and> length ss = length ds \<and> (\<forall>x\<in>set ss. length x = 32)"
proof (induction ds arbitrary: s)
  case (Cons d ds)
  obtain s1 where s1: "derive_next_path_secret s = Inr s1" "length s1 = 32" using next_path_secret_ok by blast
  with Cons [of s1] show ?case by auto
qed simp

lemma node_pub_ok:
  assumes "working_crypto C"
  shows "\<exists>k. node_pub C ps = Inr (kem_public_bytes C k)"
proof -
  obtain n where "derive_path_node_key ps = Inr n"
    using expand_with_label_sha256 [of "''node''" "[]" 32 ps] by (auto simp: derive_path_node_key_def)
  moreover obtain k where "kem_from_secret n = Inr k" using kem_from_secret_returns by blast
  ultimately show ?thesis by (auto simp: node_pub_def)
qed

definition fresh_keys :: "crypto \<Rightarrow> bytes list \<Rightarrow> bool" where
  "fresh_keys C pubs \<longleftrightarrow> (\<forall>p\<in>set pubs. \<exists>k. p = kem_public_bytes C k)"

lemma node_pubs_ok:
  assumes "working_crypto C"
  shows "\<exists>pubs. mapR (node_pub C) pss = Inr pubs \<and> fresh_keys C pubs"
proof (induction pss)
  case (Cons p pss)
  with node_pub_ok [OF assms, of p] show ?case by (auto simp: fresh_keys_def)
qed (simp add: fresh_keys_def)

lemma parent_room:
  assumes "working_crypto C" "length ph \<le> 32"
  shows "node_room C (Parent \<lparr>parent_public_key = kem_public_bytes C k, parent_parent_hash = ph, unmerged_leaves = []\<rparr>)"
proof -
  have "fits ((4 + 32) + ((4 + 32) + ((4 + 0) + 0))) (ParentNode_to_bytes
      \<lparr>parent_public_key = kem_public_bytes C k, parent_parent_hash = ph, unmerged_leaves = []\<rparr>)"
    unfolding ParentNode_to_bytes_def unmerged_leaves_bytes_def
    by (simp only: ParentNode.simps list.map cat_res.simps(1) bindR.simps, intro fit_rules) (use key_sizes [OF assms(1)] assms(2) in simp_all)
  then show ?thesis using kem_key_usable [OF assms(1)] by (simp add: node_room_def fits_mono)
qed

text \<open>Hashes of trees with room.\<close>

lemma optional_body_room: "(\<And>nd. x = Some nd \<Longrightarrow> node_room C nd) \<Longrightarrow> fits 1001 (optional_body x)"
proof (cases x)
  case (Some nd)
  assume "\<And>nd. x = Some nd \<Longrightarrow> node_room C nd"
  with Some have "fits 1000 (Node_to_bytes nd)" by (simp add: node_room_def)
  then have "fits (1 + (1000 + 0)) (cat_res [Inr [0x01], Node_to_bytes nd])" by (intro fit_rules) simp_all
  then show ?thesis using Some by (simp add: optional_body_def)
qed (simp add: optional_body_def fits_Inr)

lemma hash_input_room:
  assumes "tree_room C t" "0 \<le> j" "j * 2 ^ k + 2 ^ k \<le> 2 ^ 32"
  shows "fits 2000 (hash_input t k j)"
  using assms(2,3)
proof (induction k arbitrary: j)
  case 0
  have b: "fits 1001 (optional_body (get_node t (tnode 0 j)))"
    by (rule optional_body_room [of _ C]) (use assms(1) in \<open>auto simp: tree_room_def\<close>)
  have "fits (1 + (4 + (1001 + 0))) (hash_input t 0 j)"
    unfolding hash_input.simps by (intro fit_rules b) (use 0 in simp_all)
  then show ?case by (rule fits_mono) simp
next
  case (Suc k)
  have b: "fits 1001 (optional_body (get_node t (tnode (Suc k) j)))"
    by (rule optional_body_room [of _ C]) (use assms(1) in \<open>auto simp: tree_room_def\<close>)
  have p: "0 < (2::int) ^ k" and e: "2 * j * 2 ^ k + 2 * 2 ^ k \<le> (2::int) ^ 32"
    using Suc.prems(2) by (simp_all add: algebra_simps)
  have e1: "2 * j * 2 ^ k + 2 ^ k \<le> (2::int) ^ 32" using e p by linarith
  have e2: "(2 * j + 1) * 2 ^ k + 2 ^ k \<le> (2::int) ^ 32" using e by (simp add: algebra_simps)
  from e1 e2 Suc.IH [of "2 * j"] Suc.IH [of "2 * j + 1"] Suc.prems(1)
  have "fits 2000 (hash_input t k (2 * j))" "fits 2000 (hash_input t k (2 * j + 1))" by simp_all
  then obtain l r where "hash_input t k (2 * j) = Inr l" "hash_input t k (2 * j + 1) = Inr r" by (auto elim!: fitsE)
  moreover have "fits (1 + (1001 + ((4 + 32) + ((4 + 32) + 0)))) (cat_res [Inr [0x02], optional_body (get_node t (tnode (Suc k) j)),
              tls_opaque (digest sha256 l), tls_opaque (digest sha256 r)])"
    by (intro fit_rules b) simp_all
  ultimately show ?case using fits_mono [of "1 + (1001 + ((4 + 32) + ((4 + 32) + 0)))" _ 2000] by (simp del: cat_res.simps)
qed

lemma room_bound:
  assumes "tree_room C t" "tree_shape t d"
  shows "d \<le> 12" "k \<le> d \<Longrightarrow> 0 \<le> j \<Longrightarrow> j < 2 ^ (d - k) \<Longrightarrow> fits 2000 (hash_input t k j)"
proof -
  have "(2::int) ^ d \<le> 2 ^ 12" using assms shape_leaves [OF assms(2)] by (simp add: tree_room_def)
  then show d: "d \<le> 12" using power_le_imp_le_exp [of "2::int" d 12] by simp
  show "fits 2000 (hash_input t k j)" if k: "k \<le> d" "0 \<le> j" "j < 2 ^ (d - k)"
  proof (rule hash_input_room [OF assms(1) k(2)])
    have "(j + 1) * 2 ^ k \<le> 2 ^ (d - k) * (2::int) ^ k" using k(3) by (intro mult_right_mono) simp_all
    also have "\<dots> = 2 ^ d" using k(1) by (simp flip: power_add)
    also have "\<dots> \<le> (2::int) ^ 32" using d by (intro power_increasing) simp_all
    finally show "j * 2 ^ k + 2 ^ k \<le> 2 ^ 32" by (simp add: algebra_simps)
  qed
qed

lemma tree_hash_ok:
  assumes "tree_room C t" "tree_shape t d"
  obtains h where "tree_hash t = Inr h" "length h = 32"
proof -
  from room_bound(2) [OF assms, of d 0] obtain m where "hash_input t d 0 = Inr m" by (auto elim: fitsE)
  with that tree_hash_root [OF assms(2)] show ?thesis by simp
qed

lemma subtree_hash_ok:
  assumes "tree_room C t" "tree_shape t d" "tree_typed (nodes t)" "k \<le> d" "0 \<le> j" "j < 2 ^ (d - k)"
  obtains h where "subtree_hash t (tnode k j) = Inr h" "length h = 32"
  using room_bound(2) [OF assms(1,2,4-6)] subtree_hash_shape [OF assms(2-6)] by (auto elim!: fitsE)

text \<open>Contexts.\<close>

lemma context_ok:
  assumes "tree_room C t" "tree_shape t d" "length gid \<le> 1000" "0 \<le> e" "e < 2 ^ 64" "length th \<le> 255"
  obtains ctx cb where "make_group_context gid e t th = Inr ctx" "GroupContext_to_bytes ctx = Inr cb" "length cb \<le> 2000"
proof -
  obtain h where h: "tree_hash t = Inr h" "length h = 32" by (rule tree_hash_ok [OF assms(1,2)])
  let ?c = "\<lparr>gc_group_id = gid, gc_epoch = e, gc_tree_hash = h, gc_confirmed_transcript_hash = th, gc_extensions_bytes = []\<rparr>"
  have "fits (2 + (2 + (4 + (1000 + (8 + (4 + (32 + (4 + (255 + (4 + (0 + 0))))))))))) (GroupContext_to_bytes ?c)"
    unfolding GroupContext_to_bytes_def GC_VERSION_def GC_CIPHER_SUITE_def GroupContext.simps
    by (intro fit_rules) (use assms h in simp_all)
  then obtain cb where "GroupContext_to_bytes ?c = Inr cb" "length cb \<le> 2000" by (auto elim!: fitsE)
  then show ?thesis by (intro that [of ?c cb]) (simp_all add: make_group_context_def h(1))
qed

lemma path_info_ok:
  assumes b: "GroupContext_to_bytes ctx = Inr b" "length b \<le> 2000"
  obtains info where "path_info ctx = Inr info"
proof -
  have "fits ((4 + 60) + ((4 + 2000) + 0)) (cat_res [tls_opaque (encode_str ''MLS 1.0 '' @ encode_str ''UpdatePathNode''), tls_opaque b])"
    by (intro fit_rules) (use b(2) in \<open>simp_all add: encode_str_def\<close>)
  with b(1) that show ?thesis by (auto simp: path_info_def up_info_def make_hpke_info_def Let_def elim!: fitsE)
qed

text \<open>Filling the path.\<close>

lemma tree_room_update:
  assumes "tree_room C t" "node_room C nd" "0 \<le> x" "x < tree_size t"
  shows "tree_room C (t\<lparr>nodes := (nodes t)[nat x := Some nd]\<rparr>)"
  using assms(1,2) get_node_update [OF assms(3,4), of "Some nd"] by (auto simp: tree_room_def split: if_splits)

lemma fill_path_ok:
  assumes "working_crypto C" "tree_wf t" "\<not> frozen t" "tree_room C t" "tree_shape t d"
    and "\<forall>(x, c, pub)\<in>set ps. 0 \<le> x \<and> x < tree_size t \<and> odd x \<and> (\<exists>k j. c = tnode k j \<and> k \<le> d \<and> 0 \<le> j \<and> j < 2 ^ (d - k))
           \<and> (\<exists>k. pub = kem_public_bytes C k)"
  shows "\<exists>h t'. fill_path t ps = Inr (h, t') \<and> length h \<le> 32 \<and> tree_room C t' \<and> same_frame t t'"
  using assms(6)
proof (induction ps)
  case Nil
  with assms(2-4) show ?case by (simp add: same_frame_refl)
next
  case (Cons a ps)
  obtain x c pub where a: "a = (x, c, pub)" by (cases a)
  from Cons obtain h0 t1 where t1: "fill_path t ps = Inr (h0, t1)" "length h0 \<le> 32" "tree_room C t1" "same_frame t t1" by auto
  have sh: "tree_shape t1 d" "tree_typed (nodes t1)" using same_frame_shape [OF t1(4) assms(5)] by simp_all
  from Cons.prems a obtain k j key where c: "c = tnode k j" "k \<le> d" "0 \<le> j" "j < 2 ^ (d - k)" "pub = kem_public_bytes C key" by auto
  obtain sh' where s: "subtree_hash t1 c = Inr sh'" "length sh' = 32" using subtree_hash_ok [OF t1(3) sh c(2-4)] c(1) by blast
  have "fits ((4 + 19) + ((4 + 32) + ((4 + 32) + ((4 + 32) + 0)))) (cat_res [tls_opaque (encode_str ''MLS 1.0 parent hash''), tls_opaque pub,
                     tls_opaque h0, tls_opaque sh'])"
    by (intro fit_rules) (use t1(2) s(2) key_sizes [OF assms(1)] c(5) in \<open>simp_all add: encode_str_def\<close>)
  then obtain ph where ph: "compute_parent_hash pub h0 sh' = Inr ph" "length ph = 32"
    by (auto simp: compute_parent_hash_def elim!: fitsE)
  let ?p = "\<lparr>parent_public_key = pub, parent_parent_hash = ph, unmerged_leaves = []\<rparr>"
  have x: "\<not> frozen t1" "0 \<le> x" "x < tree_size t1" "odd x" using Cons.prems a t1(4) by (auto simp: same_frame_def)
  have "tree_room C (t1\<lparr>nodes := (nodes t1)[nat x := Some (Parent ?p)]\<rparr>)"
    using parent_room [OF assms(1), of ph key] ph(2) c(5) by (intro tree_room_update t1(3) x(2,3)) simp
  moreover have "same_frame t (t1\<lparr>nodes := (nodes t1)[nat x := Some (Parent ?p)]\<rparr>)"
    using t1(4) x by (intro same_frame_update) (auto simp: even_nat_iff)
  ultimately show ?case using a t1(1) s(1) ph set_parent_eq [OF x, of ?p] by simp
qed

lemma length_alist_update: "length (AList.update k v d) \<le> Suc (length d)"
  by (induction d) auto

lemma set_alist_update: "set (AList.update k v d) \<subseteq> insert (k, v) (set d)"
  by (induction d) auto

definition secrets_sized :: "(bytes \<times> bytes) list \<Rightarrow> bool" where
  "secrets_sized d \<longleftrightarrow> (\<forall>(k, v)\<in>set d. length k = 32 \<and> length v = 80)"

lemma seal_to_leaves_ok:
  assumes "working_crypto C" "GroupContext_to_bytes ctx = Inr cb" "length cb \<le> 2000" "length s = 32"
    and "\<forall>l. Some (Leaf l) \<in> set ns \<longrightarrow> node_room C (Leaf l)" "secrets_sized d"
  shows "\<exists>d'. seal_to_leaves C eph ctx s mine i ns d = Inr d' \<and> secrets_sized d' \<and> length d' \<le> length d + length ns"
  using assms(5,6)
proof (induction ns arbitrary: i d)
  case (Cons node ns)
  have IH: "\<exists>d'. seal_to_leaves C eph ctx s mine (i + 1) ns d = Inr d' \<and> secrets_sized d' \<and> length d' \<le> length d + length ns"
    if "secrets_sized d" for d using Cons.IH [of d "i + 1"] Cons.prems(1) that by simp
  show ?case
  proof (cases "\<exists>l. even i \<and> node = Some (Leaf l) \<and> int i \<noteq> mine")
    case True
    then obtain l where l: "even i" "node = Some (Leaf l)" "int i \<noteq> mine" by blast
    then have room: "node_room C (Leaf l)" using Cons.prems(1) by simp
    obtain r where r: "make_kp_ref (LeafNode_key_package l) = Inr r" "length r = 32" by (rule leaf_ref_ok [OF room])
    obtain info where info: "path_info ctx = Inr info" by (rule path_info_ok [OF assms(2,3)])
    have u: "key_usable C (encryption_key l)" "length s < 2 ^ 31" using room assms(4) by (simp_all add: node_room_def)
    obtain ct where ct: "hpke_seal C (eph i) (encryption_key l) s [] 0 info = Inr (kem_public_bytes C (eph i), ct)" "length ct = length s + 16"
      by (rule seal_ok [OF assms(1) u])
    let ?d = "AList.update r (kem_public_bytes C (eph i) @ ct) d"
    have "secrets_sized ?d"
      using Cons.prems(2) set_alist_update [of r "kem_public_bytes C (eph i) @ ct" d] r(2) ct(2) assms(4) key_sizes(1) [OF assms(1)]
      by (auto simp: secrets_sized_def)
    from IH [OF this] obtain d' where d': "seal_to_leaves C eph ctx s mine (i + 1) ns ?d = Inr d'" "secrets_sized d'"
      "length d' \<le> length ?d + length ns" by blast
    have "seal_to_leaves C eph ctx s mine i (node # ns) d = Inr d'" using d'(1) l r info ct by simp
    moreover have "length d' \<le> length d + length (node # ns)"
      using d'(3) length_alist_update [of r "kem_public_bytes C (eph i) @ ct" d] by simp
    ultimately show ?thesis using d'(2) by blast
  next
    case False
    then have "seal_to_leaves C eph ctx s mine i (node # ns) d = seal_to_leaves C eph ctx s mine (i + 1) ns d"
      by (auto split: option.splits Node.splits)
    with IH [OF Cons.prems(2)] show ?thesis by auto
  qed
qed simp

text \<open>The update path.\<close>

definition ciphertexts_sized :: "HPKECiphertext list \<Rightarrow> bool" where
  "ciphertexts_sized cs \<longleftrightarrow> (\<forall>c\<in>set cs. length (hc_kem_output c) = 32 \<and> length (hc_ciphertext c) = 48)"

lemma seal_to_resolution_ok:
  assumes "working_crypto C" "tree_room C t" "GroupContext_to_bytes ctx = Inr cb" "length cb \<le> 2000" "length ps = 32"
  shows "\<exists>cs. seal_to_resolution C eph t ctx ps pos rs = Inr cs \<and> ciphertexts_sized cs \<and> length cs \<le> length rs"
proof (induction rs arbitrary: pos)
  case (Cons x rs)
  obtain cs where cs: "seal_to_resolution C eph t ctx ps (pos + 1) rs = Inr cs" "ciphertexts_sized cs" "length cs \<le> length rs"
    using Cons by blast
  show ?case
  proof (cases "get_node t x")
    case (Some nd)
    then have "node_room C nd" using assms(2) by (simp add: tree_room_def)
    then have u: "key_usable C (node_public_key nd)" "length ps < 2 ^ 31" using assms(5) by (simp_all add: node_room_def)
    obtain info where info: "path_info ctx = Inr info" by (rule path_info_ok [OF assms(3,4)])
    obtain ct where "hpke_seal C (eph pos) (node_public_key nd) ps [] 0 info = Inr (kem_public_bytes C (eph pos), ct)" "length ct = length ps + 16"
      by (rule seal_ok [OF assms(1) u])
    with cs Some info assms(5) key_sizes(1) [OF assms(1)] show ?thesis by (auto simp: ciphertexts_sized_def)
  qed (use cs in auto)
qed (simp add: ciphertexts_sized_def)

lemma resolve_length: "no_unmerged t \<Longrightarrow> length (resolve t k j) \<le> 2 ^ k"
proof (induction t k j rule: resolve.induct)
  case (1 t j)
  then show ?case by (auto simp: no_unmerged_def split: option.splits Node.splits)
next
  case (2 t k j)
  have "1 \<le> (2::nat) ^ k" by simp
  then show ?case using 2 by (cases "get_node t (tnode (Suc k) j)") (auto simp: no_unmerged_def split: Node.splits)
qed

definition path_node_sized :: "UpdatePathNode \<Rightarrow> bool" where
  "path_node_sized n \<longleftrightarrow> length (upn_new_public_key n) = 32 \<and> ciphertexts_sized (upn_encrypted_path_secret n)
     \<and> length (upn_encrypted_path_secret n) \<le> 4096"

lemma update_path_nodes_ok:
  assumes "working_crypto C" "tree_room C t" "GroupContext_to_bytes ctx = Inr cb" "length cb \<le> 2000"
    and "\<forall>(c, ps, pub)\<in>set xs. (\<exists>rs. resolution t c = Inr rs \<and> length rs \<le> 4096) \<and> length ps = 32 \<and> length pub = 32"
  shows "\<exists>ns. update_path_nodes C eph t ctx i xs = Inr ns \<and> length ns = length xs \<and> (\<forall>n\<in>set ns. path_node_sized n)"
  using assms(5)
proof (induction xs arbitrary: i)
  case (Cons x xs)
  obtain c ps pub where x: "x = (c, ps, pub)" by (cases x)
  from Cons.prems x obtain rs where rs: "resolution t c = Inr rs" "length rs \<le> 4096" "length ps = 32" "length pub = 32" by auto
  obtain cs where cs: "seal_to_resolution C (eph i) t ctx ps 0 rs = Inr cs" "ciphertexts_sized cs" "length cs \<le> length rs"
    using seal_to_resolution_ok [OF assms(1-4) rs(3)] by blast
  obtain ns where ns: "update_path_nodes C eph t ctx (i + 1) xs = Inr ns" "length ns = length xs" "\<forall>n\<in>set ns. path_node_sized n"
    using Cons.IH [of "i + 1"] Cons.prems by auto
  let ?n = "\<lparr>upn_new_public_key = pub, upn_encrypted_path_secret = cs\<rparr>"
  have "path_node_sized ?n" using cs(2,3) rs by (simp add: path_node_sized_def)
  then show ?case using rs(1) cs(1) ns x by (intro exI [of _ "?n # ns"]) simp
qed simp

text \<open>A whole path.\<close>

lemma rekey_path_ok:
  assumes "working_crypto C" "tree_shape t d" "tree_wf t" "\<not> frozen t" "tree_room C t" "0 \<le> g_my_index g" "g_my_index g < 2 ^ d"
  obtains rk where "rekey_path C ent g t = Inr rk" "tree_room C (rk_tree rk)" "\<forall>s\<in>set (rk_path_secrets rk). length s = 32"
    "\<forall>p\<in>set (rk_node_pubs rk). length p = 32" "fits 450 (KeyPackage_to_bytes (rk_key_package rk))"
    "rk_cop rk = map (\<lambda>k. tnode k (sibling_pos (g_my_index g div 2 ^ k))) [0..<d]"
proof -
  let ?i = "g_my_index g"
  let ?D = "map (\<lambda>k. tnode (Suc k) (?i div 2 ^ Suc k)) [0..<d]" and ?Cp = "map (\<lambda>k. tnode k (sibling_pos (?i div 2 ^ k))) [0..<d]"
  obtain pss where pss: "path_secrets ?D (ent_leaf_path_secret ent) = Inr pss" "\<forall>x\<in>set pss. length x = 32"
    using path_secrets_ok by blast
  obtain kp where kp: "own_key_package C (g_my_sig_key g) (ent_committer_kem ent) (ent_init_kem ent) = Inr kp"
    "node_room C (Leaf (leaf_node kp))" "fits 450 (KeyPackage_to_bytes kp)" by (rule own_key_package_ok [OF assms(1)])
  obtain pubs where pubs: "mapR (node_pub C) pss = Inr pubs" "fresh_keys C pubs" using node_pubs_ok [OF assms(1)] by blast
  have x: "0 \<le> 2 * ?i" "2 * ?i < tree_size t" using assms(6,7) by (simp_all add: shape_facts [OF assms(2)])
  let ?t = "t\<lparr>nodes := (nodes t)[nat (2 * ?i) := Some (Leaf (leaf_node kp))]\<rparr>"
  have sl: "set_leaf t (2 * ?i) (leaf_node kp) = Inr ?t" using set_leaf_eq [OF assms(4) x] by simp
  have fr: "same_frame t ?t" using assms(3,4) by (intro same_frame_update same_frame_refl) (simp_all add: even_nat_iff x)
  have t: "tree_wf ?t" "\<not> frozen ?t" "tree_room C ?t" "tree_shape ?t d"
    using fr tree_room_update [OF assms(5) kp(2) x] same_frame_shape [OF fr assms(2)] by (simp_all add: same_frame_def)
  have "\<forall>(x, c, pub)\<in>set (zip ?D (zip ?Cp pubs)). 0 \<le> x \<and> x < tree_size ?t \<and> odd x
      \<and> (\<exists>k j. c = tnode k j \<and> k \<le> d \<and> 0 \<le> j \<and> j < 2 ^ (d - k)) \<and> (\<exists>k. pub = kem_public_bytes C k)"
  proof (clarify)
    fix x c pub assume z: "(x, c, pub) \<in> set (zip ?D (zip ?Cp pubs))"
    note r = set_zip_rightD [OF z]
    note m = set_zip_leftD [OF z] set_zip_leftD [OF r] set_zip_rightD [OF r]
    from m(1,2) obtain k k' where k: "k < d" "x = tnode (Suc k) (?i div 2 ^ Suc k)" "k' < d" "c = tnode k' (sibling_pos (?i div 2 ^ k'))"
      by (auto simp del: power_Suc)
    then show "0 \<le> x \<and> x < tree_size ?t \<and> odd x \<and> (\<exists>k j. c = tnode k j \<and> k \<le> d \<and> 0 \<le> j \<and> j < 2 ^ (d - k)) \<and> (\<exists>k. pub = kem_public_bytes C k)"
      using path_in_tree [OF t(4) assms(6,7) k(1)] copath_pos [OF assms(6,7) k(3)] pubs(2) m(3)
      by (auto simp: fresh_keys_def simp del: power_Suc intro!: exI [of _ k'])
  qed
  from fill_path_ok [OF assms(1) t this] obtain h t' where
    t': "fill_path ?t (zip ?D (zip ?Cp pubs)) = Inr (h, t')" "tree_room C t'" by blast
  have "rekey_path C ent g t = Inr \<lparr>rk_tree = t', rk_direct = ?D, rk_cop = ?Cp, rk_path_secrets = pss, rk_node_pubs = pubs, rk_key_package = kp\<rparr>"
    unfolding rekey_path_def Let_def direct_path_shape [OF assms(2,6,7)] copath_shape [OF assms(2,6,7)] bindR.simps pss(1) kp(1) sl pubs(1) t'(1)
    by simp
  then show ?thesis using that t'(2) pss(2) kp(3) pubs(2) key_sizes(1) [OF assms(1)] by (fastforce simp: fresh_keys_def)
qed

lemma tree_bytes_fit:
  assumes "tree_room C t" "tree_shape t d"
  shows "fits 8300000 (RatchetTree_to_bytes t)"
proof -
  have n: "length (nodes t) \<le> 8192"
  proof -
    have "int (length (nodes t)) \<le> 8192" using assms(1) shape_size [OF assms(2)] shape_leaves [OF assms(2)] by (simp add: tree_room_def)
    then show ?thesis by simp
  qed
  have "fits 1002 (optional_node_bytes x)" if x: "x \<in> set (nodes t)" for x
  proof (cases x)
    case (Some nd)
    with x obtain y where "get_node t y = Some nd" using in_nodes_get by blast
    then have f: "fits 1000 (Node_to_bytes nd)" using assms(1) by (simp add: tree_room_def node_room_def)
    have "fits (2 + (1000 + 0)) (cat_res [Inr [0x01, b], Node_to_bytes nd])" for b by (intro fit_rules f) simp
    then show ?thesis using Some by (cases nd) (simp_all del: cat_res.simps)
  qed (simp add: fits_Inr)
  from fits_map [of "nodes t" 1002 optional_node_bytes, OF this] obtain parts where
    p: "cat_res (map optional_node_bytes (nodes t)) = Inr parts" "length parts \<le> length (nodes t) * 1002" by (rule fitsE) auto
  then have l: "length parts \<le> 8208384" using n by linarith
  have "fits (4 + (8208384 + 0)) (cat_res [tls_varint (int (length parts)), Inr parts])" by (intro fit_rules) (use l in simp_all)
  then show ?thesis using p(1) by (auto simp: RatchetTree_to_bytes_def elim!: fitsE intro!: fitsI simp del: cat_res.simps)
qed

lemma path_bytes_fit:
  assumes "fits 450 (KeyPackage_to_bytes kp)" "\<forall>n\<in>set ns. path_node_sized n" "length ns \<le> 12"
  shows "fits 4500000 (UpdatePath_to_bytes \<lparr>up_leaf_key_package = kp, up_nodes = ns\<rparr>)"
proof -
  have node: "fits 361000 (UpdatePathNode_to_bytes n)" if n: "n \<in> set ns" for n
  proof -
    have s: "path_node_sized n" using assms(2) n by blast
    have "fits 88 (HPKECiphertext_to_bytes c)" if c: "c \<in> set (upn_encrypted_path_secret n)" for c
    proof -
      have "fits ((4 + 32) + ((4 + 48) + 0)) (HPKECiphertext_to_bytes c)"
        unfolding HPKECiphertext_to_bytes_def by (intro fit_rules) (use s c in \<open>simp_all add: path_node_sized_def ciphertexts_sized_def\<close>)
      then show ?thesis by simp
    qed
    from fits_map [of "upn_encrypted_path_secret n" 88, OF this] obtain enc where
      e: "cat_res (map HPKECiphertext_to_bytes (upn_encrypted_path_secret n)) = Inr enc"
        "length enc \<le> length (upn_encrypted_path_secret n) * 88" by (rule fitsE) auto
    then have l: "length enc \<le> 360448" using s by (simp add: path_node_sized_def)
    have "fits ((4 + 32) + (4 + (360448 + 0))) (cat_res [tls_opaque (upn_new_public_key n),
        tls_u32 (int (length (upn_encrypted_path_secret n))), Inr enc])"
      by (intro fit_rules) (use s l in \<open>simp_all add: path_node_sized_def\<close>)
    then show ?thesis using e(1) by (auto simp: UpdatePathNode_to_bytes_def elim!: fitsE intro!: fitsI simp del: cat_res.simps)
  qed
  from fits_map [of ns 361000, OF node] obtain nb where
    nb: "cat_res (map UpdatePathNode_to_bytes ns) = Inr nb" "length nb \<le> length ns * 361000" by (rule fitsE) auto
  then have l: "length nb \<le> 4332000" using assms(3) by simp
  from assms(1) obtain kb where kb: "KeyPackage_to_bytes kp = Inr kb" "length kb \<le> 450" by (rule fitsE)
  have "fits ((4 + 450) + (4 + (4332000 + 0))) (cat_res [tls_opaque kb, tls_u32 (int (length ns)), Inr nb])"
    by (intro fit_rules) (use kb l assms(3) in simp_all)
  then show ?thesis using nb(1) kb(1) by (auto simp: UpdatePath_to_bytes_def elim!: fitsE intro!: fitsI simp del: cat_res.simps)
qed

lemma secrets_fit:
  assumes "secrets_sized ss" "length ss \<le> 8192"
  shows "fits 983040 (cat_res (map secret_entry_bytes (sort ss)))"
proof -
  have "fits 120 (secret_entry_bytes e)" if "e \<in> set (sort ss)" for e
  proof -
    obtain k v where e: "e = (k, v)" by (cases e)
    have "fits ((4 + 32) + ((4 + 80) + 0)) (secret_entry_bytes (k, v))"
      unfolding secret_entry_bytes_def prod.case by (intro fit_rules) (use assms(1) that e in \<open>auto simp: secrets_sized_def\<close>)
    then show ?thesis by (simp add: e)
  qed
  from fits_map [of "sort ss" 120, OF this] show ?thesis by (rule fits_mono) (use assms(2) in simp_all)
qed

lemma body_fits:
  assumes "tree_room C t" "tree_shape t d" "secrets_sized ss" "length ss \<le> 8192"
    and "fits 450 (KeyPackage_to_bytes kp)" "\<forall>n\<in>set ns. path_node_sized n" "length ns \<le> 12"
    and "0 \<le> e" "e < 2 ^ 64" "0 \<le> i" "i < 2 ^ 32"
  shows "fits 15000000 (GroupUpdate_body_bytes (GroupUpdate_init e t ss i sg gid (Some \<lparr>up_leaf_key_package = kp, up_nodes = ns\<rparr>)))"
proof -
  obtain tb where tb: "RatchetTree_to_bytes t = Inr tb" "length tb \<le> 8300000" by (rule fitsE [OF tree_bytes_fit [OF assms(1,2)]])
  obtain sb where sb: "cat_res (map secret_entry_bytes (sort ss)) = Inr sb" "length sb \<le> 983040" by (rule fitsE [OF secrets_fit [OF assms(3,4)]])
  obtain pb where pb: "UpdatePath_to_bytes \<lparr>up_leaf_key_package = kp, up_nodes = ns\<rparr> = Inr pb" "length pb \<le> 4500000"
    by (rule fitsE [OF path_bytes_fit [OF assms(5-7)]])
  have "fits (8 + ((4 + 8300000) + (4 + (983040 + (4 + (1 + ((4 + 4500000) + 0)))))))
     (cat_res [tls_u64 e, tls_opaque32 tb, tls_u32 (int (length ss)), Inr sb, tls_u32 i, Inr [0x01], tls_opaque32 pb])"
    by (intro fit_rules) (use assms tb(2) sb(2) pb(2) in simp_all)
  then have "fits 15000000 (cat_res [tls_u64 e, tls_opaque32 tb, tls_u32 (int (length ss)), Inr sb, tls_u32 i, Inr [0x01], tls_opaque32 pb])"
    by (rule fits_mono) simp
  then show ?thesis by (simp add: GroupUpdate_body_bytes_def GroupUpdate_init_def tb(1) sb(1) pb(1) del: cat_res.simps)
qed

text \<open>A member with room: its tree, its identifiers and hashes of bounded size.\<close>

definition group_room :: "crypto \<Rightarrow> MLSGroup \<Rightarrow> bool" where
  "group_room C g \<longleftrightarrow> tree_room C (g_tree g) \<and> length (g_group_id g) \<le> 1000 \<and> 0 \<le> g_epoch_id g \<and> g_epoch_id g + 1 < 2 ^ 64
     \<and> length (g_interim_transcript_hash g) \<le> 255"

lemma framed_fits:
  assumes "length (g_group_id g) \<le> 1000" "0 \<le> g_epoch_id g" "g_epoch_id g < 2 ^ 64" "0 \<le> i" "i < 2 ^ 32" "length b \<le> 15000100"
  shows "fits 15002000 (FramedContent_to_bytes (framed_commit g i b))"
proof -
  have "fits ((4 + 1000) + (8 + (1 + (4 + ((4 + 0) + (1 + ((4 + 15000100) + 0))))))) (FramedContent_to_bytes (framed_commit g i b))"
    unfolding FramedContent_to_bytes_def framed_commit_def FramedContent.simps CONTENT_TYPE_COMMIT_def
    by (intro fit_rules) (use assms in simp_all)
  then show ?thesis by (rule fits_mono) simp
qed

lemma sign_commit_ok:
  assumes "working_crypto C" "group_room C g" "tree_shape (g_tree g) d'" "tree_room C t" "tree_shape t d"
    and "secrets_sized ss" "length ss \<le> 8192" "fits 450 (KeyPackage_to_bytes kp)" "\<forall>n\<in>set ns. path_node_sized n" "length ns \<le> 12"
    and "0 \<le> g_my_index g" "g_my_index g < 2 ^ 32"
  obtains sc where "sign_commit C g (g_epoch_id g + 1) t ss \<lparr>up_leaf_key_package = kp, up_nodes = ns\<rparr> = Inr sc"
    "length (sc_transcript_hash sc) = 32"
proof -
  have g: "length (g_group_id g) \<le> 1000" "0 \<le> g_epoch_id g" "g_epoch_id g < 2 ^ 64" "g_epoch_id g + 1 < 2 ^ 64"
    "length (g_interim_transcript_hash g) \<le> 255" "tree_room C (g_tree g)" using assms(2) by (simp_all add: group_room_def)
  let ?u = "GroupUpdate_init (g_epoch_id g + 1) t ss (g_my_index g) [] (g_group_id g) (Some \<lparr>up_leaf_key_package = kp, up_nodes = ns\<rparr>)"
  obtain b where b: "GroupUpdate_body_bytes ?u = Inr b" "length b \<le> 15000000"
    by (rule fitsE [OF body_fits [OF assms(4-10), of "g_epoch_id g + 1" "g_my_index g"]]) (use g assms(11,12) in simp_all)
  let ?f = "framed_commit g (g_my_index g) b"
  obtain fb where fb: "FramedContent_to_bytes ?f = Inr fb" "length fb \<le> 15002000"
    by (rule fitsE [OF framed_fits [OF g(1-3) assms(11,12), of b]]) (use b(2) in simp_all)
  obtain ctx cb where ctx: "make_group_context (g_group_id g) (g_epoch_id g) (g_tree g) (g_interim_transcript_hash g) = Inr ctx"
    "GroupContext_to_bytes ctx = Inr cb" "length cb \<le> 2000" by (rule context_ok [OF g(6) assms(3) g(1-3,5)])
  have "fits (2 + (2 + (2000 + (15002000 + 0)))) (make_framed_content_tbs ctx ?f)"
    unfolding make_framed_content_tbs_def ctx(2) fb(1) by (intro fit_rules) (use ctx(3) fb(2) in simp_all)
  then obtain tbs where tbs: "make_framed_content_tbs ctx ?f = Inr tbs" by (auto elim: fitsE)
  have "fits (2 + (15002000 + ((4 + 64) + 0))) (confirmed_transcript_hash_input fb (sig_sign C (g_my_sig_key g) tbs))"
    unfolding confirmed_transcript_hash_input_def by (intro fit_rules) (use fb(2) key_sizes(3) [OF assms(1)] in simp_all)
  then obtain ci where "confirmed_transcript_hash_input fb (sig_sign C (g_my_sig_key g) tbs) = Inr ci" by (auto elim: fitsE)
  with b fb ctx(1) tbs show ?thesis
    by (intro that) (simp_all add: sign_commit_def Let_def compute_confirmed_transcript_hash_def, simp)
qed

lemma confirm_commit_ok:
  assumes "tree_room C t" "tree_shape t d" "length (g_group_id g) \<le> 1000" "0 \<le> e" "e < 2 ^ 64" "length th = 32"
  obtains cf where "confirm_commit g e t cs th = Inr cf" "length (cf_interim cf) = 32"
proof -
  obtain ctx cb where ctx: "make_group_context (g_group_id g) e t th = Inr ctx" "GroupContext_to_bytes ctx = Inr cb" "length cb \<le> 2000"
    by (rule context_ok [OF assms(1-5), of th]) (use assms(6) in simp_all)
  obtain k where "KeySchedule_derive (init_secret (g_schedule g)) cs cb None = Inr k"
    using KeySchedule_derive_ok [of cb None] ctx(3) by (auto simp: psks_ok_def)
  with ctx show ?thesis
    by (intro that) (simp_all add: confirm_commit_def provisional_tag_def advance_epoch_def KeySchedules.confirmation_key_shortcut Let_def
        compute_interim_transcript_hash_def, simp)
qed

lemma commit_secret_length:
  "\<forall>s\<in>set ss. length s = 32 \<Longrightarrow> length l = 32 \<Longrightarrow> length (commit_secret_of ss l) = 32"
  by (simp add: commit_secret_of_def)

text \<open>Every block of a commit returns.\<close>

lemma commit_log_ok:
  assumes C: "working_crypto C" and g: "group_room C g" "member_ok C g" and t: "prepared C g t" "tree_room C t"
    and s: "length (ent_leaf_path_secret ent) = 32"
  obtains rk ctx upns secrets sc cf where "commit_log C ent g t rk ctx upns secrets sc cf" "tree_room C (rk_tree rk)"
    "length (cf_interim cf) = 32" "secrets_sized secrets" "length secrets \<le> 8192" "length upns \<le> 12" "\<forall>n\<in>set upns. path_node_sized n"
    "fits 450 (KeyPackage_to_bytes (rk_key_package rk))"
proof -
  from t(1) obtain d where d: "tree_shape t d" by (auto simp: prepared_def tree_good_def tree_wf_def)
  obtain d' where d': "tree_shape (g_tree g) d'" using g(2) by (auto simp: member_ok_def tree_good_def tree_wf_def)
  have p: "tree_wf t" "\<not> frozen t" "no_unmerged t" "g_my_index g < 2 ^ d" "0 \<le> g_my_index g"
    using t(1) g(2) shape_leaves [OF d] by (simp_all add: prepared_def tree_good_def member_ok_def holds_leaf_def)
  have d12: "d \<le> 12" by (rule room_bound(1) [OF t(2) d])
  have G: "length (g_group_id g) \<le> 1000" "0 \<le> g_epoch_id g + 1" "g_epoch_id g + 1 < 2 ^ 64" "length (g_interim_transcript_hash g) \<le> 255"
    using g(1) by (simp_all add: group_room_def)
  obtain rk where rk: "rekey_path C ent g t = Inr rk" "tree_room C (rk_tree rk)" "\<forall>s\<in>set (rk_path_secrets rk). length s = 32"
    "\<forall>p\<in>set (rk_node_pubs rk). length p = 32" "fits 450 (KeyPackage_to_bytes (rk_key_package rk))"
    "rk_cop rk = map (\<lambda>k. tnode k (sibling_pos (g_my_index g div 2 ^ k))) [0..<d]"
    by (rule rekey_path_ok [OF C d p(1,2) t(2) p(5,4)])
  note T = rekeyed_tree [OF rk(1) d p(1,2,5,4)]
  let ?R = "rk_tree rk" and ?cs = "commit_secret_of (rk_path_secrets rk) (ent_leaf_path_secret ent)"
  obtain ctx cb where ctx: "make_group_context (g_group_id g) (g_epoch_id g + 1) ?R (g_interim_transcript_hash g) = Inr ctx"
    "GroupContext_to_bytes ctx = Inr cb" "length cb \<le> 2000" by (rule context_ok [OF rk(2) T(2) G])
  let ?xs = "zip (rk_cop rk) (zip (rk_path_secrets rk) (rk_node_pubs rk))"
  have "\<forall>(c, ps, pub)\<in>set ?xs. (\<exists>rs. resolution ?R c = Inr rs \<and> length rs \<le> 4096) \<and> length ps = 32 \<and> length pub = 32"
  proof clarify
    fix c ps pub assume z: "(c, ps, pub) \<in> set ?xs"
    note r = set_zip_rightD [OF z]
    from set_zip_leftD [OF z] rk(6) obtain k where k: "k < d" "c = tnode k (sibling_pos (g_my_index g div 2 ^ k))" by auto
    have "length (resolve ?R k (sibling_pos (g_my_index g div 2 ^ k))) \<le> 2 ^ k" using resolve_length [OF T(5)] p(3) by blast
    also have "(2::nat) ^ k \<le> 2 ^ 12" using k(1) d12 by (intro power_increasing) simp_all
    finally show "(\<exists>rs. resolution ?R c = Inr rs \<and> length rs \<le> 4096) \<and> length ps = 32 \<and> length pub = 32"
      using resolution_copath [OF T(2) p(5,4) k(1)] k(2) set_zip_leftD [OF r] set_zip_rightD [OF r] rk(3,4) by auto
  qed
  from update_path_nodes_ok [OF C rk(2) ctx(2,3) this] obtain upns where
    upns: "update_path_nodes C (ent_path_eph ent) ?R ctx 0 ?xs = Inr upns" "length upns = length ?xs" "\<forall>n\<in>set upns. path_node_sized n" by blast
  have ul: "length upns \<le> 12" using upns(2) rk(6) d12 by simp
  have "\<forall>l. Some (Leaf l) \<in> set (nodes ?R) \<longrightarrow> node_room C (Leaf l)" using rk(2) by (auto simp: tree_room_def dest!: in_nodes_get)
  from seal_to_leaves_ok [OF C ctx(2,3) commit_secret_length [OF rk(3) s] this, of "[]" "ent_leaf_eph ent" "2 * g_my_index g" 0] obtain secrets where
    se: "seal_to_leaves C (ent_leaf_eph ent) ctx ?cs (2 * g_my_index g) 0 (nodes ?R) [] = Inr secrets" "secrets_sized secrets"
      "length secrets \<le> length (nodes ?R)" by (auto simp: secrets_sized_def)
  have "int (length (nodes ?R)) \<le> 8192" using rk(2) shape_size [OF T(2)] shape_leaves [OF T(2)] by (simp add: tree_room_def)
  then have sl: "length secrets \<le> 8192" using se(3) by linarith
  have "(2::int) ^ d \<le> 2 ^ 32" using d12 by (intro power_increasing) simp_all
  then have i: "g_my_index g < 2 ^ 32" using p(4) by linarith
  obtain sc where sc: "sign_commit C g (g_epoch_id g + 1) ?R secrets \<lparr>up_leaf_key_package = rk_key_package rk, up_nodes = upns\<rparr> = Inr sc"
    "length (sc_transcript_hash sc) = 32"
    by (rule sign_commit_ok [OF C g(1) d' rk(2) T(2) se(2) sl rk(5) upns(3) ul p(5) i])
  obtain cf where cf: "confirm_commit g (g_epoch_id g + 1) ?R ?cs (sc_transcript_hash sc) = Inr cf" "length (cf_interim cf) = 32"
    by (rule confirm_commit_ok [OF rk(2) T(2) G(1-3) sc(2)])
  have "commit_log C ent g t rk ctx upns secrets sc cf" using rk(1) ctx(1) upns(1) se(1) sc(1) cf(1) by (simp add: commit_log_def)
  with that rk(2,5) cf(2) se(2) sl ul upns(3) show ?thesis by blast
qed

text \<open>A commit with room can be sent.\<close>

lemma commit_sendable:
  assumes C: "working_crypto C" and g: "group_room C g" "0 \<le> g_my_index g" "g_my_index g < 2 ^ 32"
    and log: "commit_log C ent g t rk ctx upns secrets sc cf" and R: "tree_room C (rk_tree rk)" "tree_shape (rk_tree rk) d"
    and s: "secrets_sized secrets" "length secrets \<le> 8192" "fits 450 (KeyPackage_to_bytes (rk_key_package rk))"
      "\<forall>n\<in>set upns. path_node_sized n" "length upns \<le> 12"
  shows "\<exists>bs. bindR (wrap_commit (attach_context g sc cf (cf_tag cf))) MLSMessage_to_bytes = Inr bs"
proof -
  let ?u = "attach_context g sc cf (cf_tag cf)"
  have L: "sign_commit C g (g_epoch_id g + 1) (rk_tree rk) secrets \<lparr>up_leaf_key_package = rk_key_package rk, up_nodes = upns\<rparr> = Inr sc"
    using log by (simp add: commit_log_def)
  have G: "length (g_group_id g) \<le> 1000" "0 \<le> g_epoch_id g" "g_epoch_id g < 2 ^ 64" "0 \<le> g_epoch_id g + 1" "g_epoch_id g + 1 < 2 ^ 64"
    using g(1) by (simp_all add: group_room_def)
  from sign_commit_facts [OF L] have S: "sc_update sc = (GroupUpdate_init (g_epoch_id g + 1) (rk_tree rk) secrets (g_my_index g) [] (g_group_id g)
          (Some \<lparr>up_leaf_key_package = rk_key_package rk, up_nodes = upns\<rparr>))\<lparr>gu_signature := sig_sign C (g_my_sig_key g) (sc_tbs sc)\<rparr>"
    "make_group_context (g_group_id g) (g_epoch_id g) (g_tree g) (g_interim_transcript_hash g) = Inr (sc_old_ctx sc)" by metis+
  have "fits 15000000 (GroupUpdate_body_bytes ?u)"
    unfolding body_bytes_frame S(1) by (rule body_fits [OF R s(1-5) G(4,5) g(2,3)])
  moreover have sg: "gu_signature ?u = sig_sign C (g_my_sig_key g) (sc_tbs sc)" by (simp add: attach_context_def S(1))
  ultimately have "fits (15000000 + ((4 + 64) + 0)) (GroupUpdate_to_bytes ?u)"
    unfolding GroupUpdate_to_bytes_def by (intro fit_rules) (simp_all add: key_sizes(3) [OF C])
  then obtain b where b: "GroupUpdate_to_bytes ?u = Inr b" "length b \<le> 15000100" by (auto elim!: fitsE)
  have ctx: "gc_group_id (sc_old_ctx sc) = g_group_id g" "gc_epoch (sc_old_ctx sc) = g_epoch_id g"
    using S(2) by (auto simp: make_group_context_def dest!: sym [of _ "sc_old_ctx sc"])
  let ?f = "framed_commit g (g_my_index g) b"
  let ?tag = "hmac_digest sha256 (confirmation_key (ep_key_schedule (cf_state cf))) (sc_transcript_hash sc)"
  let ?a = "\<lparr>ad_signature = sig_sign C (g_my_sig_key g) (sc_tbs sc), ad_confirmation_tag = ?tag\<rparr>"
  let ?m = "hmac_digest sha256 (membership_key (g_schedule g)) (sc_tbs sc)"
  have pm: "PublicMessage_from_group_update ?u (confirmation_key (ep_key_schedule (cf_state cf))) (sc_transcript_hash sc) (sc_old_ctx sc)
      = Inr \<lparr>pm_content = ?f, pm_auth = ?a, pm_membership_tag = ?m\<rparr>"
    using b(1) ctx by (simp add: PublicMessage_from_group_update_def framed_commit_def attach_context_def S(1) GroupUpdate_init_def Let_def)
  obtain fb where fb: "FramedContent_to_bytes ?f = Inr fb" "length fb \<le> 15002000" by (rule fitsE [OF framed_fits [OF G(1-3) g(2,3) b(2)]])
  have "fits ((4 + 64) + ((4 + 32) + 0)) (FramedContentAuthData_to_bytes ?a)"
    unfolding FramedContentAuthData_to_bytes_def by (intro fit_rules) (simp_all add: key_sizes(3) [OF C])
  then obtain ab where ab: "FramedContentAuthData_to_bytes ?a = Inr ab" "length ab \<le> 200" by (auto elim!: fitsE)
  have "fits ((4 + 15002000) + ((4 + 200) + ((4 + 32) + 0))) (cat_res [tls_opaque32 fb, tls_opaque32 ab, tls_opaque ?m])"
    by (intro fit_rules) (use fb(2) ab(2) in simp_all)
  then obtain pb where pb: "cat_res [tls_opaque32 fb, tls_opaque32 ab, tls_opaque ?m] = Inr pb" "length pb \<le> 15002300"
    by (auto elim!: fitsE simp del: cat_res.simps)
  have "fits (2 + (2 + ((4 + 15002300) + 0))) (cat_res [tls_u16 MLSMESSAGE_VERSION, tls_u16 (wire_format_value MLS_PUBLIC_MESSAGE), tls_opaque32 pb])"
    unfolding MLSMESSAGE_VERSION_def by (intro fit_rules) (use pb(2) in simp_all)
  then obtain bs where "cat_res [tls_u16 MLSMESSAGE_VERSION, tls_u16 (wire_format_value MLS_PUBLIC_MESSAGE), tls_opaque32 pb] = Inr bs"
    by (rule fitsE)
  moreover have "gu_group_ctx ?u = Some (cf_ctx cf)" "gu_old_group_ctx ?u = Some (sc_old_ctx sc)"
    "gu_confirmation_key ?u = Some (confirmation_key (ep_key_schedule (cf_state cf)))"
    "gu_epoch_authenticator ?u = Some (epoch_authenticator (ep_key_schedule (cf_state cf)))"
    "gu_membership_key ?u = Some (membership_key (ep_key_schedule (cf_state cf)))" "gu_transcript_hash ?u = Some (sc_transcript_hash sc)"
    by (simp_all add: attach_context_def)
  ultimately show ?thesis using pm fb(1) ab(1) pb(1)
    by (simp add: wrap_commit_def PublicMessage_to_bytes_def MLSMessage_to_bytes_def del: cat_res.simps)
qed

text \<open>The next member has room again, the epoch number apart.\<close>

lemma room_frozen [simp]: "tree_room C (freeze t) = tree_room C t" "tree_room C (t\<lparr>frozen := b\<rparr>) = tree_room C t"
  by (simp_all add: tree_room_def freeze_def get_node_def)

lemma next_group_room:
  assumes "commit_log C ent g t rk ctx upns secrets sc cf" "group_room C g" "tree_room C (rk_tree rk)" "length (cf_interim cf) = 32"
    "g_epoch_id g + 2 < 2 ^ 64"
  shows "group_room C (next_group g cf kem)"
proof -
  obtain k where "cf_state cf = EpochState_init (g_group_id g) (g_epoch_id g + 1) (rk_tree rk) k"
    using assms(1) by (auto simp: commit_log_def confirm_commit_def advance_epoch_def Let_def)
  with assms(2-) show ?thesis by (simp add: group_room_def next_group_def MLSGroup_init_def EpochState_init_def)
qed

text \<open>Every commit over a prepared tree with room, by any of the three operations.\<close>

lemma commit_ok:
  assumes C: "working_crypto C" and g: "group_room C g" "member_ok C g" and t: "prepared C g t" "tree_room C t"
    and s: "length (ent_leaf_path_secret ent) = 32"
  obtains rk ctx upns secrets sc cf where "commit_log C ent g t rk ctx upns secrets sc cf" "tree_room C (rk_tree rk)"
    "\<exists>bs. bindR (wrap_commit (attach_context g sc cf (cf_tag cf))) MLSMessage_to_bytes = Inr bs"
    "\<forall>kem. g_epoch_id g + 2 < 2 ^ 64 \<longrightarrow> group_room C (next_group g cf kem)"
proof -
  obtain rk ctx upns secrets sc cf where l: "commit_log C ent g t rk ctx upns secrets sc cf" "tree_room C (rk_tree rk)"
    "length (cf_interim cf) = 32" "secrets_sized secrets" "length secrets \<le> 8192" "length upns \<le> 12" "\<forall>n\<in>set upns. path_node_sized n"
    "fits 450 (KeyPackage_to_bytes (rk_key_package rk))"
    by (rule commit_log_ok [OF C g t s])
  have i: "0 \<le> g_my_index g" "g_my_index g < num_leaves (g_tree g)" using g(2) by (simp_all add: member_ok_def holds_leaf_def)
  then have i2: "g_my_index g < 2 ^ 32" using g(1) by (simp add: group_room_def tree_room_def)
  obtain d where "tree_shape (rk_tree rk) d"
    using commit_log_tree(1) [OF l(1) _ t(1) i(1)] C by (auto simp: working_crypto_def crypto_laws_def tree_good_def tree_wf_def)
  from commit_sendable [OF C g(1) i(1) i2 l(1,2) this l(4,5,8,7,6)] next_group_room [OF l(1) g(1) l(2,3)] l(1,2) that show ?thesis by blast
qed

lemma update_key_ok:
  assumes C: "working_crypto C" and g: "group_room C g" "member_ok C g" and s: "length (ent_leaf_path_secret ent) = 32"
  obtains g' u bs where "fst (update_key C ent g) = Inr (g', u)" "bindR (wrap_commit u) MLSMessage_to_bytes = Inr bs"
    "g_epoch_id g + 2 < 2 ^ 64 \<longrightarrow> group_room C g'"
proof -
  let ?t = "(g_tree g)\<lparr>frozen := False\<rparr>"
  have wf: "tree_wf (g_tree g)" using g(2) by (simp add: member_ok_def tree_good_def)
  have room: "tree_room C ?t" using g(1) by (simp add: group_room_def)
  obtain rk ctx upns secrets sc cf where l: "commit_log C ent g ?t rk ctx upns secrets sc cf"
    "\<exists>bs. bindR (wrap_commit (attach_context g sc cf (cf_tag cf))) MLSMessage_to_bytes = Inr bs"
    "\<forall>kem. g_epoch_id g + 2 < 2 ^ 64 \<longrightarrow> group_room C (next_group g cf kem)"
    by (rule commit_ok [OF C g prepared_update [OF g(2)] room s])
  have "fst (update_key C ent g) = Inr (next_group g cf (ent_committer_kem ent), attach_context g sc cf (cf_tag cf))"
    using l(1) wf by (simp add: update_key_def copy_tree_same commit_tree_def commit_log_def Let_def)
  with that l(2,3) show ?thesis by blast
qed

lemma remove_member_ok:
  assumes C: "working_crypto C" and g: "group_room C g" "member_ok C g" and s: "length (ent_leaf_path_secret ent) = 32"
    and i: "i \<noteq> g_my_index g" "0 \<le> i" "i < num_leaves (g_tree g)"
  obtains g' u bs where "fst (remove_member C ent g i) = Inr (g', u)" "bindR (wrap_commit u) MLSMessage_to_bytes = Inr bs"
    "g_epoch_id g + 2 < 2 ^ 64 \<longrightarrow> group_room C g'"
proof -
  have wf: "tree_wf (g_tree g)" using g(2) by (simp add: member_ok_def tree_good_def)
  then obtain d where d: "tree_shape (g_tree g) d" "tree_typed (nodes (g_tree g))" by (auto simp: tree_wf_def)
  have "i < 2 ^ d" using i(3) shape_leaves [OF d(1)] by simp
  from remove_leaf_facts [OF d i(2) this] obtain t where t: "remove_leaf (g_tree g) (2 * i) = Inr t" "num_leaves t \<le> 2 ^ d" by blast
  have room: "tree_room C t"
    using g(1) t(2) remove_leaf_nodes [OF wf i(2,3) t(1)] shape_leaves [OF d(1)]
    unfolding group_room_def tree_room_def by (metis option.distinct(1) order_trans)
  obtain rk ctx upns secrets sc cf where l: "commit_log C ent g t rk ctx upns secrets sc cf"
    "\<exists>bs. bindR (wrap_commit (attach_context g sc cf (cf_tag cf))) MLSMessage_to_bytes = Inr bs"
    "\<forall>kem. g_epoch_id g + 2 < 2 ^ 64 \<longrightarrow> group_room C (next_group g cf kem)"
    by (rule commit_ok [OF C g prepared_remove(1) [OF g(2) i t(1)] room s])
  have "fst (remove_member C ent g i) = Inr (next_group g cf (g_my_kem_key g), attach_context g sc cf (cf_tag cf))"
    using l(1) i t(1) by (simp add: remove_member_def commit_tree_def commit_log_def Let_def)
  with that l(2,3) show ?thesis by blast
qed

lemma seal_to_leaves_add_conv:
  assumes "seal_to_leaves C eph ctx s mine i ns d = Inr d'" "\<forall>k<length ns. node_fits (i + k) (ns ! k)"
  shows "seal_to_leaves_add C eph ctx s mine i ns d = Inr d'"
  using assms
proof (induction ns arbitrary: i d)
  case (Cons node ns)
  have f: "\<forall>k<length ns. node_fits (Suc i + k) (ns ! k)" "node_fits i node" using Cons.prems(2) by fastforce+
  then show ?case using Cons.prems(1) Cons.IH [of "Suc i"]
    by (cases "(i, node)" rule: node_fits.cases) (auto split: if_splits)
qed simp

text \<open>The Welcome.\<close>

definition package_room :: "crypto \<Rightarrow> KeyPackage \<Rightarrow> bool" where
  "package_room C kp \<longleftrightarrow> node_room C (Leaf (leaf_node kp)) \<and> key_usable C (init_key_pub kp) \<and> fits 4000 (KeyPackage_to_bytes kp)"

lemma group_info_ok:
  assumes "working_crypto C" "GroupContext_to_bytes ctx = Inr cb" "length cb \<le> 2000" "length tb \<le> 8300000" "length tag = 32" "0 \<le> i" "i < 2 ^ 32"
  obtains gi b where "GroupInfo_build_and_sign C ctx tag i sk (Some [(0x0002, tb)]) = Inr gi" "GroupInfo_to_bytes gi = Inr b"
    "length b \<le> 8400000"
proof -
  have "fits (2 + ((4 + 8300000) + 0)) (cat_res [tls_u16 0x0002, tls_opaque tb])" by (intro fit_rules) (use assms(4) in simp_all)
  then obtain eb where eb: "cat_res [tls_u16 0x0002, tls_opaque tb] = Inr eb" "length eb \<le> 8300006" by (auto elim!: fitsE simp del: cat_res.simps)
  then have e1: "cat_res (map (\<lambda>(t, d). cat_res [tls_u16 t, tls_opaque d]) [(0x0002, tb)]) = Inr eb" by auto
  let ?gi = "\<lambda>sg. \<lparr>gi_group_context = ctx, gi_extensions_bytes = eb, gi_confirmation_tag = tag, gi_signer = i, gi_signature = sg, gi_raw_data = []\<rparr>"
  have tbs: "fits (2000 + ((4 + 8300006) + ((4 + 32) + (4 + 0)))) (GroupInfo_tbs_bytes (?gi sg))" for sg
    unfolding GroupInfo_tbs_alt GroupInfo.simps assms(2) by (intro fit_rules) (use assms eb(2) in simp_all)
  from tbs [of "[]"] obtain b0 where b0: "GroupInfo_tbs_bytes (?gi []) = Inr b0" "length b0 \<le> 8302050" by (auto elim!: fitsE)
  have "fits ((4 + 30) + ((4 + 8302050) + 0)) (cat_res [tls_opaque (encode_str ''MLS 1.0 GroupInfoTBS''), tls_opaque b0])"
    by (intro fit_rules) (use b0(2) in \<open>simp_all add: encode_str_def\<close>)
  then obtain pl where pl: "GroupInfo_payload (?gi []) = Inr pl" using b0(1) by (auto simp: GroupInfo_payload_def elim!: fitsE)
  have "fits ((2000 + ((4 + 8300006) + ((4 + 32) + (4 + 0)))) + ((4 + 64) + 0)) (GroupInfo_to_bytes (?gi (sig_sign C sk pl)))"
    unfolding GroupInfo_to_bytes_def by (intro fit_rules tbs) (simp_all add: key_sizes(3) [OF assms(1)])
  then obtain b where "GroupInfo_to_bytes (?gi (sig_sign C sk pl)) = Inr b" "length b \<le> 8400000" by (auto elim!: fitsE)
  moreover have "GroupInfo_build_and_sign C ctx tag i sk (Some [(0x0002, tb)]) = Inr (?gi (sig_sign C sk pl))"
    unfolding GroupInfo_build_and_sign_def option.case e1 by (simp add: pl Let_def)
  ultimately show ?thesis by (intro that)
qed

lemma welcome_keys_ok:
  obtains wk wn where "derive_welcome_key j p = Inr wk" "derive_welcome_nonce j p = Inr wn" "length wk = 16" "length wn = 12"
proof -
  let ?i = "hkdf_extract (Some j) (case p of None \<Rightarrow> replicate NH 0 | Some x \<Rightarrow> x) sha256"
  obtain s where "derive_secret ?i ''welcome'' sha256 = Inr s" using derive_secret_ok [of "''welcome''" ?i] by auto
  moreover obtain wk where "expand_with_label s ''key'' [] 16 sha256 = Inr wk" "length wk = 16"
    using expand_with_label_sha256 [of "''key''" "[]" 16 s] by auto
  moreover obtain wn where "expand_with_label s ''nonce'' [] 12 sha256 = Inr wn" "length wn = 12"
    using expand_with_label_sha256 [of "''nonce''" "[]" 12 s] by auto
  ultimately show ?thesis by (intro that) (simp_all add: derive_welcome_key_def derive_welcome_nonce_def Let_def)
qed

lemma welcome_fits:
  assumes "length r = 32" "length enc = 32" "length ct \<le> 200" "length egi \<le> 8500000"
  shows "\<exists>wb. Welcome_to_bytes REGISTRY \<lparr>w_cipher_suite = cs, w_encrypted_group_secrets =
       [\<lparr>egs_new_member = r, egs_kem_output = enc, egs_ciphertext = ct\<rparr>], w_encrypted_group_info = egi, w_dialect = None\<rparr> = Inr wb"
proof -
  have v: "fits (4 + (length b + 0)) (vop b)" if "length b \<le> 8500000" for b
    unfolding vop_def by (intro fit_rules) (use that in simp_all)
  have "fits ((4 + (length r + 0)) + ((4 + (length enc + 0)) + ((4 + (length ct + 0)) + 0)))
     (EncryptedGroupSecrets_to_bytes \<lparr>egs_new_member = r, egs_kem_output = enc, egs_ciphertext = ct\<rparr>)"
    unfolding EncryptedGroupSecrets_to_bytes_def EncryptedGroupSecrets.simps by (intro fit_rules v) (use assms in simp_all)
  then obtain eb where eb: "EncryptedGroupSecrets_to_bytes \<lparr>egs_new_member = r, egs_kem_output = enc, egs_ciphertext = ct\<rparr> = Inr eb"
    "length eb \<le> 300" using assms by (auto elim!: fitsE)
  obtain b1 where b1: "vop eb = Inr b1" using v [of eb] eb(2) by (auto elim!: fitsE)
  obtain b2 where b2: "vop egi = Inr b2" using v [of egi] assms(4) by (auto elim!: fitsE)
  have "standard_encode_vector [x] = vop x" for x by (simp add: standard_encode_vector_def vop_def Let_def)
  with eb(1) b1 b2 show ?thesis
    by (simp add: Welcome_to_bytes_def get_dialect_def REGISTRY_def dialect_name_def StandardStrategy_def WELCOME_CIPHER_SUITE_def tls_u16_def struct_pack_def)
qed

lemma build_welcome_ok:
  assumes C: "working_crypto C" and t: "tree_room C t" "tree_shape t d" and kp: "package_room C kp"
    and g: "length (g_group_id g) \<le> 1000" "0 \<le> g_my_index g" "g_my_index g < 2 ^ 32"
    and s: "s = EpochState_init gid e t k" "schedule_wf k" "0 \<le> e" "e < 2 ^ 64" "length th = 32"
  obtains w where "build_welcome C eph g kp t s th = Inr w" "\<exists>wb. Welcome_to_bytes REGISTRY w = Inr wb"
proof -
  have sk: "ep_epoch_id s = e" "ep_key_schedule s = k" by (simp_all add: s(1) EpochState_init_def)
  let ?j = "joiner_secret k" and ?tag = "hmac_digest sha256 (confirmation_key k) th"
  have j: "length ?j = 32" using s(2) by (simp add: schedule_wf_def)
  obtain ctx cb where ctx: "make_group_context (g_group_id g) e t th = Inr ctx" "GroupContext_to_bytes ctx = Inr cb" "length cb \<le> 2000"
    by (rule context_ok [OF t g(1) s(3,4), of th]) (use s(5) in simp_all)
  obtain tb where tb: "RatchetTree_to_bytes t = Inr tb" "length tb \<le> 8300000" by (rule fitsE [OF tree_bytes_fit [OF t]])
  obtain gi gib where gi: "GroupInfo_build_and_sign C ctx ?tag (g_my_index g) (g_my_sig_key g) (Some [(0x0002, tb)]) = Inr gi"
    "GroupInfo_to_bytes gi = Inr gib" "length gib \<le> 8400000"
    by (rule group_info_ok [OF C ctx(2,3) tb(2), of ?tag "g_my_index g" "g_my_sig_key g"]) (use g in simp_all)
  obtain psk where psk: "psk_secret None = Inr psk" using psk_secret_ok [of None] by (auto simp: psks_ok_def)
  obtain wk wn where w: "derive_welcome_key ?j (Some psk) = Inr wk" "derive_welcome_nonce ?j (Some psk) = Inr wn" "length wk = 16" "length wn = 12"
    by (rule welcome_keys_ok)
  obtain egi where egi: "gcm_encrypt C wk wn gib [] = Inr egi" "length egi = length gib + 16"
    using gcm_ok [OF C w(3,4), of gib "[]"] gi(3) by auto
  have "fits ((4 + 60) + ((4 + 8400016) + 0)) (cat_res [tls_opaque (encode_str ''MLS 1.0 '' @ encode_str ''Welcome''), tls_opaque egi])"
    by (intro fit_rules) (use egi(2) gi(3) in \<open>simp_all add: encode_str_def\<close>)
  then obtain info where info: "egs_info egi = Inr info" by (auto simp: egs_info_def make_hpke_info_def Let_def elim!: fitsE)
  let ?gs = "\<lparr>gs_joiner_secret = ?j, gs_path_secret = None, gs_psks = []\<rparr>"
  have "fits (4 + (32 + (1 + (4 + 0)))) (cat_res [tls_varint (int (length ?j)), Inr ?j, Inr [0x00], tls_varint 0])"
    by (intro fit_rules) (use j in simp_all)
  then have "fits 100 (GroupSecrets_to_bytes ?gs)" by (auto simp: GroupSecrets_to_bytes_def Let_def elim!: fitsE intro!: fitsI)
  then obtain gsb where gsb: "GroupSecrets_to_bytes ?gs = Inr gsb" "length gsb \<le> 100" by (rule fitsE)
  have ku: "key_usable C (init_key_pub kp)" "length gsb < 2 ^ 31" using kp gsb(2) by (simp_all add: package_room_def)
  obtain ct where ct: "hpke_seal C eph (init_key_pub kp) gsb [] 0 info = Inr (kem_public_bytes C eph, ct)" "length ct = length gsb + 16"
    by (rule seal_ok [OF C ku])
  obtain r where r: "make_kp_ref kp = Inr r" "length r = 32" using kp make_kp_ref_fits [of kp] unfolding package_room_def by blast
  have wb: "\<exists>wb. Welcome_to_bytes REGISTRY \<lparr>w_cipher_suite = WELCOME_CIPHER_SUITE, w_encrypted_group_secrets =
       [\<lparr>egs_new_member = r, egs_kem_output = kem_public_bytes C eph, egs_ciphertext = ct\<rparr>], w_encrypted_group_info = egi, w_dialect = None\<rparr> = Inr wb"
    by (rule welcome_fits) (use r(2) key_sizes(1) [OF C] ct(2) gsb(2) egi(2) gi(3) in simp_all)
  show ?thesis using that [OF _ wb] ctx(1) tb(1) gi(1,2) psk w(1,2) egi(1) info gsb(1) ct(1) r(1) by (simp add: build_welcome_def sk Let_def)
qed

lemma leaf_even:
  assumes "tree_wf t" "get_node t x = Some (Leaf l)"
  obtains j where "x = 2 * j" "0 \<le> j"
proof -
  have x: "0 \<le> x" "nat x < length (nodes t)" "nodes t ! nat x = Some (Leaf l)" using assms(2) by (auto simp: get_node_def split: if_splits)
  then have "even x" using assms(1) by (auto simp: tree_wf_def tree_typed_def even_nat_iff)
  with x(1) that show ?thesis by (auto elim!: evenE)
qed

lemma place_member_room:
  assumes "tree_wf t" "tree_room C t" "num_leaves t \<le> 2048" "node_room C (Leaf l)" "place_member t l = Inr t'"
  shows "tree_room C t'"
proof -
  from place_member_spec [OF assms(1), of l] assms(3,5) obtain i where
    i: "get_node t' (2 * i) = Some (Leaf l)" "\<forall>j. j \<noteq> i \<longrightarrow> get_node t' (2 * j) = get_node t (2 * j)"
      "\<forall>x p. get_node t' x = Some (Parent p) \<longrightarrow> get_node t x = Some (Parent p)"
    and wf: "tree_wf t'" and n: "num_leaves t' \<le> 2 * num_leaves t" by auto
  have "node_room C nd" if nd: "get_node t' x = Some nd" for x nd
  proof (cases nd)
    case (Leaf l')
    with nd obtain j where "x = 2 * j" using leaf_even [OF wf] by metis
    then show ?thesis using i(1,2) nd assms(2,4) by (cases "j = i") (auto simp: tree_room_def)
  next
    case (Parent p)
    with i(3) nd assms(2) show ?thesis by (auto simp: tree_room_def)
  qed
  with n assms(3) show ?thesis by (simp add: tree_room_def)
qed

lemma add_member_ok:
  assumes C: "working_crypto C" and g: "group_room C g" "member_ok C g" and s: "length (ent_leaf_path_secret ent) = 32"
    and n: "num_leaves (g_tree g) \<le> 2048" "package_room C kp" "KeyPackage_verify_signature C kp = Inr ()"
      "leaf_node_source (leaf_node kp) = LEAF_NODE_SOURCE_KEY_PACKAGE"
    and ref: "make_kp_ref kp = Inr ref" "ref \<notin> g_consumed_key_packages g"
  obtains g' w u bs where "fst (add_member C ent g kp) = Inr (g', w, u)" "bindR (wrap_commit u) MLSMessage_to_bytes = Inr bs"
    "g_epoch_id g + 2 < 2 ^ 64 \<longrightarrow> group_room C g'" "\<exists>wb. Welcome_to_bytes REGISTRY w = Inr wb"
proof -
  let ?g = "g\<lparr>g_consumed_key_packages := insert ref (g_consumed_key_packages g)\<rparr>"
  have wf: "tree_wf (g_tree g)" using g(2) by (simp add: member_ok_def tree_good_def)
  have n31: "num_leaves (g_tree g) < 2 ^ 31" using n(1) by simp
  from place_member_spec [OF wf n31, of "leaf_node kp"] obtain t where t: "place_member (g_tree g) (leaf_node kp) = Inr t" by blast
  have room: "tree_room C t"
    by (rule place_member_room [OF wf _ n(1) _ t]) (use g(1) n(2) in \<open>simp_all add: group_room_def package_room_def\<close>)
  have p: "prepared C ?g t" using prepared_add(1) [OF g(2) n31 t n(3,4)] by simp
  have G: "group_room C ?g" "member_ok C ?g" using g by (simp_all add: group_room_def)
  obtain rk ctx upns secrets sc cf where l: "commit_log C ent ?g t rk ctx upns secrets sc cf" "tree_room C (rk_tree rk)"
    "\<exists>bs. bindR (wrap_commit (attach_context ?g sc cf (cf_tag cf))) MLSMessage_to_bytes = Inr bs"
    "\<forall>kem. g_epoch_id ?g + 2 < 2 ^ 64 \<longrightarrow> group_room C (next_group ?g cf kem)"
    by (rule commit_ok [OF C G p room s])
  have i: "0 \<le> g_my_index ?g" "g_my_index ?g < 2 ^ 32"
    using g by (auto simp: member_ok_def holds_leaf_def group_room_def tree_room_def)
  have sv: "signatures_verify C" using C by (simp add: working_crypto_def crypto_laws_def)
  note T = commit_log_tree [OF l(1) sv p i(1)]
  obtain d where d: "tree_shape (rk_tree rk) d" "tree_typed (nodes (rk_tree rk))" using T(1) by (auto simp: tree_good_def tree_wf_def)
  obtain k where k: "cf_state cf = EpochState_init (g_group_id ?g) (g_epoch_id ?g + 1) (rk_tree rk) k" "schedule_wf k" using T(7) by blast
  have th: "length (sc_transcript_hash sc) = 32"
    using l(1) by (auto simp: commit_log_def sign_commit_def Let_def compute_confirmed_transcript_hash_def)
  obtain w where w: "build_welcome C (ent_welcome_eph ent) ?g kp (rk_tree rk) (cf_state cf) (sc_transcript_hash sc) = Inr w"
    "\<exists>wb. Welcome_to_bytes REGISTRY w = Inr wb"
    by (rule build_welcome_ok [OF C l(2) d(1) n(2) _ i k _ _ th, of "ent_welcome_eph ent"]) (use g(1) in \<open>simp_all add: group_room_def\<close>)
  have L: "seal_to_leaves_add C (ent_leaf_eph ent) ctx (commit_secret_of (rk_path_secrets rk) (ent_leaf_path_secret ent))
       (2 * g_my_index ?g) 0 (nodes (rk_tree rk)) [] = Inr secrets"
    by (rule seal_to_leaves_add_conv) (use l(1) d(2) in \<open>simp_all add: commit_log_def tree_typed_def\<close>)
  have tag: "hmac_digest sha256 (confirmation_key (ep_key_schedule (cf_state cf))) (sc_transcript_hash sc) = cf_tag cf"
    using l(1) confirm_commit_tag(1) by (metis commit_log_def)
  have "add_commit C ent ?g kp = Inr (next_group ?g cf (ent_committer_kem ent), w, attach_context ?g sc cf (cf_tag cf))"
    using t n(3) l(1) L w(1) tag by (simp add: add_commit_def commit_log_def Let_def)
  then have "fst (add_member C ent g kp) = Inr (next_group ?g cf (ent_committer_kem ent), w, attach_context ?g sc cf (cf_tag cf))"
    using ref by (simp add: add_member_def Let_def)
  with that l(3,4) w(2) show ?thesis by (metis MLSGroup.select_convs(1) MLSGroup.surjective MLSGroup.update_convs(6))
qed

text \<open>Creating a group.\<close>

lemma create_ok:
  assumes C: "working_crypto C" and gid: "length gid \<le> 1000"
  obtains g where "create C init gid sk kem = Inr g" "group_room C g"
proof -
  obtain kp where kp: "own_key_package C sk kem init = Inr kp" "node_room C (Leaf (leaf_node kp))"
    by (rule own_key_package_ok [OF C])
  let ?t = "\<lparr>num_leaves = 1, nodes = [Some (Leaf (leaf_node kp))], frozen = False\<rparr>"
  have sh: "tree_shape ?t 0" by (simp add: tree_shape_def)
  have room: "tree_room C ?t" using kp(2) by (simp add: tree_room_def get_node_def)
  obtain ctx cb where ctx: "make_group_context gid 0 ?t [] = Inr ctx" "GroupContext_to_bytes ctx = Inr cb" "length cb \<le> 2000"
    by (rule context_ok [OF room sh gid, of 0 "[]"]) simp_all
  obtain k where k: "KeySchedule_derive (replicate 32 0) (replicate 32 0) cb None = Inr k"
    using KeySchedule_derive_ok [of cb None] ctx(3) by (auto simp: psks_ok_def)
  let ?g = "MLSGroup_init (EpochState_init gid 0 ?t k) 0 sk kem []"
  have "create C init gid sk kem = Inr ?g" using kp(1) ctx(1,2) k by (simp add: create_def genesis_def one_leaf_tree Let_def)
  moreover have "group_room C ?g" using room gid by (simp add: group_room_def MLSGroup_init_def EpochState_init_def)
  ultimately show ?thesis by (rule that)
qed

end
