(* ===== verification/Removals.thy ===== *)
theory Removals
  imports Protocol
begin

text \<open>
  Removals (\<open>remove_member\<close> of \<open>group.py\<close>) in the protocol of a group. The method returns the remover
  with the KEM key of its old leaf, so that the remover can commit but not receive; the next key
  update of its own repairs that. A removal is therefore modelled as two commits of one member,
  \<open>remove_member\<close> and \<open>update_key\<close>, with their messages delivered in this order.
\<close>

section \<open>The protocol with removals as an interface\<close>

text \<open>\<open>expels a m r a'\<close>: the member \<open>a\<close> expels \<open>m\<close> with the messages \<open>r\<close> and becomes \<open>a'\<close>.\<close>

locale removing_protocol = group_protocol +
  fixes expels :: "'m \<Rightarrow> 'm \<Rightarrow> 'r \<Rightarrow> 'm \<Rightarrow> bool" and obeys :: "'m \<Rightarrow> 'r \<Rightarrow> 'm \<Rightarrow> bool"
  assumes removal_fit: "fit a \<Longrightarrow> expels a m r a' \<Longrightarrow> fit a'"
    and removal_obeyed: "fit a \<Longrightarrow> in_step a b \<Longrightarrow> in_step m b \<Longrightarrow> expels a m r a' \<Longrightarrow> \<exists>b'. obeys b r b'"
    and removal_in_step: "fit a \<Longrightarrow> in_step a b \<Longrightarrow> in_step m b \<Longrightarrow> expels a m r a' \<Longrightarrow> obeys b r b' \<Longrightarrow>
        fit b' \<and> in_step a' b'"
    and removal_peers: "fit a \<Longrightarrow> in_step a b \<Longrightarrow> in_step a d \<Longrightarrow> in_step m b \<Longrightarrow> in_step m d \<Longrightarrow> in_step b d \<Longrightarrow>
        expels a m r a' \<Longrightarrow> obeys b r b' \<Longrightarrow> obeys d r d' \<Longrightarrow> in_step b' d'"
begin

lemma without_member:
  assumes "all_in_step fit in_step (xs @ m # ys)"
  shows "all_in_step fit in_step (xs @ ys)" "j < length (xs @ ys) \<Longrightarrow> in_step m ((xs @ ys) ! j)"
proof -
  let ?at = "\<lambda>j. if j < length xs then j else Suc j"
  have at: "(xs @ m # ys) ! ?at j = (xs @ ys) ! j" "?at j < length (xs @ m # ys)" "?at j \<noteq> length xs"
    if "j < length (xs @ ys)" for j using that by (auto simp: nth_append Suc_diff_le)
  have st: "in_step ((xs @ m # ys) ! j) ((xs @ m # ys) ! k)"
    if "j < length (xs @ m # ys)" "k < length (xs @ m # ys)" "j \<noteq> k" for j k
    using assms that unfolding all_in_step_def by blast
  show "in_step m ((xs @ ys) ! j)" if "j < length (xs @ ys)"
    using st [of "length xs" "?at j"] at [OF that] by simp
  have "in_step ((xs @ ys) ! j) ((xs @ ys) ! k)" if "j < length (xs @ ys)" "k < length (xs @ ys)" "j \<noteq> k" for j k
  proof -
    have "?at j \<noteq> ?at k" using that(3) by auto
    from st [OF at(2) [OF that(1)] at(2) [OF that(2)] this] show ?thesis by (simp only: at(1) that)
  qed
  then show "all_in_step fit in_step (xs @ ys)" using assms unfolding all_in_step_def by simp
qed

lemma removal_keeps_group:
  assumes g: "all_in_step fit in_step (xs @ m # ys)" and i: "i < length (xs @ ys)"
    and e: "expels ((xs @ ys) ! i) m r a'" and o: "all_receive obeys (xs @ ys) i r a' ms'"
  shows "all_in_step fit in_step ms'"
proof -
  note w = without_member [OF g]
  have fit: "fit ((xs @ ys) ! i)" using w(1) nth_mem [OF i] by (simp only: all_in_step_def)
  have st: "in_step ((xs @ ys) ! j) ((xs @ ys) ! k)" if "j < length (xs @ ys)" "k < length (xs @ ys)" "j \<noteq> k" for j k
    using w(1) that unfolding all_in_step_def by blast
  have ms': "length ms' = length (xs @ ys)" "ms' ! i = a'" "\<And>j. j < length (xs @ ys) \<Longrightarrow> j \<noteq> i \<Longrightarrow> obeys ((xs @ ys) ! j) r (ms' ! j)"
    using o unfolding all_receive_def by blast+
  have one: "fit (ms' ! j) \<and> in_step a' (ms' ! j)" if "j < length (xs @ ys)" "j \<noteq> i" for j
    using removal_in_step [OF fit st [OF i that(1)] w(2) [OF that(1)] e ms'(3)] that by simp
  have two: "in_step (ms' ! j) (ms' ! k)" if "j < length (xs @ ys)" "k < length (xs @ ys)" "j \<noteq> k" for j k
    using one [of j] one [of k] in_step_sym [of a'] ms'(2) that
      removal_peers [OF fit st [OF i that(1)] st [OF i that(2)] w(2) [OF that(1)] w(2) [OF that(2)] st [OF that] e ms'(3) ms'(3)]
    by (cases "j = i"; cases "k = i") auto
  have "fit (ms' ! j)" if "j < length (xs @ ys)" for j
    using one [OF that] removal_fit [OF fit e] ms'(2) by (cases "j = i") auto
  with two ms'(1) show ?thesis by (auto simp: all_in_step_def in_set_conv_nth)
qed

lemma everyone_can_obey:
  assumes "all_in_step fit in_step (xs @ m # ys)" "i < length (xs @ ys)" "expels ((xs @ ys) ! i) m r a'"
  shows "\<exists>ms'. all_receive obeys (xs @ ys) i r a' ms'"
proof -
  note w = without_member [OF assms(1)]
  have fit: "fit ((xs @ ys) ! i)" using w(1) nth_mem [OF assms(2)] by (simp only: all_in_step_def)
  have "\<exists>b'. j \<noteq> i \<longrightarrow> obeys ((xs @ ys) ! j) r b'" if "j < length (xs @ ys)" for j
    using w(1) removal_obeyed [OF fit _ w(2) [OF that] assms(3)] assms(2) that unfolding all_in_step_def by metis
  then obtain f where f: "\<And>j. j < length (xs @ ys) \<Longrightarrow> j \<noteq> i \<Longrightarrow> obeys ((xs @ ys) ! j) r (f j)" by metis
  show ?thesis
    by (rule exI [of _ "map (\<lambda>j. if j = i then a' else f j) [0..<length (xs @ ys)]"])
      (use f assms(2) in \<open>simp add: all_receive_def\<close>)
qed

end

section \<open>Removals of the program\<close>

definition expels_member :: "crypto \<Rightarrow> MLSGroup \<Rightarrow> MLSGroup \<Rightarrow> bytes \<times> bytes \<Rightarrow> MLSGroup \<Rightarrow> bool" where
  "expels_member C a m = (\<lambda>(bs1, bs2) a''. \<exists>ent u a' ent2 u2.
     fst (remove_member C ent a (g_my_index m)) = Inr (a', u) \<and> on_wire u bs1
     \<and> fst (update_key C ent2 a') = Inr (a'', u2) \<and> on_wire u2 bs2)"

definition obeys_removal :: "crypto \<Rightarrow> MLSGroup \<Rightarrow> bytes \<times> bytes \<Rightarrow> MLSGroup \<Rightarrow> bool" where
  "obeys_removal C b = (\<lambda>(bs1, bs2) b''. \<exists>b'. receives_commit C b bs1 b' \<and> receives_commit C b' bs2 b'')"

lemma remove_member_log:
  assumes "fst (remove_member C ent A i) = Inr (A', u)"
  obtains t rk ctx upns secrets sc cf where "i \<noteq> g_my_index A" "0 \<le> i" "i < num_leaves (g_tree A)"
    "remove_leaf (g_tree A) (2 * i) = Inr t" "commit_log C ent A t rk ctx upns secrets sc cf"
    "A' = next_group A cf (g_my_kem_key A)" "u = attach_context A sc cf (cf_tag cf)"
proof -
  from assms have i: "i \<noteq> g_my_index A" "0 \<le> i" "i < num_leaves (g_tree A)" by (auto simp: remove_member_def split: if_splits)
  with assms obtain t where t: "remove_leaf (g_tree A) (2 * i) = Inr t" "commit_tree C ent A t (g_my_kem_key A) = Inr (A', u)"
    by (auto simp: remove_member_def split: sum.splits)
  from commit_tree_log [OF t(2)] that i t(1) show ?thesis by metis
qed

text \<open>A key update does not depend on the KEM key the member holds.\<close>

lemma update_key_any_kem: "fst (update_key C ent (A\<lparr>g_my_kem_key := k\<rparr>)) = fst (update_key C ent A)"
proof -
  have "commit_tree C ent (A\<lparr>g_my_kem_key := k\<rparr>) t kem = commit_tree C ent A t kem" for t kem
    by (simp add: commit_tree_def rekey_path_def sign_commit_def framed_commit_def confirm_commit_def provisional_tag_def
        next_group_def attach_context_def)
  moreover have "fst (case x of Inl e \<Rightarrow> (Inl e, g) | Inr r \<Rightarrow> (Inr r, h)) = x"
    for x :: "(MLSGroup \<times> GroupUpdate) res" and g h :: MLSGroup by (cases x) simp_all
  ultimately show ?thesis by (simp add: update_key_def)
qed

text \<open>After a removal the remover with the key of its new leaf is in order, and in step with the others.\<close>

definition rekeyed_remover :: "MLSGroup \<Rightarrow> KemKey \<Rightarrow> MLSGroup" where
  "rekeyed_remover A k = A\<lparr>g_my_kem_key := k\<rparr>"

lemma remover_in_step:
  assumes fit: "fit_member C A" and r: "fst (remove_member C ent A i) = Inr (A', u)"
  shows "fit_member C (rekeyed_remover A' (ent_committer_kem ent))"
    and "on_wire u bs \<Longrightarrow> members_in_step C A B \<Longrightarrow> g_my_index B \<noteq> i \<Longrightarrow>
      \<exists>B'. receives_commit C B bs B' \<and> members_in_step C (rekeyed_remover A' (ent_committer_kem ent)) B' \<and> g_my_index B' = g_my_index B"
proof -
  have A: "crypto_laws C" "signatures_verify C" "member_ok C A" "0 \<le> g_my_index A"
    using fit by (simp_all add: fit_member_def crypto_laws_def member_ok_def holds_leaf_def)
  obtain t rk ctx upns secrets sc cf where i: "i \<noteq> g_my_index A" "0 \<le> i" "i < num_leaves (g_tree A)"
    and t: "remove_leaf (g_tree A) (2 * i) = Inr t" and l: "commit_log C ent A t rk ctx upns secrets sc cf"
    and A': "A' = next_group A cf (g_my_kem_key A)" and u: "u = attach_context A sc cf (cf_tag cf)"
    by (rule remove_member_log [OF r])
  note p = prepared_remove [OF A(3) i t]
  have eq: "rekeyed_remover A' (ent_committer_kem ent) = next_group A cf (ent_committer_kem ent)"
    by (simp add: A' rekeyed_remover_def next_group_def MLSGroup_init_def)
  have ok: "member_ok C (next_group A cf (ent_committer_kem ent))" by (rule committer_ok(1) [OF l A(2) p(1) A(4)])
  then show "fit_member C (rekeyed_remover A' (ent_committer_kem ent))" using A(1) by (simp add: eq fit_member_def)
  assume w: "on_wire u bs" and B: "members_in_step C A B" and ne: "g_my_index B \<noteq> i"
  have b: "same_epoch A B" "member_ok C B" "g_my_index B \<noteq> g_my_index A" using B by (auto simp: members_in_step_def)
  from commit_delivered [OF A(1) l A(3) p(1) b p(2) [OF ne] u w, of "ent_committer_kem ent"] obtain B' where
    "receives_commit C B bs B'" "same_epoch (next_group A cf (ent_committer_kem ent)) B'" "member_ok C B'" "g_my_index B' = g_my_index B"
    by blast
  with ok b(3) show "\<exists>B'. receives_commit C B bs B' \<and> members_in_step C (rekeyed_remover A' (ent_committer_kem ent)) B' \<and> g_my_index B' = g_my_index B"
    by (intro exI [of _ B']) (simp add: eq members_in_step_def, simp add: next_group_def MLSGroup_init_def)
qed

text \<open>The two messages of a removal.\<close>

lemma expelled:
  assumes fit: "fit_member C a" and e: "expels_member C a m (bs1, bs2) a''"
  obtains a1 where "fit_member C a1" "sends_commit C a1 bs2 a''"
    "\<And>b. members_in_step C a b \<Longrightarrow> members_in_step C m b \<Longrightarrow>
       \<exists>b1. receives_commit C b bs1 b1 \<and> members_in_step C a1 b1 \<and> g_my_index b1 = g_my_index b"
proof -
  from e obtain ent u a' ent2 u2 where r: "fst (remove_member C ent a (g_my_index m)) = Inr (a', u)" "on_wire u bs1"
    and k: "fst (update_key C ent2 a') = Inr (a'', u2)" "on_wire u2 bs2" by (auto simp: expels_member_def)
  have "sends_commit C (rekeyed_remover a' (ent_committer_kem ent)) bs2 a''"
    using k unfolding sends_commit_def rekeyed_remover_def by (auto simp: update_key_any_kem)
  moreover have "\<exists>b1. receives_commit C b bs1 b1 \<and> members_in_step C (rekeyed_remover a' (ent_committer_kem ent)) b1 \<and> g_my_index b1 = g_my_index b"
    if "members_in_step C a b" "members_in_step C m b" for b
    using remover_in_step(2) [OF fit r that(1)] that(2) by (simp add: members_in_step_def)
  ultimately show ?thesis using that remover_in_step(1) [OF fit r(1)] by blast
qed

lemma obeyed:
  assumes "fit_member C a" "members_in_step C a b" "members_in_step C m b" "expels_member C a m r a''"
  shows "\<exists>b''. obeys_removal C b r b''"
    and "obeys_removal C b r b'' \<Longrightarrow> fit_member C b'' \<and> members_in_step C a'' b'' \<and> g_my_index b'' = g_my_index b"
proof -
  obtain bs1 bs2 where rr: "r = (bs1, bs2)" by (cases r)
  obtain a1 b1 where a1: "fit_member C a1" "sends_commit C a1 bs2 a''"
    and b1: "receives_commit C b bs1 b1" "members_in_step C a1 b1" "g_my_index b1 = g_my_index b"
    by (rule expelled [OF assms(1) assms(4) [unfolded rr]]) (use assms(2,3) in blast)
  show "\<exists>b''. obeys_removal C b r b''"
    using protocol.commit_received [OF a1(1) b1(2) a1(2)] b1(1) unfolding rr obeys_removal_def by auto
  assume "obeys_removal C b r b''"
  then have "receives_commit C b1 bs2 b''" using receives_commit_det [OF b1(1)] by (auto simp: rr obeys_removal_def)
  from delivered_in_step [OF a1(1) b1(2) a1(2) this] b1(3)
  show "fit_member C b'' \<and> members_in_step C a'' b'' \<and> g_my_index b'' = g_my_index b" by simp
qed

interpretation removals: removing_protocol "fit_member C" "members_in_step C" "sends_commit C" "receives_commit C"
    "sends_invitation C" "joins_group C" "expels_member C" "obeys_removal C" for C
proof
  show "fit_member C a'" if "fit_member C a" "expels_member C a m r a'" for a m r a'
  proof (cases r)
    case (Pair bs1 bs2)
    show ?thesis by (rule expelled [OF that(1) that(2) [unfolded Pair]]) (use sends_commit_member in blast)
  qed
  show "\<exists>b'. obeys_removal C b r b'" if "fit_member C a" "members_in_step C a b" "members_in_step C m b" "expels_member C a m r a'"
    for a b m r a' by (rule obeyed(1) [OF that])
  show "fit_member C b' \<and> members_in_step C a' b'"
    if "fit_member C a" "members_in_step C a b" "members_in_step C m b" "expels_member C a m r a'" "obeys_removal C b r b'"
    for a b m r a' b' using obeyed(2) [OF that] by simp
  show "members_in_step C b' d'"
    if "fit_member C a" "members_in_step C a b" "members_in_step C a d" "members_in_step C m b" "members_in_step C m d"
      "members_in_step C b d" "expels_member C a m r a'" "obeys_removal C b r b'" "obeys_removal C d r d'" for a b d m r a' b' d'
    using obeyed(2) [OF that(1,2,4,7,8)] obeyed(2) [OF that(1,3,5,7,9)] that(6)
    by (auto simp: members_in_step_def intro: same_epoch_peers)
qed

end
