(* ===== verification/GroupRuns.thy ===== *)
theory GroupRuns
  imports Liveness Removals
begin

text \<open>
  Groups over time (the public operations of \<open>group.py\<close> together): the runs of a group in which every
  commit reaches every member and every Welcome its newcomer, that all members stay in step in every
  run, that no member is left behind, that commits return, and what a removal does. The closed
  witnesses build a group of three members over the example provider of \<open>Keys\<close>.
\<close>

section \<open>Runs of a group\<close>

text \<open>
  A group over time: it is created by one member; a member commits and every other member processes
  the message; a member invites a newcomer, every other member processes the commit and the newcomer
  joins from the Welcome; a member expels another (a removal and a key update of the remover), the
  remaining members process both messages. \<open>sends_invitation\<close> asks for a newcomer with one KEM key and a
  signature key that is new in the tree, \<open>on_wire\<close> for references that identify KEM keys.
\<close>

inductive group_run :: "crypto \<Rightarrow> MLSGroup list \<Rightarrow> bool" for C where
  created: "create C init gid sk kem = Inr g \<Longrightarrow> group_run C [g]"
| committed: "group_run C ms \<Longrightarrow> i < length ms \<Longrightarrow> sends_commit C (ms ! i) bs a' \<Longrightarrow>
    all_receive (receives_commit C) ms i bs a' ms' \<Longrightarrow> group_run C ms'"
| invited: "group_run C ms \<Longrightarrow> i < length ms \<Longrightarrow> sends_invitation C (ms ! i) bs w a' \<Longrightarrow>
    all_receive (receives_commit C) ms i bs a' ms' \<Longrightarrow> joins_group C w n \<Longrightarrow> group_run C (ms' @ [n])"
| expelled: "group_run C (xs @ m # ys) \<Longrightarrow> i < length (xs @ ys) \<Longrightarrow> expels_member C ((xs @ ys) ! i) m r a' \<Longrightarrow>
    all_receive (obeys_removal C) (xs @ ys) i r a' ms' \<Longrightarrow> group_run C ms'"

lemma group_run_inv:
  assumes "group_run C ms" "crypto_laws C"
  shows "all_in_step (fit_member C) (members_in_step C) ms"
  using assms
proof (induction rule: group_run.induct)
  case (created init gid sk kem g)
  then have "member_ok C g" using create_facts(1) by (auto simp: crypto_laws_def)
  with created show ?case by (auto simp: all_in_step_def fit_member_def)
next
  case (committed ms i bs a' ms')
  then show ?case using protocol.commit_keeps_group by blast
next
  case (invited ms i bs w a' ms' n)
  then show ?case using protocol.invitation_keeps_group by blast
next
  case (expelled xs m ys i r a' ms')
  then show ?case using removals.removal_keeps_group by blast
qed

lemma commit_secrets_to_leaves:
  assumes "commit_log C ent A t rk ctx upns secrets sc cf" "tree_wf (rk_tree rk)" "(r, v) \<in> set secrets"
  shows "\<exists>j l. get_node (rk_tree rk) (2 * j) = Some (Leaf l) \<and> make_kp_ref (LeafNode_key_package l) = Inr r"
proof -
  have L: "seal_to_leaves C (ent_leaf_eph ent) ctx (commit_secret_of (rk_path_secrets rk) (ent_leaf_path_secret ent))
       (2 * g_my_index A) 0 (nodes (rk_tree rk)) [] = Inr secrets" using assms(1) by (simp add: commit_log_def)
  have "map_of secrets r = Some v" using seal_to_leaves_distinct [OF L] assms(3) by simp
  from seal_to_leaves_entries [OF L _ _ this, of "{l. Some (Leaf l) \<in> set (nodes (rk_tree rk))}"]
  obtain l x where "get_node (rk_tree rk) x = Some (Leaf l)" "make_kp_ref (LeafNode_key_package l) = Inr r"
    by (auto simp: sealed_entry_def dest!: in_nodes_get)
  with leaf_even [OF assms(2)] show ?thesis by metis
qed

text \<open>What receiving a commit and joining keep and forget.\<close>

lemma process_commit_keeps:
  "pred_sum (\<lambda>_. True) (\<lambda>B'. g_consumed_key_packages B' = {} \<and> g_my_sig_key B' = g_my_sig_key B \<and> g_my_kem_key B' = g_my_kem_key B
     \<and> g_my_index B' = g_my_index B) (process_commit C B u)"
  unfolding process_commit_def Let_def
  by (auto intro!: pred_bindR simp: MLSGroup_init_def split: option.split Node.split)

lemma process_update_keeps:
  assumes "fst (process_update C B u) = Inr B'"
  shows "g_consumed_key_packages B' = {}" "g_my_sig_key B' = g_my_sig_key B" "g_my_kem_key B' = g_my_kem_key B" "g_my_index B' = g_my_index B"
  using process_commit_keeps [of B C u] assms by (auto simp: process_update_def split: sum.splits)

lemma join_group_info_consumed:
  "pred_sum (\<lambda>_. True) (\<lambda>n. g_consumed_key_packages n = {} \<and> g_secret_tree n = None) (join_group_info C sk kem js rp rt gb)"
  unfolding join_group_info_def Let_def
  by (auto intro!: pred_bindR simp: MLSGroup_init_def split: sum.split option.split Node.split)

lemma join_consumed:
  "pred_sum (\<lambda>_. True) (\<lambda>n. g_consumed_key_packages n = {} \<and> g_secret_tree n = None) (join C w sk kem psks rt)"
  unfolding join_def by (auto intro!: pred_bindR join_group_info_consumed split: option.split)

lemma join_nothing_consumed: "join C w sk kem psks rt = Inr n \<Longrightarrow> g_consumed_key_packages n = {}"
  and join_no_secret_tree: "join C w sk kem psks rt = Inr n \<Longrightarrow> g_secret_tree n = None"
  using join_consumed [of C w sk kem psks rt] by simp_all

lemma join_keys:
  "pred_sum (\<lambda>_. True) (\<lambda>n. g_my_sig_key n = sk \<and> g_my_kem_key n = kem) (join C w sk kem psks rt)"
proof -
  have "pred_sum (\<lambda>_. True) (\<lambda>n. g_my_sig_key n = sk \<and> g_my_kem_key n = kem) (join_group_info C sk kem js rp rt gb)" for js rp gb
    unfolding join_group_info_def Let_def by (auto intro!: pred_bindR simp: MLSGroup_init_def split: sum.split option.split Node.split)
  then show ?thesis unfolding join_def by (auto intro!: pred_bindR split: option.split)
qed

section \<open>A group of the example provider\<close>

text \<open>
  A group of the example provider. All members use one KEM key, so that no two leaves with one
  reference could carry different keys.
\<close>

definition demo_kem :: KemKey where "demo_kem = \<lparr>kem_private = replicate 32 7\<rparr>"

definition demo_ent :: entropy where
  "demo_ent = \<lparr>ent_leaf_path_secret = replicate 32 5, ent_committer_kem = demo_kem, ent_init_kem = demo_kem,
     ent_path_eph = (\<lambda>i j. \<lparr>kem_private = [8]\<rparr>), ent_leaf_eph = (\<lambda>i. \<lparr>kem_private = [9]\<rparr>), ent_welcome_eph = \<lparr>kem_private = [10]\<rparr>\<rparr>"

abbreviation "skey i \<equiv> \<lparr>sig_private = replicate 32 i\<rparr> :: SignatureKey"
abbreviation "pkey i \<equiv> sig_public_bytes demo_crypto (skey i)"

lemma demo_working: "working_crypto demo_crypto" "crypto_laws demo_crypto" "length (ent_leaf_path_secret demo_ent) = 32"
  "ent_committer_kem demo_ent = demo_kem"
  using demo_crypto_laws by (simp_all add: working_crypto_def crypto_laws_def demo_ent_def)

definition one_key :: "RatchetTree \<Rightarrow> bool" where
  "one_key t \<longleftrightarrow> (\<forall>x l. get_node t x = Some (Leaf l) \<longrightarrow> encryption_key l = kem_public_bytes demo_crypto demo_kem)"

lemma one_key_refs: "one_key t \<Longrightarrow> refs_identify t"
  by (auto simp: one_key_def refs_identify_def)

lemma one_key_equiv: "tree_equiv t t' \<Longrightarrow> one_key t \<Longrightarrow> one_key t'"
  unfolding one_key_def by (metis leaf_canon_eqD(1) tree_equiv_leaf tree_equiv_sym)

lemma room_equiv:
  assumes "tree_equiv t t'" "tree_room C t"
  shows "tree_room C t'"
proof -
  have "node_room C nd" if "get_node t' x = Some nd" for x nd
  proof (cases nd)
    case (Leaf l)
    with that tree_equiv_leaf [OF tree_equiv_sym [OF assms(1)]] obtain l' where l': "get_node t x = Some (Leaf l')" "leaf_canon l' = leaf_canon l" by blast
    then have "node_room C (Leaf l')" using assms(2) by (auto simp: tree_room_def)
    moreover have "LeafNode_to_bytes l' = LeafNode_to_bytes l" by (metis l'(2) LeafNode_to_bytes_canon)
    ultimately show ?thesis using Leaf leaf_canon_eqD(1) [OF l'(2)] by (simp add: node_room_def)
  next
    case (Parent p)
    with that tree_equivD(3) [OF assms(1), of x] have "get_node t x = Some (Parent p)" by simp
    with assms(2) Parent show ?thesis by (auto simp: tree_room_def)
  qed
  with assms tree_equivD(1) [OF assms(1)] show ?thesis by (simp add: tree_room_def)
qed

text \<open>A member of the example.\<close>

definition demo_member :: "MLSGroup \<Rightarrow> bool" where
  "demo_member g \<longleftrightarrow> member_ok demo_crypto g \<and> group_room demo_crypto g \<and> one_key (g_tree g)"

text \<open>Its keys have the sizes of the primitives, its key schedule is complete.\<close>

definition demo_keys :: "MLSGroup \<Rightarrow> bool" where
  "demo_keys g \<longleftrightarrow> length (sig_private (g_my_sig_key g)) = 32 \<and> length (kem_private (g_my_kem_key g)) = 32 \<and> schedule_wf (g_schedule g)"

lemma demo_member_same: "demo_member a \<Longrightarrow> same_epoch a b \<Longrightarrow> member_ok demo_crypto b \<Longrightarrow> demo_member b"
  by (auto simp: demo_member_def same_epoch_def group_room_def intro: room_equiv one_key_equiv)

lemma demo_member_peer: "demo_member a \<Longrightarrow> members_in_step demo_crypto a b \<Longrightarrow> demo_member b"
  by (auto simp: demo_member_def members_in_step_def same_epoch_def group_room_def intro: room_equiv one_key_equiv)

lemma demo_commit_keys:
  assumes "commit_log demo_crypto demo_ent A t rk ctx upns secrets sc cf" "prepared demo_crypto A t" "0 \<le> g_my_index A"
    "\<And>j l. get_node t (2 * j) = Some (Leaf l) \<Longrightarrow> encryption_key l = kem_public_bytes demo_crypto demo_kem"
  shows "one_key (rk_tree rk)"
proof -
  note T = commit_log_tree [OF assms(1) demo_crypto_laws(1) assms(2,3)]
  have "tree_wf (rk_tree rk)" using T(1) by (simp add: tree_good_def)
  show ?thesis unfolding one_key_def
  proof (intro allI impI)
    fix x l assume l: "get_node (rk_tree rk) x = Some (Leaf l)"
    then obtain j where "x = 2 * j" using leaf_even [OF \<open>tree_wf (rk_tree rk)\<close>] by metis
    with l T(4) [of j] T(5) assms(4) demo_working(4) show "encryption_key l = kem_public_bytes demo_crypto demo_kem"
      by (auto split: if_splits)
  qed
qed

lemma demo_created: obtains g where "create demo_crypto demo_kem [1] (skey 1) demo_kem = Inr g" "demo_member g"
    "num_leaves (g_tree g) = 1" "g_epoch_id g = 0" "g_consumed_key_packages g = {}"
    "\<forall>x l. get_node (g_tree g) x = Some (Leaf l) \<longrightarrow> signature_key l = sig_public_bytes demo_crypto (skey 1)"
    "g_my_sig_key g = skey 1"
proof -
  obtain g where g: "create demo_crypto demo_kem [1] (skey 1) demo_kem = Inr g" "group_room demo_crypto g"
    by (rule create_ok [OF demo_working(1), of "[1]"]) simp
  note f = create_facts [OF g(1) demo_crypto_laws(1)]
  have "one_key (g_tree g)" using f(7) by (auto simp: one_key_def)
  moreover have "g_my_sig_key g = skey 1" using g(1) by (auto simp: create_def MLSGroup_init_def Let_def)
  ultimately show ?thesis using g f that by (simp add: demo_member_def)
qed

text \<open>The key package of a newcomer with the signature key \<open>sk\<close>.\<close>

lemma fresh_package:
  assumes C: "working_crypto C"
  obtains kp ref where "own_key_package C sk kem init = Inr kp" "leaf_node_source (leaf_node kp) = LEAF_NODE_SOURCE_KEY_PACKAGE"
    "signature_key (leaf_node kp) = sig_public_bytes C sk" "encryption_key (leaf_node kp) = kem_public_bytes C kem"
    "init_key_pub kp = kem_public_bytes C init" "package_room C kp"
    "KeyPackage_verify_signature C kp = Inr ()" "make_kp_ref kp = Inr ref"
proof -
  have sv: "signatures_verify C" using C by (simp add: working_crypto_def crypto_laws_def)
  obtain kp where kp: "own_key_package C sk kem init = Inr kp" "node_room C (Leaf (leaf_node kp))"
    "fits 450 (KeyPackage_to_bytes kp)" by (rule own_key_package_ok [OF C])
  note f = own_key_package_facts [OF kp(1) sv]
  have src: "leaf_node_source (leaf_node kp) = LEAF_NODE_SOURCE_KEY_PACKAGE"
    using kp(1) by (auto simp: own_key_package_def KeyPackage_create_def LeafNode_create_def LeafNode_sign_def Let_def)
  have fit: "fits 4000 (KeyPackage_to_bytes kp)" by (rule fits_mono [OF kp(3)]) simp
  have v: "KeyPackage_verify_signature C kp = Inr ()"
    by (rule created_package_verifies(1) [OF sv kp(1) [unfolded own_key_package_def]])
  obtain ref where "make_kp_ref kp = Inr ref" by (rule make_kp_ref_fits [OF fit])
  with that f src fit v kp(1,2) kem_key_usable [OF C] show ?thesis by (simp add: package_room_def)
qed

lemma demo_package:
  obtains kp ref where "newcomer_keys demo_crypto kp sk demo_kem" "package_room demo_crypto kp" "KeyPackage_verify_signature demo_crypto kp = Inr ()"
    "make_kp_ref kp = Inr ref"
  by (rule fresh_package [OF demo_working(1), of sk demo_kem demo_kem]) (use that in \<open>simp add: newcomer_keys_def\<close>)

definition signers :: "RatchetTree \<Rightarrow> bytes set \<Rightarrow> bool" where
  "signers t S \<longleftrightarrow> (\<forall>x l. get_node t x = Some (Leaf l) \<longrightarrow> signature_key l \<in> S)"

lemma signers_equiv: "tree_equiv t t' \<Longrightarrow> signers t S \<Longrightarrow> signers t' S"
  unfolding signers_def by (metis leaf_canon_eqD(2) tree_equiv_leaf tree_equiv_sym)

lemma demo_invites:
  assumes A: "demo_member A" "num_leaves (g_tree A) \<le> 2048" "g_epoch_id A < 100" "g_consumed_key_packages A = {}"
    and S: "signers (g_tree A) S" "sig_public_bytes demo_crypto sk \<notin> S"
  obtains bs w A' where "sends_invitation demo_crypto A bs (w, sk, demo_kem) A'" "demo_member A'" "num_leaves (g_tree A') \<le> 2 * num_leaves (g_tree A)"
    "signers (g_tree A') (insert (sig_public_bytes demo_crypto sk) S)" "g_epoch_id A' = g_epoch_id A + 1"
    "length (sig_private (g_my_sig_key A)) = 32 \<longrightarrow> demo_keys A'"
proof -
  have ok: "member_ok demo_crypto A" "group_room demo_crypto A" "one_key (g_tree A)" using A(1) by (simp_all add: demo_member_def)
  obtain kp ref where kp: "newcomer_keys demo_crypto kp sk demo_kem" "package_room demo_crypto kp" "KeyPackage_verify_signature demo_crypto kp = Inr ()"
    "make_kp_ref kp = Inr ref" by (rule demo_package)
  have src: "leaf_node_source (leaf_node kp) = LEAF_NODE_SOURCE_KEY_PACKAGE" and lk: "signature_key (leaf_node kp) = sig_public_bytes demo_crypto sk"
    "encryption_key (leaf_node kp) = kem_public_bytes demo_crypto demo_kem" using kp(1) by (simp_all add: newcomer_keys_def)
  obtain A' w u bs where a: "fst (add_member demo_crypto demo_ent A kp) = Inr (A', w, u)" "bindR (wrap_commit u) MLSMessage_to_bytes = Inr bs"
    "g_epoch_id A + 2 < 2 ^ 64 \<longrightarrow> group_room demo_crypto A'"
    by (rule add_member_ok [OF demo_working(1) ok(2,1) demo_working(3) A(2) kp(2,3) src kp(4)]) (use A(4) in auto)
  have n31: "num_leaves (g_tree A) < 2 ^ 31" using A(2) by simp
  show ?thesis
  proof (rule add_member_log [OF a(1) ok(1) demo_crypto_laws(1) n31 src])
    fix ref t i rk ctx upns secrets sc cf
    let ?A = "A\<lparr>g_consumed_key_packages := insert ref (g_consumed_key_packages A)\<rparr>"
    assume l: "prepared demo_crypto A t" "0 \<le> i \<and> i < num_leaves t \<and> get_node t (2 * i) = Some (Leaf (leaf_node kp))"
      "\<forall>j. j \<noteq> i \<longrightarrow> get_node t (2 * j) = get_node (g_tree A) (2 * j)"
      "commit_log demo_crypto demo_ent ?A t rk ctx upns secrets sc cf" "A' = next_group ?A cf (ent_committer_kem demo_ent)"
      "u = attach_context ?A sc cf (cf_tag cf)" and nl: "num_leaves t \<le> 2 * num_leaves (g_tree A)"
    have p: "prepared demo_crypto ?A t" "0 \<le> g_my_index ?A" using l(1) ok(1) by (simp_all add: member_ok_def holds_leaf_def)
    note T = commit_log_tree [OF l(4) demo_crypto_laws(1) p] and N = committer_ok [OF l(4) demo_crypto_laws(1) p]
    have leaves: "get_node t (2 * j) = Some (Leaf m) \<Longrightarrow> m = leaf_node kp \<or> get_node (g_tree A) (2 * j) = Some (Leaf m)" for j m
      using l(2,3) by (cases "j = i") auto
    have ok1: "one_key (rk_tree rk)"
      by (rule demo_commit_keys [OF l(4) p]) (use leaves lk(2) ok(3) in \<open>auto simp: one_key_def\<close>)
    have ut: "gu_tree u = rk_tree rk"
      using l(4,6) by (auto simp: commit_log_def attach_context_def GroupUpdate_init_def elim!: sign_commit_facts)
    have tr: "g_tree A' = freeze (rk_tree rk)" unfolding l(5) by (rule N(4))
    have "on_wire u bs" using a(2) one_key_refs [OF ok1] ut by (simp add: on_wire_def)
    moreover have "\<forall>x l. get_node (g_tree A) x = Some (Leaf l) \<longrightarrow> signature_key l \<noteq> sig_public_bytes demo_crypto sk"
      using S unfolding signers_def by metis
    ultimately have inv: "sends_invitation demo_crypto A bs (w, sk, demo_kem) A'"
      unfolding sends_invitation_def prod.case using a(1) kp(1) n31 by blast
    have "member_ok demo_crypto A'" unfolding l(5) by (rule N(1))
    then have "demo_member A'" using a(3) A(3) ok1 tr by (simp add: demo_member_def one_key_def)
    moreover have "num_leaves (g_tree A') \<le> 2 * num_leaves (g_tree A)" using T(3) nl tr by (simp add: freeze_def)
    moreover have "signers (g_tree A') (insert (sig_public_bytes demo_crypto sk) S)"
      unfolding signers_def
    proof (intro allI impI)
      fix x m assume m: "get_node (g_tree A') x = Some (Leaf m)"
      have "tree_wf (rk_tree rk)" using T(1) by (simp add: tree_good_def)
      with m obtain j where j: "x = 2 * j" using leaf_even [of "rk_tree rk" x m] by (auto simp: tr)
      obtain mine where "get_node (g_tree A) (2 * g_my_index A) = Some (Leaf mine)" "signature_key mine = sig_public_bytes demo_crypto (g_my_sig_key A)"
        using ok(1) by (auto simp: member_ok_def holds_leaf_def)
      then have "sig_public_bytes demo_crypto (g_my_sig_key A) \<in> S" using S(1) unfolding signers_def by metis
      with m j T(4) [of j] T(6) leaves [of j m] lk(1) S(1) show "signature_key m \<in> insert (sig_public_bytes demo_crypto sk) S"
        by (auto simp: tr signers_def split: if_splits)
    qed
    moreover have "g_epoch_id A' = g_epoch_id A + 1" unfolding l(5) by (simp add: N(2))
    moreover obtain k where "cf_state cf = EpochState_init (g_group_id ?A) (g_epoch_id ?A + 1) (rk_tree rk) k" "schedule_wf k" using T(7) by blast
    then have "length (sig_private (g_my_sig_key A)) = 32 \<longrightarrow> demo_keys A'"
      by (simp add: l(5) demo_keys_def next_group_def MLSGroup_init_def EpochState_init_def demo_ent_def demo_kem_def)
    ultimately show ?thesis using that inv by blast
  qed
qed

lemma pkey_neq: "pkey 2 \<notin> {pkey 1}" "pkey 3 \<notin> {pkey 2, pkey 1}"
  by (simp_all add: sig_public_bytes_def demo_crypto_def pad_to_def)

text \<open>The first member invites the second.\<close>

lemma demo_pair:
  obtains g bs w a b where "create demo_crypto demo_kem [1] (skey 1) demo_kem = Inr g"
    "sends_invitation demo_crypto g bs (w, skey 2, demo_kem) a" "joins_group demo_crypto (w, skey 2, demo_kem) b"
    "demo_member g" "members_in_step demo_crypto a b" "demo_member a" "demo_member b" "num_leaves (g_tree b) \<le> 2" "g_epoch_id b = 1"
    "g_consumed_key_packages b = {}" "signers (g_tree b) {pkey 2, pkey 1}" "demo_keys a" "demo_keys b"
proof -
  obtain g where g: "create demo_crypto demo_kem [1] (skey 1) demo_kem = Inr g" "demo_member g"
    "num_leaves (g_tree g) = 1" "g_epoch_id g = 0" "g_consumed_key_packages g = {}"
    "\<forall>x l. get_node (g_tree g) x = Some (Leaf l) \<longrightarrow> signature_key l = pkey 1" "g_my_sig_key g = skey 1"
    by (rule demo_created)
  have S: "signers (g_tree g) {pkey 1}" using g(6) by (simp add: signers_def)
  obtain bs w a where a: "sends_invitation demo_crypto g bs (w, skey 2, demo_kem) a" "demo_member a"
    "num_leaves (g_tree a) \<le> 2 * num_leaves (g_tree g)" "signers (g_tree a) {pkey 2, pkey 1}" "g_epoch_id a = g_epoch_id g + 1"
    "length (sig_private (g_my_sig_key g)) = 32 \<longrightarrow> demo_keys a"
    by (rule demo_invites [OF g(2) _ _ g(5) S pkey_neq(1)]) (use g(3,4) in simp_all)
  have "fit_member demo_crypto g" using g(2) demo_working(2) by (simp add: fit_member_def demo_member_def)
  from invitation_joined [OF this a(1)] obtain b where b: "join demo_crypto w (skey 2) demo_kem None None = Inr b" "members_in_step demo_crypto a b" by blast
  have "tree_equiv (g_tree a) (g_tree b)" "g_epoch_id a = g_epoch_id b" using b(2) by (simp_all add: members_in_step_def same_epoch_def)
  then have "signers (g_tree b) {pkey 2, pkey 1}" "num_leaves (g_tree b) \<le> 2" "g_epoch_id b = 1"
    using signers_equiv a(3-5) g(3,4) by (auto dest: tree_equivD(1))
  moreover have "demo_keys a" using a(6) g(7) by simp
  moreover from this have "demo_keys b"
    using join_keys [of "skey 2" demo_kem demo_crypto w None None] b by (simp add: demo_keys_def demo_kem_def members_in_step_def same_epoch_def)
  ultimately show ?thesis using that g(1,2) a b
    by (simp add: joins_group_def join_nothing_consumed [OF b(1)] demo_member_peer [OF a(2) b(2)])
qed

text \<open>The second member invites a third, and all three stay in step.\<close>

lemma demo_trio:
  obtains a b bs w a' b' d where "group_run demo_crypto [a, b]" "sends_invitation demo_crypto b bs (w, skey 3, demo_kem) b'"
    "receives_commit demo_crypto a bs a'" "joins_group demo_crypto (w, skey 3, demo_kem) d" "demo_member b'"
    "members_in_step demo_crypto b' a'" "members_in_step demo_crypto b' d" "members_in_step demo_crypto a' d"
    "demo_keys a'" "demo_keys d" "g_consumed_key_packages a' = {}" "g_consumed_key_packages d = {}"
    "num_leaves (g_tree b') \<le> 4" "g_epoch_id b' = 2" "signers (g_tree b') {pkey 3, pkey 2, pkey 1}"
proof -
  obtain g bs0 w0 a b where p: "create demo_crypto demo_kem [1] (skey 1) demo_kem = Inr g"
    "sends_invitation demo_crypto g bs0 (w0, skey 2, demo_kem) a" "joins_group demo_crypto (w0, skey 2, demo_kem) b"
    "members_in_step demo_crypto a b" "demo_member b" "num_leaves (g_tree b) \<le> 2" "g_epoch_id b = 1"
    "g_consumed_key_packages b = {}" "signers (g_tree b) {pkey 2, pkey 1}" "demo_keys a" "demo_keys b" by (rule demo_pair)
  have r: "group_run demo_crypto [a, b]"
    using group_run.invited [OF group_run.created [OF p(1)], of 0 bs0 _ a "[a]" b] p(2,3) by (simp add: all_receive_def)
  obtain bs w b' where b': "sends_invitation demo_crypto b bs (w, skey 3, demo_kem) b'" "demo_member b'"
    "num_leaves (g_tree b') \<le> 2 * num_leaves (g_tree b)" "signers (g_tree b') {pkey 3, pkey 2, pkey 1}" "g_epoch_id b' = g_epoch_id b + 1"
    "length (sig_private (g_my_sig_key b)) = 32 \<longrightarrow> demo_keys b'"
    by (rule demo_invites [OF p(5) _ _ p(8,9) pkey_neq(2)]) (use p(6,7) in simp_all)
  have fit: "fit_member demo_crypto b" and st: "members_in_step demo_crypto b a"
    using p(4,5) demo_working(2) protocol.in_step_sym by (auto simp: fit_member_def demo_member_def)
  obtain a' where a': "receives_commit demo_crypto a bs a'" using protocol.commit_received [OF fit st protocol.invitation [OF b'(1)]] by blast
  obtain d where d: "joins_group demo_crypto (w, skey 3, demo_kem) d" using protocol.welcomed [OF fit b'(1)] by blast
  have st': "members_in_step demo_crypto b' a'" "members_in_step demo_crypto b' d" "members_in_step demo_crypto a' d"
    using protocol.commit_in_step [OF fit st protocol.invitation [OF b'(1)] a'] protocol.newcomer [OF fit b'(1) d]
      protocol.newcomer_peer [OF fit st b'(1) d a'] by blast+
  have j: "join demo_crypto w (skey 3) demo_kem None None = Inr d" using d by (simp add: joins_group_def)
  have "demo_keys b'" using b'(6) p(11) by (simp add: demo_keys_def)
  then have sch: "schedule_wf (g_schedule a')" "schedule_wf (g_schedule d)"
    using st' by (auto simp: demo_keys_def members_in_step_def same_epoch_def)
  obtain v where "fst (process_update demo_crypto a v) = Inr a'" using a' by (auto simp: receives_commit_def)
  from process_update_keeps [OF this] have "demo_keys a'" "g_consumed_key_packages a' = {}" using p(10) sch(1) by (simp_all add: demo_keys_def)
  moreover have "demo_keys d" using join_keys [of "skey 3" demo_kem demo_crypto w None None] j sch(2) by (simp add: demo_keys_def demo_kem_def)
  moreover note join_nothing_consumed [OF j]
  ultimately show ?thesis using that [OF r b'(1) a' d b'(2) st'] b'(3-5) p(6,7) by simp
qed

lemma demo_log_refs:
  assumes "commit_log demo_crypto demo_ent A t rk ctx upns secrets sc cf" "prepared demo_crypto A t" "0 \<le> g_my_index A"
    "\<forall>j l. get_node t (2 * j) = Some (Leaf l) \<longrightarrow> encryption_key l = kem_public_bytes demo_crypto demo_kem"
  shows "one_key (rk_tree rk)" "refs_identify (gu_tree (attach_context A sc cf tag))"
proof -
  show one: "one_key (rk_tree rk)" by (rule demo_commit_keys [OF assms(1-3)]) (use assms(4) in blast)
  have "gu_tree (attach_context A sc cf tag) = rk_tree rk"
    using assms(1) by (auto simp: commit_log_def attach_context_def GroupUpdate_init_def elim!: sign_commit_facts)
  then show "refs_identify (gu_tree (attach_context A sc cf tag))" using one_key_refs [OF one] by simp
qed

lemma demo_update_refs:
  assumes "demo_member A" "fst (update_key demo_crypto demo_ent A) = Inr (A', u)"
  shows "refs_identify (gu_tree u)"
proof -
  have ok: "member_ok demo_crypto A" "one_key (g_tree A)" "tree_wf (g_tree A)" "0 \<le> g_my_index A"
    using assms(1) by (simp_all add: demo_member_def member_ok_def tree_good_def holds_leaf_def)
  show ?thesis
  proof (rule update_key_log [OF assms(2) ok(3)])
    fix rk ctx upns secrets sc cf
    assume l: "commit_log demo_crypto demo_ent A ((g_tree A)\<lparr>frozen := False\<rparr>) rk ctx upns secrets sc cf"
      "u = attach_context A sc cf (cf_tag cf)"
    have "get_node ((g_tree A)\<lparr>frozen := False\<rparr>) = get_node (g_tree A)" by (simp add: get_node_def fun_eq_iff)
    then have "\<forall>j m. get_node ((g_tree A)\<lparr>frozen := False\<rparr>) (2 * j) = Some (Leaf m) \<longrightarrow> encryption_key m = kem_public_bytes demo_crypto demo_kem"
      using ok(2) by (simp add: one_key_def)
    from demo_log_refs(2) [OF l(1) prepared_update [OF ok(1)] ok(4) this] l(2) show ?thesis by blast
  qed
qed

lemma demo_removes:
  assumes "demo_member A" "members_in_step demo_crypto A d" "g_epoch_id A < 100"
  obtains A' u bs where "fst (remove_member demo_crypto demo_ent A (g_my_index d)) = Inr (A', u)" "on_wire u bs"
    "demo_member (rekeyed_remover A' demo_kem)"
proof -
  have ok: "member_ok demo_crypto A" "group_room demo_crypto A" "one_key (g_tree A)" "0 \<le> g_my_index A" and fit: "fit_member demo_crypto A"
    using assms(1) demo_working(2) by (simp_all add: demo_member_def fit_member_def member_ok_def holds_leaf_def)
  have i: "g_my_index d \<noteq> g_my_index A" "0 \<le> g_my_index d" "g_my_index d < num_leaves (g_tree A)"
    using assms(2) by (auto simp: members_in_step_def member_ok_def holds_leaf_def same_epoch_def dest: tree_equivD(1))
  obtain A' u bs where r: "fst (remove_member demo_crypto demo_ent A (g_my_index d)) = Inr (A', u)"
    "bindR (wrap_commit u) MLSMessage_to_bytes = Inr bs" "g_epoch_id A + 2 < 2 ^ 64 \<longrightarrow> group_room demo_crypto A'"
    by (rule remove_member_ok [OF demo_working(1) ok(2,1) demo_working(3) i])
  show ?thesis
  proof (rule remove_member_log [OF r(1)])
    fix t rk ctx upns secrets sc cf
    assume l: "remove_leaf (g_tree A) (2 * g_my_index d) = Inr t" "commit_log demo_crypto demo_ent A t rk ctx upns secrets sc cf"
      "A' = next_group A cf (g_my_kem_key A)" "u = attach_context A sc cf (cf_tag cf)"
    note p = prepared_remove [OF ok(1) i l(1)]
    have "get_node t (2 * j) = Some (Leaf m) \<longrightarrow> encryption_key m = kem_public_bytes demo_crypto demo_kem" for j m
      using p(2) [of j] p(3) ok(3) by (cases "j = g_my_index d") (auto simp: one_key_def)
    then have "\<forall>j m. get_node t (2 * j) = Some (Leaf m) \<longrightarrow> encryption_key m = kem_public_bytes demo_crypto demo_kem" by blast
    note R = demo_log_refs [OF l(2) p(1) ok(4) this]
    have "g_tree A' = freeze (rk_tree rk)" unfolding l(3) by (rule committer_ok(4) [OF l(2) demo_crypto_laws(1) p(1) ok(4)])
    then have "one_key (g_tree A')" using R(1) by (simp add: one_key_def)
    moreover have "group_room demo_crypto A'" using r(3) assms(3) by simp
    moreover have "member_ok demo_crypto (rekeyed_remover A' demo_kem)"
      using remover_in_step(1) [OF fit r(1)] by (simp add: fit_member_def demo_ent_def)
    ultimately have "demo_member (rekeyed_remover A' demo_kem)"
      by (simp add: demo_member_def rekeyed_remover_def group_room_def)
    with r(1,2) R(2) l(4) that show ?thesis by (simp add: on_wire_def)
  qed
qed

lemma demo_expels:
  assumes "demo_member A" "members_in_step demo_crypto A d" "g_epoch_id A < 100"
  obtains r A' where "expels_member demo_crypto A d r A'"
proof -
  obtain A1 u bs1 where r: "fst (remove_member demo_crypto demo_ent A (g_my_index d)) = Inr (A1, u)" "on_wire u bs1"
    "demo_member (rekeyed_remover A1 demo_kem)" by (rule demo_removes [OF assms])
  then have ok: "member_ok demo_crypto (rekeyed_remover A1 demo_kem)" "group_room demo_crypto (rekeyed_remover A1 demo_kem)"
    by (simp_all add: demo_member_def)
  obtain A' u2 bs2 where k: "fst (update_key demo_crypto demo_ent (rekeyed_remover A1 demo_kem)) = Inr (A', u2)"
    "bindR (wrap_commit u2) MLSMessage_to_bytes = Inr bs2" by (rule update_key_ok [OF demo_working(1) ok(2,1) demo_working(3)])
  have "on_wire u2 bs2" using k(2) demo_update_refs [OF r(3) k(1)] by (simp add: on_wire_def)
  with r(1,2) k(1) that show ?thesis unfolding expels_member_def rekeyed_remover_def update_key_any_kem by blast
qed

text \<open>Three members, of whom the second expels the third.\<close>

lemma demo_expelled:
  obtains a b d r b' a' where "group_run demo_crypto [a, b, d]" "expels_member demo_crypto b d r b'" "obeys_removal demo_crypto a r a'"
    "group_run demo_crypto [a', b']"
proof -
  obtain a b bs w a' b' d where t: "group_run demo_crypto [a, b]" "sends_invitation demo_crypto b bs (w, skey 3, demo_kem) b'"
    "receives_commit demo_crypto a bs a'" "joins_group demo_crypto (w, skey 3, demo_kem) d" "demo_member b'"
    "members_in_step demo_crypto b' d" "g_epoch_id b' = 2" by (rule demo_trio)
  have run: "group_run demo_crypto [a', b', d]"
    using group_run.invited [OF t(1), of 1 bs "(w, skey 3, demo_kem)" b' "[a', b']" d] t(2-4) by (auto simp: all_receive_def less_Suc_eq)
  obtain r b'' where e: "expels_member demo_crypto b' d r b''" by (rule demo_expels [OF t(5,6)]) (use t(7) in simp_all)
  obtain ms where ms: "all_receive (obeys_removal demo_crypto) [a', b'] 1 r b'' ms"
    using removals.everyone_can_obey [of demo_crypto "[a', b']" d "[]" 1 r b''] group_run_inv [OF run demo_working(2)] e by auto
  then obtain a'' where a: "ms = [a'', b'']" "obeys_removal demo_crypto a' r a''"
    by (cases ms; cases "tl ms") (auto simp: all_receive_def less_Suc_eq)
  have "group_run demo_crypto [a'', b'']"
    using group_run.expelled [of demo_crypto "[a', b']" d "[]" 1 r b'' ms] run e ms a(1) by simp
  with that run e a(2) show ?thesis by blast
qed

section \<open>Properties\<close>

text \<open>C1: all members agree. In every run of a group (created, then any sequence of key updates,
  invitations and removals by any members, each delivered as encoded messages to all others), all
  members are in the same epoch: same group, epoch number, key schedule, interim transcript hash and
  tree, each at a leaf of its own that carries its keys. The steps of a run are restricted
  (\<open>group_run\<close>): an invitation is of a newcomer whose key package has source KEY_PACKAGE, carries its
  signature key, which is not in the tree yet, and one KEM key as init key and as leaf key, into a tree
  of fewer than \<open>2 ^ 31\<close> leaves; a removal is followed by a key update of the remover before anybody else
  commits; in the tree of each commit the references of the leaves identify their KEM keys. Without the
  first restriction the claim fails (\<open>joiner_keeps_init_key\<close>).\<close>

theorem group_stays_in_step:
  assumes "crypto_laws C" "group_run C ms" "i < length ms" "j < length ms" "i \<noteq> j"
  shows "same_epoch (ms ! i) (ms ! j) \<and> g_my_index (ms ! i) \<noteq> g_my_index (ms ! j)
       \<and> holds_leaf C (g_tree (ms ! i)) (ms ! i) \<and> holds_leaf C (g_tree (ms ! j)) (ms ! j)"
  using group_run_inv [OF assms(2,1)] assms(3-) by (simp add: all_in_step_def members_in_step_def member_ok_def)

theorem group_stays_in_step_witness:
  "\<exists>ms ms'. crypto_laws demo_crypto \<and> group_run demo_crypto ms \<and> length ms = 3 \<and> same_epoch (ms ! 0) (ms ! 2)
     \<and> (\<exists>r. expels_member demo_crypto (ms ! 1) (ms ! 2) r (ms' ! 1)) \<and> group_run demo_crypto ms' \<and> length ms' = 2 \<and> same_epoch (ms' ! 0) (ms' ! 1)"
proof -
  obtain a b d r b' a' where e: "group_run demo_crypto [a, b, d]" "expels_member demo_crypto b d r b'" "group_run demo_crypto [a', b']"
    by (rule demo_expelled)
  from group_stays_in_step [OF demo_working(2) e(1), of 0 2] group_stays_in_step [OF demo_working(2) e(3), of 0 1] e demo_working(2)
  show ?thesis by - (rule exI [of _ "[a, b, d]"], rule exI [of _ "[a', b']"], auto simp del: split_paired_Ex)
qed

text \<open>C2: no member is left behind. In every run of a group, with the same restrictions on the steps: when a
  member commits by a key update or an invitation and the commit is encoded as a message, every other
  member decodes and accepts it; when it invites a newcomer with one KEM key for init key and leaf
  key, source KEY_PACKAGE and a signature key that is not in the tree of fewer than \<open>2 ^ 31\<close> leaves, the newcomer joins
  from the Welcome; when it expels a member and updates its key afterwards, all others accept both
  messages; in each case the references of the leaves of the new tree identify their KEM keys. The run
  goes on with all of them.\<close>

theorem group_run_progress:
  assumes "crypto_laws C" "group_run C ms" "i < length ms"
  shows "(sends_commit C (ms ! i) bs a' \<longrightarrow>
            (\<exists>ms'. all_receive (receives_commit C) ms i bs a' ms' \<and> group_run C ms'))
       \<and> (sends_invitation C (ms ! i) bs w a' \<longrightarrow>
            (\<exists>ms' n. all_receive (receives_commit C) ms i bs a' ms' \<and> joins_group C w n \<and> group_run C (ms' @ [n])))
       \<and> (\<forall>xs m ys k. ms = xs @ m # ys \<and> k < length (xs @ ys) \<and> expels_member C ((xs @ ys) ! k) m r a' \<longrightarrow>
            (\<exists>ms'. all_receive (obeys_removal C) (xs @ ys) k r a' ms' \<and> group_run C ms'))"
proof (intro conjI impI allI)
  note inv = group_run_inv [OF assms(2,1)]
  show "\<exists>ms'. all_receive (receives_commit C) ms i bs a' ms' \<and> group_run C ms'" if s: "sends_commit C (ms ! i) bs a'"
    using protocol.everyone_can_receive [OF inv assms(3) s] group_run.committed [OF assms(2,3) s] by blast
  show "\<exists>ms' n. all_receive (receives_commit C) ms i bs a' ms' \<and> joins_group C w n \<and> group_run C (ms' @ [n])"
    if s: "sends_invitation C (ms ! i) bs w a'"
    using protocol.everyone_can_receive [OF inv assms(3) protocol.invitation [OF s]] protocol.everyone_can_join [OF inv assms(3) s]
      group_run.invited [OF assms(2,3) s] by blast
  show "\<exists>ms'. all_receive (obeys_removal C) (xs @ ys) k r a' ms' \<and> group_run C ms'"
    if s: "ms = xs @ m # ys \<and> k < length (xs @ ys) \<and> expels_member C ((xs @ ys) ! k) m r a'" for xs m ys k
    using removals.everyone_can_obey [of C xs m ys k r a'] inv group_run.expelled [of C xs m ys k r a'] assms(2) s by blast
qed

theorem group_run_progress_witness:
  "\<exists>ms bs w a' ms' n. crypto_laws demo_crypto \<and> group_run demo_crypto ms \<and> 1 < length ms \<and> sends_invitation demo_crypto (ms ! 1) bs w a'
     \<and> all_receive (receives_commit demo_crypto) ms 1 bs a' ms' \<and> joins_group demo_crypto w n \<and> group_run demo_crypto (ms' @ [n])"
proof -
  obtain a b bs w b' where r: "group_run demo_crypto [a, b]" "sends_invitation demo_crypto b bs (w, skey 3, demo_kem) b'"
    by (rule demo_trio)
  then have "1 < length [a, b]" "sends_invitation demo_crypto ([a, b] ! 1) bs (w, skey 3, demo_kem) b'" by simp_all
  with group_run_progress [OF demo_working(2) r(1), of 1 bs b' "(w, skey 3, demo_kem)"] r(1) demo_working(2) show ?thesis by blast
qed

text \<open>C6: commits return. A member in order whose group has room (at most 4096 leaves, 2048 before
  an addition, nodes of at most 1000 bytes, usable keys), over primitives that return, can always
  commit: \<open>update_key\<close>, \<open>remove_member\<close> of any other leaf and \<open>add_member\<close> of a verified key package that
  was not consumed return, and the commit (with the Welcome) is encoded.\<close>

theorem commits_return:
  assumes "working_crypto C" "group_room C g" "member_ok C g" "length (ent_leaf_path_secret ent) = 32"
  shows "(\<exists>g' u bs. fst (update_key C ent g) = Inr (g', u) \<and> bindR (wrap_commit u) MLSMessage_to_bytes = Inr bs)
   \<and> (i \<noteq> g_my_index g \<and> 0 \<le> i \<and> i < num_leaves (g_tree g) \<longrightarrow>
        (\<exists>g' u bs. fst (remove_member C ent g i) = Inr (g', u) \<and> bindR (wrap_commit u) MLSMessage_to_bytes = Inr bs))
   \<and> (num_leaves (g_tree g) \<le> 2048 \<and> package_room C kp \<and> KeyPackage_verify_signature C kp = Inr ()
        \<and> leaf_node_source (leaf_node kp) = LEAF_NODE_SOURCE_KEY_PACKAGE
        \<and> make_kp_ref kp = Inr ref \<and> ref \<notin> g_consumed_key_packages g \<longrightarrow>
        (\<exists>g' w u bs wb. fst (add_member C ent g kp) = Inr (g', w, u) \<and> bindR (wrap_commit u) MLSMessage_to_bytes = Inr bs
           \<and> Welcome_to_bytes REGISTRY w = Inr wb))"
  using update_key_ok [OF assms] remove_member_ok [OF assms] add_member_ok [OF assms] by metis

theorem commits_return_witness:
  "\<exists>g i kp ref. working_crypto demo_crypto \<and> group_room demo_crypto g \<and> member_ok demo_crypto g
     \<and> length (ent_leaf_path_secret demo_ent) = 32 \<and> i \<noteq> g_my_index g \<and> 0 \<le> i \<and> i < num_leaves (g_tree g) \<and> num_leaves (g_tree g) \<le> 2048
     \<and> package_room demo_crypto kp \<and> make_kp_ref kp = Inr ref \<and> ref \<notin> g_consumed_key_packages g
     \<and> (\<exists>g' u bs. fst (update_key demo_crypto demo_ent g) = Inr (g', u) \<and> bindR (wrap_commit u) MLSMessage_to_bytes = Inr bs)
     \<and> (\<exists>g' u bs. fst (remove_member demo_crypto demo_ent g i) = Inr (g', u) \<and> bindR (wrap_commit u) MLSMessage_to_bytes = Inr bs)
     \<and> (\<exists>g' w u bs wb. fst (add_member demo_crypto demo_ent g kp) = Inr (g', w, u) \<and> bindR (wrap_commit u) MLSMessage_to_bytes = Inr bs
          \<and> Welcome_to_bytes REGISTRY w = Inr wb)"
proof -
  obtain a b where b: "members_in_step demo_crypto a b" "demo_member b" "num_leaves (g_tree b) \<le> 2" "g_consumed_key_packages b = {}"
    by (rule demo_pair)
  have ok: "member_ok demo_crypto b" "group_room demo_crypto b" using b(2) by (simp_all add: demo_member_def)
  have i: "g_my_index a \<noteq> g_my_index b \<and> 0 \<le> g_my_index a \<and> g_my_index a < num_leaves (g_tree b)"
    using b(1) by (auto simp: members_in_step_def member_ok_def holds_leaf_def same_epoch_def dest: tree_equivD(1))
  obtain kp ref where kp: "newcomer_keys demo_crypto kp (skey 3) demo_kem" "package_room demo_crypto kp"
    "KeyPackage_verify_signature demo_crypto kp = Inr ()" "make_kp_ref kp = Inr ref" by (rule demo_package)
  have pre: "num_leaves (g_tree b) \<le> 2048 \<and> package_room demo_crypto kp \<and> KeyPackage_verify_signature demo_crypto kp = Inr ()
     \<and> leaf_node_source (leaf_node kp) = LEAF_NODE_SOURCE_KEY_PACKAGE \<and> make_kp_ref kp = Inr ref \<and> ref \<notin> g_consumed_key_packages b"
    using kp b(3,4) by (simp add: newcomer_keys_def)
  from commits_return [OF demo_working(1) ok(2,1) demo_working(3), of "g_my_index a" kp ref] i pre ok demo_working(1,3)
  show ?thesis by blast
qed

text \<open>C7: a removal. When a member removes the leaf \<open>i\<close>, every other remaining member that receives the
  commit accepts it and is in the same epoch as the remover, with a leaf that carries its keys; the
  leaf \<open>i\<close> is blank in the new tree, and the commit secret is sealed under the references of leaves of
  the new tree only. The remover itself keeps its old KEM key, although its new leaf carries another
  public key.\<close>

theorem removal_agreed:
  assumes "crypto_laws C" "members_in_step C A B" "fst (remove_member C ent A i) = Inr (A', u)" "on_wire u bs" "g_my_index B \<noteq> i"
  shows "\<exists>B'. receives_commit C B bs B' \<and> same_epoch A' B' \<and> holds_leaf C (g_tree B') B'
     \<and> get_node (g_tree A') (2 * i) = None \<and> get_node (g_tree B') (2 * i) = None
     \<and> (\<forall>r\<in>fst ` set (gu_encrypted_commit_secrets u). \<exists>j l. j \<noteq> i \<and> get_node (g_tree A') (2 * j) = Some (Leaf l)
          \<and> make_kp_ref (LeafNode_key_package l) = Inr r)
     \<and> g_my_kem_key A' = g_my_kem_key A
     \<and> (\<exists>l. get_node (g_tree A') (2 * g_my_index A') = Some (Leaf l) \<and> encryption_key l = kem_public_bytes C (ent_committer_kem ent))"
proof (rule remove_member_log [OF assms(3)])
  fix t rk ctx upns secrets sc cf
  assume i: "i \<noteq> g_my_index A" "0 \<le> i" "i < num_leaves (g_tree A)" and t: "remove_leaf (g_tree A) (2 * i) = Inr t"
    and l: "commit_log C ent A t rk ctx upns secrets sc cf" and A': "A' = next_group A cf (g_my_kem_key A)"
    and u: "u = attach_context A sc cf (cf_tag cf)"
  have A: "member_ok C A" "signatures_verify C" "0 \<le> g_my_index A" and B: "same_epoch A B" "member_ok C B" "g_my_index B \<noteq> g_my_index A"
    using assms(1,2) by (auto simp: members_in_step_def crypto_laws_def member_ok_def holds_leaf_def)
  note p = prepared_remove [OF A(1) i t] and T = commit_log_tree [OF l A(2) prepared_remove(1) [OF A(1) i t] A(3)]
  have tr: "g_tree A' = freeze (rk_tree rk)" unfolding A' by (rule committer_ok(4) [OF l A(2) p(1) A(3)])
  from commit_delivered [OF assms(1) l A(1) p(1) B p(2) [OF assms(5)] u assms(4), of "g_my_kem_key A"] obtain B' where
    B': "receives_commit C B bs B'" "same_epoch A' B'" "member_ok C B'" unfolding A' by blast
  have n: "get_node (g_tree A') (2 * i) = None" using T(4) [of i] i(1) p(3) by (simp add: tr)
  then have n': "get_node (g_tree B') (2 * i) = None"
    using tree_equivD(3) [OF tree_equiv_sym, of "g_tree A'" "g_tree B'" "2 * i"] B'(2) by (simp add: same_epoch_def)
  have us: "gu_encrypted_commit_secrets u = secrets"
    using l u by (auto simp: commit_log_def attach_context_def GroupUpdate_init_def elim!: sign_commit_facts)
  have wf: "tree_wf (rk_tree rk)" using T(1) by (simp add: tree_good_def)
  have "\<exists>j l. j \<noteq> i \<and> get_node (g_tree A') (2 * j) = Some (Leaf l) \<and> make_kp_ref (LeafNode_key_package l) = Inr r"
    if "r \<in> fst ` set (gu_encrypted_commit_secrets u)" for r
  proof -
    from that us obtain v where "(r, v) \<in> set secrets" by auto
    from commit_secrets_to_leaves [OF l wf this] n tr show ?thesis by (metis freeze_simps(2) option.distinct(1))
  qed
  moreover have "g_my_kem_key A' = g_my_kem_key A" "g_my_index A' = g_my_index A" by (simp_all add: A' next_group_def MLSGroup_init_def)
  ultimately show ?thesis using B' n n' T(4) [of "g_my_index A"] T(5) by (auto simp: tr member_ok_def)
qed

theorem removal_agreed_witness:
  "\<exists>A B i A' u bs B'. crypto_laws demo_crypto \<and> members_in_step demo_crypto A B \<and> g_my_index B \<noteq> i
     \<and> fst (remove_member demo_crypto demo_ent A i) = Inr (A', u) \<and> on_wire u bs
     \<and> receives_commit demo_crypto B bs B' \<and> same_epoch A' B' \<and> get_node (g_tree A) (2 * i) \<noteq> None \<and> get_node (g_tree B') (2 * i) = None"
proof -
  obtain a' b' d where t: "demo_member b'" "members_in_step demo_crypto b' a'" "members_in_step demo_crypto b' d"
      "members_in_step demo_crypto a' d" "g_epoch_id b' = 2" by (rule demo_trio)
  then have ne: "g_my_index a' \<noteq> g_my_index d" by (simp add: members_in_step_def)

  obtain A' u bs where r: "fst (remove_member demo_crypto demo_ent b' (g_my_index d)) = Inr (A', u)" "on_wire u bs"
    by (rule demo_removes [OF t(1,3)]) (use t(5) in simp_all)
  have "holds_leaf demo_crypto (g_tree b') d" using t(3)
    by (auto simp: members_in_step_def same_epoch_def member_ok_def intro: holds_leaf_equiv tree_equiv_sym)
  then have "get_node (g_tree b') (2 * g_my_index d) \<noteq> None" by (auto simp: holds_leaf_def)
  moreover obtain B' where "receives_commit demo_crypto a' bs B'" "same_epoch A' B'" "get_node (g_tree B') (2 * g_my_index d) = None"
    using removal_agreed [OF demo_working(2) t(2) r(1,2) ne] by (elim exE conjE) iprover
  ultimately show ?thesis using r t(2) ne demo_working(2) by (intro exI [of _ b'] exI [of _ a'] exI [of _ "g_my_index d"] exI [of _ A']
    exI [of _ u] exI [of _ bs] exI [of _ B'] conjI)
qed

end
