(* ===== verification/AppMessages.thy ===== *)
theory AppMessages
  imports ReceiveFacts "HOL-Library.Sublist"
begin

text \<open>
  Application messages of \<open>group.py\<close>: \<open>encrypt_application_message\<close> and
  \<open>decrypt_application_message\<close> over the secret tree of the epoch. The theorems: a conversation in one
  epoch arrives, with messages lost but not reordered; encryption returns; messages before the last
  opened one are refused; the generation of a payload acts before it is authenticated.
\<close>

section \<open>Model\<close>

text \<open>\<open>content_ct[:32].ljust(32, b"\x00")\<close>.\<close>

definition ciphertext_sample :: "bytes \<Rightarrow> bytes" where
  "ciphertext_sample content_ct = (let s = take 32 content_ct in s @ replicate (32 - length s) 0)"

definition message_ad :: "MLSGroup \<Rightarrow> bytes res" where
  "message_ad g = bindR (int_to_bytes 8 (g_epoch_id g)) (\<lambda>e. Inr (g_group_id g @ e))"

definition sender_data_key_nonce :: "MLSGroup \<Rightarrow> bytes \<Rightarrow> (bytes \<times> bytes) res" where
  "sender_data_key_nonce g content_ct =
     (let sample = ciphertext_sample content_ct in
      bindR (derive_sender_data_key (sender_data_secret (g_schedule g)) sample) (\<lambda>sd_key.
      bindR (derive_sender_data_nonce (sender_data_secret (g_schedule g)) sample) (\<lambda>sd_nonce.
      Inr (sd_key, sd_nonce))))"

text \<open>
  A message consumes a generation of the own leaf even when the encryption raises afterwards: the
  object after the call comes with the result.
\<close>

definition seal_message :: "crypto \<Rightarrow> MLSGroup \<Rightarrow> bytes \<Rightarrow> bytes \<Rightarrow> int \<Rightarrow> bytes \<Rightarrow> bytes res" where
  "seal_message C g content_key content_nonce gen plaintext =
     bindR (message_ad g) (\<lambda>ad.
     bindR (gcm_encrypt C content_key content_nonce plaintext ad) (\<lambda>content_ct.
     bindR (sender_data_key_nonce g content_ct) (\<lambda>(sd_key, sd_nonce).
     bindR (struct_pack 4 (g_my_index g)) (\<lambda>sd_plaintext.
     bindR (gcm_encrypt C sd_key sd_nonce sd_plaintext ad) (\<lambda>sd_ct.
     cat_res [int_to_bytes 2 (int (length sd_ct)), Inr sd_ct, struct_pack 4 gen, Inr content_ct])))))"

definition encrypt_application_message :: "crypto \<Rightarrow> MLSGroup \<Rightarrow> bytes \<Rightarrow> bytes res \<times> MLSGroup" where
  "encrypt_application_message C g plaintext =
     (case get_secret_tree g of (st, g1) \<Rightarrow>
      case get_key_and_nonce st (g_my_index g) ''application'' of
        (Inl e, st1) \<Rightarrow> (Inl e, g1\<lparr>g_secret_tree := Some st1\<rparr>)
      | (Inr (content_key, content_nonce, gen), st1) \<Rightarrow>
          (seal_message C g content_key content_nonce gen plaintext, g1\<lparr>g_secret_tree := Some st1\<rparr>))"

text \<open>The parts of a payload: the sender data, the generation, the content.\<close>

definition parse_message :: "bytes \<Rightarrow> (bytes \<times> int \<times> bytes) res" where
  "parse_message payload =
     (let off0 = 0;
          sd_ct_len = nat (from_be (slice payload off0 (off0 + 2))); off1 = off0 + 2;
          sd_ct = slice payload off1 (off1 + sd_ct_len); off2 = off1 + sd_ct_len in
      bindR (struct_unpack_from 4 (slice payload off2 (off2 + 4)) 0) (\<lambda>gen.
      let off3 = off2 + 4 in
      Inr (sd_ct, gen, drop off3 payload)))"

definition open_sender_data :: "crypto \<Rightarrow> MLSGroup \<Rightarrow> bytes \<Rightarrow> bytes \<Rightarrow> bytes \<Rightarrow> int res" where
  "open_sender_data C g ad sd_ct content_ct =
     bindR (sender_data_key_nonce g content_ct) (\<lambda>(sd_key, sd_nonce).
     bindR (case gcm_decrypt C sd_key sd_nonce sd_ct ad of
              Inl InvalidTag \<Rightarrow> Inl (ValueError ''SenderData authentication failed'')
            | r \<Rightarrow> r) (\<lambda>sd_plaintext.
     if length sd_plaintext \<noteq> 4 then Inl (ValueError ''SenderData: expected a 4-byte leaf index'')
     else
       bindR (struct_unpack_from 4 sd_plaintext 0) (\<lambda>sender_leaf.
       if \<not> (0 \<le> sender_leaf \<and> sender_leaf < num_leaves (g_tree g))
       then Inl (ValueError ''SenderData: sender_leaf out of range'')
       else Inr sender_leaf)))"

definition message_header :: "crypto \<Rightarrow> MLSGroup \<Rightarrow> bytes \<Rightarrow> (bytes \<times> int \<times> int \<times> bytes) res" where
  "message_header C g payload =
     (if length payload < 2 then Inl (ValueError ''Application message payload too short'')
      else
        bindR (message_ad g) (\<lambda>ad.
        bindR (parse_message payload) (\<lambda>(sd_ct, gen, content_ct).
        bindR (open_sender_data C g ad sd_ct content_ct) (\<lambda>sender_leaf.
        Inr (ad, sender_leaf, gen, content_ct)))))"

definition decrypt_application_message :: "crypto \<Rightarrow> MLSGroup \<Rightarrow> bytes \<Rightarrow> bytes res \<times> MLSGroup" where
  "decrypt_application_message C g payload =
     (case message_header C g payload of
        Inl e \<Rightarrow> (Inl e, g)
      | Inr (ad, sender_leaf, gen, content_ct) \<Rightarrow>
          (case get_secret_tree g of (st, g1) \<Rightarrow>
           case get_key_and_nonce_for_gen st sender_leaf gen ''application'' of
             (Inl e, st1) \<Rightarrow>
               (Inl (case e of ValueError _ \<Rightarrow> ValueError ''SecretTree'' | _ \<Rightarrow> e), g1\<lparr>g_secret_tree := Some st1\<rparr>)
           | (Inr (content_key, content_nonce), st1) \<Rightarrow>
               (case gcm_decrypt C content_key content_nonce content_ct ad of
                  Inl InvalidTag \<Rightarrow> Inl (ValueError ''Application message decryption failed'')
                | r \<Rightarrow> r,
                g1\<lparr>g_secret_tree := Some st1\<rparr>)))"

section \<open>Lemmas\<close>

text \<open>The ratchets a member works with, created or not, and how far they are.\<close>

definition ratchets :: "MLSGroup \<Rightarrow> SecretTree" where
  "ratchets g = fst (get_secret_tree g)"

definition own_gen :: "MLSGroup \<Rightarrow> int" where
  "own_gen g = next_gen (ratchets g) (g_my_index g)"

definition seen_gen :: "MLSGroup \<Rightarrow> int \<Rightarrow> int" where
  "seen_gen g leaf = tip (ratchets g) leaf ''application''"

definition message_key :: "MLSGroup \<Rightarrow> int \<Rightarrow> int \<Rightarrow> (bytes \<times> bytes) res" where
  "message_key g leaf gen = key_nonce_ref (encryption_secret (g_schedule g)) ((int (length (nodes (g_tree g))) + 1) div 2)
     leaf ''application'' (nat gen)"

definition ratchets_ok :: "MLSGroup \<Rightarrow> bool" where
  "ratchets_ok g \<longleftrightarrow> st_secret (ratchets g) = encryption_secret (g_schedule g)
     \<and> st_n_leaves (ratchets g) = (int (length (nodes (g_tree g))) + 1) div 2
     \<and> cache_ok (ratchets g) \<and> (\<forall>leaf. 0 \<le> next_gen (ratchets g) leaf)"

lemma ratchets_fresh: "g_secret_tree g = None \<Longrightarrow> ratchets_ok g"
  using st_inv_start [of "encryption_secret (g_schedule g)" "(int (length (nodes (g_tree g))) + 1) div 2"]
  by (simp add: ratchets_ok_def ratchets_def get_secret_tree_def Let_def st_inv_def)

lemma get_secret_tree_ratchets: "get_secret_tree g = (ratchets g, g\<lparr>g_secret_tree := Some (ratchets g)\<rparr>)"
  by (cases g) (auto simp: get_secret_tree_def ratchets_def Let_def split: option.splits)

lemma ratchets_set [simp]: "ratchets (g\<lparr>g_secret_tree := Some st\<rparr>) = st"
  by (simp add: ratchets_def get_secret_tree_def)

text \<open>One request of a member to its ratchets, whatever it returns.\<close>

lemma ratchets_request:
  assumes "ratchets_ok g" "get_key_and_nonce_for_gen (ratchets g) leaf gen ty = (r, st)"
  shows "ratchets_ok (g\<lparr>g_secret_tree := Some st\<rparr>)" "next_gen st = next_gen (ratchets g)"
    "tip (ratchets g) leaf' ty' \<le> tip st leaf' ty'" "0 \<le> gen \<Longrightarrow> r = Inr kn \<Longrightarrow> tip st leaf ty = gen"
proof -
  have c: "cache_ok (ratchets g)" using assms(1) by (simp add: ratchets_ok_def)
  have s: "st = snd (get_key_and_nonce_for_gen (ratchets g) leaf gen ty)" using assms(2) by simp
  have f: "st_secret st = st_secret (ratchets g) \<and> st_n_leaves st = st_n_leaves (ratchets g)
      \<and> st_generations st = st_generations (ratchets g) \<and> cache_ok st \<and> (\<forall>l t. tip (ratchets g) l t \<le> tip st l t)"
  proof (cases "0 \<le> gen")
    case True
    with get_for_gen_state [OF c True] s show ?thesis by simp
  next
    case False
    then have "gen < 0" by simp
    with negative_generation [OF c this, of leaf ty] c s show ?thesis by (simp add: cache_ok_def tip_def)
  qed
  then show n: "next_gen st = next_gen (ratchets g)" by (intro ext) (simp add: next_gen_def)
  from f n show "ratchets_ok (g\<lparr>g_secret_tree := Some st\<rparr>)" "tip (ratchets g) leaf' ty' \<le> tip st leaf' ty'"
    using assms(1) by (simp_all add: ratchets_ok_def)
  show "tip st leaf ty = gen" if "0 \<le> gen" "r = Inr kn"
    using get_for_gen_state(6) [OF c that(1), of leaf ty kn] assms(2) that(2) by simp
qed

lemma ratchets_key:
  assumes "ratchets_ok g" "0 \<le> gen"
  shows "fst (get_key_and_nonce_for_gen (ratchets g) leaf gen ''application'') =
     (if gen < seen_gen g leaf then Inl (ValueError ''SecretTree forward-secrecy'') else message_key g leaf gen)"
  using assms get_for_gen_spec [of "ratchets g" gen leaf "''application''"]
  by (simp add: ratchets_ok_def seen_gen_def message_key_def)

text \<open>Encryption.\<close>

lemma encrypt_spec:
  assumes "ratchets_ok g" "encrypt_application_message C g pt = (r, g')"
  shows "ratchets_ok g'" "g' = g\<lparr>g_secret_tree := g_secret_tree g'\<rparr>" "0 \<le> own_gen g" "own_gen g \<le> own_gen g'"
    "r = Inr bs \<Longrightarrow> own_gen g' = own_gen g + 1 \<and> seen_gen g' (g_my_index g) = own_gen g
       \<and> (\<exists>k n. message_key g (g_my_index g) (own_gen g) = Inr (k, n) \<and> seal_message C g k n (own_gen g) pt = Inr bs)"
proof -
  obtain x st where x: "get_key_and_nonce_for_gen (ratchets g) (g_my_index g) (own_gen g) ''application'' = (x, st)"
    by fastforce
  show g0: "0 \<le> own_gen g" using assms(1) by (simp add: ratchets_ok_def own_gen_def)
  note q = ratchets_request [OF assms(1) x]
  have e: "get_key_and_nonce (ratchets g) (g_my_index g) ''application'' =
      (case x of Inl e \<Rightarrow> (Inl e, st)
       | Inr (k, n) \<Rightarrow> (Inr (k, n, own_gen g), st\<lparr>st_generations := (st_generations st)(g_my_index g \<mapsto> own_gen g + 1)\<rparr>))"
    using x by (auto simp: get_key_and_nonce_def own_gen_def next_gen_def Let_def split: sum.splits)
  let ?st = "st\<lparr>st_generations := (st_generations st)(g_my_index g \<mapsto> own_gen g + 1)\<rparr>"
  have n: "next_gen ?st l = (if l = g_my_index g then own_gen g + 1 else next_gen st l)" for l by (simp add: next_gen_def)
  have ok: "ratchets_ok (g\<lparr>g_secret_tree := Some ?st\<rparr>)"
    using q(1) g0 n by (auto simp: ratchets_ok_def cache_ok_def cached_def)
  have og: "own_gen (g\<lparr>g_secret_tree := Some ?st\<rparr>) = own_gen g + 1" "own_gen (g\<lparr>g_secret_tree := Some st\<rparr>) = own_gen g"
    using n q(2) by (simp_all add: own_gen_def)
  show "ratchets_ok g'" "g' = g\<lparr>g_secret_tree := g_secret_tree g'\<rparr>" "own_gen g \<le> own_gen g'"
    using assms(2) e q(1) ok og by (auto simp: encrypt_application_message_def get_secret_tree_ratchets split: sum.splits)
  assume r: "r = Inr bs"
  then obtain k m where k: "x = Inr (k, m)" "seal_message C g k m (own_gen g) pt = Inr bs" "g' = g\<lparr>g_secret_tree := Some ?st\<rparr>"
    using assms(2) e by (auto simp: encrypt_application_message_def get_secret_tree_ratchets split: sum.splits)
  have "message_key g (g_my_index g) (own_gen g) = Inr (k, m)"
    using ratchets_key [OF assms(1) g0, of "g_my_index g"] x k(1) by (auto split: if_splits)
  moreover have "seen_gen g' (g_my_index g) = own_gen g"
    using q(4) [OF g0 k(1)] k(3) by (simp add: seen_gen_def tip_def cached_def)
  ultimately show "own_gen g' = own_gen g + 1 \<and> seen_gen g' (g_my_index g) = own_gen g \<and>
      (\<exists>k n. message_key g (g_my_index g) (own_gen g) = Inr (k, n) \<and> seal_message C g k n (own_gen g) pt = Inr bs)"
    using k og(1) by auto
qed

text \<open>The parts of a payload are found again.\<close>

lemma parse_message_built:
  assumes "length sd < 65536" "0 \<le> gen" "gen < 2 ^ 32"
  shows "parse_message (be_bytes 2 (int (length sd)) @ sd @ be_bytes 4 gen @ ct) = Inr (sd, gen, ct)"
proof -
  let ?b = "be_bytes 2 (int (length sd)) @ sd @ be_bytes 4 gen @ ct"
  have d0: "drop 0 ?b = be_bytes 2 (int (length sd)) @ sd @ be_bytes 4 gen @ ct" and d2: "drop 2 ?b = sd @ be_bytes 4 gen @ ct"
    and d3: "drop (2 + length sd) ?b = be_bytes 4 gen @ ct" by simp_all
  have s: "slice ?b 0 (0 + 2) = be_bytes 2 (int (length sd))" "slice ?b (0 + 2) (0 + 2 + length sd) = sd"
    "slice ?b (0 + 2 + length sd) (0 + 2 + length sd + 4) = be_bytes 4 gen"
    using slice_prefix [OF d0] slice_prefix [OF d2] slice_prefix [OF d3] by (simp_all only: add_0 length_be_bytes)
  have l: "nat (from_be (be_bytes 2 (int (length sd)))) = length sd" using assms(1) by simp
  have u: "struct_unpack_from 4 (be_bytes 4 gen) 0 = Inr gen"
    by (rule unpack_head [of _ _ _ _ "[]"]) (use assms in simp_all)
  have d: "drop (0 + 2 + length sd + 4) ?b = ct" by simp
  show ?thesis unfolding parse_message_def Let_def s(1) l s(2,3) u d by simp
qed

lemma seal_message_parts:
  assumes "seal_message C g k n gen pt = Inr bs"
  obtains ad ct sk sn sd where "message_ad g = Inr ad" "gcm_encrypt C k n pt ad = Inr ct"
    "sender_data_key_nonce g ct = Inr (sk, sn)" "gcm_encrypt C sk sn (be_bytes 4 (g_my_index g)) ad = Inr sd"
    "0 \<le> g_my_index g" "g_my_index g < 2 ^ 32" "length sd < 65536" "0 \<le> gen" "gen < 2 ^ 32"
    "bs = be_bytes 2 (int (length sd)) @ sd @ be_bytes 4 gen @ ct"
  using assms by (auto simp: seal_message_def int_to_bytes_def split: if_splits)

text \<open>What the header of a message says to a member of the same epoch.\<close>

lemma message_header_parts:
  assumes "gcm_decrypts C" "same_epoch A B" "g_my_index A < num_leaves (g_tree A)" "seal_message C A k n gen pt = Inr bs"
  obtains ad sd ct where "bs = be_bytes 2 (int (length sd)) @ sd @ be_bytes 4 gen @ ct" "gcm_encrypt C k n pt ad = Inr ct"
    "0 \<le> gen" "gen < 2 ^ 32"
    "\<And>gen'. 0 \<le> gen' \<Longrightarrow> gen' < 2 ^ 32 \<Longrightarrow>
       message_header C B (be_bytes 2 (int (length sd)) @ sd @ be_bytes 4 gen' @ ct) = Inr (ad, g_my_index A, gen', ct)"
proof -
  have E: "g_group_id B = g_group_id A" "g_epoch_id B = g_epoch_id A" "g_schedule B = g_schedule A" "num_leaves (g_tree B) = num_leaves (g_tree A)"
    using assms(2) tree_equivD(1) [of "g_tree A" "g_tree B"] by (simp_all add: same_epoch_def)
  from seal_message_parts [OF assms(4)] obtain ad ct sk sn sd where p: "message_ad A = Inr ad" "gcm_encrypt C k n pt ad = Inr ct"
    "sender_data_key_nonce A ct = Inr (sk, sn)" "gcm_encrypt C sk sn (be_bytes 4 (g_my_index A)) ad = Inr sd"
    "0 \<le> g_my_index A" "g_my_index A < 2 ^ 32" "length sd < 65536" "0 \<le> gen" "gen < 2 ^ 32"
    "bs = be_bytes 2 (int (length sd)) @ sd @ be_bytes 4 gen @ ct" by blast
  have "gcm_decrypt C sk sn sd ad = Inr (be_bytes 4 (g_my_index A))" using assms(1) p(4) by (simp add: gcm_decrypts_def)
  moreover have "struct_unpack_from 4 (be_bytes 4 (g_my_index A)) 0 = Inr (g_my_index A)"
    by (rule unpack_head [of _ _ _ _ "[]"]) (use p(5,6) in simp_all)
  ultimately have o: "open_sender_data C B ad sd ct = Inr (g_my_index A)"
    using p(3,5) assms(3) E by (simp add: open_sender_data_def sender_data_key_nonce_def)
  have "message_ad B = Inr ad" using p(1) E by (simp add: message_ad_def)
  with o have "message_header C B (be_bytes 2 (int (length sd)) @ sd @ be_bytes 4 gen' @ ct) = Inr (ad, g_my_index A, gen', ct)"
    if "0 \<le> gen'" "gen' < 2 ^ 32" for gen'
    using parse_message_built [OF p(7) that, of ct] by (simp add: message_header_def)
  with p that show ?thesis by blast
qed

text \<open>Decryption: any call keeps the ratchets in order; a message of the epoch that is not behind the
  ratchet of its sender is opened.\<close>

lemma decrypt_keeps:
  assumes "ratchets_ok g" "decrypt_application_message C g bs = (r, g')"
  shows "ratchets_ok g'" "g' = g\<lparr>g_secret_tree := g_secret_tree g'\<rparr>" "own_gen g' = own_gen g" "seen_gen g leaf \<le> seen_gen g' leaf"
proof -
  have "ratchets_ok g' \<and> g' = g\<lparr>g_secret_tree := g_secret_tree g'\<rparr> \<and> own_gen g' = own_gen g \<and> seen_gen g leaf \<le> seen_gen g' leaf"
  proof (cases "message_header C g bs")
    case (Inl e)
    with assms show ?thesis by (simp add: decrypt_application_message_def)
  next
    case (Inr h)
    obtain ad l gen ct where h: "h = (ad, l, gen, ct)" by (cases h)
    obtain x st where x: "get_key_and_nonce_for_gen (ratchets g) l gen ''application'' = (x, st)" by fastforce
    have g': "g' = g\<lparr>g_secret_tree := Some st\<rparr>"
      using assms(2) Inr h x by (auto simp: decrypt_application_message_def get_secret_tree_ratchets split: sum.splits prod.splits)
    note q = ratchets_request [OF assms(1) x]
    show ?thesis using q g' by (simp add: own_gen_def [of "g_secret_tree_update _ _"] seen_gen_def) (simp add: own_gen_def)
  qed
  then show "ratchets_ok g'" "g' = g\<lparr>g_secret_tree := g_secret_tree g'\<rparr>" "own_gen g' = own_gen g" "seen_gen g leaf \<le> seen_gen g' leaf"
    by blast+
qed

text \<open>The ratchet of the sender named in the header moves before the content is authenticated.\<close>

lemma decrypt_advances:
  assumes "ratchets_ok g" "message_header C g bs = Inr (ad, leaf, gen, ct)" "0 \<le> gen" "seen_gen g leaf \<le> gen"
    and "message_key g leaf gen = Inr kn"
  shows "seen_gen (snd (decrypt_application_message C g bs)) leaf = gen"
proof -
  obtain x st where x: "get_key_and_nonce_for_gen (ratchets g) leaf gen ''application'' = (x, st)" by fastforce
  have "x = Inr kn" using ratchets_key [OF assms(1,3), of leaf] x assms(4,5) by simp
  with ratchets_request(4) [OF assms(1) x assms(3)] x assms(2) show ?thesis
    by (cases kn) (simp add: decrypt_application_message_def get_secret_tree_ratchets seen_gen_def)
qed

lemma message_key_same: "same_epoch A B \<Longrightarrow> message_key B leaf gen = message_key A leaf gen"
  using tree_equivD(2) [of "g_tree A" "g_tree B"] by (simp add: message_key_def same_epoch_def)

lemma decrypt_sealed:
  assumes "gcm_decrypts C" "same_epoch A B" "g_my_index A < num_leaves (g_tree A)" "seal_message C A k n gen pt = Inr bs"
    and "message_key A (g_my_index A) gen = Inr (k, n)" "ratchets_ok B"
  shows "gen < seen_gen B (g_my_index A) \<Longrightarrow> fst (decrypt_application_message C B bs) = Inl (ValueError ''SecretTree'')"
    and "seen_gen B (g_my_index A) \<le> gen \<Longrightarrow> fst (decrypt_application_message C B bs) = Inr pt
      \<and> seen_gen (snd (decrypt_application_message C B bs)) (g_my_index A) = gen"
proof -
  obtain ad ct where h: "message_header C B bs = Inr (ad, g_my_index A, gen, ct)" "gcm_encrypt C k n pt ad = Inr ct" "0 \<le> gen"
    by (rule message_header_parts [OF assms(1-4)]) blast
  obtain x st where x: "get_key_and_nonce_for_gen (ratchets B) (g_my_index A) gen ''application'' = (x, st)" by fastforce
  note key = ratchets_key [OF assms(6) h(3), of "g_my_index A"]
  have dec: "gcm_decrypt C k n ct ad = Inr pt" using assms(1) h(2) by (simp add: gcm_decrypts_def)
  show "fst (decrypt_application_message C B bs) = Inl (ValueError ''SecretTree'')" if "gen < seen_gen B (g_my_index A)"
    using key x that h(1) by (simp add: decrypt_application_message_def get_secret_tree_ratchets)
  show "fst (decrypt_application_message C B bs) = Inr pt \<and> seen_gen (snd (decrypt_application_message C B bs)) (g_my_index A) = gen"
    if "seen_gen B (g_my_index A) \<le> gen"
  proof -
    have "x = Inr (k, n)" using key x that assms(5) message_key_same [OF assms(2)] by simp
    with ratchets_request(4) [OF assms(6) x h(3)] h(1) dec x show ?thesis
      by (simp add: decrypt_application_message_def get_secret_tree_ratchets seen_gen_def)
  qed
qed

section \<open>Conversations\<close>

text \<open>A member in an epoch: any sequence of calls that encrypt or decrypt, some of which raise.\<close>

inductive chat_run :: "crypto \<Rightarrow> MLSGroup \<Rightarrow> MLSGroup \<Rightarrow> bool" for C g where
  start: "chat_run C g g"
| encrypt: "chat_run C g g1 \<Longrightarrow> encrypt_application_message C g1 pt = (r, g2) \<Longrightarrow> chat_run C g g2"
| decrypt: "chat_run C g g1 \<Longrightarrow> decrypt_application_message C g1 bs = (r, g2) \<Longrightarrow> chat_run C g g2"

lemma chat_run_keeps:
  assumes "chat_run C g g'" "ratchets_ok g"
  shows "ratchets_ok g' \<and> g' = g\<lparr>g_secret_tree := g_secret_tree g'\<rparr> \<and> own_gen g \<le> own_gen g'"
  using assms
proof (induction rule: chat_run.induct)
  case (encrypt g1 pt r g2)
  then have ok: "ratchets_ok g1" "g1 = g\<lparr>g_secret_tree := g_secret_tree g1\<rparr>" "own_gen g \<le> own_gen g1" by simp_all
  from encrypt_spec(1,2,4) [OF ok(1) encrypt.hyps(2)] ok(2,3) show ?case by (cases g; cases g1; cases g2) simp
next
  case (decrypt g1 bs r g2)
  then have ok: "ratchets_ok g1" "g1 = g\<lparr>g_secret_tree := g_secret_tree g1\<rparr>" "own_gen g \<le> own_gen g1" by simp_all
  from decrypt_keeps(1,2,3) [OF ok(1) decrypt.hyps(2)] ok(2,3) show ?case by (cases g; cases g1; cases g2) simp
qed simp

lemma same_epoch_secret_tree [simp]:
  "same_epoch (A\<lparr>g_secret_tree := s\<rparr>) B = same_epoch A B" "same_epoch A (B\<lparr>g_secret_tree := s\<rparr>) = same_epoch A B"
  by (simp_all add: same_epoch_def)

lemma chat_run_epoch:
  assumes "chat_run C g g'" "ratchets_ok g"
  shows "ratchets_ok g'" "g_my_index g' = g_my_index g" "g_tree g' = g_tree g" "same_epoch g g'" 
proof -
  from chat_run_keeps [OF assms] show "ratchets_ok g'" by blast
  from chat_run_keeps [OF assms] obtain s where "g' = g\<lparr>g_secret_tree := s\<rparr>" by blast
  then show "g_my_index g' = g_my_index g" "g_tree g' = g_tree g" "same_epoch g g'" by (simp_all add: same_epoch_def)
qed

lemma sealed_by_encrypt:
  assumes "ratchets_ok A" "encrypt_application_message C A pt = (Inr bs, A')"
  obtains k n where "message_key A (g_my_index A) (own_gen A) = Inr (k, n)" "seal_message C A k n (own_gen A) pt = Inr bs"
    "ratchets_ok A'" "own_gen A' = own_gen A + 1" "A' = A\<lparr>g_secret_tree := g_secret_tree A'\<rparr>"
  using encrypt_spec [OF assms] by blast

lemma same_epoch_chat:
  assumes "same_epoch A0 B0" "chat_run C A0 A" "chat_run C B0 B" "ratchets_ok A0" "ratchets_ok B0"
  shows "same_epoch A B" "ratchets_ok A" "ratchets_ok B" "g_my_index A = g_my_index A0" "g_tree A = g_tree A0"
  using chat_run_epoch [OF assms(2,4)] chat_run_epoch [OF assms(3,5)] assms(1)
  by (auto simp: same_epoch_def intro: tree_equiv_trans tree_equiv_sym)

text \<open>Sending and receiving many messages.\<close>

fun send_all :: "crypto \<Rightarrow> MLSGroup \<Rightarrow> bytes list \<Rightarrow> bytes res list \<times> MLSGroup" where
  "send_all C g [] = ([], g)"
| "send_all C g (pt # pts) =
     (case encrypt_application_message C g pt of (r, g1) \<Rightarrow>
      case send_all C g1 pts of (rs, g2) \<Rightarrow> (r # rs, g2))"

fun receive_all :: "crypto \<Rightarrow> MLSGroup \<Rightarrow> bytes list \<Rightarrow> bytes res list \<times> MLSGroup" where
  "receive_all C g [] = ([], g)"
| "receive_all C g (bs # bss) =
     (case decrypt_application_message C g bs of (r, g1) \<Rightarrow>
      case receive_all C g1 bss of (rs, g2) \<Rightarrow> (r # rs, g2))"

lemma receive_sent:
  assumes "gcm_decrypts C" "send_all C A pts = (map Inr bss, A')" "subseq got (zip bss pts)"
    and "same_epoch A B" "ratchets_ok A" "ratchets_ok B" "g_my_index A < num_leaves (g_tree A)"
    and "seen_gen B (g_my_index A) \<le> own_gen A"
  shows "fst (receive_all C B (map fst got)) = map (\<lambda>(bs, pt). Inr pt) got"
  using assms(2-)
proof (induction pts arbitrary: A B bss got)
  case (Cons pt pts)
  obtain r A1 where e: "encrypt_application_message C A pt = (r, A1)" by fastforce
  with Cons.prems(1) obtain bs bss' where bss: "bss = bs # bss'" "r = Inr bs" "send_all C A1 pts = (map Inr bss', A')"
    by (cases bss) (auto split: prod.splits)
  from sealed_by_encrypt [OF Cons.prems(4) e [unfolded bss(2)]] obtain k n where
    k: "message_key A (g_my_index A) (own_gen A) = Inr (k, n)" "seal_message C A k n (own_gen A) pt = Inr bs"
    and A1: "ratchets_ok A1" "own_gen A1 = own_gen A + 1" "A1 = A\<lparr>g_secret_tree := g_secret_tree A1\<rparr>" by blast
  from A1(3) obtain s where s: "A1 = A\<lparr>g_secret_tree := s\<rparr>" by blast
  note IH = Cons.IH [OF bss(3), unfolded s]
  have se: "same_epoch (A\<lparr>g_secret_tree := s\<rparr>) B" "g_my_index A < num_leaves (g_tree (A\<lparr>g_secret_tree := s\<rparr>))"
    using Cons.prems(3,6) by simp_all
  have sub: "subseq got ((bs, pt) # zip bss' pts)" using Cons.prems(2) bss(1) by simp
  show ?case
  proof (cases "\<exists>got'. got = (bs, pt) # got' \<and> subseq got' (zip bss' pts)")
    case False
    with sub have "subseq got (zip bss' pts)" by (auto elim: list_emb.cases)
    from IH [OF this se(1) A1(1) [unfolded s] Cons.prems(5)] se(2) A1(2) s Cons.prems(7) show ?thesis by simp
  next
    case True
    then obtain got' where g: "got = (bs, pt) # got'" "subseq got' (zip bss' pts)" by blast
    obtain r2 B1 where d: "decrypt_application_message C B bs = (r2, B1)" by fastforce
    from decrypt_sealed(2) [OF assms(1) Cons.prems(3,6) k(2,1) Cons.prems(5,7)] d
    have o: "r2 = Inr pt" "seen_gen B1 (g_my_index A) = own_gen A" by simp_all
    from decrypt_keeps(1,2) [OF Cons.prems(5) d] obtain s' where B1: "ratchets_ok B1" "B1 = B\<lparr>g_secret_tree := s'\<rparr>" by blast
    have "same_epoch (A\<lparr>g_secret_tree := s\<rparr>) B1" using se(1) B1(2) by simp
    from IH [OF g(2) this A1(1) [unfolded s] B1(1)] se(2) o A1(2) s
    have "fst (receive_all C B1 (map fst got')) = map (\<lambda>(bs, pt). Inr pt) got'" by simp
    then show ?thesis using g(1) d o(1) by (auto split: prod.splits)
  qed
qed (auto dest: list_emb_Nil2)

text \<open>Keys and lengths are there when the sizes are.\<close>

lemma message_key_ok:
  assumes "length (nodes (g_tree g)) = 2 * 2 ^ d - 1" "d \<le> 31" "0 \<le> leaf" "leaf < 2 ^ d" "0 \<le> gen" "gen < 2 ^ 32"
  shows "\<exists>k n. message_key g leaf gen = Inr (k, n) \<and> length k = 16 \<and> length n = 12"
proof -
  have "(1 :: nat) \<le> 2 * 2 ^ d" by simp
  then have "(int (length (nodes (g_tree g))) + 1) div 2 = 2 ^ d" using assms(1) by (simp add: of_nat_diff)
  with key_nonce_ref_ok [OF assms(2-4), of "''application''" "nat gen" "encryption_secret (g_schedule g)"] assms(5,6)
  show ?thesis by (simp add: message_key_def)
qed

lemma sender_data_ok:
  "\<exists>k n. sender_data_key_nonce g ct = Inr (k, n) \<and> length k = 16 \<and> length n = 12"
proof -
  let ?s = "ciphertext_sample ct" and ?x = "sender_data_secret (g_schedule g)"
  have "length ?s < 2 ^ 30" by (simp add: ciphertext_sample_def Let_def)
  then obtain k n where "expand_with_label ?x ''key'' ?s 16 sha256 = Inr k" "length k = 16"
    "expand_with_label ?x ''nonce'' ?s 12 sha256 = Inr n" "length n = 12"
    using expand_with_label_sha256 [of "''key''" ?s 16 ?x] expand_with_label_sha256 [of "''nonce''" ?s 12 ?x] by auto
  then show ?thesis by (simp add: sender_data_key_nonce_def derive_sender_data_key_def derive_sender_data_nonce_def
        ST_KEY_LEN_def ST_NONCE_LEN_def Let_def)
qed

lemma seal_message_ok:
  assumes "primitives_return C" "length k = 16" "length n = 12" "length pt < 2 ^ 31" "0 \<le> gen" "gen < 2 ^ 32"
    and "0 \<le> g_epoch_id g" "g_epoch_id g < 2 ^ 64" "length (g_group_id g) < 2 ^ 30" "0 \<le> g_my_index g" "g_my_index g < 2 ^ 32"
  shows "\<exists>bs. seal_message C g k n gen pt = Inr bs \<and> length bs = length pt + 42"
proof -
  obtain ad where ad: "message_ad g = Inr ad" "length ad < 2 ^ 31" using assms(7-9) by (simp add: message_ad_def int_to_bytes_def)
  obtain ct where ct: "gcm_encrypt C k n pt ad = Inr ct" "length ct = length pt + 16"
    using gcm_returns [OF assms(1) _ assms(3,4) ad(2)] assms(2) by blast
  obtain sk sn where s: "sender_data_key_nonce g ct = Inr (sk, sn)" "length sk = 16" "length sn = 12"
    using sender_data_ok by blast
  have "length (be_bytes 4 (g_my_index g)) < 2 ^ 31" by simp
  then obtain sd where "gcm_encrypt C sk sn (be_bytes 4 (g_my_index g)) ad = Inr sd" "length sd = length (be_bytes 4 (g_my_index g)) + 16"
    using gcm_returns [OF assms(1) _ s(3) _ ad(2)] s(2) by blast
  with ad(1) ct s(1) assms(5,6,10,11) show ?thesis
    by (simp add: seal_message_def struct_pack_def int_to_bytes_def)
qed

lemma encrypt_ok:
  assumes "primitives_return C" "ratchets_ok g" "seen_gen g (g_my_index g) \<le> own_gen g" "own_gen g < 2 ^ 32" "length pt < 2 ^ 31"
    and "length (nodes (g_tree g)) = 2 * 2 ^ d - 1" "d \<le> 31" "0 \<le> g_my_index g" "g_my_index g < 2 ^ d"
    and "0 \<le> g_epoch_id g" "g_epoch_id g < 2 ^ 64" "length (g_group_id g) < 2 ^ 30"
  shows "\<exists>bs. fst (encrypt_application_message C g pt) = Inr bs \<and> length bs = length pt + 42"
proof -
  have g0: "0 \<le> own_gen g" using assms(2) by (simp add: ratchets_ok_def own_gen_def)
  obtain k n where k: "message_key g (g_my_index g) (own_gen g) = Inr (k, n)" "length k = 16" "length n = 12"
    using message_key_ok [OF assms(6-9) g0 assms(4)] by blast
  have "(2 :: int) ^ d \<le> 2 ^ 31" using power_increasing [OF assms(7), of "2 :: int"] by simp
  then have "g_my_index g < 2 ^ 32" using assms(9) by simp
  then obtain bs where bs: "seal_message C g k n (own_gen g) pt = Inr bs" "length bs = length pt + 42"
    using seal_message_ok [OF assms(1) k(2,3) assms(5) g0 assms(4,10-12,8)] by blast
  have "fst (get_key_and_nonce_for_gen (ratchets g) (g_my_index g) (own_gen g) ''application'') = Inr (k, n)"
    using ratchets_key [OF assms(2) g0, of "g_my_index g"] assms(3) k(1) by simp
  then obtain st where "get_key_and_nonce_for_gen (ratchets g) (g_my_index g) (own_gen g) ''application'' = (Inr (k, n), st)"
    by (metis prod.collapse)
  then have "get_key_and_nonce (ratchets g) (g_my_index g) ''application'' =
      (Inr (k, n, own_gen g), st\<lparr>st_generations := (st_generations st)(g_my_index g \<mapsto> own_gen g + 1)\<rparr>)"
    by (simp add: get_key_and_nonce_def own_gen_def next_gen_def Let_def)
  with bs show ?thesis by (simp add: encrypt_application_message_def get_secret_tree_ratchets)
qed

section \<open>Properties\<close>

text \<open>C4: a conversation arrives. Two members are in the same epoch, each after any sequence of
  calls of its own. One encrypts a list of messages, one after the other; the other is given some of
  the payloads in the order they were sent, the rest is lost. It has not yet opened a message of that
  sender beyond the first of these. Then it decrypts every payload it is given to its plaintext.\<close>

theorem conversation_arrives:
  assumes "gcm_decrypts C" "same_epoch A0 B0" "g_secret_tree A0 = None" "g_secret_tree B0 = None"
    and "chat_run C A0 A" "chat_run C B0 B" "g_my_index A0 < num_leaves (g_tree A0)"
    and "seen_gen B (g_my_index A0) \<le> own_gen A"
    and "send_all C A pts = (map Inr bss, A')" "subseq got (zip bss pts)"
  shows "fst (receive_all C B (map fst got)) = map (\<lambda>(bs, pt). Inr pt) got"
proof -
  note s = same_epoch_chat [OF assms(2,5,6) ratchets_fresh [OF assms(3)] ratchets_fresh [OF assms(4)]]
  show ?thesis using receive_sent [OF assms(1,9,10) s(1-3)] assms(7,8) s(4,5) by simp
qed

text \<open>Encryption returns. A member in an epoch whose tree has \<open>2^d\<close> leaves encrypts every message
  of less than 2^31 bytes, after any sequence of calls, as long as its generations fit into 32 bits
  and nobody has pushed its own ratchet ahead; the payload is 42 bytes longer than the message.\<close>

theorem encrypt_returns:
  assumes "primitives_return C" "g_secret_tree g0 = None" "chat_run C g0 g"
    and "seen_gen g (g_my_index g0) \<le> own_gen g" "own_gen g < 2 ^ 32" "length pt < 2 ^ 31"
    and "length (nodes (g_tree g0)) = 2 * 2 ^ d - 1" "d \<le> 31" "0 \<le> g_my_index g0" "g_my_index g0 < 2 ^ d"
    and "0 \<le> g_epoch_id g0" "g_epoch_id g0 < 2 ^ 64" "length (g_group_id g0) < 2 ^ 30"
  shows "\<exists>bs. fst (encrypt_application_message C g pt) = Inr bs \<and> length bs = length pt + 42"
proof -
  note r = chat_run_epoch [OF assms(3) ratchets_fresh [OF assms(2)]]
  from r(4) have "g_epoch_id g = g_epoch_id g0" "g_group_id g = g_group_id g0" by (simp_all add: same_epoch_def)
  with r assms show ?thesis by (intro encrypt_ok) simp_all
qed

text \<open>Past messages. Once a member has opened a message of a sender, every message that sender
  encrypted before it is refused and stays unreadable with what the member keeps, while the very
  message it opened last is opened again when it is delivered twice.\<close>

theorem past_messages_refused:
  assumes "gcm_decrypts C" "same_epoch A0 B0" "g_secret_tree A0 = None" "g_secret_tree B0 = None"
    and "g_my_index A0 < num_leaves (g_tree A0)"
    and "chat_run C A0 A1" "encrypt_application_message C A1 pt1 = (Inr bs1, A2)"
    and "chat_run C A2 A3" "encrypt_application_message C A3 pt2 = (Inr bs2, A4)"
    and "chat_run C B0 B" "seen_gen B (g_my_index A0) \<le> own_gen A3" "decrypt_application_message C B bs2 = (r, B')"
  shows "r = Inr pt2 \<and> fst (decrypt_application_message C B' bs1) = Inl (ValueError ''SecretTree'')
       \<and> fst (decrypt_application_message C B' bs2) = Inr pt2"
proof -
  note f = ratchets_fresh [OF assms(3)] ratchets_fresh [OF assms(4)]
  have r2: "chat_run C A0 A2" using chat_run.encrypt [OF assms(6,7)] .
  note s1 = same_epoch_chat [OF assms(2,6) chat_run.start f]
  note s2 = same_epoch_chat [OF assms(2) r2 chat_run.start f]
  have m3: "ratchets_ok A3" "g_my_index A3 = g_my_index A0" "g_tree A3 = g_tree A0" "same_epoch A2 A3" "own_gen A2 \<le> own_gen A3"
    using chat_run_epoch [OF assms(8) s2(2)] chat_run_keeps [OF assms(8) s2(2)] s2(4,5) by simp_all
  have B: "ratchets_ok B" "ratchets_ok B'" "same_epoch B0 B" "same_epoch B0 B'"
    using chat_run_epoch [OF assms(10) f(2)] chat_run_epoch [OF chat_run.decrypt [OF assms(10,12)] f(2)] by simp_all
  have se: "same_epoch A1 B'" "same_epoch A3 B" "same_epoch A3 B'"
    using s1(1) s2(1) m3(4) B(3,4) by (auto simp: same_epoch_def intro: tree_equiv_trans tree_equiv_sym)
  from sealed_by_encrypt [OF m3(1) assms(9)] obtain k n where
    k: "seal_message C A3 k n (own_gen A3) pt2 = Inr bs2" "message_key A3 (g_my_index A3) (own_gen A3) = Inr (k, n)" by blast
  have i3: "g_my_index A3 < num_leaves (g_tree A3)" "g_my_index A1 < num_leaves (g_tree A1)"
    using assms(5) m3(2,3) s1(4,5) by simp_all
  have d: "r = Inr pt2" "seen_gen B' (g_my_index A3) = own_gen A3"
    using decrypt_sealed(2) [OF assms(1) se(2) i3(1) k B(1)] assms(11,12) m3(2) by simp_all
  have "fst (decrypt_application_message C B' bs2) = Inr pt2"
    using decrypt_sealed(2) [OF assms(1) se(3) i3(1) k B(2)] d(2) by simp
  moreover from sealed_by_encrypt [OF s1(2) assms(7)] obtain k' n' where
    k': "seal_message C A1 k' n' (own_gen A1) pt1 = Inr bs1" "message_key A1 (g_my_index A1) (own_gen A1) = Inr (k', n')"
    "own_gen A2 = own_gen A1 + 1" by blast
  ultimately show ?thesis
    using decrypt_sealed(1) [OF assms(1) se(1) i3(2) k'(1,2) B(2)] d s1(4) m3(2,5) k'(3) by simp
qed

text \<open>C28: the generation in a payload is not authenticated before it is used. A receiver that has not
  passed a message would open it. Whoever raises the four generation bytes of the message on its way
  makes the receiver try the sealed content with the key and nonce of the forged generation, not those
  it was sealed under: the call raises unless AES-GCM accepts them. Whether it does or not, the ratchet
  of the sender has moved on, and the receiver refuses the genuine message afterwards.\<close>

theorem forged_generation_blocks:
  assumes "gcm_decrypts C" "same_epoch A0 B0" "g_secret_tree A0 = None" "g_secret_tree B0 = None"
    and "length (nodes (g_tree B0)) = 2 * 2 ^ d - 1" "num_leaves (g_tree A0) = 2 ^ d" "d \<le> 31" "0 \<le> g_my_index A0" "g_my_index A0 < 2 ^ d"
    and "chat_run C A0 A" "chat_run C B0 B" "encrypt_application_message C A pt = (Inr bs, A')"
    and "seen_gen B (g_my_index A) \<le> own_gen A" "own_gen A < gen" "gen < 2 ^ 32"
  shows "fst (decrypt_application_message C B bs) = Inr pt
     \<and> (\<exists>sd ct ad k n k' n'. bs = be_bytes 2 (int (length sd)) @ sd @ be_bytes 4 (own_gen A) @ ct
         \<and> message_key A (g_my_index A) (own_gen A) = Inr (k, n) \<and> gcm_encrypt C k n pt ad = Inr ct
         \<and> message_key A (g_my_index A) gen = Inr (k', n')
         \<and> (let forged = be_bytes 2 (int (length sd)) @ sd @ be_bytes 4 gen @ ct in
              fst (decrypt_application_message C B forged) =
                (case gcm_decrypt C k' n' ct ad of Inl InvalidTag \<Rightarrow> Inl (ValueError ''Application message decryption failed'') | r \<Rightarrow> r)
            \<and> fst (decrypt_application_message C (snd (decrypt_application_message C B forged)) bs) = Inl (ValueError ''SecretTree'')))"
proof -
  note f = ratchets_fresh [OF assms(3)] ratchets_fresh [OF assms(4)]
  note e = same_epoch_chat [OF assms(2,10,11) f] and b = chat_run_epoch [OF assms(11) f(2)]
  from sealed_by_encrypt [OF e(2) assms(12)] obtain k n where
    k: "seal_message C A k n (own_gen A) pt = Inr bs" "message_key A (g_my_index A) (own_gen A) = Inr (k, n)" by metis
  have i: "g_my_index A < num_leaves (g_tree A)" using assms(6,9) e(4,5) by simp
  have open1: "fst (decrypt_application_message C B bs) = Inr pt" using decrypt_sealed(2) [OF assms(1) e(1) i k e(3)] assms(13) by blast
  show ?thesis
  proof (rule message_header_parts [OF assms(1) e(1) i k(1)])
    fix ad sd ct
    let ?f = "be_bytes 2 (int (length sd)) @ sd @ be_bytes 4 gen @ ct"
    assume h: "bs = be_bytes 2 (int (length sd)) @ sd @ be_bytes 4 (own_gen A) @ ct" "gcm_encrypt C k n pt ad = Inr ct" "0 \<le> own_gen A"
      "\<And>gen'. 0 \<le> gen' \<Longrightarrow> gen' < 2 ^ 32 \<Longrightarrow>
         message_header C B (be_bytes 2 (int (length sd)) @ sd @ be_bytes 4 gen' @ ct) = Inr (ad, g_my_index A, gen', ct)"
    have g: "0 \<le> gen" using h(3) assms(14) by simp
    obtain k' n' where k': "message_key B (g_my_index A) gen = Inr (k', n')"
      using message_key_ok [of B d "g_my_index A" gen] assms(5,7-9,15) g e(4) b(3) by auto
    note H = h(4) [OF g assms(15)]
    obtain x st where x: "get_key_and_nonce_for_gen (ratchets B) (g_my_index A) gen ''application'' = (x, st)" by fastforce
    have "x = Inr (k', n')" using ratchets_key [OF e(3) g, of "g_my_index A"] x k' assms(13,14) by simp
    then have r: "fst (decrypt_application_message C B ?f) =
        (case gcm_decrypt C k' n' ct ad of Inl InvalidTag \<Rightarrow> Inl (ValueError ''Application message decryption failed'') | r \<Rightarrow> r)"
      using x by (simp add: decrypt_application_message_def H get_secret_tree_ratchets)
    obtain y B' where B': "decrypt_application_message C B ?f = (y, B')" by fastforce
    have "seen_gen B' (g_my_index A) = gen" using decrypt_advances [OF e(3) H g _ k'] assms(13,14) B' by simp
    moreover have "ratchets_ok B'" "same_epoch A B'"
      using decrypt_keeps(1,2) [OF e(3) B'] e(1) same_epoch_secret_tree(2) by metis+
    ultimately have "fst (decrypt_application_message C B' bs) = Inl (ValueError ''SecretTree'')"
      using decrypt_sealed(1) [OF assms(1) _ i k] assms(14) by simp
    with B' have "fst (decrypt_application_message C (snd (decrypt_application_message C B ?f)) bs) = Inl (ValueError ''SecretTree'')" by simp
    moreover have "message_key A (g_my_index A) gen = Inr (k', n')" using k' message_key_same [OF e(1)] by simp
    ultimately show ?thesis using open1 h(1,2) k(2) r unfolding Let_def by blast
  qed
qed

section \<open>Witnesses\<close>

definition demo_schedule :: KeySchedule where
  "demo_schedule = \<lparr>joiner_secret = replicate 32 1, epoch_secret = replicate 32 2, sender_data_secret = replicate 32 3,
     encryption_secret = replicate 32 4, exporter_secret = replicate 32 5, epoch_authenticator = replicate 32 6,
     external_secret = replicate 32 7, resumption_psk_secret = replicate 32 8, confirmation_key = replicate 32 9,
     membership_key = replicate 32 10, init_secret = replicate 32 11\<rparr>"

definition demo_chat :: "int \<Rightarrow> MLSGroup" where
  "demo_chat i = MLSGroup_init (EpochState_init [1] 0 (RatchetTree_init 2) demo_schedule) i
     \<lparr>sig_private = replicate 32 1\<rparr> \<lparr>kem_private = replicate 32 2\<rparr> []"

lemma demo_chat_simps [simp]:
  "g_my_index (demo_chat i) = i" "g_secret_tree (demo_chat i) = None" "g_epoch_id (demo_chat i) = 0" "g_group_id (demo_chat i) = [1]"
  "num_leaves (g_tree (demo_chat i)) = 2" "length (nodes (g_tree (demo_chat i))) = 3" "same_epoch (demo_chat i) (demo_chat j)"
  by (simp_all add: demo_chat_def MLSGroup_init_def EpochState_init_def RatchetTree_init_def freeze_def same_epoch_def)

lemma demo_chat_gens [simp]: "own_gen (demo_chat i) = 0" "seen_gen (demo_chat i) l = -1"
  by (simp_all add: own_gen_def seen_gen_def ratchets_def get_secret_tree_def SecretTree_init_def next_gen_def
      tip_def cached_def Let_def)

lemma demo_encrypts:
  assumes "chat_run demo_crypto (demo_chat 0) A" "seen_gen A 0 \<le> own_gen A" "own_gen A < 9"
  obtains bs A' where "encrypt_application_message demo_crypto A [42] = (Inr bs, A')" "chat_run demo_crypto (demo_chat 0) A'"
    "own_gen A' = own_gen A + 1" "seen_gen A' 0 = own_gen A"
proof -
  note r = chat_run_epoch [OF assms(1) ratchets_fresh]
  have e: "g_epoch_id A = 0" "g_group_id A = [1]" using r(4) by (simp_all add: same_epoch_def)
  have "\<exists>bs. fst (encrypt_application_message demo_crypto A [42]) = Inr bs \<and> length bs = length [42 :: 8 word] + 42"
    by (rule encrypt_ok [where d = 1]) (use assms demo_crypto_laws r e in simp_all)
  then obtain bs A' where A': "encrypt_application_message demo_crypto A [42] = (Inr bs, A')" by (metis prod.collapse)
  have "own_gen A' = own_gen A + 1" "seen_gen A' 0 = own_gen A" using encrypt_spec(5) [OF _ A' refl] r by auto
  with that [OF A' chat_run.encrypt [OF assms(1) A']] show ?thesis by blast
qed

theorem conversation_arrives_witness:
  "\<exists>bs. fst (receive_all demo_crypto (demo_chat 1) [bs]) = [Inr [42]]"
proof -
  obtain bs A' where A': "encrypt_application_message demo_crypto (demo_chat 0) [42] = (Inr bs, A')"
    by (rule demo_encrypts [OF chat_run.start]) simp_all
  have "fst (receive_all demo_crypto (demo_chat 1) (map fst [(bs, [42 :: 8 word])])) = map (\<lambda>(bs, pt). Inr pt) [(bs, [42])]"
    by (rule conversation_arrives [OF demo_crypto_laws(3) _ _ _ chat_run.start chat_run.start,
          where A0 = "demo_chat 0" and pts = "[[42]]" and bss = "[bs]" and A' = A'])
      (simp_all add: A')
  then show ?thesis by auto
qed

theorem encrypt_returns_witness:
  "\<exists>bs. fst (encrypt_application_message demo_crypto (demo_chat 1) [1, 2, 3]) = Inr bs \<and> length bs = length [1, 2, 3 :: 8 word] + 42"
  by (rule encrypt_returns [OF demo_crypto_laws(5) _ chat_run.start, where d = 1]) simp_all

theorem past_messages_refused_witness:
  "\<exists>B' bs1 bs2. fst (decrypt_application_message demo_crypto B' bs1) = Inl (ValueError ''SecretTree'')
     \<and> fst (decrypt_application_message demo_crypto B' bs2) = Inr [42]"
proof -
  obtain bs1 A2 where A2: "encrypt_application_message demo_crypto (demo_chat 0) [42] = (Inr bs1, A2)"
    "chat_run demo_crypto (demo_chat 0) A2" "own_gen A2 = 1" "seen_gen A2 0 = 0"
    by (rule demo_encrypts [OF chat_run.start]) simp_all
  obtain bs2 A4 where A4: "encrypt_application_message demo_crypto A2 [42] = (Inr bs2, A4)"
    by (rule demo_encrypts [OF A2(2)]) (use A2 in simp_all)
  obtain r B' where B': "decrypt_application_message demo_crypto (demo_chat 1) bs2 = (r, B')" by fastforce
  from past_messages_refused [OF demo_crypto_laws(3) _ _ _ _ chat_run.start A2(1) chat_run.start A4 chat_run.start _ B'] A2(3)
  show ?thesis by auto
qed

theorem forged_generation_blocks_witness:
  "\<exists>bs A' sd ct. encrypt_application_message demo_crypto (demo_chat 0) [42] = (Inr bs, A')
     \<and> fst (decrypt_application_message demo_crypto (demo_chat 1) bs) = Inr [42]
     \<and> bs = be_bytes 2 (int (length sd)) @ sd @ be_bytes 4 0 @ ct
     \<and> (let forged = be_bytes 2 (int (length sd)) @ sd @ be_bytes 4 7 @ ct in
          fst (decrypt_application_message demo_crypto (demo_chat 1) forged) \<in> {Inl (ValueError ''Application message decryption failed''), Inr [42]}
        \<and> fst (decrypt_application_message demo_crypto (snd (decrypt_application_message demo_crypto (demo_chat 1) forged)) bs)
            = Inl (ValueError ''SecretTree''))"
proof -
  obtain bs A' where A': "encrypt_application_message demo_crypto (demo_chat 0) [42] = (Inr bs, A')"
    by (rule demo_encrypts [OF chat_run.start]) simp_all
  have d: "fst (decrypt_application_message demo_crypto (demo_chat 1) bs) = Inr [42]
     \<and> (\<exists>sd ct ad k n k' n'. bs = be_bytes 2 (int (length sd)) @ sd @ be_bytes 4 (own_gen (demo_chat 0)) @ ct
         \<and> message_key (demo_chat 0) (g_my_index (demo_chat 0)) (own_gen (demo_chat 0)) = Inr (k, n) \<and> gcm_encrypt demo_crypto k n [42] ad = Inr ct
         \<and> message_key (demo_chat 0) (g_my_index (demo_chat 0)) 7 = Inr (k', n')
         \<and> (let forged = be_bytes 2 (int (length sd)) @ sd @ be_bytes 4 7 @ ct in
              fst (decrypt_application_message demo_crypto (demo_chat 1) forged) =
                (case gcm_decrypt demo_crypto k' n' ct ad of Inl InvalidTag \<Rightarrow> Inl (ValueError ''Application message decryption failed'') | r \<Rightarrow> r)
            \<and> fst (decrypt_application_message demo_crypto (snd (decrypt_application_message demo_crypto (demo_chat 1) forged)) bs)
                = Inl (ValueError ''SecretTree'')))"
    by (rule forged_generation_blocks [OF demo_crypto_laws(3) _ _ _ _ _ _ _ _ chat_run.start chat_run.start A', where d = 1]) simp_all
  have ae: "(case gcm_decrypt demo_crypto k' n' ct ad of Inl InvalidTag \<Rightarrow> Inl (ValueError ''Application message decryption failed'') | r \<Rightarrow> r)
      \<in> {Inl (ValueError ''Application message decryption failed''), Inr p}" if "gcm_encrypt demo_crypto k n p ad = Inr ct" for k n k' n' p ad ct
    using that by (auto simp: demo_crypto_def)
  from d A' show ?thesis unfolding Let_def demo_chat_gens using ae by metis
qed

end
