(* ===== verification/Persistence.thy ===== *)
theory Persistence
  imports AppMessages Members
begin

text \<open>
  \<open>MLSGroup.to_bytes\<close> and \<open>MLSGroup.from_bytes\<close> of \<open>group.py\<close>: the persisted form of a member. The
  theorems: the written member is read back into the same epoch with the same keys and consumed key
  packages; the generations of its sending ratchet are not, so that it uses a nonce twice.
\<close>

section \<open>Model\<close>

definition MLSGroup_to_bytes :: "MLSGroup \<Rightarrow> bytes res" where
  "MLSGroup_to_bytes g =
     bindR (EpochState_to_bytes (g_state g)) (\<lambda>state_bytes.
     let interim_th = g_interim_transcript_hash g;
         consumed_list = sorted_list_of_set (g_consumed_key_packages g) in
     bindR (cat_res (map tls_opaque consumed_list)) (\<lambda>consumed_bytes.
     cat_res [int_to_bytes 4 (g_my_index g), Inr (sig_private_bytes (g_my_sig_key g)),
              Inr (kem_private_bytes (g_my_kem_key g)), int_to_bytes 4 (int (length state_bytes)), Inr state_bytes,
              int_to_bytes 2 (int (length interim_th)), Inr interim_th, tls_opaque32 consumed_bytes]))"

text \<open>All slices are clamped; the interim hash and the consumed references may be missing.\<close>

definition restore_interim :: "bytes \<Rightarrow> nat \<Rightarrow> bytes \<times> nat" where
  "restore_interim data off =
     (if off < length data then
        let interim_th_len = nat (from_be (slice data off (off + 2))); off1 = off + 2 in
        (slice data off1 (off1 + interim_th_len), off1 + interim_th_len)
      else ([], off))"

definition restore_consumed :: "bytes \<Rightarrow> nat \<Rightarrow> bytes set res" where
  "restore_consumed data off =
     (if off < length data then
        bindR (read_opaque32 data off) (\<lambda>(consumed_raw, _).
        bindR (returned (while_read read_opaque consumed_raw (length consumed_raw) 0)) (\<lambda>(refs, _).
        Inr (set refs)))
      else Inr {})"

definition MLSGroup_from_bytes :: "bytes \<Rightarrow> MLSGroup res" where
  "MLSGroup_from_bytes data =
     (let idx = from_be (slice data 0 4); off1 = 4 in
      bindR (sig_from_private_bytes (slice data off1 (off1 + 32))) (\<lambda>sig_key.
      let off2 = off1 + 32 in
      bindR (kem_from_private_bytes (slice data off2 (off2 + 32))) (\<lambda>kem_key.
      let off3 = off2 + 32;
          s_len = nat (from_be (slice data off3 (off3 + 4))); off4 = off3 + 4 in
      bindR (EpochState_from_bytes (slice data off4 (off4 + s_len))) (\<lambda>state.
      let off5 = off4 + s_len in
      case restore_interim data off5 of (interim_th, off6) \<Rightarrow>
      bindR (restore_consumed data off6) (\<lambda>consumed.
      Inr ((MLSGroup_init state idx sig_key kem_key interim_th)\<lparr>g_consumed_key_packages := consumed\<rparr>))))))"

section \<open>Lemmas\<close>

lemma restore_consumed_written:
  assumes "finite S" "cat_res (map tls_opaque (sorted_list_of_set S)) = Inr cb" "tls_opaque32 cb = Inr w"
    and "off \<le> length data" "drop off data = w"
  shows "restore_consumed data off = Inr S"
proof -
  have "w \<noteq> []" using assms(3) by (auto simp: tls_opaque32_def tls_u32_def)
  then have o: "off < length data" using assms(4,5) by (cases "off = length data") auto
  have r: "read_opaque32 data off = Inr (cb, off + length w)"
    using readsD [OF roundtripsD [OF rt_opaque32 assms(3)] assms(4), of "[]"] assms(5) by simp
  have "while_read read_opaque cb (length cb) 0 = Some (Inr (sorted_list_of_set S, length cb))"
    by (rule while_read_cat_res [OF assms(2) rt_opaque progresses_opaque, where rest = "[]"]) simp_all
  with o r assms(1) show ?thesis by (simp add: restore_consumed_def)
qed

text \<open>A member fit to be written: its tree and its key schedule in order, its private keys of 32 bytes.\<close>

definition persistable :: "MLSGroup \<Rightarrow> bool" where
  "persistable g \<longleftrightarrow> tree_wf (g_tree g) \<and> schedule_wf (g_schedule g) \<and> length (sig_private (g_my_sig_key g)) = 32
     \<and> length (kem_private (g_my_kem_key g)) = 32 \<and> finite (g_consumed_key_packages g)"

text \<open>The member \<open>from_bytes\<close> makes of a written one.\<close>

definition reloaded :: "MLSGroup \<Rightarrow> MLSGroup" where
  "reloaded g = g\<lparr>g_state := (g_state g)\<lparr>ep_tree := freeze (tree_canon (g_tree g))\<rparr>, g_secret_tree := None\<rparr>"

lemma reloaded_simps [simp]:
  "g_my_index (reloaded g) = g_my_index g" "g_my_sig_key (reloaded g) = g_my_sig_key g" "g_my_kem_key (reloaded g) = g_my_kem_key g"
  "g_consumed_key_packages (reloaded g) = g_consumed_key_packages g" "g_secret_tree (reloaded g) = None"
  "g_epoch_id (reloaded g) = g_epoch_id g" "g_group_id (reloaded g) = g_group_id g"
  "g_tree (reloaded g) = freeze (tree_canon (g_tree g))"
  by (simp_all add: reloaded_def)

lemma reloaded_epoch: "same_epoch g (reloaded g)"
  by (simp add: reloaded_def same_epoch_def)

lemma reloaded_bytes: "MLSGroup_to_bytes (reloaded g) = MLSGroup_to_bytes g"
proof -
  have "RatchetTree_to_bytes (freeze (tree_canon (g_tree g))) = RatchetTree_to_bytes (g_tree g)"
    using RatchetTree_to_bytes_canon [of "g_tree g"] by (simp add: RatchetTree_to_bytes_def freeze_def)
  then show ?thesis by (simp add: reloaded_def MLSGroup_to_bytes_def EpochState_to_bytes_def)
qed

lemma restore_written:
  assumes "persistable g" "MLSGroup_to_bytes g = Inr bs"
  shows "MLSGroup_from_bytes bs = Inr (reloaded g)"
proof -
  let ?sk = "sig_private (g_my_sig_key g)" and ?kk = "kem_private (g_my_kem_key g)" and ?h = "g_interim_transcript_hash g"
  from assms(2) obtain sb cb w where h: "EpochState_to_bytes (g_state g) = Inr sb"
    "cat_res (map tls_opaque (sorted_list_of_set (g_consumed_key_packages g))) = Inr cb" "tls_opaque32 cb = Inr w"
    "0 \<le> g_my_index g" "g_my_index g < 256 ^ 4" "int (length sb) < 256 ^ 4" "length ?h < 65536"
    and bs: "bs = be_bytes 4 (g_my_index g) @ ?sk @ ?kk @ be_bytes 4 (int (length sb)) @ sb @ be_bytes 2 (int (length ?h)) @ ?h @ w"
    by (auto simp: MLSGroup_to_bytes_def Let_def sig_private_bytes_def kem_private_bytes_def)
  have k: "length ?sk = 32" "length ?kk = 32" using assms(1) by (simp_all add: persistable_def)
  let ?i = "be_bytes 4 (g_my_index g)" and ?l = "be_bytes 4 (int (length sb))" and ?m = "be_bytes 2 (int (length ?h))"
  let ?o4 = "4 + 32 + 32 + 4" and ?o5 = "4 + 32 + 32 + 4 + length sb"
  have s: "slice bs 0 4 = ?i" "slice bs 4 (4 + 32) = ?sk" "slice bs (4 + 32) (4 + 32 + 32) = ?kk"
    "slice bs (4 + 32 + 32) (4 + 32 + 32 + 4) = ?l" "slice bs ?o4 (?o4 + length sb) = sb"
    "slice bs ?o5 (?o5 + 2) = ?m" "slice bs (?o5 + 2) (?o5 + 2 + length ?h) = ?h" "drop (?o5 + 2 + length ?h) bs = w"
    using k by (simp_all add: bs slice_def)
  have f: "from_be ?i = g_my_index g" "from_be ?l = int (length sb)" "from_be ?m = int (length ?h)"
    using h(4-7) by simp_all
  have len: "?o5 < length bs" "?o5 + 2 + length ?h \<le> length bs" using k by (simp_all add: bs)
  have ri: "restore_interim bs ?o5 = (?h, ?o5 + 2 + length ?h)"
    using len(1) by (simp only: restore_interim_def Let_def s(6,7) f(3) nat_int if_True)
  have rc: "restore_consumed bs (?o5 + 2 + length ?h) = Inr (g_consumed_key_packages g)"
    using restore_consumed_written [OF _ h(2,3) len(2) s(8)] assms(1) by (simp add: persistable_def)
  have e: "EpochState_from_bytes sb = Inr ((g_state g)\<lparr>ep_tree := freeze (tree_canon (g_tree g))\<rparr>)"
    using EpochState_from_to [OF _ _ h(1)] assms(1) by (simp add: persistable_def)
  have keys: "sig_from_private_bytes ?sk = Inr (g_my_sig_key g)" "kem_from_private_bytes ?kk = Inr (g_my_kem_key g)"
    using sig_private_roundtrip [OF k(1)] kem_private_roundtrip [OF k(2)] by (simp_all add: sig_private_bytes_def kem_private_bytes_def)
  show ?thesis
    unfolding MLSGroup_from_bytes_def Let_def s(1-4) f(1,2) nat_int s(5) keys e ri rc bindR.simps prod.case
    by (cases g) (simp add: MLSGroup_init_def reloaded_def)
qed

section \<open>Properties\<close>

text \<open>C10: a member survives persistence. What \<open>from_bytes\<close> makes of the bytes of \<open>to_bytes\<close> is the member
  in the same epoch of the same group, at the same leaf, with the same private keys and the same
  set of consumed key packages; written again it gives the same bytes. The secret tree is not kept.\<close>

theorem MLSGroup_roundtrip:
  assumes "persistable g" "MLSGroup_to_bytes g = Inr bs"
  shows "\<exists>g'. MLSGroup_from_bytes bs = Inr g' \<and> same_epoch g g' \<and> g_my_index g' = g_my_index g
     \<and> g_my_sig_key g' = g_my_sig_key g \<and> g_my_kem_key g' = g_my_kem_key g
     \<and> g_consumed_key_packages g' = g_consumed_key_packages g \<and> g_secret_tree g' = None
     \<and> MLSGroup_to_bytes g' = Inr bs"
  using restore_written [OF assms] reloaded_epoch [of g] assms(2) by (simp add: reloaded_bytes)

text \<open>C26: the generations are not part of the persisted state. A member that has sent a message, is
  written, restored and sends again, seals the new message under the key and the nonce of the first
  one.\<close>

theorem restored_member_reuses_nonce:
  assumes "persistable g" "g_secret_tree g = None" "encrypt_application_message C g pt1 = (Inr bs1, g1)"
    and "MLSGroup_to_bytes g1 = Inr bs" "MLSGroup_from_bytes bs = Inr g2" "encrypt_application_message C g2 pt2 = (Inr bs2, g3)"
  shows "\<exists>k n. seal_message C g k n 0 pt1 = Inr bs1 \<and> seal_message C g2 k n 0 pt2 = Inr bs2"
proof -
  have f: "own_gen x = 0" if "g_secret_tree x = None" for x
    using that by (simp add: own_gen_def ratchets_def get_secret_tree_def SecretTree_init_def next_gen_def Let_def)
  from sealed_by_encrypt [OF ratchets_fresh [OF assms(2)] assms(3)] f [OF assms(2)] obtain k n s where
    k: "message_key g (g_my_index g) 0 = Inr (k, n)" "seal_message C g k n 0 pt1 = Inr bs1" and s: "g1 = g\<lparr>g_secret_tree := s\<rparr>" by metis
  have "persistable g1" using assms(1) s by (simp add: persistable_def)
  from restore_written [OF this assms(4)] assms(5) s have g2: "g2 = reloaded g" by (simp add: reloaded_def)
  then have se: "same_epoch g g2" "g_my_index g2 = g_my_index g" "g_secret_tree g2 = None" by (simp_all add: reloaded_epoch)
  from sealed_by_encrypt [OF ratchets_fresh [OF se(3)] assms(6)] f [OF se(3)] se(2) message_key_same [OF se(1)] k
  show ?thesis by (metis old.prod.inject sum.inject(2))
qed

section \<open>Witnesses\<close>

lemma demo_persistable: "persistable (demo_chat i)"
proof -
  have "tree_shape (RatchetTree_init 2) 1" by (simp add: tree_shape_def RatchetTree_init_def)
  then have "tree_wf (RatchetTree_init 2)"
    unfolding tree_wf_def by (intro conjI exI [of _ 1]) (simp_all add: tree_typed_def RatchetTree_init_def)
  then show ?thesis
    by (simp add: persistable_def demo_chat_def MLSGroup_init_def EpochState_init_def epoch_wf_def schedule_wf_def demo_schedule_def)
qed

lemma demo_persisted: "\<exists>bs. MLSGroup_to_bytes (demo_chat 0) = Inr bs" "\<exists>bs. MLSGroup_to_bytes (demo_chat 1) = Inr bs"
proof -
  have "\<not> isl (MLSGroup_to_bytes (demo_chat 0))" "\<not> isl (MLSGroup_to_bytes (demo_chat 1))" by code_simp+
  then show "\<exists>bs. MLSGroup_to_bytes (demo_chat 0) = Inr bs" "\<exists>bs. MLSGroup_to_bytes (demo_chat 1) = Inr bs"
    by (simp_all add: not_isl_Inr)
qed

theorem MLSGroup_roundtrip_witness:
  "\<exists>bs g'. MLSGroup_to_bytes (demo_chat 0) = Inr bs \<and> MLSGroup_from_bytes bs = Inr g' \<and> same_epoch (demo_chat 0) g'"
proof -
  obtain bs where "MLSGroup_to_bytes (demo_chat 0) = Inr bs" using demo_persisted by blast
  with MLSGroup_roundtrip [OF demo_persistable this] show ?thesis by blast
qed

theorem restored_member_reuses_nonce_witness:
  "\<exists>g2 bs1 bs2 k n. seal_message demo_crypto (demo_chat 0) k n 0 [42] = Inr bs1 \<and> seal_message demo_crypto g2 k n 0 [43] = Inr bs2"
proof -
  obtain bs1 g1 where g1: "encrypt_application_message demo_crypto (demo_chat 0) [42] = (Inr bs1, g1)"
    by (rule demo_encrypts [OF chat_run.start]) simp_all
  then obtain s where s: "g1 = (demo_chat 0)\<lparr>g_secret_tree := s\<rparr>"
    using encrypt_spec(2) [OF ratchets_fresh g1] by auto
  obtain bs where "MLSGroup_to_bytes (demo_chat 0) = Inr bs" using demo_persisted by blast
  then have bs: "MLSGroup_to_bytes g1 = Inr bs" by (simp add: s MLSGroup_to_bytes_def)
  have p: "persistable g1" using demo_persistable [of 0] by (simp add: s persistable_def)
  let ?g2 = "reloaded g1"
  have l: "length (nodes (freeze (tree_canon (g_tree (demo_chat 0))))) = 3"
    using demo_chat_simps(6) [of 0] by (simp add: freeze_def tree_canon_def)
  have gens: "own_gen ?g2 = 0" "seen_gen ?g2 0 = -1"
    by (simp_all add: own_gen_def seen_gen_def ratchets_def get_secret_tree_def SecretTree_init_def next_gen_def
      tip_def cached_def Let_def)
  have "\<exists>b. fst (encrypt_application_message demo_crypto ?g2 [43]) = Inr b \<and> length b = length [43 :: 8 word] + 42"
    by (rule encrypt_ok [where d = 1, OF demo_crypto_laws(5) ratchets_fresh]) (use gens l in \<open>simp_all add: s\<close>)
  then obtain bs2 g3 where "encrypt_application_message demo_crypto ?g2 [43] = (Inr bs2, g3)" by (metis prod.collapse)
  from restored_member_reuses_nonce [OF demo_persistable _ g1 bs restore_written [OF p bs] this] obtain k n where
    "seal_message demo_crypto (demo_chat 0) k n 0 [42] = Inr bs1" "seal_message demo_crypto ?g2 k n 0 [43] = Inr bs2" by auto
  then show ?thesis by blast
qed

end
