(* ===== verification/Proposals.thy ===== *)
theory Proposals
  imports Tls Hashlib
begin

text \<open>
  \<open>proposals.py\<close>: the proposals, references to them, and the body of a Commit, with their wire
  formats. The theorems: all of them are read back as written; encodings are unambiguous; the
  parsers end on every input.
\<close>

section \<open>Proposals\<close>

datatype ProposalType =
  ADD | UPDATE | REMOVE | PRE_SHARED_KEY | REINIT | EXTERNAL_INIT | GROUP_CONTEXT_EXTENSIONS

fun proposal_type_value :: "ProposalType \<Rightarrow> int" where
  "proposal_type_value ADD = 0x0001"
| "proposal_type_value UPDATE = 0x0002"
| "proposal_type_value REMOVE = 0x0003"
| "proposal_type_value PRE_SHARED_KEY = 0x0004"
| "proposal_type_value REINIT = 0x0005"
| "proposal_type_value EXTERNAL_INIT = 0x0007"
| "proposal_type_value GROUP_CONTEXT_EXTENSIONS = 0x000A"

definition opaque_varint :: "bytes \<Rightarrow> bytes res" where
  "opaque_varint data = cat_res [tls_varint (int (length data)), Inr data]"

text \<open>The union \<open>Proposal\<close> with the fields of its classes.\<close>

datatype Proposal =
    AddProposal bytes
  | UpdateProposal bytes
  | RemoveProposal int
  | PSKProposal bytes bytes

definition AddProposal_to_bytes :: "bytes \<Rightarrow> bytes res" where
  "AddProposal_to_bytes key_package_bytes =
     cat_res [tls_u16 (proposal_type_value ADD), opaque_varint key_package_bytes]"

definition AddProposal_from_bytes :: "Proposal reader" where
  "AddProposal_from_bytes data off0 =
     bindR (read_u16 data off0) (\<lambda>(proposal_type, off1).
     if proposal_type \<noteq> proposal_type_value ADD then Inl (ValueError ''Expected ADD'')
     else bindR (read_opaque data off1) (\<lambda>(kp_bytes, off2). Inr (AddProposal kp_bytes, off2)))"

definition UpdateProposal_to_bytes :: "bytes \<Rightarrow> bytes res" where
  "UpdateProposal_to_bytes leaf_node_bytes =
     cat_res [tls_u16 (proposal_type_value UPDATE), opaque_varint leaf_node_bytes]"

definition UpdateProposal_from_bytes :: "Proposal reader" where
  "UpdateProposal_from_bytes data off0 =
     bindR (read_u16 data off0) (\<lambda>(proposal_type, off1).
     if proposal_type \<noteq> proposal_type_value UPDATE then Inl (ValueError ''Expected UPDATE'')
     else bindR (read_opaque data off1) (\<lambda>(ln_bytes, off2). Inr (UpdateProposal ln_bytes, off2)))"

definition RemoveProposal_to_bytes :: "int \<Rightarrow> bytes res" where
  "RemoveProposal_to_bytes removed = cat_res [tls_u16 (proposal_type_value REMOVE), tls_u32 removed]"

definition RemoveProposal_from_bytes :: "Proposal reader" where
  "RemoveProposal_from_bytes data off0 =
     bindR (read_u16 data off0) (\<lambda>(proposal_type, off1).
     if proposal_type \<noteq> proposal_type_value REMOVE then Inl (ValueError ''Expected REMOVE'')
     else bindR (read_u32 data off1) (\<lambda>(removed, off2). Inr (RemoveProposal removed, off2)))"

definition PSKProposal_to_bytes :: "bytes \<Rightarrow> bytes \<Rightarrow> bytes res" where
  "PSKProposal_to_bytes pid nonce =
     bindR (cat_res [Inr [0x01], opaque_varint pid, opaque_varint nonce]) (\<lambda>psk_id_wire.
     cat_res [tls_u16 (proposal_type_value PRE_SHARED_KEY), opaque_varint psk_id_wire])"

definition PSKProposal_from_bytes :: "Proposal reader" where
  "PSKProposal_from_bytes data off0 =
     bindR (read_u16 data off0) (\<lambda>(proposal_type, off1).
     if proposal_type \<noteq> proposal_type_value PRE_SHARED_KEY then Inl (ValueError ''Expected PSK'')
     else bindR (read_opaque data off1) (\<lambda>(psk_id_wire, off2).
          bindR (byte_at psk_id_wire 0) (\<lambda>_.
          bindR (read_opaque psk_id_wire 1) (\<lambda>(pid, inner).
          bindR (read_opaque psk_id_wire inner) (\<lambda>(nonce, inner').
          Inr (PSKProposal pid nonce, off2))))))"

fun Proposal_to_bytes :: "Proposal \<Rightarrow> bytes res" where
  "Proposal_to_bytes (AddProposal kp) = AddProposal_to_bytes kp"
| "Proposal_to_bytes (UpdateProposal ln) = UpdateProposal_to_bytes ln"
| "Proposal_to_bytes (RemoveProposal r) = RemoveProposal_to_bytes r"
| "Proposal_to_bytes (PSKProposal i n) = PSKProposal_to_bytes i n"

definition proposal_from_bytes :: "Proposal reader" where
  "proposal_from_bytes data offset =
     (let proposal_type = from_be (slice data offset (offset + 2)) in
      if proposal_type = proposal_type_value ADD then AddProposal_from_bytes data offset
      else if proposal_type = proposal_type_value UPDATE then UpdateProposal_from_bytes data offset
      else if proposal_type = proposal_type_value REMOVE then RemoveProposal_from_bytes data offset
      else if proposal_type = proposal_type_value PRE_SHARED_KEY then PSKProposal_from_bytes data offset
      else Inl (ValueError ''Unknown ProposalType''))"

definition proposal_ref :: "bytes \<Rightarrow> bytes" where
  "proposal_ref proposal_bytes = digest sha256 proposal_bytes"

section \<open>Commits\<close>

record ProposalOrRef =
  por_value :: "bytes option"
  por_reference :: "bytes option"

definition ProposalOrRef_to_bytes :: "ProposalOrRef \<Rightarrow> bytes res" where
  "ProposalOrRef_to_bytes p =
     (case por_value p of
        Some v \<Rightarrow> cat_res [Inr [0x01], tls_varint (int (length v)), Inr v]
      | None \<Rightarrow>
          (case por_reference p of
             Some r \<Rightarrow> cat_res [Inr [0x02], tls_varint (int (length r)), Inr r]
           | None \<Rightarrow> Inl (ValueError ''ProposalOrRef must have value or reference'')))"

definition ProposalOrRef_from_bytes :: "ProposalOrRef reader" where
  "ProposalOrRef_from_bytes data off0 =
     bindR (byte_at data off0) (\<lambda>kind.
     if kind = 0x01 then
       bindR (read_opaque data (off0 + 1)) (\<lambda>(v, off2).
       Inr (\<lparr>por_value = Some v, por_reference = None\<rparr>, off2))
     else if kind = 0x02 then
       bindR (read_opaque data (off0 + 1)) (\<lambda>(r, off2).
       Inr (\<lparr>por_value = None, por_reference = Some r\<rparr>, off2))
     else Inl (ValueError ''Unknown ProposalOrRef kind''))"

record Commit =
  commit_proposals :: "ProposalOrRef list"
  update_path_bytes :: "bytes option"

definition Commit_to_bytes :: "Commit \<Rightarrow> bytes res" where
  "Commit_to_bytes c =
     bindR (cat_res (map ProposalOrRef_to_bytes (commit_proposals c))) (\<lambda>prop_bytes.
     cat_res [tls_varint (int (length prop_bytes)), Inr prop_bytes,
              (case update_path_bytes c of
                 Some up \<Rightarrow> cat_res [Inr [0x01], tls_varint (int (length up)), Inr up]
               | None \<Rightarrow> Inr [0x00])])"

definition Commit_from_bytes :: "Commit reader" where
  "Commit_from_bytes data off0 =
     bindR (read_opaque data off0) (\<lambda>(props_data, off1).
     bindR (returned (while_read ProposalOrRef_from_bytes props_data (length props_data) 0)) (\<lambda>(props, p_offset).
     bindR (byte_at data off1) (\<lambda>has_path.
     let off2 = off1 + 1 in
     if has_path \<noteq> 0 then
       bindR (read_opaque data off2) (\<lambda>(path_bytes, off3).
       Inr (\<lparr>commit_proposals = props, update_path_bytes = Some path_bytes\<rparr>, off3))
     else Inr (\<lparr>commit_proposals = props, update_path_bytes = None\<rparr>, off2))))"

section \<open>Lemmas\<close>

lemma opaque_varint_eq [simp]: "opaque_varint = tls_opaque"
  by (rule ext) (simp add: opaque_varint_def tls_opaque_def)

lemma rt_AddProposal: "roundtrips (AddProposal_to_bytes kp) AddProposal_from_bytes (AddProposal kp)"
  unfolding AddProposal_to_bytes_def AddProposal_from_bytes_def [abs_def] opaque_varint_eq by (rule rt_intros)+

lemma rt_UpdateProposal: "roundtrips (UpdateProposal_to_bytes ln) UpdateProposal_from_bytes (UpdateProposal ln)"
  unfolding UpdateProposal_to_bytes_def UpdateProposal_from_bytes_def [abs_def] opaque_varint_eq by (rule rt_intros)+

lemma rt_RemoveProposal: "roundtrips (RemoveProposal_to_bytes r) RemoveProposal_from_bytes (RemoveProposal r)"
  unfolding RemoveProposal_to_bytes_def RemoveProposal_from_bytes_def [abs_def] by (rule rt_intros)+

lemma rt_PSKProposal: "roundtrips (PSKProposal_to_bytes i n) PSKProposal_from_bytes (PSKProposal i n)"
proof (rule roundtripsI)
  fix bs assume "PSKProposal_to_bytes i n = Inr bs"
  then obtain w where w: "cat_res [Inr [1], tls_opaque i, tls_opaque n] = Inr w"
    and bs: "cat_res [tls_u16 4, tls_opaque w] = Inr bs"
    unfolding PSKProposal_to_bytes_def opaque_varint_eq by (auto simp del: cat_res.simps)
  from w obtain a b where w': "w = 1 # a @ b" "tls_opaque i = Inr a" "tls_opaque n = Inr b" by auto
  have "byte_at w 0 = Inr 1" using w'(1) by (simp add: byte_at_def)
  moreover have "read_opaque w 1 = Inr (i, 1 + length a)"
    using roundtripsD [OF rt_opaque w'(2), THEN readsD, of 1 w b] w'(1) by simp
  moreover have "read_opaque w (1 + length a) = Inr (n, 1 + length a + length b)"
    using roundtripsD [OF rt_opaque w'(3), THEN readsD, of "1 + length a" w "[]"] w'(1) by simp
  moreover have "reads (\<lambda>data off. bindR (read_u16 data off) (\<lambda>(t, o1).
      bindR (read_opaque data o1) (\<lambda>(x, o2). Inr ((t, x), o2)))) bs (4, w)"
    by (rule roundtripsD [OF _ bs]) (rule rt_intros)+
  ultimately show "reads PSKProposal_from_bytes bs (PSKProposal i n)"
    by (intro readsI) (drule (2) readsD, auto simp: PSKProposal_from_bytes_def)
qed

lemma u16_head:
  assumes "off \<le> length buf" "drop off buf = (be_bytes 2 v @ rest) @ post" "0 \<le> v" "v < 65536"
  shows "from_be (slice buf off (off + 2)) = v"
  using slice_prefix [of off buf "be_bytes 2 v" "rest @ post"] assms by simp

lemma reads_dispatch:
  assumes "reads d bs x" "bs = be_bytes 2 v @ rest" "0 \<le> v" "v < 65536"
    and "\<And>buf off. from_be (slice buf off (off + 2)) = v \<Longrightarrow> proposal_from_bytes buf off = d buf off"
  shows "reads proposal_from_bytes bs x"
proof (rule readsI)
  fix buf :: bytes and off post assume o: "off \<le> length buf" "drop off buf = bs @ post"
  from u16_head [OF o(1) o(2) [unfolded assms(2)] assms(3,4)] have "proposal_from_bytes buf off = d buf off"
    by (rule assms(5))
  with readsD [OF assms(1) o] show "proposal_from_bytes buf off = Inr (x, off + length bs)" by simp
qed

lemma rt_Proposal [rt_intros]: "roundtrips (Proposal_to_bytes p) proposal_from_bytes p"
proof (rule roundtripsI)
  fix bs assume b: "Proposal_to_bytes p = Inr bs"
  show "reads proposal_from_bytes bs p"
  proof (cases p)
    case (AddProposal kp)
    with b obtain r where "bs = be_bytes 2 1 @ r" by (auto simp: AddProposal_to_bytes_def tls_u16_def)
    moreover have "reads AddProposal_from_bytes bs p" using b AddProposal roundtripsD [OF rt_AddProposal] by simp
    ultimately show ?thesis by (intro reads_dispatch [where d = AddProposal_from_bytes]) (auto simp: proposal_from_bytes_def)
  next
    case (UpdateProposal ln)
    with b obtain r where "bs = be_bytes 2 2 @ r" by (auto simp: UpdateProposal_to_bytes_def tls_u16_def)
    moreover have "reads UpdateProposal_from_bytes bs p" using b UpdateProposal roundtripsD [OF rt_UpdateProposal] by simp
    ultimately show ?thesis by (intro reads_dispatch [where d = UpdateProposal_from_bytes]) (auto simp: proposal_from_bytes_def)
  next
    case (RemoveProposal r)
    with b obtain r where "bs = be_bytes 2 3 @ r" by (auto simp: RemoveProposal_to_bytes_def tls_u16_def)
    moreover have "reads RemoveProposal_from_bytes bs p" using b RemoveProposal roundtripsD [OF rt_RemoveProposal] by simp
    ultimately show ?thesis by (intro reads_dispatch [where d = RemoveProposal_from_bytes]) (auto simp: proposal_from_bytes_def)
  next
    case (PSKProposal i n)
    with b obtain r where "bs = be_bytes 2 4 @ r" by (auto simp: PSKProposal_to_bytes_def tls_u16_def)
    moreover have "reads PSKProposal_from_bytes bs p" using b PSKProposal roundtripsD [OF rt_PSKProposal] by simp
    ultimately show ?thesis by (intro reads_dispatch [where d = PSKProposal_from_bytes]) (auto simp: proposal_from_bytes_def)
  qed
qed

lemma progresses_Proposal [progress_intros]: "progresses proposal_from_bytes"
proof (rule progressesI)
  fix buf off x off' assume "proposal_from_bytes buf off = Inr (x, off')"
  then show "off < off'"
    by (auto simp: proposal_from_bytes_def AddProposal_from_bytes_def UpdateProposal_from_bytes_def
        RemoveProposal_from_bytes_def PSKProposal_from_bytes_def Let_def split: if_splits
        dest!: progressesD [OF progresses_u16] progressesD [OF progresses_opaque] progressesD [OF progresses_u32])
qed

interpretation proposal: wire_codec Proposal_to_bytes proposal_from_bytes "\<lambda>_. True"
  by unfold_locales (intro rt_intros progress_intros)+

definition por_canon :: "ProposalOrRef \<Rightarrow> ProposalOrRef" where
  "por_canon p = (if por_value p = None then p else p\<lparr>por_reference := None\<rparr>)"

lemma rt_ProposalOrRef [rt_intros]: "roundtrips (ProposalOrRef_to_bytes p) ProposalOrRef_from_bytes (por_canon p)"
proof (rule roundtripsI)
  fix bs assume b: "ProposalOrRef_to_bytes p = Inr bs"
  show "reads ProposalOrRef_from_bytes bs (por_canon p)"
  proof (cases "por_value p")
    case (Some v)
    with b obtain w where w: "tls_opaque v = Inr w" "bs = 1 # w" by (auto simp: ProposalOrRef_to_bytes_def tls_opaque_def)
    have "por_canon p = (\<lambda>v. \<lparr>por_value = Some v, por_reference = None\<rparr>) v" using Some by (simp add: por_canon_def)
    then show ?thesis unfolding w(2)
      by (simp only:) (rule reads_tag [OF roundtripsD [OF rt_opaque w(1)]], simp add: ProposalOrRef_from_bytes_def)
  next
    case None
    with b obtain r where r: "por_reference p = Some r" by (auto simp: ProposalOrRef_to_bytes_def split: option.splits)
    with b None obtain w where w: "tls_opaque r = Inr w" "bs = 2 # w" by (auto simp: ProposalOrRef_to_bytes_def tls_opaque_def)
    have "por_canon p = (\<lambda>r. \<lparr>por_value = None, por_reference = Some r\<rparr>) r" using None r by (simp add: por_canon_def)
    then show ?thesis unfolding w(2)
      by (simp only:) (rule reads_tag [OF roundtripsD [OF rt_opaque w(1)]], simp add: ProposalOrRef_from_bytes_def)
  qed
qed

lemma progresses_ProposalOrRef [progress_intros]: "progresses ProposalOrRef_from_bytes"
  by (auto intro!: progressesI simp: ProposalOrRef_from_bytes_def split: if_splits
      dest!: progressesD [OF progresses_opaque])

lemma halts_ProposalOrRef [halt_intros]: "halts ProposalOrRef_from_bytes"
  by (auto intro!: haltsI simp: ProposalOrRef_from_bytes_def bindR_eq_Inl byte_at_def haltsD [OF halts_opaques(1)]
      split: if_splits)

lemma ProposalOrRef_to_bytes_canon [simp]: "ProposalOrRef_to_bytes (por_canon p) = ProposalOrRef_to_bytes p"
  by (simp add: por_canon_def ProposalOrRef_to_bytes_def split: option.splits)

interpretation proposal_or_ref: wire_codec ProposalOrRef_to_bytes ProposalOrRef_from_bytes "\<lambda>p. por_canon p = p"
  by unfold_locales (metis rt_ProposalOrRef, rule progress_intros)

definition commit_canon :: "Commit \<Rightarrow> Commit" where
  "commit_canon c = c\<lparr>commit_proposals := map por_canon (commit_proposals c)\<rparr>"

lemma por_canon_idem [simp]: "por_canon (por_canon p) = por_canon p"
  by (simp add: por_canon_def)

text \<open>The part of a commit after the proposals.\<close>

definition commit_path_reader :: "bytes option reader" where
  "commit_path_reader data off1 =
     bindR (byte_at data off1) (\<lambda>has_path.
     if has_path \<noteq> 0 then bindR (read_opaque data (off1 + 1)) (\<lambda>(p, o3). Inr (Some p, o3)) else Inr (None, off1 + 1))"

lemma Commit_from_bytes_alt:
  "Commit_from_bytes data off0 =
     bindR (read_opaque data off0) (\<lambda>(props_data, off1).
     bindR (returned (while_read ProposalOrRef_from_bytes props_data (length props_data) 0)) (\<lambda>(props, p_offset).
     bindR (commit_path_reader data off1) (\<lambda>(up, off2).
     Inr (\<lparr>commit_proposals = props, update_path_bytes = up\<rparr>, off2))))"
  unfolding Commit_from_bytes_def commit_path_reader_def Let_def
  by (auto simp: bindR_assoc intro!: bindR_cong split: prod.splits)

lemma rt_commit_path:
  "roundtrips (case up of Some b \<Rightarrow> cat_res [Inr [1], tls_varint (int (length b)), Inr b] | None \<Rightarrow> Inr [0])
     commit_path_reader up"
proof (cases up)
  case None
  have "reads commit_path_reader [0] None"
    by (rule readsI, drule reads_prefix_bytes(1)) (auto simp: commit_path_reader_def)
  with None show ?thesis by (simp add: roundtrips_def)
next
  case (Some b)
  show ?thesis
  proof (rule roundtripsI)
    fix bs assume "(case up of Some b \<Rightarrow> cat_res [Inr [1], tls_varint (int (length b)), Inr b] | None \<Rightarrow> Inr [0]) = Inr bs"
    with Some obtain w where w: "tls_opaque b = Inr w" "bs = 1 # w" by (auto simp: tls_opaque_def)
    show "reads commit_path_reader bs up" unfolding w(2) Some
      by (rule reads_tag [OF roundtripsD [OF rt_opaque w(1)]]) (simp add: commit_path_reader_def)
  qed
qed

lemma rt_Commit [rt_intros]: "roundtrips (Commit_to_bytes c) Commit_from_bytes (commit_canon c)"
proof (rule roundtripsI)
  fix bs assume "Commit_to_bytes c = Inr bs"
  then obtain pb pp a where pb: "cat_res (map ProposalOrRef_to_bytes (commit_proposals c)) = Inr pb"
    and pp: "(case update_path_bytes c of Some up \<Rightarrow> cat_res [Inr [1], tls_varint (int (length up)), Inr up] | None \<Rightarrow> Inr [0]) = Inr pp"
    and a: "tls_opaque pb = Inr a" "bs = a @ pp"
    by (auto simp: Commit_to_bytes_def tls_opaque_def)
  have "cat_res (map ProposalOrRef_to_bytes (map por_canon (commit_proposals c))) = Inr pb"
    using pb by (simp add: comp_def)
  from proposal_or_ref.loop_reads_back [OF _ this]
  have loop: "while_read ProposalOrRef_from_bytes pb (length pb) 0 = Some (Inr (map por_canon (commit_proposals c), length pb))"
    by (simp add: list_all_iff)
  have "reads (\<lambda>data off. bindR (read_opaque data off) (\<lambda>(x, o1). bindR (commit_path_reader data o1) (\<lambda>(y, o2). Inr ((x, y), o2))))
      (a @ pp) (pb, update_path_bytes c)"
  proof (rule reads_bind [OF roundtripsD [OF rt_opaque a(1)]])
    have "reads (\<lambda>data o1. bindR (commit_path_reader data o1) (\<lambda>(y, o2). Inr ((pb, y), o2))) (pp @ []) (pb, update_path_bytes c)"
      by (rule reads_bind [OF roundtripsD [OF rt_commit_path pp]]) (rule reads_return)
    then show "reads (\<lambda>data o1. bindR (commit_path_reader data o1) (\<lambda>(y, o2). Inr ((pb, y), o2))) pp (pb, update_path_bytes c)"
      by simp
  qed
  note r = this
  show "reads Commit_from_bytes bs (commit_canon c)"
  proof (rule readsI)
    fix buf :: bytes and off rest assume "off \<le> length buf" "drop off buf = bs @ rest"
    from readsD [OF r this [unfolded a(2)]] obtain o1 where
      "read_opaque buf off = Inr (pb, o1)" "commit_path_reader buf o1 = Inr (update_path_bytes c, off + length bs)"
      by (auto simp: a(2))
    then show "Commit_from_bytes buf off = Inr (commit_canon c, off + length bs)"
      by (simp only: Commit_from_bytes_alt bindR.simps prod.case loop returned_simps) (simp add: commit_canon_def)
  qed
qed

lemma progresses_Commit [progress_intros]: "progresses Commit_from_bytes"
  by (auto intro!: progressesI simp: Commit_from_bytes_def Let_def split: if_splits dest!: progressesD [OF progresses_opaque])

lemma halts_Commit [halt_intros]: "halts Commit_from_bytes"
  using while_read_no_divergence [OF progresses_ProposalOrRef halts_ProposalOrRef]
  by (auto intro!: haltsI simp: Commit_from_bytes_def Let_def bindR_eq_Inl byte_at_def haltsD [OF halts_opaques(1)] split: if_splits)

section \<open>Properties\<close>

text \<open>Every kind of proposal survives the wire: the dispatcher \<open>proposal_from_bytes\<close> returns the
  proposal that was written, wherever it stands, and different proposals have different
  encodings, so that a ProposalRef can only name one proposal unless SHA-256 collides.\<close>

theorem proposal_roundtrip:
  assumes "Proposal_to_bytes p = Inr bs"
  shows "proposal_from_bytes (pre @ bs @ post) (length pre) = Inr (p, length pre + length bs)
       \<and> (Proposal_to_bytes q = Inr bs \<longleftrightarrow> q = p)"
  using proposal.decode_at [OF _ assms] proposal.enc_inj [where x = q and y = p and bs = bs] assms by auto

theorem proposal_roundtrip_witness:
  "proposal_from_bytes [9, 0, 3, 0, 0, 0, 5] 1 = Inr (RemoveProposal 5, 7)"
proof -
  have "Proposal_to_bytes (RemoveProposal 5) = Inr [0, 3, 0, 0, 0, 5]" by code_simp
  from proposal_roundtrip [OF this, of "[9]" "[]"] show ?thesis by simp
qed

text \<open>C36: a Commit survives the wire: its list of proposals and references and its optional update path
  are read back (an entry that holds both a value and a reference is written as its value).\<close>

theorem Commit_roundtrip:
  assumes "Commit_to_bytes c = Inr bs"
  shows "Commit_from_bytes (pre @ bs @ post) (length pre) = Inr (commit_canon c, length pre + length bs)"
  using readsD [OF roundtripsD [OF rt_Commit assms], of "length pre" "pre @ bs @ post" post] by simp

theorem Commit_roundtrip_witness:
  "Commit_from_bytes [3, 1, 1, 7, 1, 1, 8] 0
   = Inr (\<lparr>commit_proposals = [\<lparr>por_value = Some [7], por_reference = None\<rparr>], update_path_bytes = Some [8]\<rparr>, 7)"
proof -
  let ?c = "\<lparr>commit_proposals = [\<lparr>por_value = Some [7], por_reference = None\<rparr>], update_path_bytes = Some [8]\<rparr>"
  have "Commit_to_bytes ?c = Inr [3, 1, 1, 7, 1, 1, 8]" "commit_canon ?c = ?c" by code_simp+
  with Commit_roundtrip [of ?c "[3, 1, 1, 7, 1, 1, 8]" "[]" "[]"] show ?thesis by simp
qed

text \<open>A hostile Commit cannot hang the parser: on every input \<open>Commit.from_bytes\<close> and the proposal
  dispatcher return or raise.\<close>

theorem commit_parsing_terminates:
  "Commit_from_bytes data off \<noteq> Inl Nontermination \<and> proposal_from_bytes data off \<noteq> Inl Nontermination"
proof -
  have "proposal_from_bytes data off \<noteq> Inl Nontermination"
    by (auto simp: proposal_from_bytes_def AddProposal_from_bytes_def UpdateProposal_from_bytes_def
        RemoveProposal_from_bytes_def PSKProposal_from_bytes_def Let_def bindR_eq_Inl byte_at_def
        haltsD [OF halts_opaques(1)] haltsD [OF halts_ints(2)] haltsD [OF halts_ints(3)] split: if_splits)
  with haltsD [OF halts_Commit] show ?thesis by blast
qed
end
