(* ===== verification/FileSystem.thy ===== *)
theory FileSystem
  imports Prelude
begin

text \<open>
  What \<open>storage.py\<close> and \<open>cli.py\<close> use of the file system: the content and the mode of the files by
  their path, opening for writing (which truncates), writing, reading, removing, changing the mode,
  and \<open>os.path.join\<close>. Paths are ASCII strings. Every directory exists and is writable, every write
  is complete; what a process with other rights or a full disk would see is not modelled.
\<close>

section \<open>Files\<close>

record file_entry =
  file_bytes :: bytes
  file_mode :: nat

type_synonym disk = "string \<rightharpoonup> file_entry"

text \<open>The modes \<open>0o600\<close> and \<open>0o700\<close>.\<close>

definition OWNER_ONLY :: nat where "OWNER_ONLY = 6 * 64"
definition OWNER_DIR :: nat where "OWNER_DIR = 7 * 64"

text \<open>
  Opening for writing: an existing file is truncated and keeps its mode, a new one gets the mode of
  the call less the bits of the umask, here the argument \<open>mode\<close>.
\<close>

definition open_truncate :: "nat \<Rightarrow> string \<Rightarrow> disk \<Rightarrow> disk" where
  "open_truncate mode path d =
     d(path \<mapsto> \<lparr>file_bytes = [], file_mode = (case d path of None \<Rightarrow> mode | Some f \<Rightarrow> file_mode f)\<rparr>)"

definition write_file :: "string \<Rightarrow> bytes \<Rightarrow> disk \<Rightarrow> disk" where
  "write_file path data d = d(path := map_option (\<lambda>f. f\<lparr>file_bytes := data\<rparr>) (d path))"

definition chmod_file :: "string \<Rightarrow> nat \<Rightarrow> disk \<Rightarrow> disk" where
  "chmod_file path mode d = d(path := map_option (\<lambda>f. f\<lparr>file_mode := mode\<rparr>) (d path))"

definition read_file :: "string \<Rightarrow> disk \<Rightarrow> bytes res" where
  "read_file path d = (case d path of None \<Rightarrow> Inl FileNotFoundError | Some f \<Rightarrow> Inr (file_bytes f))"

definition remove_file :: "string \<Rightarrow> disk \<Rightarrow> unit res \<times> disk" where
  "remove_file path d = (case d path of None \<Rightarrow> (Inl FileNotFoundError, d) | Some _ \<Rightarrow> (Inr (), d(path := None)))"

definition path_exists :: "string \<Rightarrow> disk \<Rightarrow> bool" where
  "path_exists path d = (d path \<noteq> None)"

text \<open>\<open>with open(path, "wb") as f: f.write(...)\<close>: the file is opened before the data is computed, so
  that a raising computation leaves an empty file.\<close>

definition write_opened :: "nat \<Rightarrow> string \<Rightarrow> bytes res \<Rightarrow> disk \<Rightarrow> unit res \<times> disk" where
  "write_opened mode path data d =
     (let d1 = open_truncate mode path d in
      case data of Inl e \<Rightarrow> (Inl e, d1) | Inr bs \<Rightarrow> (Inr (), write_file path bs d1))"

section \<open>Paths\<close>

definition path_join :: "string \<Rightarrow> string \<Rightarrow> string" where
  "path_join a b =
     (if b \<noteq> [] \<and> hd b = CHR ''/'' then b
      else if a = [] \<or> last a = CHR ''/'' then a @ b
      else a @ ''/'' @ b)"

definition hex_digit :: "nat \<Rightarrow> char" where
  "hex_digit n = ''0123456789abcdef'' ! n"

definition bytes_hex :: "bytes \<Rightarrow> string" where
  "bytes_hex bs = concat (map (\<lambda>b. [hex_digit (unat b div 16), hex_digit (unat b mod 16)]) bs)"

section \<open>Lemmas\<close>

lemma open_truncate_same [simp]: "open_truncate m p d p = Some \<lparr>file_bytes = [], file_mode = (case d p of None \<Rightarrow> m | Some f \<Rightarrow> file_mode f)\<rparr>"
  and open_truncate_other [simp]: "q \<noteq> p \<Longrightarrow> open_truncate m p d q = d q"
  by (simp_all add: open_truncate_def)

lemma write_file_same: "d p = Some f \<Longrightarrow> write_file p bs d p = Some (f\<lparr>file_bytes := bs\<rparr>)"
  and write_file_other [simp]: "q \<noteq> p \<Longrightarrow> write_file p bs d q = d q"
  by (simp_all add: write_file_def)

lemma chmod_file_same: "d p = Some f \<Longrightarrow> chmod_file p m d p = Some (f\<lparr>file_mode := m\<rparr>)"
  and chmod_file_other [simp]: "q \<noteq> p \<Longrightarrow> chmod_file p m d q = d q"
  by (simp_all add: chmod_file_def)

lemma write_opened_same:
  "fst (write_opened m p r d) = Inr () \<longleftrightarrow> (\<exists>bs. r = Inr bs)"
  "r = Inr bs \<Longrightarrow> read_file p (snd (write_opened m p r d)) = Inr bs"
  by (auto simp: write_opened_def Let_def read_file_def write_file_def split: sum.splits)

lemma write_opened_other [simp]: "q \<noteq> p \<Longrightarrow> snd (write_opened m p r d) q = d q"
  by (simp add: write_opened_def Let_def split: sum.splits)

lemma hex_digit_inj: "hex_digit m = hex_digit n \<longleftrightarrow> m = n" if "m < 16" "n < 16"
proof -
  have "distinct ''0123456789abcdef''" "length ''0123456789abcdef'' = 16" by simp_all
  with that show ?thesis unfolding hex_digit_def by (metis nth_eq_iff_index_eq)
qed

lemma hex_byte_inj: "unat (b :: byte) div 16 = unat c div 16 \<Longrightarrow> unat b mod 16 = unat c mod 16 \<Longrightarrow> b = c"
  by (metis div_mult_mod_eq word_unat_eq_iff)

lemma bytes_hex_inj: "bytes_hex a = bytes_hex b \<Longrightarrow> a = b"
proof (induction a arbitrary: b)
  case (Cons x a)
  then obtain y c where b: "b = y # c" by (cases b) (simp_all add: bytes_hex_def)
  have "unat z < 256" for z :: byte using unsigned_less [of z, where ?'a = nat] by simp
  then have "unat z div 16 < 16" "unat z mod 16 < 16" for z :: byte by (simp_all add: less_mult_imp_div_less)
  with Cons b hex_byte_inj show ?case by (simp add: bytes_hex_def hex_digit_inj)
qed (auto simp: bytes_hex_def split: list.splits intro: list.exhaust)

lemma path_join_inj: "path_join d a = path_join d b \<longleftrightarrow> a = b" if "a \<noteq> []" "hd a \<noteq> CHR ''/''" "b \<noteq> []" "hd b \<noteq> CHR ''/''"
  using that by (simp add: path_join_def)

end
