(* ===== verification/Storage.thy ===== *)
theory Storage
  imports Persistence FileSystem
begin

text \<open>
  \<open>storage.py\<close>: members kept in files encrypted with a vault key. A call of the store is a coroutine
  that hands its file accesses to a thread, so between two of them other calls may run: a call is a
  task that makes one access per step. The theorems: any sequence of saves and deletions behaves like
  a dictionary; calls on different groups do not disturb each other, however they are interleaved; a
  save that stops after its first access loses the group.
\<close>

section \<open>Model\<close>

record AsyncEncryptedStore =
  storage_dir :: string
  vault_key :: bytes

text \<open>The directories with their modes are the second component of the result of the constructor.\<close>

definition AsyncEncryptedStore_init :: "string \<Rightarrow> bytes \<Rightarrow> (string \<rightharpoonup> nat) \<Rightarrow> (AsyncEncryptedStore \<times> (string \<rightharpoonup> nat)) res" where
  "AsyncEncryptedStore_init sdir key dirs =
     (if length key \<noteq> 32 then Inl (ValueError ''Vault key must be 32 bytes (AES-256)'')
      else Inr (\<lparr>storage_dir = sdir, vault_key = key\<rparr>, dirs(sdir \<mapsto> OWNER_DIR)))"

definition get_path_of :: "AsyncEncryptedStore \<Rightarrow> bytes \<Rightarrow> string" where
  "get_path_of st gid = path_join (storage_dir st) (''group_'' @ bytes_hex gid @ ''.mls'')"

text \<open>What a call has left to do, and how it ends.\<close>

datatype outcome =
    Saved
  | Loaded "MLSGroup option"
  | Deleted bool
  | Raised py_error

datatype store_task =
    Save_open string bytes
  | Save_write string bytes
  | Load_check bytes
  | Load_read bytes
  | Delete_check bytes
  | Delete_remove bytes
  | Finished outcome

text \<open>\<open>save_group\<close> up to its first file access; the nonce is what \<open>os.urandom(12)\<close> returned.\<close>

definition save_group :: "crypto \<Rightarrow> AsyncEncryptedStore \<Rightarrow> bytes \<Rightarrow> MLSGroup \<Rightarrow> store_task" where
  "save_group C st nonce g =
     (case bindR (MLSGroup_to_bytes g) (\<lambda>data. gcm_encrypt C (vault_key st) nonce data (g_group_id g)) of
        Inl e \<Rightarrow> Finished (Raised e)
      | Inr ciphertext \<Rightarrow> Save_open (get_path_of st (g_group_id g)) (nonce @ ciphertext))"

text \<open>\<open>load_group\<close> after the file was read.\<close>

definition open_payload :: "crypto \<Rightarrow> AsyncEncryptedStore \<Rightarrow> bytes \<Rightarrow> bytes \<Rightarrow> outcome" where
  "open_payload C st gid payload =
     (if length payload < 28 then Raised (ValueError ''Stored payload is too short'')
      else case bindR (gcm_decrypt C (vault_key st) (take 12 payload) (drop 12 payload) gid) MLSGroup_from_bytes of
        Inr g \<Rightarrow> Loaded (Some g)
      | Inl InvalidTag \<Rightarrow> Raised (ValueError ''Failed to decrypt or parse group state'')
      | Inl (ValueError _) \<Rightarrow> Raised (ValueError ''Failed to decrypt or parse group state'')
      | Inl e \<Rightarrow> Raised e)"

text \<open>One file access of a call; \<open>mode\<close> is the mode of new files.\<close>

fun task_step :: "crypto \<Rightarrow> AsyncEncryptedStore \<Rightarrow> nat \<Rightarrow> store_task \<Rightarrow> disk \<Rightarrow> store_task \<times> disk" where
  "task_step C st mode (Save_open path payload) d = (Save_write path payload, open_truncate mode path d)"
| "task_step C st mode (Save_write path payload) d = (Finished Saved, write_file path payload d)"
| "task_step C st mode (Load_check gid) d =
     ((if path_exists (get_path_of st gid) d then Load_read gid else Finished (Loaded None)), d)"
| "task_step C st mode (Load_read gid) d =
     (case read_file (get_path_of st gid) d of
        Inl e \<Rightarrow> (Finished (Raised e), d)
      | Inr payload \<Rightarrow> (Finished (open_payload C st gid payload), d))"
| "task_step C st mode (Delete_check gid) d =
     ((if path_exists (get_path_of st gid) d then Delete_remove gid else Finished (Deleted False)), d)"
| "task_step C st mode (Delete_remove gid) d =
     (case remove_file (get_path_of st gid) d of
        (Inl e, d') \<Rightarrow> (Finished (Raised e), d')
      | (Inr _, d') \<Rightarrow> (Finished (Deleted True), d'))"
| "task_step C st mode (Finished out) d = (Finished out, d)"

text \<open>A call that runs alone.\<close>

fun steps_left :: "store_task \<Rightarrow> nat" where
  "steps_left (Save_open _ _) = 2"
| "steps_left (Save_write _ _) = 1"
| "steps_left (Load_check _) = 2"
| "steps_left (Load_read _) = 1"
| "steps_left (Delete_check _) = 2"
| "steps_left (Delete_remove _) = 1"
| "steps_left (Finished _) = 0"

function run_task :: "crypto \<Rightarrow> AsyncEncryptedStore \<Rightarrow> nat \<Rightarrow> store_task \<Rightarrow> disk \<Rightarrow> outcome \<times> disk" where
  "run_task C st mode t d =
     (case t of Finished out \<Rightarrow> (out, d)
      | _ \<Rightarrow> (case task_step C st mode t d of (t', d') \<Rightarrow> run_task C st mode t' d'))"
  by pat_completeness auto
termination
  by (relation "measure (\<lambda>(C, st, mode, t, d). steps_left t)") (auto split: sum.splits prod.splits)

declare run_task.simps [simp del]

text \<open>Calls in flight together: some call makes its next access.\<close>

inductive interleaving :: "crypto \<Rightarrow> AsyncEncryptedStore \<Rightarrow> nat \<Rightarrow> store_task list \<Rightarrow> disk \<Rightarrow> store_task list \<Rightarrow> disk \<Rightarrow> bool"
  for C st mode where
  none: "interleaving C st mode ts d ts d"
| step: "interleaving C st mode ts d ts1 d1 \<Longrightarrow> j < length ts1 \<Longrightarrow> task_step C st mode (ts1 ! j) d1 = (t, d2) \<Longrightarrow>
    interleaving C st mode ts d (ts1[j := t]) d2"

section \<open>Lemmas\<close>

text \<open>The file a task works on.\<close>

fun task_path :: "AsyncEncryptedStore \<Rightarrow> store_task \<Rightarrow> string option" where
  "task_path st (Save_open path _) = Some path"
| "task_path st (Save_write path _) = Some path"
| "task_path st (Load_check gid) = Some (get_path_of st gid)"
| "task_path st (Load_read gid) = Some (get_path_of st gid)"
| "task_path st (Delete_check gid) = Some (get_path_of st gid)"
| "task_path st (Delete_remove gid) = Some (get_path_of st gid)"
| "task_path st (Finished _) = None"

lemma task_path_kept: "task_step C st mode t d = (t', d') \<Longrightarrow> task_path st t' \<in> {None, task_path st t}"
  by (cases t) (auto split: if_splits sum.splits prod.splits)

lemma task_step_other: "task_step C st mode t d = (t', d') \<Longrightarrow> task_path st t \<noteq> Some p \<Longrightarrow> d' p = d p"
  by (cases t) (auto simp: remove_file_def split: if_splits sum.splits prod.splits option.splits)

lemma task_step_local:
  assumes "d p = e p" "\<And>q. task_path st t = Some q \<Longrightarrow> q = p" "task_step C st mode t d = (t', d')"
  shows "\<exists>e'. task_step C st mode t e = (t', e') \<and> d' p = e' p"
  using assms
  by (cases t) (auto simp: open_truncate_def write_file_def path_exists_def read_file_def remove_file_def
      split: if_splits sum.splits prod.splits option.splits)

lemma run_task_Finished [simp]: "run_task C st mode (Finished out) d = (out, d)"
  by (simp add: run_task.simps)

lemma run_task_step: "run_task C st mode t d = (case task_step C st mode t d of (t', d') \<Rightarrow> run_task C st mode t' d')"
  by (subst run_task.simps) (simp split: store_task.split)

lemma run_task_simps:
  "run_task C st mode (Save_open p b) d = run_task C st mode (Save_write p b) (open_truncate mode p d)"
  "run_task C st mode (Save_write p b) d = (Saved, write_file p b d)"
  "run_task C st mode (Load_check gid) d = (if path_exists (get_path_of st gid) d then run_task C st mode (Load_read gid) d else (Loaded None, d))"
  "run_task C st mode (Load_read gid) d = ((case read_file (get_path_of st gid) d of Inl e \<Rightarrow> Raised e | Inr b \<Rightarrow> open_payload C st gid b), d)"
  "run_task C st mode (Delete_check gid) d = (if path_exists (get_path_of st gid) d then run_task C st mode (Delete_remove gid) d else (Deleted False, d))"
  "run_task C st mode (Delete_remove gid) d = (case remove_file (get_path_of st gid) d of (Inl e, d') \<Rightarrow> (Raised e, d') | (Inr _, d') \<Rightarrow> (Deleted True, d'))"
  by (subst run_task.simps, simp split: sum.split prod.split)+

lemma interleaving_isolated:
  assumes "interleaving C st mode ts d ts' d'" "i < length ts" "\<And>q. task_path st (ts ! i) = Some q \<Longrightarrow> q = p"
    and "\<And>j. j < length ts \<Longrightarrow> j \<noteq> i \<Longrightarrow> task_path st (ts ! j) \<noteq> Some p"
  shows "length ts' = length ts \<and> (\<forall>q. task_path st (ts' ! i) = Some q \<longrightarrow> q = p)
     \<and> (\<forall>j<length ts. j \<noteq> i \<longrightarrow> task_path st (ts' ! j) \<noteq> Some p)
     \<and> (\<exists>e. run_task C st mode (ts ! i) d = run_task C st mode (ts' ! i) e \<and> e p = d' p)"
  using assms
proof (induction rule: interleaving.induct)
  case (step ts d ts1 d1 j t d2)
  then obtain e where IH: "length ts1 = length ts" "\<And>q. task_path st (ts1 ! i) = Some q \<Longrightarrow> q = p"
    "\<And>j. j < length ts \<Longrightarrow> j \<noteq> i \<Longrightarrow> task_path st (ts1 ! j) \<noteq> Some p"
    "run_task C st mode (ts ! i) d = run_task C st mode (ts1 ! i) e" "e p = d1 p" by blast
  note kept = task_path_kept [OF step.hyps(3)]
  show ?case
  proof (cases "j = i")
    case True
    with task_step_local [of d1 p e st "ts1 ! i" C mode t d2] IH(2,5) step.hyps(3) obtain e' where
      "task_step C st mode (ts1 ! i) e = (t, e')" "d2 p = e' p" by metis
    with IH kept True step.prems(1) show ?thesis
      by (auto simp: run_task_step [of C st mode "ts1 ! i"] nth_list_update)
  next
    case False
    with task_step_other [OF step.hyps(3)] IH step.hyps(2) have "d2 p = d1 p" by simp
    moreover have "task_path st (ts1[j := t] ! k) \<noteq> Some p" if "k < length ts" "k \<noteq> i" for k
      using IH(3) [of k] IH(3) [of j] that kept False step.hyps(2) IH(1) by (cases "k = j") auto
    ultimately show ?thesis using IH False by auto
  qed
qed auto

lemma get_path_of_inj: "get_path_of st a = get_path_of st b \<longleftrightarrow> a = b"
  by (auto simp: get_path_of_def path_join_inj dest: bytes_hex_inj)

text \<open>A member the store can keep: fit to be written, of a size AES-GCM takes.\<close>

definition savable :: "crypto \<Rightarrow> AsyncEncryptedStore \<Rightarrow> bytes \<Rightarrow> MLSGroup \<Rightarrow> bool" where
  "savable C st nonce g \<longleftrightarrow> gcm_decrypts C \<and> primitives_return C \<and> length (vault_key st) = 32 \<and> length nonce = 12
     \<and> persistable g \<and> length (g_group_id g) < 2 ^ 31 \<and> (\<exists>data. MLSGroup_to_bytes g = Inr data \<and> length data < 2 ^ 31)"

lemma save_group_task:
  assumes "savable C st nonce g"
  obtains payload where "save_group C st nonce g = Save_open (get_path_of st (g_group_id g)) payload"
    "open_payload C st (g_group_id g) payload = Loaded (Some (reloaded g))"
proof -
  from assms obtain data where w: "MLSGroup_to_bytes g = Inr data" "length data < 2 ^ 31" "persistable g" "length nonce = 12"
    by (auto simp: savable_def)
  obtain c where c: "gcm_encrypt C (vault_key st) nonce data (g_group_id g) = Inr c" "length c = length data + 16"
    using gcm_returns [of C "vault_key st" nonce data "g_group_id g"] assms w(2) by (auto simp: savable_def)
  then have "gcm_decrypt C (vault_key st) nonce c (g_group_id g) = Inr data"
    using assms by (auto simp: savable_def gcm_decrypts_def)
  then have "open_payload C st (g_group_id g) (nonce @ c) = Loaded (Some (reloaded g))"
    using restore_written [OF w(3,1)] c(2) w(4) by (simp add: open_payload_def)
  with that w(1) c(1) show ?thesis by (simp add: save_group_def)
qed

lemma run_save:
  assumes "savable C st nonce g"
  shows "fst (run_task C st mode (save_group C st nonce g) d) = Saved"
    "run_task C st mode (Load_check (g_group_id g)) (snd (run_task C st mode (save_group C st nonce g) d))
       = (Loaded (Some (reloaded g)), snd (run_task C st mode (save_group C st nonce g) d))"
    "p \<noteq> get_path_of st (g_group_id g) \<Longrightarrow> snd (run_task C st mode (save_group C st nonce g) d) p = d p"
proof -
  obtain payload where p: "save_group C st nonce g = Save_open (get_path_of st (g_group_id g)) payload"
    "open_payload C st (g_group_id g) payload = Loaded (Some (reloaded g))" by (rule save_group_task [OF assms])
  then show "fst (run_task C st mode (save_group C st nonce g) d) = Saved"
    "run_task C st mode (Load_check (g_group_id g)) (snd (run_task C st mode (save_group C st nonce g) d))
       = (Loaded (Some (reloaded g)), snd (run_task C st mode (save_group C st nonce g) d))"
    "p \<noteq> get_path_of st (g_group_id g) \<Longrightarrow> snd (run_task C st mode (save_group C st nonce g) d) p = d p"
    by (simp_all add: run_task_simps path_exists_def read_file_def write_file_def)
qed

lemma run_load_local: "d p = e p \<Longrightarrow> p = get_path_of st gid \<Longrightarrow>
    fst (run_task C st mode (Load_check gid) d) = fst (run_task C st mode (Load_check gid) e)"
  by (simp add: run_task_simps path_exists_def read_file_def split: option.splits)

lemma run_delete:
  "snd (run_task C st mode (Delete_check gid) d) = d(get_path_of st gid := None)"
  "fst (run_task C st mode (Delete_check gid) d) = Deleted (path_exists (get_path_of st gid) d)"
  "fst (run_task C st mode (Load_check gid) (d(get_path_of st gid := None))) = Loaded None"
  by (auto simp: run_task_simps path_exists_def read_file_def remove_file_def split: option.splits)

section \<open>A store of values by key\<close>

datatype ('k, 'v) request = Put 'k 'v | Del 'k

text \<open>The specification: a dictionary.\<close>

fun dict_step :: "('k, 'v) request \<Rightarrow> ('k \<rightharpoonup> 'v) \<Rightarrow> ('k \<rightharpoonup> 'v)" where
  "dict_step (Put k v) m = m(k \<mapsto> v)"
| "dict_step (Del k) m = m(k := None)"

fun perform :: "('k \<Rightarrow> 'v \<Rightarrow> 's \<Rightarrow> 's) \<Rightarrow> ('k \<Rightarrow> 's \<Rightarrow> 's) \<Rightarrow> ('k, 'v) request \<Rightarrow> 's \<Rightarrow> 's" where
  "perform put del (Put k v) s = put k v s"
| "perform put del (Del k) s = del k s"

fun request_ok :: "('k \<Rightarrow> 'v \<Rightarrow> bool) \<Rightarrow> ('k, 'v) request \<Rightarrow> bool" where
  "request_ok ok (Put k v) \<longleftrightarrow> ok k v"
| "request_ok ok (Del k) \<longleftrightarrow> True"

locale key_value_store =
  fixes save :: "'k \<Rightarrow> 'v \<Rightarrow> 's \<Rightarrow> 's" and delete :: "'k \<Rightarrow> 's \<Rightarrow> 's" and load :: "'k \<Rightarrow> 's \<Rightarrow> 'r"
    and found :: "'v option \<Rightarrow> 'r" and valid :: "'k \<Rightarrow> 'v \<Rightarrow> bool"
  assumes load_saved: "valid k v \<Longrightarrow> load k (save k v s) = found (Some v)"
    and load_saved_other: "valid k v \<Longrightarrow> x \<noteq> k \<Longrightarrow> load x (save k v s) = load x s"
    and load_deleted: "load k (delete k s) = found None"
    and load_deleted_other: "x \<noteq> k \<Longrightarrow> load x (delete k s) = load x s"
begin

lemma perform_refines:
  assumes "\<And>x. load x s = found (m x)" "request_ok valid r"
  shows "load x (perform save delete r s) = found (dict_step r m x)"
  using assms by (cases r; cases "x = (case r of Put k v \<Rightarrow> k | Del k \<Rightarrow> k)")
    (simp_all add: load_saved load_saved_other load_deleted load_deleted_other)

lemma dictionary_behaviour:
  assumes "\<And>x. load x s = found (m x)" "\<forall>r\<in>set rs. request_ok valid r"
  shows "load x (fold (perform save delete) rs s) = found (fold dict_step rs m x)"
  using assms
proof (induction rs arbitrary: s m)
  case (Cons r rs)
  show ?case unfolding fold_simps by (rule Cons.IH) (use Cons.prems perform_refines in auto)
qed simp

end

text \<open>The vault: keys are group identifiers, values are members with the nonce of their encryption.\<close>

definition vault_save :: "crypto \<Rightarrow> AsyncEncryptedStore \<Rightarrow> nat \<Rightarrow> bytes \<Rightarrow> bytes \<times> MLSGroup \<Rightarrow> disk \<Rightarrow> disk" where
  "vault_save C st mode gid v d = snd (run_task C st mode (save_group C st (fst v) (snd v)) d)"

definition vault_delete :: "crypto \<Rightarrow> AsyncEncryptedStore \<Rightarrow> nat \<Rightarrow> bytes \<Rightarrow> disk \<Rightarrow> disk" where
  "vault_delete C st mode gid d = snd (run_task C st mode (Delete_check gid) d)"

definition vault_load :: "crypto \<Rightarrow> AsyncEncryptedStore \<Rightarrow> nat \<Rightarrow> bytes \<Rightarrow> disk \<Rightarrow> outcome" where
  "vault_load C st mode gid d = fst (run_task C st mode (Load_check gid) d)"

definition vault_valid :: "crypto \<Rightarrow> AsyncEncryptedStore \<Rightarrow> bytes \<Rightarrow> bytes \<times> MLSGroup \<Rightarrow> bool" where
  "vault_valid C st gid v \<longleftrightarrow> savable C st (fst v) (snd v) \<and> gid = g_group_id (snd v)"

interpretation vault: key_value_store "vault_save C st mode" "vault_delete C st mode" "vault_load C st mode"
    "\<lambda>v. Loaded (map_option (\<lambda>v. reloaded (snd v)) v)" "vault_valid C st" for C st mode
proof
  fix gid x v d
  assume v: "vault_valid C st gid v"
  then have s: "savable C st (fst v) (snd v)" "gid = g_group_id (snd v)" by (simp_all add: vault_valid_def)
  show "vault_load C st mode gid (vault_save C st mode gid v d) = Loaded (map_option (\<lambda>v. reloaded (snd v)) (Some v))"
    by (simp add: vault_load_def vault_save_def s(2) run_save(2) [OF s(1)])
  assume "x \<noteq> gid"
  then have "get_path_of st x \<noteq> get_path_of st (g_group_id (snd v))" by (simp add: get_path_of_inj s(2))
  from run_save(3) [OF s(1) this] show "vault_load C st mode x (vault_save C st mode gid v d) = vault_load C st mode x d"
    unfolding vault_load_def vault_save_def by (rule run_load_local) (rule refl)
next
  fix gid d
  show "vault_load C st mode gid (vault_delete C st mode gid d) = Loaded (map_option (\<lambda>v. reloaded (snd v)) None)"
    by (simp add: vault_load_def vault_delete_def run_delete)
  fix x assume "x \<noteq> gid"
  then show "vault_load C st mode x (vault_delete C st mode gid d) = vault_load C st mode x d"
    unfolding vault_load_def vault_delete_def run_delete(1) by (intro run_load_local) (simp_all add: get_path_of_inj)
qed

section \<open>Properties\<close>

text \<open>C8: the store is a dictionary. After any sequence of saves (of members fit to be written, each under
  its own nonce) and deletions, starting with an empty directory, loading a group returns what a
  dictionary from group identifiers to members would: the member of the last save after the last
  deletion, in the same epoch as it was saved, or None.\<close>

theorem store_is_dictionary:
  assumes "\<forall>r\<in>set rs. request_ok (vault_valid C st) r"
  shows "vault_load C st mode gid (fold (perform (vault_save C st mode) (vault_delete C st mode)) rs Map.empty)
       = Loaded (map_option (\<lambda>v. reloaded (snd v)) (fold dict_step rs Map.empty gid))
     \<and> (\<forall>g. same_epoch g (reloaded g) \<and> g_my_index (reloaded g) = g_my_index g \<and> g_my_sig_key (reloaded g) = g_my_sig_key g
          \<and> g_my_kem_key (reloaded g) = g_my_kem_key g \<and> g_consumed_key_packages (reloaded g) = g_consumed_key_packages g)"
proof -
  have "vault_load C st mode x Map.empty = Loaded (map_option (\<lambda>v. reloaded (snd v)) (Map.empty x))" for x
    by (simp add: vault_load_def run_task_simps path_exists_def)
  from vault.dictionary_behaviour [where m = Map.empty, OF this assms, of gid] show ?thesis
    by (simp add: reloaded_epoch)
qed

theorem store_is_dictionary_witness:
  "\<exists>C st. (\<forall>r\<in>set [Put (g_group_id (demo_chat 0)) (replicate 12 0, demo_chat 0)]. request_ok (vault_valid C st) r)
     \<and> vault_load C st 0 (g_group_id (demo_chat 0))
         (fold (perform (vault_save C st 0) (vault_delete C st 0)) [Put (g_group_id (demo_chat 0)) (replicate 12 0, demo_chat 0)] Map.empty)
       = Loaded (Some (reloaded (demo_chat 0)))"
proof -
  let ?st = "\<lparr>storage_dir = ''vault'', vault_key = replicate 32 7\<rparr>"
  let ?r = "Put (g_group_id (demo_chat 0)) (replicate 12 0, demo_chat 0) :: (bytes, bytes \<times> MLSGroup) request"
  have "case MLSGroup_to_bytes (demo_chat 0) of Inl e \<Rightarrow> False | Inr data \<Rightarrow> int (length data) < 2 ^ 31" by code_simp
  then have "\<exists>data. MLSGroup_to_bytes (demo_chat 0) = Inr data \<and> length data < 2 ^ 31" by (auto split: sum.splits)
  moreover have "int (length (g_group_id (demo_chat 0))) < 2 ^ 31" by code_simp
  ultimately have ok: "\<forall>r\<in>set [?r]. request_ok (vault_valid demo_crypto ?st) r"
    using demo_persistable demo_crypto_laws by (simp add: vault_valid_def savable_def)
  with store_is_dictionary [OF ok, of 0 "g_group_id (demo_chat 0)"] show ?thesis
    by (intro exI [of _ demo_crypto] exI [of _ ?st]) simp
qed

text \<open>C16: calls on different groups do not disturb each other. Whatever other calls are in flight, and
  however the file accesses are interleaved, a call whose file no other call uses ends with the
  outcome and leaves the file that it would if it ran alone.\<close>

theorem store_calls_isolated:
  assumes "interleaving C st mode ts d ts' d'" "i < length ts" "ts' ! i = Finished out" "task_path st (ts ! i) = Some p"
    and "\<forall>j<length ts. j \<noteq> i \<longrightarrow> task_path st (ts ! j) \<noteq> Some p"
  shows "fst (run_task C st mode (ts ! i) d) = out \<and> snd (run_task C st mode (ts ! i) d) p = d' p"
  using interleaving_isolated [OF assms(1,2), of p] assms(3-5) by auto

theorem store_calls_isolated_witness:
  "\<exists>st ts ts' d'. interleaving demo_crypto st 0 ts Map.empty ts' d' \<and> length ts = 2 \<and> ts' ! 1 = Finished (Deleted False)
     \<and> fst (run_task demo_crypto st 0 (ts ! 1) Map.empty) = Deleted False"
proof -
  let ?st = "\<lparr>storage_dir = ''vault'', vault_key = replicate 32 7\<rparr>"
  let ?ts = "[Save_open (get_path_of ?st [1]) [], Delete_check [2]]"
  let ?d1 = "open_truncate 0 (get_path_of ?st [1]) Map.empty"
  have "interleaving demo_crypto ?st 0 ?ts Map.empty (?ts[0 := Save_write (get_path_of ?st [1]) []]) ?d1"
    by (rule interleaving.step [OF interleaving.none]) simp_all
  then have r: "interleaving demo_crypto ?st 0 ?ts Map.empty ((?ts[0 := Save_write (get_path_of ?st [1]) []])[1 := Finished (Deleted False)]) ?d1"
    by (rule interleaving.step) (simp_all add: path_exists_def get_path_of_inj)
  from store_calls_isolated [OF r, of 1 "Deleted False" "get_path_of ?st [2]"]
  have "fst (run_task demo_crypto ?st 0 (?ts ! 1) Map.empty) = Deleted False" by (simp add: less_Suc_eq get_path_of_inj)
  with r show ?thesis
    by (intro exI [of _ ?st] exI [of _ ?ts] exI [of _ "?ts[0 := Save_write (get_path_of ?st [1]) [], 1 := Finished (Deleted False)]"]
      exI [of _ ?d1]) simp
qed

text \<open>C29: an interrupted save loses the group. After the first of the two file accesses of a save,
  whatever was stored before, loading the group raises an error: the previous state is gone and
  the new one is not there yet.\<close>

theorem interrupted_save_loses_group:
  assumes "save_group C st nonce g = Save_open p payload"
  shows "\<exists>d1. task_step C st mode (save_group C st nonce g) d = (Save_write p payload, d1)
     \<and> vault_load C st mode (g_group_id g) d1 = Raised (ValueError ''Stored payload is too short'')"
proof -
  have "p = get_path_of st (g_group_id g)" using assms by (auto simp: save_group_def split: sum.splits)
  then show ?thesis by (simp add: assms vault_load_def run_task_simps path_exists_def read_file_def open_payload_def)
qed

theorem interrupted_save_loses_group_witness:
  "\<exists>st p payload d1. save_group demo_crypto st (replicate 12 0) (demo_chat 0) = Save_open p payload
     \<and> task_step demo_crypto st 0 (save_group demo_crypto st (replicate 12 0) (demo_chat 0)) Map.empty = (Save_write p payload, d1)
     \<and> vault_load demo_crypto st 0 (g_group_id (demo_chat 0)) d1 = Raised (ValueError ''Stored payload is too short'')"
proof -
  let ?st = "\<lparr>storage_dir = ''vault'', vault_key = replicate 32 7\<rparr>"
  obtain data where "MLSGroup_to_bytes (demo_chat 0) = Inr data" using demo_persisted by blast
  then have "save_group demo_crypto ?st (replicate 12 0) (demo_chat 0)
      = Save_open (get_path_of ?st (g_group_id (demo_chat 0))) (replicate 12 0 @ pad_to 16 (replicate 12 0) @ data)"
    by (simp add: save_group_def demo_crypto_def)
  from this interrupted_save_loses_group [OF this, of 0 Map.empty] show ?thesis by blast
qed

end
