(* ===== verification/CommandLine.thy ===== *)
theory CommandLine
  imports GroupRuns Persistence FileSystem
begin

text \<open>
  \<open>cli.py\<close>: the seven commands over files, after argument parsing. What a command draws at random is
  its argument; what it prints is not modelled. The theorems: what a command may do to the files;
  keys, key updates and invitations carried between members by files keep the members in step.
\<close>

section \<open>Model\<close>

text \<open>\<open>_write_secret\<close>: created or truncated, written, and the mode enforced.\<close>

definition write_secret :: "string \<Rightarrow> bytes \<Rightarrow> disk \<Rightarrow> disk" where
  "write_secret path data d = chmod_file path OWNER_ONLY (write_file path data (open_truncate OWNER_ONLY path d))"

text \<open>The arguments of the commands, as \<open>argparse\<close> hands them over.\<close>

datatype cli_command =
    Keygen (kg_alias: string)
  | Create_group (cg_group_id: string) (cg_founder_priv: string) (cg_out: string)
  | Add_member (am_group_state: string) (am_invitee_pub: string) (am_out_welcome: string) (am_out_commit: string) (am_out_state: "string option")
  | Join_group (jg_welcome: string) (jg_my_priv: string) (jg_out_state: string)
  | Remove_member (rm_group_state: string) (rm_leaf_index: int) (rm_out_commit: string) (rm_out_state: "string option")
  | Update_key (uk_group_state: string) (uk_out_commit: string) (uk_out_state: "string option")
  | Apply_commit (ac_group_state: string) (ac_commit: string) (ac_out_state: "string option")

text \<open>What a command draws: fresh keys and the entropy of a commit; and the mode of new files.\<close>

record cli_world =
  cw_sig_key :: SignatureKey
  cw_kem_key :: KemKey
  cw_init_kem :: KemKey
  cw_entropy :: entropy
  cw_mode :: nat

text \<open>\<open>args.out_state if args.out_state else args.group_state\<close>: an empty string counts as absent.\<close>

definition out_state_path :: "string option \<Rightarrow> string \<Rightarrow> string" where
  "out_state_path out_state group_state = (case out_state of Some (c # cs) \<Rightarrow> c # cs | _ \<Rightarrow> group_state)"

definition read_state :: "string \<Rightarrow> disk \<Rightarrow> MLSGroup res" where
  "read_state path d = bindR (read_file path d) MLSGroup_from_bytes"

definition read_priv :: "string \<Rightarrow> disk \<Rightarrow> (SignatureKey \<times> KemKey) res" where
  "read_priv path d =
     bindR (read_file path d) (\<lambda>pd.
     bindR (sig_from_private_bytes (slice pd 0 32)) (\<lambda>sig_key.
     bindR (kem_from_private_bytes (slice pd 32 64)) (\<lambda>kem_key. Inr (sig_key, kem_key))))"

text \<open>A step of a command that may raise, continued on the disk.\<close>

definition cli_try :: "'a res \<Rightarrow> disk \<Rightarrow> ('a \<Rightarrow> unit res \<times> disk) \<Rightarrow> unit res \<times> disk" where
  "cli_try r d k = (case r of Inl e \<Rightarrow> (Inl e, d) | Inr x \<Rightarrow> k x)"

definition cli_then :: "unit res \<times> disk \<Rightarrow> (disk \<Rightarrow> unit res \<times> disk) \<Rightarrow> unit res \<times> disk" where
  "cli_then m k = (case m of (Inl e, d) \<Rightarrow> (Inl e, d) | (Inr _, d) \<Rightarrow> k d)"

definition write_state :: "string \<Rightarrow> MLSGroup \<Rightarrow> disk \<Rightarrow> unit res \<times> disk" where
  "write_state path g d = cli_try (MLSGroup_to_bytes g) d (\<lambda>bs. (Inr (), write_secret path bs d))"

definition write_commit :: "nat \<Rightarrow> string \<Rightarrow> GroupUpdate \<Rightarrow> disk \<Rightarrow> unit res \<times> disk" where
  "write_commit mode path u d = write_opened mode path (bindR (wrap_commit u) MLSMessage_to_bytes) d"

definition cmd_keygen :: "crypto \<Rightarrow> cli_world \<Rightarrow> string \<Rightarrow> disk \<Rightarrow> unit res \<times> disk" where
  "cmd_keygen C w alias d =
     (let sig_key = cw_sig_key w; kem_key = cw_kem_key w in
      cli_try (KeyPackage_create (kem_public_bytes C kem_key) (kem_public_bytes C kem_key) (sig_public_bytes C sig_key)
                 (encode_str alias) (sig_sign C sig_key)) d (\<lambda>kp.
      let d1 = write_secret (alias @ ''.priv'') (sig_private_bytes sig_key @ kem_private_bytes kem_key) d in
      write_opened (cw_mode w) (alias @ ''.pub'') (KeyPackage_to_bytes kp) d1))"

definition cmd_create_group :: "crypto \<Rightarrow> cli_world \<Rightarrow> string \<Rightarrow> string \<Rightarrow> string \<Rightarrow> disk \<Rightarrow> unit res \<times> disk" where
  "cmd_create_group C w gid founder_priv out d =
     cli_try (read_priv founder_priv d) d (\<lambda>(sig_key, kem_key).
     cli_try (create C (cw_init_kem w) (encode_str gid) sig_key kem_key) d (\<lambda>group.
     write_state out group d))"

definition cmd_add_member ::
    "crypto \<Rightarrow> cli_world \<Rightarrow> string \<Rightarrow> string \<Rightarrow> string \<Rightarrow> string \<Rightarrow> string option \<Rightarrow> disk \<Rightarrow> unit res \<times> disk" where
  "cmd_add_member C w group_state invitee_pub out_welcome out_commit out_state d =
     cli_try (read_state group_state d) d (\<lambda>group.
     cli_try (bindR (read_file invitee_pub d) (\<lambda>data. KeyPackage_from_bytes_at data 0)) d (\<lambda>(kp, _).
     cli_try (fst (add_member C (cw_entropy w) group kp)) d (\<lambda>(new_group, welcome, commit).
     cli_then (write_state (out_state_path out_state group_state) new_group d) (\<lambda>d1.
     cli_then (write_opened (cw_mode w) out_welcome (Welcome_to_bytes REGISTRY welcome) d1) (\<lambda>d2.
     write_commit (cw_mode w) out_commit commit d2)))))"

definition cmd_join_group :: "crypto \<Rightarrow> string \<Rightarrow> string \<Rightarrow> string \<Rightarrow> disk \<Rightarrow> unit res \<times> disk" where
  "cmd_join_group C welcome my_priv out_state d =
     cli_try (read_priv my_priv d) d (\<lambda>(sig_key, kem_key).
     cli_try (read_file welcome d) d (\<lambda>welcome_data.
     cli_try (join_bytes C REGISTRY welcome_data sig_key kem_key None None) d (\<lambda>group.
     write_state out_state group d)))"

definition cmd_remove_member ::
    "crypto \<Rightarrow> cli_world \<Rightarrow> string \<Rightarrow> int \<Rightarrow> string \<Rightarrow> string option \<Rightarrow> disk \<Rightarrow> unit res \<times> disk" where
  "cmd_remove_member C w group_state leaf_index out_commit out_state d =
     cli_try (read_state group_state d) d (\<lambda>group.
     cli_try (fst (remove_member C (cw_entropy w) group leaf_index)) d (\<lambda>(new_group, commit).
     cli_then (write_state (out_state_path out_state group_state) new_group d) (\<lambda>d1.
     write_commit (cw_mode w) out_commit commit d1)))"

definition cmd_update_key :: "crypto \<Rightarrow> cli_world \<Rightarrow> string \<Rightarrow> string \<Rightarrow> string option \<Rightarrow> disk \<Rightarrow> unit res \<times> disk" where
  "cmd_update_key C w group_state out_commit out_state d =
     cli_try (read_state group_state d) d (\<lambda>group.
     cli_try (fst (update_key C (cw_entropy w) group)) d (\<lambda>(new_group, commit).
     cli_then (write_state (out_state_path out_state group_state) new_group d) (\<lambda>d1.
     write_commit (cw_mode w) out_commit commit d1)))"

definition cmd_apply_commit :: "crypto \<Rightarrow> string \<Rightarrow> string \<Rightarrow> string option \<Rightarrow> disk \<Rightarrow> unit res \<times> disk" where
  "cmd_apply_commit C group_state commit out_state d =
     cli_try (read_state group_state d) d (\<lambda>group.
     cli_try (bindR (bindR (read_file commit d) MLSMessage_from_bytes) unwrap_commit) d (\<lambda>u.
     cli_try (fst (apply_commit C group u)) d (\<lambda>new_group.
     write_state (out_state_path out_state group_state) new_group d)))"

fun main :: "crypto \<Rightarrow> cli_world \<Rightarrow> cli_command \<Rightarrow> disk \<Rightarrow> unit res \<times> disk" where
  "main C w (Keygen alias) d = cmd_keygen C w alias d"
| "main C w (Create_group gid priv out) d = cmd_create_group C w gid priv out d"
| "main C w (Add_member gs pub ow oc os) d = cmd_add_member C w gs pub ow oc os d"
| "main C w (Join_group wel priv os) d = cmd_join_group C wel priv os d"
| "main C w (Remove_member gs i oc os) d = cmd_remove_member C w gs i oc os d"
| "main C w (Update_key gs oc os) d = cmd_update_key C w gs oc os d"
| "main C w (Apply_commit gs c os) d = cmd_apply_commit C gs c os d"

text \<open>Commands run one after the other, until one raises.\<close>

fun run_commands :: "crypto \<Rightarrow> (cli_world \<times> cli_command) list \<Rightarrow> disk \<Rightarrow> unit res \<times> disk" where
  "run_commands C [] d = (Inr (), d)"
| "run_commands C ((w, c) # cs) d = cli_then (main C w c d) (run_commands C cs)"

section \<open>Lemmas: what a command touches\<close>

text \<open>The files a command writes: those that hold private keys, and the public ones.\<close>

fun secret_outputs :: "cli_command \<Rightarrow> string set" where
  "secret_outputs (Keygen alias) = {alias @ ''.priv''}"
| "secret_outputs (Create_group _ _ out) = {out}"
| "secret_outputs (Add_member gs _ _ _ os) = {out_state_path os gs}"
| "secret_outputs (Join_group _ _ os) = {os}"
| "secret_outputs (Remove_member gs _ _ os) = {out_state_path os gs}"
| "secret_outputs (Update_key gs _ os) = {out_state_path os gs}"
| "secret_outputs (Apply_commit gs _ os) = {out_state_path os gs}"

fun public_outputs :: "cli_command \<Rightarrow> string set" where
  "public_outputs (Keygen alias) = {alias @ ''.pub''}"
| "public_outputs (Add_member _ _ ow oc _) = {ow, oc}"
| "public_outputs (Remove_member _ _ oc _) = {oc}"
| "public_outputs (Update_key _ oc _) = {oc}"
| "public_outputs _ = {}"

text \<open>Writes to public files keep the other files, and keep the mode \<open>0600\<close> wherever it was.\<close>

definition keeps :: "string set \<Rightarrow> disk \<Rightarrow> disk \<Rightarrow> bool" where
  "keeps P d d' \<longleftrightarrow> (\<forall>p. p \<notin> P \<longrightarrow> d' p = d p)
     \<and> (\<forall>p f. d p = Some f \<and> file_mode f = OWNER_ONLY \<longrightarrow> (\<exists>f'. d' p = Some f' \<and> file_mode f' = OWNER_ONLY))"

lemma keeps_trans: "keeps P d e \<Longrightarrow> keeps Q e f \<Longrightarrow> keeps (P \<union> Q) d f"
  unfolding keeps_def by (metis UnCI)

lemma keeps_public: "keeps {p} d (snd (write_opened m p r d))"
  by (auto simp: keeps_def write_opened_def open_truncate_def write_file_def Let_def split: sum.splits)

text \<open>A whole command: nothing happened, or the secret files have the mode \<open>0600\<close>.\<close>

definition settled :: "string set \<Rightarrow> string set \<Rightarrow> disk \<Rightarrow> unit res \<times> disk \<Rightarrow> bool" where
  "settled S P d m \<longleftrightarrow> (\<forall>p. p \<notin> S \<union> P \<longrightarrow> snd m p = d p)
     \<and> (snd m = d \<or> (\<forall>p\<in>S. \<exists>f. snd m p = Some f \<and> file_mode f = OWNER_ONLY))"

lemma settled_try: "(\<And>x. r = Inr x \<Longrightarrow> settled S P d (k x)) \<Longrightarrow> settled S P d (cli_try r d k)"
  by (simp add: cli_try_def settled_def split: sum.split)

lemma settled_secret: "settled {p} {} d (x, write_secret p bs d)"
  by (auto simp: settled_def write_secret_def open_truncate_def write_file_def chmod_file_def)

lemma settled_state: "settled {p} {} d (write_state p g d)"
  unfolding write_state_def by (rule settled_try) (rule settled_secret)

lemma write_state_cases: "(\<exists>e. write_state p g d = (Inl e, d)) \<or> (\<exists>bs. MLSGroup_to_bytes g = Inr bs \<and> write_state p g d = (Inr (), write_secret p bs d))"
  by (auto simp: write_state_def cli_try_def split: sum.split)

lemma settled_keeps: "keeps P (write_secret p bs d) (snd m) \<Longrightarrow> settled {p} P d m"
  by (fastforce simp: settled_def keeps_def write_secret_def open_truncate_def write_file_def chmod_file_def)

lemma settled_none: "settled S P d (x, d)"
  by (simp add: settled_def)

lemma settled_then:
  assumes "\<And>d1. keeps P d1 (snd (k d1))"
  shows "settled {p} P d (cli_then (write_state p g d) k)"
proof -
  consider e where "write_state p g d = (Inl e, d)" | bs where "write_state p g d = (Inr (), write_secret p bs d)"
    using write_state_cases [of p g d] by blast
  then show ?thesis
  proof cases
    case (2 bs)
    from settled_keeps [OF assms [of "write_secret p bs d"]] show ?thesis by (simp add: 2 cli_then_def)
  qed (simp add: cli_then_def settled_none)
qed

lemma keeps_then:
  assumes "keeps P d (snd m)" "\<And>d1. keeps Q d1 (snd (k d1))"
  shows "keeps (P \<union> Q) d (snd (cli_then m k))"
proof (cases "fst m")
  case (Inl e)
  then show ?thesis using assms(1) by (cases m) (auto simp: cli_then_def keeps_def)
next
  case (Inr u)
  then show ?thesis using keeps_trans [OF assms(1) assms(2) [of "snd m"]] by (cases m) (simp add: cli_then_def)
qed

lemma main_settled: "settled (secret_outputs c) (public_outputs c) d (main C w c d)"
proof (cases c)
  case (Keygen nm)
  show ?thesis unfolding Keygen main.simps secret_outputs.simps public_outputs.simps cmd_keygen_def Let_def
    by (rule settled_try, rule settled_keeps, rule keeps_public)
next
  case (Add_member gs pub ow oc os)
  have "keeps {ow, oc} e (snd (cli_then (write_opened m ow r e) (write_commit m oc u)))" for e m r u
    using keeps_then [OF keeps_public, of "{oc}" "write_commit m oc u" ow e m r] keeps_public [of oc] by (simp add: write_commit_def insert_commute)
  with Add_member show ?thesis
    by (auto simp: cmd_add_member_def intro!: settled_try settled_then split: prod.split)
qed (auto simp: cmd_create_group_def cmd_join_group_def cmd_remove_member_def cmd_update_key_def cmd_apply_commit_def write_commit_def
    intro!: settled_try settled_state settled_then keeps_public split: prod.split)

lemma main_all_or_nothing:
  assumes "public_outputs c = {}" "fst (main C w c d) = Inl e"
  shows "snd (main C w c d) = d"
  using assms by (cases c)
    (auto simp: cmd_create_group_def cmd_join_group_def cmd_apply_commit_def cli_try_def write_state_def split: sum.splits prod.splits)

section \<open>Lemmas: members in files\<close>

lemma sig_key_sized: "sig_from_private_bytes b = Inr k \<Longrightarrow> length (sig_private k) = 32"
  by (auto simp: sig_from_private_bytes_def Let_def split: if_splits)

lemma kem_key_sized: "kem_from_private_bytes b = Inr k \<Longrightarrow> length (kem_private k) = 32"
  by (auto simp: kem_from_private_bytes_def split: if_splits)

lemma from_be_slice_less: "from_be (slice b i (i + n)) < 256 ^ n"
proof -
  have "length (slice b i (i + n)) \<le> n" using slice_length_le [of b i "i + n"] by simp
  then have "(256 :: int) ^ length (slice b i (i + n)) \<le> 256 ^ n" by (rule power_increasing) simp
  with from_be_less [of "slice b i (i + n)"] show ?thesis by (rule order_less_le_trans)
qed

lemma restore_consumed_finite: "restore_consumed data off = Inr cs \<Longrightarrow> finite cs"
  by (auto simp: restore_consumed_def split: if_splits)

definition loaded_ok :: "MLSGroup \<Rightarrow> bool" where
  "loaded_ok g \<longleftrightarrow> length (sig_private (g_my_sig_key g)) = 32 \<and> length (kem_private (g_my_kem_key g)) = 32
     \<and> 0 \<le> g_my_index g \<and> g_my_index g < 2 ^ 32 \<and> finite (g_consumed_key_packages g)"

lemma from_bytes_ok: "pred_sum (\<lambda>_. True) loaded_ok (MLSGroup_from_bytes data)"
  unfolding MLSGroup_from_bytes_def Let_def
  using from_be_slice_less [of data 0 4]
  by (auto intro!: pred_bindR simp: loaded_ok_def MLSGroup_init_def sig_key_sized kem_key_sized restore_consumed_finite split: prod.split)

lemma read_state_ok: "read_state p d = Inr g \<Longrightarrow> loaded_ok g"
  using from_bytes_ok by (auto simp: read_state_def) (metis pred_sum_inject(2))

text \<open>Reading back what was written.\<close>

lemma read_written_secret [simp]: "read_file p (write_secret p bs d) = Inr bs"
  by (simp add: read_file_def write_secret_def chmod_file_def write_file_def)

lemma write_secret_other [simp]: "q \<noteq> p \<Longrightarrow> write_secret p bs d q = d q"
  by (simp add: write_secret_def)

lemma read_file_cong: "d p = e p \<Longrightarrow> read_file p d = read_file p e"
  by (simp add: read_file_def)

lemma read_state_cong: "d p = e p \<Longrightarrow> read_state p d = read_state p e"
  by (simp add: read_state_def read_file_def)

lemma write_state_reads:
  assumes "persistable g" "MLSGroup_to_bytes g = Inr bs"
  shows "write_state p g d = (Inr (), write_secret p bs d)" "read_state p (write_secret p bs d) = Inr (reloaded g)"
  using restore_written [OF assms] by (simp_all add: write_state_def cli_try_def assms(2) read_state_def)

text \<open>A member and its reloaded form play the same role.\<close>

lemma member_ok_reloaded: "member_ok C g \<Longrightarrow> member_ok C (reloaded g)"
proof -
  assume g: "member_ok C g"
  have e: "tree_equiv (g_tree g) (g_tree (reloaded g))" using reloaded_epoch [of g] by (simp add: same_epoch_def)
  have "holds_leaf C (g_tree (reloaded g)) g" using g holds_leaf_equiv [OF e] by (simp add: member_ok_def)
  then have "holds_leaf C (g_tree (reloaded g)) (reloaded g)" by (simp add: holds_leaf_def)
  with g tree_good_equiv [OF e] show ?thesis by (simp add: member_ok_def)
qed

lemma reloaded_in_step: "members_in_step C a b \<Longrightarrow> members_in_step C (reloaded a) (reloaded b)"
  unfolding members_in_step_def
  by (metis member_ok_reloaded reloaded_simps(1) reloaded_epoch same_epoch_sym same_epoch_trans)

text \<open>A peer of a written member can be written.\<close>

lemma peer_persists:
  assumes "same_epoch A B" "persistable A" "MLSGroup_to_bytes A = Inr bs" "member_ok C B" "g_consumed_key_packages B = {}"
    and "length (sig_private (g_my_sig_key B)) = 32" "length (kem_private (g_my_kem_key B)) = 32" "g_my_index B < 2 ^ 32"
  shows "persistable B" "\<exists>bs. MLSGroup_to_bytes B = Inr bs"
proof -
  show p: "persistable B" using assms by (simp add: persistable_def same_epoch_def member_ok_def tree_good_def)
  have "RatchetTree_to_bytes (g_tree B) = RatchetTree_to_bytes (g_tree A)"
    using assms(1) RatchetTree_to_bytes_canon by (metis same_epoch_def tree_equiv_def)
  then have "EpochState_to_bytes (g_state B) = EpochState_to_bytes (g_state A)"
    using assms(1) by (simp add: EpochState_to_bytes_def same_epoch_def)
  moreover from assms(3) obtain sb where "EpochState_to_bytes (g_state A) = Inr sb" "length sb < 256 ^ 4"
    "length (g_interim_transcript_hash A) < 256 ^ 2"
    by (auto simp: MLSGroup_to_bytes_def Let_def)
  moreover have "0 \<le> g_my_index B" "g_interim_transcript_hash B = g_interim_transcript_hash A"
    using assms(1,4) by (simp_all add: member_ok_def holds_leaf_def same_epoch_def)
  ultimately show "\<exists>bs. MLSGroup_to_bytes B = Inr bs" using assms(5,8)
    by (simp add: MLSGroup_to_bytes_def Let_def int_to_bytes_def tls_opaque32_def tls_u32_def struct_pack_def)
qed

lemma next_group_persistable:
  assumes "commit_log C ent A t rk ctx upns secrets sc cf" "signatures_verify C" "prepared C A t" "0 \<le> g_my_index A"
    and "length (sig_private (g_my_sig_key A)) = 32" "length (kem_private kem) = 32" "finite (g_consumed_key_packages A)"
  shows "persistable (next_group A cf kem)"
proof -
  note T = commit_log_tree [OF assms(1-4)]
  obtain k where "cf_state cf = EpochState_init (g_group_id A) (g_epoch_id A + 1) (rk_tree rk) k" "schedule_wf k" using T(7) by blast
  moreover have "tree_wf (rk_tree rk)" using T(1) by (simp add: tree_good_def)
  ultimately show ?thesis using assms(5-7) by (simp add: persistable_def next_group_def MLSGroup_init_def EpochState_init_def)
qed

text \<open>The receiving side: the state file holds \<open>B\<close>, the commit file a message \<open>B\<close> accepts.\<close>

lemma apply_commit_from_files:
  assumes "read_state pb d = Inr B" "read_file c d = Inr cbytes" "receives_commit C B cbytes B'" "members_in_step C A' B'"
    and "persistable A'" "MLSGroup_to_bytes A' = Inr abytes"
  obtains bbytes where "main C w (Apply_commit pb c None) d = (Inr (), write_secret pb bbytes d)"
    "read_state pb (write_secret pb bbytes d) = Inr (reloaded B')"
proof -
  from assms(3) obtain v where v: "bindR (MLSMessage_from_bytes cbytes) unwrap_commit = Inr v" "fst (process_update C B v) = Inr B'"
    by (auto simp: receives_commit_def simp del: bindR_eq_Inr)
  note k = process_update_keeps [OF v(2)]
  have st: "same_epoch A' B'" "member_ok C B'" using assms(4) by (simp_all add: members_in_step_def)
  have ok: "length (sig_private (g_my_sig_key B')) = 32" "length (kem_private (g_my_kem_key B')) = 32" "g_my_index B' < 2 ^ 32"
    using read_state_ok [OF assms(1)] k by (simp_all add: loaded_ok_def)
  note p = peer_persists [OF st(1) assms(5,6) st(2) k(1) ok]
  then obtain bbytes where b: "MLSGroup_to_bytes B' = Inr bbytes" by blast
  note W = write_state_reads [OF p(1) b]
  have "bindR (bindR (read_file c d) MLSMessage_from_bytes) unwrap_commit = Inr v" using assms(2) v(1) by simp
  then have "main C w (Apply_commit pb c None) d = (Inr (), write_secret pb bbytes d)"
    unfolding main.simps cmd_apply_commit_def using assms(1) v(2) W(1)
    by (simp add: cli_try_def out_state_path_def apply_commit_def del: bindR_eq_Inr)
  with that W(2) show ?thesis by blast
qed

text \<open>The sending side of \<open>update-key\<close>.\<close>

lemma cli_update_runs:
  assumes "main C w (Update_key pa c None) d = (Inr (), d1)" "read_state pa d = Inr A"
  obtains A' u abytes cbytes where "fst (update_key C (cw_entropy w) A) = Inr (A', u)" "MLSGroup_to_bytes A' = Inr abytes"
    "bindR (wrap_commit u) MLSMessage_to_bytes = Inr cbytes" "d1 = snd (write_opened (cw_mode w) c (Inr cbytes) (write_secret pa abytes d))"
  using assms
  by (auto simp: cmd_update_key_def cli_try_def cli_then_def write_state_def write_commit_def out_state_path_def write_opened_def Let_def
      split: sum.splits prod.splits simp del: bindR_eq_Inr)

lemma update_key_persistable:
  assumes "fst (update_key C ent A) = Inr (A', u)" "member_ok C A" "signatures_verify C" "loaded_ok A" "length (kem_private (ent_committer_kem ent)) = 32"
  shows "persistable A'"
proof -
  have A: "0 \<le> g_my_index A" "tree_wf (g_tree A)" using assms(2) by (simp_all add: member_ok_def holds_leaf_def tree_good_def)
  show ?thesis
  proof (rule update_key_log [OF assms(1) A(2)])
    fix rk ctx upns secrets sc cf
    assume l: "commit_log C ent A ((g_tree A)\<lparr>frozen := False\<rparr>) rk ctx upns secrets sc cf" "A' = next_group A cf (ent_committer_kem ent)"
    show ?thesis unfolding l(2)
      by (rule next_group_persistable [OF l(1) assms(3) prepared_update [OF assms(2)] A(1)]) (use assms(4,5) in \<open>simp_all add: loaded_ok_def\<close>)
  qed
qed

text \<open>A Welcome read from its bytes opens like the Welcome itself.\<close>

lemma join_bytes_written:
  assumes "Welcome_to_bytes REGISTRY w = Inr bs" "w_encrypted_group_secrets w \<noteq> []" "w_dialect w = None"
  shows "join_bytes C REGISTRY bs sk kem psks rt = join C w sk kem psks rt"
proof -
  have "Welcome_from_bytes REGISTRY bs None = Welcome_from_bytes REGISTRY bs (Some (dialect_name None))"
    by (simp add: Welcome_from_bytes_def dialect_name_def)
  then obtain w' where w': "Welcome_from_bytes REGISTRY bs None = Inr w'" "w_encrypted_group_secrets w' = w_encrypted_group_secrets w"
    "w_encrypted_group_info w' = w_encrypted_group_info w"
    using Welcome_from_to [OF assms(1,2), of "[]"] assms(3) by simp
  show ?thesis unfolding join_bytes_def join_def w'(1) sum.case w'(2,3) by (rule refl)
qed

lemma build_welcome_form:
  "build_welcome C eph g kp t st th = Inr w \<Longrightarrow> w_encrypted_group_secrets w \<noteq> [] \<and> w_dialect w = None"
  by (auto simp: build_welcome_def Let_def)

lemma cli_add_returns:
  assumes "read_state pa d = Inr A" "read_file pub d = Inr kb" "KeyPackage_from_bytes_at kb 0 = Inr (kp, off)"
    and "fst (add_member C (cw_entropy w) A kp) = Inr (A', W, u)" "MLSGroup_to_bytes A' = Inr ab" "Welcome_to_bytes REGISTRY W = Inr wb"
    and "bindR (wrap_commit u) MLSMessage_to_bytes = Inr cb"
  shows "main C w (Add_member pa pub wel com None) d
     = (Inr (), snd (write_opened (cw_mode w) com (Inr cb) (snd (write_opened (cw_mode w) wel (Inr wb) (write_secret pa ab d)))))"
  using assms by (simp add: cmd_add_member_def cli_try_def cli_then_def write_state_def write_commit_def write_opened_def
      out_state_path_def Let_def del: bindR_eq_Inr)

text \<open>What \<open>add-member\<close> leaves behind, as a step of the protocol.\<close>

lemma added_persistable:
  assumes "fst (add_member C ent A kp) = Inr (A', W, u)" "member_ok C A" "signatures_verify C" "num_leaves (g_tree A) < 2 ^ 31"
    and "leaf_node_source (leaf_node kp) = LEAF_NODE_SOURCE_KEY_PACKAGE" "loaded_ok A" "length (kem_private (ent_committer_kem ent)) = 32"
  shows "persistable A'" "num_leaves (g_tree A') \<le> 2 ^ 32" "w_encrypted_group_secrets W \<noteq> [] \<and> w_dialect W = None"
    "g_epoch_id A' = g_epoch_id A + 1"
proof -
  have A0: "0 \<le> g_my_index A" using assms(2) by (simp add: member_ok_def holds_leaf_def)
  have "persistable A' \<and> num_leaves (g_tree A') \<le> 2 ^ 32 \<and> (w_encrypted_group_secrets W \<noteq> [] \<and> w_dialect W = None)
     \<and> g_epoch_id A' = g_epoch_id A + 1"
  proof (rule add_member_log [OF assms(1-5)])
    fix ref t i rk ctx upns secrets sc cf
    let ?A = "A\<lparr>g_consumed_key_packages := insert ref (g_consumed_key_packages A)\<rparr>"
    assume l: "prepared C A t" "num_leaves t \<le> 2 * num_leaves (g_tree A)"
      "commit_log C ent ?A t rk ctx upns secrets sc cf" "A' = next_group ?A cf (ent_committer_kem ent)"
      "build_welcome C (ent_welcome_eph ent) ?A kp (rk_tree rk) (cf_state cf) (sc_transcript_hash sc) = Inr W"
    have p: "prepared C ?A t" "0 \<le> g_my_index ?A" using l(1) A0 by simp_all
    have "persistable A'" unfolding l(4)
      by (rule next_group_persistable [OF l(3) assms(3) p]) (use assms(6,7) in \<open>simp_all add: loaded_ok_def\<close>)
    moreover have "num_leaves (g_tree A') \<le> 2 ^ 32"
      using commit_log_tree(3) [OF l(3) assms(3) p] committer_ok(4) [OF l(3) assms(3) p] l(2) assms(4) by (simp add: l(4) freeze_def)
    moreover have "g_epoch_id A' = g_epoch_id A + 1" using committer_ok(2) [OF l(3) assms(3) p] by (simp add: l(4))
    ultimately show ?thesis using build_welcome_form [OF l(5)] by blast
  qed
  then show "persistable A'" "num_leaves (g_tree A') \<le> 2 ^ 32" "w_encrypted_group_secrets W \<noteq> [] \<and> w_dialect W = None"
    "g_epoch_id A' = g_epoch_id A + 1" by blast+
qed

text \<open>The newcomer's side.\<close>

lemma join_from_files:
  assumes "read_priv pp d = Inr (sk, kem)" "read_file wel d = Inr wbytes" "Welcome_to_bytes REGISTRY W = Inr wbytes"
    and "w_encrypted_group_secrets W \<noteq> [] \<and> w_dialect W = None" "join C W sk kem None None = Inr n" "members_in_step C A' n"
    and "persistable A'" "MLSGroup_to_bytes A' = Inr abytes" "num_leaves (g_tree A') \<le> 2 ^ 32"
  obtains nbytes where "main C w (Join_group wel pp out) d = (Inr (), write_secret out nbytes d)"
    "read_state out (write_secret out nbytes d) = Inr (reloaded n)"
proof -
  have k: "length (sig_private sk) = 32" "length (kem_private kem) = 32"
    using assms(1) by (auto simp: read_priv_def sig_key_sized kem_key_sized)
  have n: "g_my_sig_key n = sk" "g_my_kem_key n = kem" using join_keys [of sk kem C W None None] assms(5) by simp_all
  have st: "same_epoch A' n" "member_ok C n" using assms(6) by (simp_all add: members_in_step_def)
  then have i: "g_my_index n < 2 ^ 32"
    using assms(9) by (auto simp: member_ok_def holds_leaf_def same_epoch_def dest: tree_equivD(1))
  note p = peer_persists [OF st(1) assms(7,8) st(2) join_nothing_consumed [OF assms(5)]]
  from p k n i obtain nbytes where b: "MLSGroup_to_bytes n = Inr nbytes" "persistable n" by auto
  note W = write_state_reads [OF b(2,1)]
  have "join_bytes C REGISTRY wbytes sk kem None None = Inr n" using join_bytes_written [OF assms(3)] assms(4,5) by simp
  then have "main C w (Join_group wel pp out) d = (Inr (), write_secret out nbytes d)"
    unfolding main.simps cmd_join_group_def using assms(1,2) W(1) by (simp add: cli_try_def)
  with that W(2) show ?thesis by blast
qed

text \<open>All members of a group in files.\<close>

lemma all_in_step_reloaded:
  assumes "all_in_step (fit_member C) (members_in_step C) ms"
  shows "all_in_step (fit_member C) (members_in_step C) (map reloaded ms)"
  using assms reloaded_in_step member_ok_reloaded by (auto simp: all_in_step_def fit_member_def)

lemma apply_commits_run:
  assumes "read_file com d = Inr cb" "persistable A'" "MLSGroup_to_bytes A' = Inr ab" "distinct (map fst ts)" "com \<notin> set (map fst ts)"
    and "\<forall>(p, B, B')\<in>set ts. read_state p d = Inr B \<and> receives_commit C B cb B' \<and> members_in_step C A' B'"
  shows "\<exists>d'. run_commands C (map (\<lambda>pb. (w, Apply_commit pb com None)) (map fst ts)) d = (Inr (), d')
     \<and> (\<forall>(p, B, B')\<in>set ts. read_state p d' = Inr (reloaded B')) \<and> (\<forall>p. p \<notin> set (map fst ts) \<longrightarrow> d' p = d p)"
  using assms(1,4-6)
proof (induction ts arbitrary: d)
  case (Cons x ts)
  obtain p B B' where x: "x = (p, B, B')" by (cases x)
  with Cons.prems have b: "read_state p d = Inr B" "receives_commit C B cb B'" "members_in_step C A' B'" "p \<noteq> com" "p \<notin> set (map fst ts)"
    by auto
  obtain bb where m: "main C w (Apply_commit p com None) d = (Inr (), write_secret p bb d)"
    "read_state p (write_secret p bb d) = Inr (reloaded B')"
    by (rule apply_commit_from_files [OF b(1) Cons.prems(1) b(2,3) assms(2,3)])
  let ?d = "write_secret p bb d"
  have other: "?d q = d q" if "q \<noteq> p" for q using that by simp
  have "read_file com ?d = Inr cb" using read_file_cong [of ?d com d] b(4) Cons.prems(1) by simp
  moreover have "read_state q ?d = read_state q d" if "q \<in> set (map fst ts)" for q
    using read_state_cong [of ?d q d] other b(5) that by metis
  then have "\<forall>(p, B, B')\<in>set ts. read_state p ?d = Inr B \<and> receives_commit C B cb B' \<and> members_in_step C A' B'"
    using Cons.prems(4) by fastforce
  ultimately obtain d' where d': "run_commands C (map (\<lambda>pb. (w, Apply_commit pb com None)) (map fst ts)) ?d = (Inr (), d')"
    "\<forall>(p, B, B')\<in>set ts. read_state p d' = Inr (reloaded B')" "\<forall>p. p \<notin> set (map fst ts) \<longrightarrow> d' p = ?d p"
    using Cons.IH [of ?d] Cons.prems(2,3) by auto
  have "read_state p d' = Inr (reloaded B')" using read_state_cong [of d' p ?d] d'(3) b(5) m(2) by simp
  with d' m(1) show ?case
    by (intro exI [of _ d']) (auto simp: x cli_then_def simp del: main.simps)
qed simp

lemma invited_members:
  assumes "all_in_step (fit_member C) (members_in_step C) (A # Bs)" "sends_invitation C A cb (W, sk, kem) A'"
  obtains Bs' n where "length Bs' = length Bs" "\<forall>j<length Bs. receives_commit C (Bs ! j) cb (Bs' ! j)"
    "\<forall>j<length Bs. members_in_step C A' (Bs' ! j)" "join C W sk kem None None = Inr n" "members_in_step C A' n"
    "all_in_step (fit_member C) (members_in_step C) (A' # Bs' @ [n])"
proof -
  have fit: "fit_member C A" using assms(1) by (simp add: all_in_step_def)
  obtain n where n: "join C W sk kem None None = Inr n" "members_in_step C A' n" using invitation_joined [OF fit assms(2)] by blast
  obtain ms where ms: "all_receive (receives_commit C) (A # Bs) 0 cb A' ms"
    using protocol.everyone_can_receive [OF assms(1), of 0 cb A'] protocol.invitation [OF assms(2)] by auto
  obtain a0 Bs' where m: "ms = a0 # Bs'" using ms by (cases ms) (auto simp: all_receive_def)
  have Bs': "ms = A' # Bs'" "length Bs' = length Bs" "\<And>j. j < length Bs \<Longrightarrow> receives_commit C (Bs ! j) cb (Bs' ! j)"
    using ms m by (auto simp: all_receive_def dest: spec [of _ "Suc j" for j])
  have all: "all_in_step (fit_member C) (members_in_step C) (A' # Bs' @ [n])"
    using protocol.invitation_keeps_group [OF assms(1) _ _ _ ms, of "(W, sk, kem)" n] assms(2) n(1) Bs'(1) by (simp add: joins_group_def)
  have "members_in_step C A' (Bs' ! j)" if "j < length Bs" for j
  proof -
    have "members_in_step C ((A' # Bs' @ [n]) ! 0) ((A' # Bs' @ [n]) ! Suc j)"
      using all Bs'(2) that unfolding all_in_step_def by (metis Suc_less_eq length_Cons length_append_singleton less_SucI zero_less_Suc nat.distinct(1))
    then show ?thesis using Bs'(2) that by (simp add: nth_append)
  qed
  with that Bs'(2,3) n all show ?thesis by blast
qed

text \<open>The files after \<open>add-member\<close>.\<close>

lemma written_invitation:
  assumes "d1 = snd (write_opened m com (Inr cb) (snd (write_opened m wel (Inr wb) (write_secret pa ab d))))"
    and "persistable A'" "MLSGroup_to_bytes A' = Inr ab" "pa \<noteq> wel" "pa \<noteq> com" "wel \<noteq> com"
  shows "read_file wel d1 = Inr wb" "read_file com d1 = Inr cb" "read_state pa d1 = Inr (reloaded A')" "p \<notin> {pa, wel, com} \<Longrightarrow> d1 p = d p"
proof -
  have "read_state pa d1 = read_state pa (write_secret pa ab d)" using assms(4,5) by (simp add: assms(1) read_state_def read_file_def)
  then show "read_state pa d1 = Inr (reloaded A')" using write_state_reads(2) [OF assms(2,3)] by simp
  have "read_file wel d1 = read_file wel (snd (write_opened m wel (Inr wb) (write_secret pa ab d)))"
    using assms(6) by (simp add: assms(1) read_file_def)
  then show "read_file wel d1 = Inr wb" by (simp add: write_opened_same(2))
qed (simp_all add: assms(1) write_opened_same(2))

text \<open>Member files as a list: the founder of the invitation and its peers.\<close>

lemma invitation_applied:
  assumes "\<And>j. j < length pbs \<Longrightarrow> read_state (pbs ! j) d = Inr (Bs ! j)" "length Bs = length pbs" "length Bs' = length pbs"
    and "\<forall>j<length pbs. receives_commit C (Bs ! j) cb (Bs' ! j)" "\<forall>j<length pbs. members_in_step C A' (Bs' ! j)"
    and "read_file com d = Inr cb" "persistable A'" "MLSGroup_to_bytes A' = Inr ab" "distinct pbs" "com \<notin> set pbs"
  obtains d' where "run_commands C (map (\<lambda>pb. (w, Apply_commit pb com None)) pbs) d = (Inr (), d')"
    "map (\<lambda>p. read_state p d') pbs = map Inr (map reloaded Bs')" "\<forall>p. p \<notin> set pbs \<longrightarrow> d' p = d p"
proof -
  let ?ts = "zip pbs (zip Bs Bs')"
  have ts: "map fst ?ts = pbs" using assms(2,3) by simp
  have peers: "\<forall>(p, B, B')\<in>set ?ts. read_state p d = Inr B \<and> receives_commit C B cb B' \<and> members_in_step C A' B'"
    using assms(1-5) by (auto simp: set_zip)
  from apply_commits_run [OF assms(6-8) _ _ peers, of w] ts assms(9,10) obtain d' where
    d': "run_commands C (map (\<lambda>pb. (w, Apply_commit pb com None)) pbs) d = (Inr (), d')"
    "\<forall>(p, B, B')\<in>set ?ts. read_state p d' = Inr (reloaded B')" "\<forall>p. p \<notin> set pbs \<longrightarrow> d' p = d p" by auto
  have "read_state (pbs ! j) d' = Inr (reloaded (Bs' ! j))" if j: "j < length pbs" for j
  proof -
    have "(pbs ! j, Bs ! j, Bs' ! j) \<in> set ?ts" using j assms(2,3) by (auto simp: set_zip)
    with d'(2) show ?thesis by auto
  qed
  then have "map (\<lambda>p. read_state p d') pbs = map Inr (map reloaded Bs')" using assms(3) by (simp add: list_eq_iff_nth_eq)
  with d' that show ?thesis by blast
qed

section \<open>A session of the example provider\<close>

lemma room_persists:
  assumes "group_room C g" "member_ok C g" "schedule_wf (g_schedule g)"
    and "\<exists>cb. cat_res (map tls_opaque (sorted_list_of_set (g_consumed_key_packages g))) = Inr cb \<and> length cb < 2 ^ 32"
  shows "\<exists>bs. MLSGroup_to_bytes g = Inr bs"
proof -
  obtain d where d: "tree_shape (g_tree g) d" using assms(2) by (auto simp: member_ok_def tree_good_def tree_wf_def)
  have r: "tree_room C (g_tree g)" "length (g_group_id g) \<le> 1000" "0 \<le> g_epoch_id g" "g_epoch_id g < 2 ^ 64"
    "length (g_interim_transcript_hash g) \<le> 255" using assms(1) by (simp_all add: group_room_def)
  obtain tb where tb: "RatchetTree_to_bytes (g_tree g) = Inr tb" "length tb \<le> 8300000" by (rule fitsE [OF tree_bytes_fit [OF r(1) d]])
  have "length (KeySchedule_to_bytes (g_schedule g)) = 352" using assms(3) by (simp add: KeySchedule_to_bytes_def schedule_wf_def)
  then obtain sb where "EpochState_to_bytes (g_state g) = Inr sb" "length sb < 256 ^ 4"
    using tb r(2-4) by (simp add: EpochState_to_bytes_def int_to_bytes_def)
  moreover have "0 \<le> g_my_index g" "g_my_index g < 2 ^ 32"
    using assms(2) r(1) by (auto simp: member_ok_def holds_leaf_def tree_room_def)
  moreover obtain cb where "cat_res (map tls_opaque (sorted_list_of_set (g_consumed_key_packages g))) = Inr cb" "length cb < 2 ^ 32"
    using assms(4) by blast
  ultimately show ?thesis using r(5)
    by (simp add: MLSGroup_to_bytes_def Let_def int_to_bytes_def tls_opaque32_def tls_u32_def struct_pack_def)
qed

text \<open>The state after \<open>add-member\<close> can be written.\<close>

lemma consumed_encoded:
  assumes "finite S" "card S \<le> 1000001" "\<forall>r\<in>S. length r \<le> 1000"
  shows "\<exists>cb. cat_res (map tls_opaque (sorted_list_of_set S)) = Inr cb \<and> length cb < 2 ^ 32"
proof -
  have "fits (length (sorted_list_of_set S) * (4 + 1000)) (cat_res (map tls_opaque (sorted_list_of_set S)))"
    by (intro fits_map fits_opaque) (use assms(1,3) in simp_all)
  then obtain cb where "cat_res (map tls_opaque (sorted_list_of_set S)) = Inr cb" "length cb \<le> length (sorted_list_of_set S) * (4 + 1000)"
    by (rule fitsE)
  moreover have "length (sorted_list_of_set S) \<le> 1000001" using assms(2) by simp
  ultimately show ?thesis by (intro exI [of _ cb]) simp
qed

lemma added_writes:
  assumes "fst (add_member C ent A kp) = Inr (A', W, u)" "member_ok C A" "signatures_verify C" "num_leaves (g_tree A) < 2 ^ 31"
    and "leaf_node_source (leaf_node kp) = LEAF_NODE_SOURCE_KEY_PACKAGE" "group_room C A'" "make_kp_ref kp = Inr r" "length r = 32"
    and "finite (g_consumed_key_packages A)" "card (g_consumed_key_packages A) \<le> 1000000" "\<forall>r\<in>g_consumed_key_packages A. length r \<le> 1000"
  shows "\<exists>bs. MLSGroup_to_bytes A' = Inr bs"
proof (rule add_member_log [OF assms(1-5)])
  fix ref t i rk ctx upns secrets sc cf
  let ?A = "A\<lparr>g_consumed_key_packages := insert ref (g_consumed_key_packages A)\<rparr>"
  assume l: "prepared C A t" "commit_log C ent ?A t rk ctx upns secrets sc cf" "A' = next_group ?A cf (ent_committer_kem ent)"
    and kr: "make_kp_ref kp = Inr ref"
  have p: "prepared C ?A t" "0 \<le> g_my_index ?A" using l(1) assms(2) by (simp_all add: member_ok_def holds_leaf_def)
  note T = commit_log_tree [OF l(2) assms(3) p] and N = committer_ok [OF l(2) assms(3) p]
  obtain k where "cf_state cf = EpochState_init (g_group_id ?A) (g_epoch_id ?A + 1) (rk_tree rk) k" "schedule_wf k" using T(7) by blast
  then have s: "schedule_wf (g_schedule A')" "g_consumed_key_packages A' = insert ref (g_consumed_key_packages A)"
    by (simp_all add: l(3) next_group_def MLSGroup_init_def EpochState_init_def)
  have "card (insert ref (g_consumed_key_packages A)) \<le> 1000001" using card_insert_le_m1 [of 1000001 "g_consumed_key_packages A" ref] assms(10) by simp
  with assms(7-11) kr have "\<exists>cb. cat_res (map tls_opaque (sorted_list_of_set (insert ref (g_consumed_key_packages A)))) = Inr cb \<and> length cb < 2 ^ 32"
    by (intro consumed_encoded) auto
  with room_persists [OF assms(6) _ s(1)] N(1) s(2) show ?thesis by (simp add: l(3))
qed

lemma demo_persists:
  assumes "demo_member g" "demo_keys g" "g_consumed_key_packages g = {}"
  obtains bs where "MLSGroup_to_bytes g = Inr bs" "MLSGroup_from_bytes bs = Inr (reloaded g)"
proof -
  have ok: "member_ok demo_crypto g" "group_room demo_crypto g" using assms(1) by (simp_all add: demo_member_def)
  have "persistable g" using assms ok(1) by (simp add: persistable_def demo_keys_def member_ok_def tree_good_def)
  with room_persists [OF ok(2,1)] assms restore_written [of g] that show ?thesis by (auto simp: demo_keys_def)
qed

definition stored :: "bytes \<Rightarrow> file_entry" where "stored bs = \<lparr>file_bytes = bs, file_mode = OWNER_ONLY\<rparr>"

definition demo_world :: cli_world where
  "demo_world = \<lparr>cw_sig_key = skey 4, cw_kem_key = demo_kem, cw_init_kem = demo_kem, cw_entropy = demo_ent, cw_mode = 0\<rparr>"

lemma pkey_4: "pkey 4 \<notin> {pkey 3, pkey 2, pkey 1}"
  by (simp add: sig_public_bytes_def demo_crypto_def pad_to_def)

lemma demo_files:
  obtains d A B kb kp where "read_state ''a'' d = Inr A" "read_state ''b'' d = Inr B" "members_in_step demo_crypto A B"
    "demo_member A" "demo_keys A" "g_consumed_key_packages A = {}" "g_epoch_id A = 2" "num_leaves (g_tree A) \<le> 4"
    "signers (g_tree A) {pkey 3, pkey 2, pkey 1}" "read_priv ''n'' d = Inr (skey 4, demo_kem)"
    "read_file ''p'' d = Inr kb" "KeyPackage_from_bytes_at kb 0 = Inr (kp, length kb)" "newcomer_keys demo_crypto kp (skey 4) demo_kem"
    "package_room demo_crypto kp" "KeyPackage_verify_signature demo_crypto kp = Inr ()"
proof -
  obtain a' b' e where t: "demo_member b'" "members_in_step demo_crypto b' a'" "members_in_step demo_crypto b' e" "members_in_step demo_crypto a' e"
    "demo_keys a'" "demo_keys e" "g_consumed_key_packages a' = {}" "g_consumed_key_packages e = {}"
    "num_leaves (g_tree b') \<le> 4" "g_epoch_id b' = 2" "signers (g_tree b') {pkey 3, pkey 2, pkey 1}" by (rule demo_trio)
  have m: "demo_member a'" "demo_member e" using demo_member_peer [OF t(1)] t(2,3) by blast+
  obtain ab where ab: "MLSGroup_from_bytes ab = Inr (reloaded a')" by (rule demo_persists [OF m(1) t(5,7)])
  obtain eb where eb: "MLSGroup_from_bytes eb = Inr (reloaded e)" by (rule demo_persists [OF m(2) t(6,8)])
  obtain kp where kp: "newcomer_keys demo_crypto kp (skey 4) demo_kem" "package_room demo_crypto kp" "KeyPackage_verify_signature demo_crypto kp = Inr ()"
    by (rule demo_package)
  then obtain kb where kb: "KeyPackage_to_bytes kp = Inr kb" by (auto simp: package_room_def elim!: fitsE)
  have kc: "KeyPackage_from_bytes_at kb 0 = Inr (kp_canon kp, length kb)" using reads_start [OF roundtripsD [OF rt_KeyPackage kb], of "[]"] by simp
  have kn: "newcomer_keys demo_crypto (kp_canon kp) (skey 4) demo_kem" "package_room demo_crypto (kp_canon kp)"
    using kp by (simp_all add: newcomer_keys_def package_room_def kp_canon_def node_room_def KeyPackage_to_bytes_def del: cat_res.simps)
  have kv: "KeyPackage_verify_signature demo_crypto (kp_canon kp) = Inr ()" using kp(3) by simp
  let ?d = "[''a'' \<mapsto> stored ab, ''b'' \<mapsto> stored eb, ''n'' \<mapsto> stored (replicate 32 4 @ replicate 32 7), ''p'' \<mapsto> stored kb]"
  have tr: "tree_equiv (g_tree b') (g_tree (reloaded a'))" "g_epoch_id (reloaded a') = 2"
    using t(2,10) same_epoch_trans [of b' a' "reloaded a'"] reloaded_epoch [of a'] by (auto simp: members_in_step_def same_epoch_def)
  have A: "demo_member (reloaded a')"
    using demo_member_same [OF m(1) reloaded_epoch] member_ok_reloaded m(1) by (simp add: demo_member_def)
  have B: "demo_keys (reloaded a')" "g_consumed_key_packages (reloaded a') = {}" using t(5,7) by (simp_all add: demo_keys_def reloaded_def)
  have N: "num_leaves (g_tree (reloaded a')) \<le> 4" using tr(1) t(9) tree_equivD(1) by metis
  show ?thesis
  proof (rule that [of ?d])
    show "read_state ''a'' ?d = Inr (reloaded a')" "read_state ''b'' ?d = Inr (reloaded e)" "read_file ''p'' ?d = Inr kb"
      by (simp_all add: read_state_def read_file_def stored_def ab eb)
    show "read_priv ''n'' ?d = Inr (skey 4, demo_kem)"
      by (simp add: read_priv_def read_file_def stored_def slice_def sig_from_private_bytes_def kem_from_private_bytes_def demo_kem_def)
  qed (fact A B N kc kn kv tr(2) signers_equiv [OF tr(1) t(11)] reloaded_in_step [OF t(4)])+
qed

text \<open>Commits of the example member: the new tree has one key, and the state is written.\<close>

lemma demo_updates:
  assumes "demo_member A" "demo_keys A" "g_consumed_key_packages A = {}" "g_epoch_id A < 100"
  obtains A' u cb where "fst (update_key demo_crypto demo_ent A) = Inr (A', u)" "bindR (wrap_commit u) MLSMessage_to_bytes = Inr cb"
    "refs_identify (gu_tree u)" "\<exists>bs. MLSGroup_to_bytes A' = Inr bs"
proof -
  have ok: "member_ok demo_crypto A" "group_room demo_crypto A" "one_key (g_tree A)" using assms(1) by (simp_all add: demo_member_def)
  have wf: "tree_wf (g_tree A)" "0 \<le> g_my_index A" using ok(1) by (simp_all add: member_ok_def tree_good_def holds_leaf_def)
  obtain A' u cb where r: "fst (update_key demo_crypto demo_ent A) = Inr (A', u)" "bindR (wrap_commit u) MLSMessage_to_bytes = Inr cb"
    "g_epoch_id A + 2 < 2 ^ 64 \<longrightarrow> group_room demo_crypto A'" by (rule update_key_ok [OF demo_working(1) ok(2,1) demo_working(3)])
  show ?thesis
  proof (rule update_key_log [OF r(1) wf(1)])
    fix rk ctx upns secrets sc cf
    assume l: "commit_log demo_crypto demo_ent A ((g_tree A)\<lparr>frozen := False\<rparr>) rk ctx upns secrets sc cf"
      "A' = next_group A cf (ent_committer_kem demo_ent)" "u = attach_context A sc cf (cf_tag cf)"
    note p = prepared_update [OF ok(1)]
    note T = commit_log_tree [OF l(1) demo_crypto_laws(1) p wf(2)] and N = committer_ok [OF l(1) demo_crypto_laws(1) p wf(2)]
    have refs: "refs_identify (gu_tree u)" by (rule demo_update_refs [OF assms(1) r(1)])
    obtain k where "cf_state cf = EpochState_init (g_group_id A) (g_epoch_id A + 1) (rk_tree rk) k" "schedule_wf k" using T(7) by blast
    then have "schedule_wf (g_schedule A')" "g_consumed_key_packages A' = {}"
      using assms(3) by (simp_all add: l(2) next_group_def MLSGroup_init_def EpochState_init_def)
    then have "\<exists>bs. MLSGroup_to_bytes A' = Inr bs" using room_persists [of demo_crypto A'] r(3) assms(4) N(1) by (simp add: l(2))
    with that r(1,2) refs show ?thesis by blast
  qed
qed

lemma demo_adds:
  assumes "demo_member A" "demo_keys A" "g_consumed_key_packages A = {}" "g_epoch_id A < 100" "num_leaves (g_tree A) \<le> 2048"
    and "newcomer_keys demo_crypto kp sk demo_kem" "package_room demo_crypto kp" "KeyPackage_verify_signature demo_crypto kp = Inr ()"
  obtains A' W u cb wb where "fst (add_member demo_crypto demo_ent A kp) = Inr (A', W, u)" "bindR (wrap_commit u) MLSMessage_to_bytes = Inr cb"
    "Welcome_to_bytes REGISTRY W = Inr wb" "refs_identify (gu_tree u)" "\<exists>bs. MLSGroup_to_bytes A' = Inr bs"
proof -
  have ok: "member_ok demo_crypto A" "group_room demo_crypto A" "one_key (g_tree A)" using assms(1) by (simp_all add: demo_member_def)
  have src: "leaf_node_source (leaf_node kp) = LEAF_NODE_SOURCE_KEY_PACKAGE"
    and lk: "encryption_key (leaf_node kp) = kem_public_bytes demo_crypto demo_kem" using assms(6) by (simp_all add: newcomer_keys_def)
  obtain r where ref: "make_kp_ref kp = Inr r" "length r = 32" using assms(7) make_kp_ref_fits [of kp] unfolding package_room_def by blast
  have rc: "r \<notin> g_consumed_key_packages A" using assms(3) by simp
  obtain A' W u cb where a: "fst (add_member demo_crypto demo_ent A kp) = Inr (A', W, u)" "bindR (wrap_commit u) MLSMessage_to_bytes = Inr cb"
    "g_epoch_id A + 2 < 2 ^ 64 \<longrightarrow> group_room demo_crypto A'" "\<exists>wb. Welcome_to_bytes REGISTRY W = Inr wb"
    by (rule add_member_ok [OF demo_working(1) ok(2,1) demo_working(3) assms(5,7,8) src ref(1) rc])
  have n31: "num_leaves (g_tree A) < 2 ^ 31" using assms(5) by simp
  show ?thesis
  proof (rule add_member_log [OF a(1) ok(1) demo_crypto_laws(1) n31 src])
    fix ref t i rk ctx upns secrets sc cf
    let ?A = "A\<lparr>g_consumed_key_packages := insert ref (g_consumed_key_packages A)\<rparr>"
    assume l: "prepared demo_crypto A t" "0 \<le> i \<and> i < num_leaves t \<and> get_node t (2 * i) = Some (Leaf (leaf_node kp))"
      "\<forall>j. j \<noteq> i \<longrightarrow> get_node t (2 * j) = get_node (g_tree A) (2 * j)"
      "commit_log demo_crypto demo_ent ?A t rk ctx upns secrets sc cf" "A' = next_group ?A cf (ent_committer_kem demo_ent)"
      "u = attach_context ?A sc cf (cf_tag cf)" and kr: "make_kp_ref kp = Inr ref"
    have p: "prepared demo_crypto ?A t" "0 \<le> g_my_index ?A" using l(1) ok(1) by (simp_all add: member_ok_def holds_leaf_def)
    note T = commit_log_tree [OF l(4) demo_crypto_laws(1) p] and N = committer_ok [OF l(4) demo_crypto_laws(1) p]
    have "one_key (rk_tree rk)"
    proof (rule demo_commit_keys [OF l(4) p])
      fix j m assume "get_node t (2 * j) = Some (Leaf m)"
      with l(2,3) lk ok(3) show "encryption_key m = kem_public_bytes demo_crypto demo_kem" by (cases "j = i") (auto simp: one_key_def)
    qed
    moreover have "gu_tree u = rk_tree rk"
      using l(4,6) by (auto simp: commit_log_def attach_context_def GroupUpdate_init_def elim!: sign_commit_facts)
    ultimately have refs: "refs_identify (gu_tree u)" using one_key_refs by simp
    obtain k where "cf_state cf = EpochState_init (g_group_id ?A) (g_epoch_id ?A + 1) (rk_tree rk) k" "schedule_wf k" using T(7) by blast
    then have s: "schedule_wf (g_schedule A')" "g_consumed_key_packages A' = {r}"
      using assms(3) kr ref(1) by (simp_all add: l(5) next_group_def MLSGroup_init_def EpochState_init_def)
    have "\<exists>cb. cat_res (map tls_opaque [r]) = Inr cb \<and> length cb < 2 ^ 32"
    proof -
      have "fits ((4 + 32) + 0) (cat_res [tls_opaque r])" by (intro fit_rules) (use ref(2) in simp_all)
      then show ?thesis by (auto elim!: fitsE simp del: cat_res.simps)
    qed
    then have "\<exists>bs. MLSGroup_to_bytes A' = Inr bs"
      using room_persists [of demo_crypto A'] a(3) assms(4) N(1) s by (simp add: l(5))
    with that a(1,2,4) refs show ?thesis by blast
  qed
qed

section \<open>Properties\<close>

text \<open>C25: what a command may do to the files. Whether it returns or raises, a command changes no file
  but its outputs; if it changes any, its state or private key file has the mode 0600 afterwards,
  even if it existed with another mode or is named as a public output as well; and a command that
  writes only a state file and raises has changed nothing.\<close>

theorem cli_effects:
  "(\<forall>p. p \<notin> secret_outputs c \<union> public_outputs c \<longrightarrow> snd (main C w c d) p = d p)
   \<and> (snd (main C w c d) \<noteq> d \<longrightarrow> (\<forall>p\<in>secret_outputs c. \<exists>f. snd (main C w c d) p = Some f \<and> file_mode f = OWNER_ONLY))
   \<and> (public_outputs c = {} \<and> isl (fst (main C w c d)) \<longrightarrow> snd (main C w c d) = d)"
  using main_settled [of c d C w] main_all_or_nothing [of c C w d] by (auto simp: settled_def isl_def)

theorem cli_effects_witness:
  "\<exists>f. snd (main demo_crypto demo_world (Keygen ''bob'') Map.empty) ''bob.priv'' = Some f \<and> file_mode f = OWNER_ONLY"
proof -
  have "snd (main demo_crypto demo_world (Keygen ''bob'') Map.empty) ''bob.priv'' \<noteq> None" by code_simp
  then have "snd (main demo_crypto demo_world (Keygen ''bob'') Map.empty) \<noteq> Map.empty" by auto
  with cli_effects [of "Keygen ''bob''" demo_crypto demo_world Map.empty] show ?thesis by auto
qed

text \<open>A key update by files. Two members of one epoch have their state files; one runs
  update-key. Then apply-commit on the other's state file with the commit file returns, and both
  state files hold members of one epoch again, the next one.\<close>

theorem cli_update_applied:
  assumes "crypto_laws C" "read_state pa d = Inr A" "read_state pb d = Inr B" "members_in_step C A B" "pa \<noteq> pb" "c \<noteq> pa" "c \<noteq> pb"
    and "length (kem_private (ent_committer_kem (cw_entropy w))) = 32"
    and "\<forall>A' u. fst (update_key C (cw_entropy w) A) = Inr (A', u) \<longrightarrow> refs_identify (gu_tree u)"
    and "main C w (Update_key pa c None) d = (Inr (), d1)"
  shows "\<exists>d2 A' B'. main C w' (Apply_commit pb c None) d1 = (Inr (), d2) \<and> read_state pa d2 = Inr A' \<and> read_state pb d2 = Inr B'
     \<and> members_in_step C A' B' \<and> g_epoch_id A' = g_epoch_id A + 1"
proof (rule cli_update_runs [OF assms(10,2)])
  fix A' u abytes cbytes
  assume a: "fst (update_key C (cw_entropy w) A) = Inr (A', u)" "MLSGroup_to_bytes A' = Inr abytes"
    "bindR (wrap_commit u) MLSMessage_to_bytes = Inr cbytes" and d1: "d1 = snd (write_opened (cw_mode w) c (Inr cbytes) (write_secret pa abytes d))"
  have A: "member_ok C A" "signatures_verify C" "loaded_ok A" "fit_member C A"
    using assms(1,4) read_state_ok [OF assms(2)] by (simp_all add: members_in_step_def crypto_laws_def fit_member_def)
  have s: "sends_commit C A cbytes A'" using a(1,3) assms(9) by (auto simp: sends_commit_def on_wire_def)
  obtain B' where B': "receives_commit C B cbytes B'" using protocol.commit_received [OF A(4) assms(4) s] by blast
  have st: "members_in_step C A' B'" using protocol.commit_in_step [OF A(4) assms(4) s B'] by blast
  note p = update_key_persistable [OF a(1) A(1-3) assms(8)]
  have ca: "read_file c d1 = Inr cbytes" unfolding d1 by (rule write_opened_same(2)) simp
  have "read_state pb d1 = Inr B" using read_state_cong [of d1 pb d] assms(3,5,7) by (simp add: d1)
  from apply_commit_from_files [OF this ca B' st p a(2)] obtain bbytes where
    b: "main C w' (Apply_commit pb c None) d1 = (Inr (), write_secret pb bbytes d1)" "read_state pb (write_secret pb bbytes d1) = Inr (reloaded B')" .
  have "read_state pa (write_secret pb bbytes d1) = read_state pa (write_secret pa abytes d)"
    using assms(5,6) by (intro read_state_cong) (simp add: d1)
  then have "read_state pa (write_secret pb bbytes d1) = Inr (reloaded A')" using write_state_reads(2) [OF p a(2)] by simp
  moreover have "g_epoch_id A' = g_epoch_id A + 1"
  proof (rule update_key_log [OF a(1)])
    show "tree_wf (g_tree A)" using A(1) by (simp add: member_ok_def tree_good_def)
    fix rk ctx upns secrets sc cf
    assume l: "commit_log C (cw_entropy w) A ((g_tree A)\<lparr>frozen := False\<rparr>) rk ctx upns secrets sc cf" "A' = next_group A cf (ent_committer_kem (cw_entropy w))"
    then show ?thesis using committer_ok(2) [OF l(1) A(2) prepared_update [OF A(1)]] A(1) by (simp add: member_ok_def holds_leaf_def)
  qed
  ultimately show ?thesis using b reloaded_in_step [OF st] by auto
qed

theorem cli_update_applied_witness:
  "\<exists>d A B d1 d2 A' B'. crypto_laws demo_crypto \<and> read_state ''a'' d = Inr A \<and> read_state ''b'' d = Inr B \<and> members_in_step demo_crypto A B
     \<and> main demo_crypto demo_world (Update_key ''a'' ''c'' None) d = (Inr (), d1)
     \<and> main demo_crypto demo_world (Apply_commit ''b'' ''c'' None) d1 = (Inr (), d2)
     \<and> read_state ''a'' d2 = Inr A' \<and> read_state ''b'' d2 = Inr B' \<and> members_in_step demo_crypto A' B' \<and> g_epoch_id A' = g_epoch_id A + 1"
proof -
  obtain d A B where f: "read_state ''a'' d = Inr A" "read_state ''b'' d = Inr B" "members_in_step demo_crypto A B"
    "demo_member A" "demo_keys A" "g_consumed_key_packages A = {}" "g_epoch_id A = 2" by (rule demo_files)
  have "g_epoch_id A < 100" using f(7) by simp
  from demo_updates [OF f(4-6) this] obtain A1 u cb ab where u: "fst (update_key demo_crypto demo_ent A) = Inr (A1, u)"
    "bindR (wrap_commit u) MLSMessage_to_bytes = Inr cb" "refs_identify (gu_tree u)" "MLSGroup_to_bytes A1 = Inr ab" by metis
  have w: "cw_entropy demo_world = demo_ent" "length (kem_private (ent_committer_kem (cw_entropy demo_world))) = 32"
    by (simp_all add: demo_world_def demo_ent_def demo_kem_def)
  have refs: "\<forall>A' v. fst (update_key demo_crypto (cw_entropy demo_world) A) = Inr (A', v) \<longrightarrow> refs_identify (gu_tree v)"
    using u(1,3) by (simp add: w(1))
  obtain d1 where m: "main demo_crypto demo_world (Update_key ''a'' ''c'' None) d = (Inr (), d1)"
    using f(1) u(1,2,4) by (simp add: cmd_update_key_def cli_try_def cli_then_def write_state_def write_commit_def write_opened_def
      out_state_path_def Let_def w(1) del: bindR_eq_Inr)
  have "''a'' \<noteq> ''b''" "''c'' \<noteq> ''a''" "''c'' \<noteq> ''b''" by simp_all
  from cli_update_applied [OF demo_working(2) f(1-3) this w(2) refs m, of demo_world] f(1-3) m demo_working(2) show ?thesis by blast
qed

text \<open>C5: an invitation by files. The members of a group have their state files. One of them, whose
  group has room, runs add-member with the public key file of a newcomer, the newcomer runs
  join-group with the Welcome file and its private key file, and every other member runs apply-commit
  with the commit file. All these commands return, one after the other; afterwards the state files of all members
  and of the newcomer hold members of one epoch, the next one, each at a leaf of its own. Conditions: the
  key package verifies, has source KEY_PACKAGE, carries the newcomer's keys with one KEM key as init key and leaf key,
  was not consumed, and its signature key is not in the tree; references of the leaves of the new tree
  identify their KEM keys; the files are different.\<close>

theorem cli_invitation_joined:
  assumes C: "working_crypto C"
    and files: "map (\<lambda>p. read_state p d) (pa # pbs) = map Inr (A # Bs)" "all_in_step (fit_member C) (members_in_step C) (A # Bs)"
    and newcomer: "read_priv pp d = Inr (sk, kem)" "read_file pub d = Inr kb" "KeyPackage_from_bytes_at kb 0 = Inr (kp, off)"
      "newcomer_keys C kp sk kem" "package_room C kp" "KeyPackage_verify_signature C kp = Inr ()"
    and new: "\<forall>x l. get_node (g_tree A) x = Some (Leaf l) \<longrightarrow> signature_key l \<noteq> sig_public_bytes C sk"
      "make_kp_ref kp = Inr ref" "ref \<notin> g_consumed_key_packages A"
    and room: "group_room C A" "num_leaves (g_tree A) \<le> 2048" "g_epoch_id A + 2 < 2 ^ 64"
      "card (g_consumed_key_packages A) \<le> 1000000" "\<forall>r\<in>g_consumed_key_packages A. length r \<le> 1000"
    and draws: "length (ent_leaf_path_secret (cw_entropy w)) = 32" "length (kem_private (ent_committer_kem (cw_entropy w))) = 32"
    and refs: "\<forall>A' W u. fst (add_member C (cw_entropy w) A kp) = Inr (A', W, u) \<longrightarrow> refs_identify (gu_tree u)"
    and paths: "distinct ([pa, pp, wel, com, out] @ pbs)"
  shows "\<exists>d' A' Bs' N.
     run_commands C ((w, Add_member pa pub wel com None) # (w', Join_group wel pp out) # map (\<lambda>pb. (w', Apply_commit pb com None)) pbs) d
       = (Inr (), d')
     \<and> map (\<lambda>p. read_state p d') (pa # pbs @ [out]) = map Inr (A' # Bs' @ [N])
     \<and> all_in_step (fit_member C) (members_in_step C) (A' # Bs' @ [N]) \<and> g_epoch_id A' = g_epoch_id A + 1"
proof -
  have ne: "pa \<noteq> wel" "pa \<noteq> com" "pa \<noteq> out" "pp \<notin> {pa, wel, com}" "wel \<noteq> com" "com \<noteq> out"
    "distinct pbs" "pa \<notin> set pbs" "com \<notin> set pbs" "out \<notin> set pbs" "set pbs \<inter> {pa, wel, com, out} = {}"
    using paths by auto
  have lb: "length Bs = length pbs" using map_eq_imp_length_eq [OF files(1)] by simp
  have A: "read_state pa d = Inr A" and m: "map (\<lambda>p. read_state p d) pbs = map Inr Bs" using files(1) by simp_all
  have fit: "fit_member C A" using files(2) by (simp add: all_in_step_def)
  then have ok: "signatures_verify C" "member_ok C A" by (simp_all add: fit_member_def crypto_laws_def)
  have n31: "num_leaves (g_tree A) < 2 ^ 31" using room(2) by simp
  have src: "leaf_node_source (leaf_node kp) = LEAF_NODE_SOURCE_KEY_PACKAGE" using newcomer(4) by (simp add: newcomer_keys_def)
  have rlen: "length ref = 32"
    using newcomer(5) new(2) make_kp_ref_fits [of kp] unfolding package_room_def by (metis sum.inject(2))
  obtain A' W u cb wb where a: "fst (add_member C (cw_entropy w) A kp) = Inr (A', W, u)" "bindR (wrap_commit u) MLSMessage_to_bytes = Inr cb"
    "g_epoch_id A + 2 < 2 ^ 64 \<longrightarrow> group_room C A'" and wb: "Welcome_to_bytes REGISTRY W = Inr wb"
    using add_member_ok [OF C room(1) ok(2) draws(1) room(2) newcomer(5,6) src new(2,3)] by metis
  have lo: "loaded_ok A" by (rule read_state_ok [OF A])
  obtain ab where ab: "MLSGroup_to_bytes A' = Inr ab"
    using added_writes [OF a(1) ok(2,1) n31 src _ new(2) rlen _ room(4,5)] a(3) room(3) lo by (auto simp: loaded_ok_def)
  have inv: "sends_invitation C A cb (W, sk, kem) A'"
    using a(1,2) n31 newcomer(4) new(1) refs by (auto simp: sends_invitation_def on_wire_def)
  obtain Bs' n where M: "length Bs' = length Bs" "\<forall>j<length Bs. receives_commit C (Bs ! j) cb (Bs' ! j)"
    "\<forall>j<length Bs. members_in_step C A' (Bs' ! j)" "join C W sk kem None None = Inr n" "members_in_step C A' n"
    "all_in_step (fit_member C) (members_in_step C) (A' # Bs' @ [n])" by (rule invited_members [OF files(2) inv])
  note P = added_persistable [OF a(1) ok(2,1) n31 src lo draws(2)]
  define d1 where "d1 = snd (write_opened (cw_mode w) com (Inr cb) (snd (write_opened (cw_mode w) wel (Inr wb) (write_secret pa ab d))))"
  note D = written_invitation [OF d1_def P(1) ab ne(1,2,5)]
  have pp: "read_priv pp d1 = Inr (sk, kem)" using newcomer(1) D(4) [OF ne(4)] by (simp add: read_priv_def read_file_def)
  obtain nb where J: "main C w' (Join_group wel pp out) d1 = (Inr (), write_secret out nb d1)"
    "read_state out (write_secret out nb d1) = Inr (reloaded n)"
    by (rule join_from_files [OF pp D(1) wb P(3) M(4,5) P(1) ab P(2)])
  let ?d2 = "write_secret out nb d1"
  have B: "read_state (pbs ! j) ?d2 = Inr (Bs ! j)" if j: "j < length pbs" for j
  proof -
    have "pbs ! j \<notin> {pa, wel, com, out}" using ne(11) nth_mem [OF j] by blast
    then have "?d2 (pbs ! j) = d (pbs ! j)" using D(4) by simp
    from read_state_cong [of ?d2 "pbs ! j" d, OF this] show ?thesis using arg_cong [OF m, of "\<lambda>rs. rs ! j"] lb j by simp
  qed
  have c2: "read_file com ?d2 = Inr cb" using read_file_cong [of ?d2 com d1] D(2) ne(6) by simp
  obtain d' where E: "run_commands C (map (\<lambda>pb. (w', Apply_commit pb com None)) pbs) ?d2 = (Inr (), d')"
    "map (\<lambda>p. read_state p d') pbs = map Inr (map reloaded Bs')" "\<forall>p. p \<notin> set pbs \<longrightarrow> d' p = ?d2 p"
    by (rule invitation_applied [OF B lb M(1-3) [unfolded lb] c2 P(1) ab ne(7,9)])
  have "read_state pa d' = Inr (reloaded A')" "read_state out d' = Inr (reloaded n)"
    using read_state_cong [of d' pa d1] read_state_cong [of d' out ?d2] E(3) ne(3,8,10) D(3) J(2) by simp_all
  with E(2) have "map (\<lambda>p. read_state p d') (pa # pbs @ [out]) = map Inr (reloaded A' # map reloaded Bs' @ [reloaded n])" by simp
  moreover have "run_commands C ((w, Add_member pa pub wel com None) # (w', Join_group wel pp out) # map (\<lambda>pb. (w', Apply_commit pb com None)) pbs) d
       = (Inr (), d')"
    using cli_add_returns [OF A newcomer(2,3) a(1) ab wb a(2)] J(1) E(1) by (simp add: cli_then_def d1_def del: main.simps)
  moreover have "all_in_step (fit_member C) (members_in_step C) (reloaded A' # map reloaded Bs' @ [reloaded n])"
    using all_in_step_reloaded [OF M(6)] by simp
  moreover have "g_epoch_id (reloaded A') = g_epoch_id A + 1" using P(4) by simp
  ultimately show ?thesis
    by - (rule exI [of _ d'], rule exI [of _ "reloaded A'"], rule exI [of _ "map reloaded Bs'"], rule exI [of _ "reloaded n"], blast)
qed

theorem cli_invitation_joined_witness:
  "\<exists>d A B d' A' B' N. read_state ''a'' d = Inr A \<and> read_state ''b'' d = Inr B \<and> members_in_step demo_crypto A B
     \<and> run_commands demo_crypto [(demo_world, Add_member ''a'' ''p'' ''w'' ''c'' None), (demo_world, Join_group ''w'' ''n'' ''o''),
          (demo_world, Apply_commit ''b'' ''c'' None)] d = (Inr (), d')
     \<and> read_state ''a'' d' = Inr A' \<and> read_state ''b'' d' = Inr B' \<and> read_state ''o'' d' = Inr N
     \<and> all_in_step (fit_member demo_crypto) (members_in_step demo_crypto) [A', B', N] \<and> g_epoch_id A' = g_epoch_id A + 1"
proof -
  obtain d A B kb kp where f: "read_state ''a'' d = Inr A" "read_state ''b'' d = Inr B" "members_in_step demo_crypto A B"
    "demo_member A" "demo_keys A" "g_consumed_key_packages A = {}" "g_epoch_id A = 2" "num_leaves (g_tree A) \<le> 4"
    "signers (g_tree A) {pkey 3, pkey 2, pkey 1}" "read_priv ''n'' d = Inr (skey 4, demo_kem)"
    "read_file ''p'' d = Inr kb" "KeyPackage_from_bytes_at kb 0 = Inr (kp, length kb)" "newcomer_keys demo_crypto kp (skey 4) demo_kem"
    "package_room demo_crypto kp" "KeyPackage_verify_signature demo_crypto kp = Inr ()" by (rule demo_files)
  have e: "g_epoch_id A < 100" "num_leaves (g_tree A) \<le> 2048" "g_epoch_id A + 2 < 2 ^ 64" "group_room demo_crypto A"
    using f(4,7,8) by (simp_all add: demo_member_def)
  obtain A1 W u where a: "fst (add_member demo_crypto demo_ent A kp) = Inr (A1, W, u)" "refs_identify (gu_tree u)"
    using demo_adds [OF f(4-6) e(1,2) f(13-15)] by metis
  have w: "cw_entropy demo_world = demo_ent" "length (ent_leaf_path_secret (cw_entropy demo_world)) = 32"
    "length (kem_private (ent_committer_kem (cw_entropy demo_world))) = 32"
    using demo_working(3) by (simp_all add: demo_world_def demo_ent_def demo_kem_def)
  have refs: "\<forall>A' V v. fst (add_member demo_crypto (cw_entropy demo_world) A kp) = Inr (A', V, v) \<longrightarrow> refs_identify (gu_tree v)"
    using a by (simp add: w(1))
  obtain ref where ref: "make_kp_ref kp = Inr ref" using f(14) make_kp_ref_fits [of kp] unfolding package_room_def by blast
  have sg: "\<forall>x l. get_node (g_tree A) x = Some (Leaf l) \<longrightarrow> signature_key l \<noteq> pkey 4"
    using f(9) pkey_4 unfolding signers_def by metis
  have ms: "all_in_step (fit_member demo_crypto) (members_in_step demo_crypto) [A, B]"
    using f(3) protocol.in_step_sym [OF f(3)] demo_working(2)
    by (auto simp: all_in_step_def fit_member_def members_in_step_def less_Suc_eq)
  have fs: "map (\<lambda>p. read_state p d) (''a'' # [''b'']) = map Inr (A # [B])" using f(1,2) by simp
  have ds: "distinct ([''a'', ''n'', ''w'', ''c'', ''o''] @ [''b''])" by simp
  obtain d' A' Bs' N where r:
    "run_commands demo_crypto ((demo_world, Add_member ''a'' ''p'' ''w'' ''c'' None) # (demo_world, Join_group ''w'' ''n'' ''o'') #
        map (\<lambda>pb. (demo_world, Apply_commit pb ''c'' None)) [''b'']) d = (Inr (), d')"
    "map (\<lambda>p. read_state p d') (''a'' # [''b''] @ [''o'']) = map Inr (A' # Bs' @ [N])"
    "all_in_step (fit_member demo_crypto) (members_in_step demo_crypto) (A' # Bs' @ [N])" "g_epoch_id A' = g_epoch_id A + 1"
    using cli_invitation_joined [OF demo_working(1) fs ms f(10-15) sg ref _ e(4,2,3) _ _ w(2,3) refs ds, of demo_world] f(6)
    by (metis (no_types, lifting) card.empty empty_iff zero_le)
  obtain B' where B': "Bs' = [B']" using arg_cong [OF r(2), of length] by (auto simp: length_Suc_conv eq_commute [of "Suc 0"])
  show ?thesis
    by (rule exI [of _ d], rule exI [of _ A], rule exI [of _ B], rule exI [of _ d'], rule exI [of _ A'], rule exI [of _ B'], rule exI [of _ N])
      (use f(1-3) r B' in \<open>simp del: run_commands.simps\<close>)
qed

text \<open>Keys by files. After keygen with keys of 32 bytes, the private key file gives back both keys,
  and the public file parses to a key package that verifies, carries the public keys, and is fit for
  an invitation.\<close>

theorem cli_keygen_usable:
  assumes "signatures_verify C" "length (sig_private (cw_sig_key w)) = 32" "length (kem_private (cw_kem_key w)) = 32"
    and "main C w (Keygen nm) d = (Inr (), d1)"
  shows "read_priv (nm @ ''.priv'') d1 = Inr (cw_sig_key w, cw_kem_key w)
     \<and> (\<exists>kb kp. read_file (nm @ ''.pub'') d1 = Inr kb \<and> KeyPackage_from_bytes_at kb 0 = Inr (kp, length kb)
          \<and> KeyPackage_verify_signature C kp = Inr () \<and> newcomer_keys C kp (cw_sig_key w) (cw_kem_key w))"
proof -
  let ?sk = "cw_sig_key w" and ?kem = "cw_kem_key w"
  from assms(4) obtain kp kb where kp: "KeyPackage_create (kem_public_bytes C ?kem) (kem_public_bytes C ?kem) (sig_public_bytes C ?sk)
       (encode_str nm) (sig_sign C ?sk) = Inr kp" "KeyPackage_to_bytes kp = Inr kb"
    and d1: "d1 = snd (write_opened (cw_mode w) (nm @ ''.pub'') (Inr kb)
       (write_secret (nm @ ''.priv'') (sig_private_bytes ?sk @ kem_private_bytes ?kem) d))"
    by (auto simp: cmd_keygen_def cli_try_def write_opened_def Let_def split: sum.splits)
  have pv: "read_file (nm @ ''.priv'') d1 = Inr (sig_private_bytes ?sk @ kem_private_bytes ?kem)"
    unfolding d1 by (subst read_file_cong [of _ _ "write_secret (nm @ ''.priv'') (sig_private_bytes ?sk @ kem_private_bytes ?kem) d"]) simp_all
  have "read_priv (nm @ ''.priv'') d1 = Inr (?sk, ?kem)"
    using sig_private_roundtrip [OF assms(2)] kem_private_roundtrip [OF assms(3)] assms(2,3)
    by (simp add: read_priv_def pv sig_private_bytes_def kem_private_bytes_def slice_def)
  moreover have "read_file (nm @ ''.pub'') d1 = Inr kb" unfolding d1 by (rule write_opened_same(2)) simp
  moreover have "KeyPackage_from_bytes_at kb 0 = Inr (kp_canon kp, length kb)"
    using reads_start [OF roundtripsD [OF rt_KeyPackage kp(2)], of "[]"] by simp
  moreover have "KeyPackage_verify_signature C (kp_canon kp) = Inr ()" using created_package_verifies(1) [OF assms(1) kp(1)] by simp
  moreover have "newcomer_keys C (kp_canon kp) ?sk ?kem"
    using kp(1) by (auto simp: newcomer_keys_def kp_canon_def leaf_canon_def KeyPackage_create_def LeafNode_create_def LeafNode_sign_def Let_def)
  ultimately show ?thesis by blast
qed

theorem cli_keygen_usable_witness:
  "\<exists>d1. signatures_verify demo_crypto \<and> length (sig_private (cw_sig_key demo_world)) = 32 \<and> length (kem_private (cw_kem_key demo_world)) = 32
     \<and> main demo_crypto demo_world (Keygen ''bob'') Map.empty = (Inr (), d1)
     \<and> read_priv ''bob.priv'' d1 = Inr (cw_sig_key demo_world, cw_kem_key demo_world)
     \<and> (\<exists>kb kp. read_file ''bob.pub'' d1 = Inr kb \<and> KeyPackage_from_bytes_at kb 0 = Inr (kp, length kb)
          \<and> newcomer_keys demo_crypto kp (skey 4) demo_kem)"
proof -
  have k: "length (sig_private (cw_sig_key demo_world)) = 32" "length (kem_private (cw_kem_key demo_world)) = 32"
    "cw_sig_key demo_world = skey 4" "cw_kem_key demo_world = demo_kem"
    by (simp_all add: demo_world_def demo_kem_def)
  have "\<not> isl (fst (main demo_crypto demo_world (Keygen ''bob'') Map.empty))" by code_simp
  then obtain d1 where m: "main demo_crypto demo_world (Keygen ''bob'') Map.empty = (Inr (), d1)"
    using not_isl_Inr by (metis prod.collapse unit.exhaust)
  from cli_keygen_usable [OF demo_crypto_laws(1) k(1,2) m] k m demo_crypto_laws(1) show ?thesis by auto
qed

end
