(* ===== verification/CommitSafety.thy ===== *)
theory CommitSafety
  imports GroupRuns
begin

text \<open>
  The operations of class \<open>MLSGroup\<close> against wrong use and against an adversary: what a member makes of
  tampered, repeated and forged commits and of repeated key packages, which key a newcomer keeps, and
  where a new member is placed.
\<close>

section \<open>Lemmas\<close>

text \<open>An object that refuses a key package as used.\<close>

definition refuses_package :: "crypto \<Rightarrow> KeyPackage \<Rightarrow> MLSGroup \<Rightarrow> bool" where
  "refuses_package C kp g \<longleftrightarrow> (\<forall>ent. add_member C ent g kp = (Inl (ValueError ''KeyPackage Replay''), g))"

lemma refuses_package_iff:
  assumes "make_kp_ref kp = Inr ref"
  shows "refuses_package C kp g \<longleftrightarrow> ref \<in> g_consumed_key_packages g"
proof
  show "refuses_package C kp g" if "ref \<in> g_consumed_key_packages g"
    using that assms by (simp add: refuses_package_def add_member_def)
  show "ref \<in> g_consumed_key_packages g" if "refuses_package C kp g"
  proof (rule ccontr)
    assume n: "ref \<notin> g_consumed_key_packages g"
    have w: "g_consumed_key_packages (wipe_secret_tree x) = g_consumed_key_packages x" for x
      by (simp add: wipe_secret_tree_def split: option.split)
    have "g_consumed_key_packages (snd (add_member C ent g kp)) = insert ref (g_consumed_key_packages g)" for ent
      using n assms by (auto simp: add_member_def Let_def w split: sum.split)
    with n that show False unfolding refuses_package_def by (metis insertI1 snd_conv)
  qed
qed

lemma commits_keep_consumed:
  "fst (update_key C ent g) = Inr (g', u) \<Longrightarrow> g_consumed_key_packages g' = g_consumed_key_packages g"
  "fst (remove_member C ent g i) = Inr (g', u) \<Longrightarrow> g_consumed_key_packages g' = g_consumed_key_packages g"
  "fst (add_member C ent g kp) = Inr (g', w, u) \<Longrightarrow> g_consumed_key_packages g \<subseteq> g_consumed_key_packages g'"
proof -
  have t: "g_consumed_key_packages x = g_consumed_key_packages y" if "commit_tree C ent y t kem = Inr (x, v)" for x y v t kem
    using that by (auto simp: commit_tree_def Let_def next_group_def)
  show "g_consumed_key_packages g' = g_consumed_key_packages g" if "fst (update_key C ent g) = Inr (g', u)"
    using that t by (auto simp: update_key_def split: sum.splits)
  show "g_consumed_key_packages g' = g_consumed_key_packages g" if "fst (remove_member C ent g i) = Inr (g', u)"
    using that t by (auto simp: remove_member_def split: sum.splits if_splits)
  show "g_consumed_key_packages g \<subseteq> g_consumed_key_packages g'" if a: "fst (add_member C ent g kp) = Inr (g', w, u)"
  proof (rule add_member_commits [OF a])
    fix ref assume "add_commit C ent (g\<lparr>g_consumed_key_packages := insert ref (g_consumed_key_packages g)\<rparr>) kp = Inr (g', w, u)"
    then show ?thesis by (auto simp: add_commit_def Let_def next_group_def)
  qed
qed

text \<open>\<open>process_update\<close> in two parts: what comes before the tags, and the tags.\<close>

definition commit_front :: "crypto \<Rightarrow> MLSGroup \<Rightarrow> GroupUpdate \<Rightarrow> (bytes \<times> bytes \<times> bytes) res" where
  "commit_front C g u =
     (if gu_group_id u \<noteq> g_group_id g then Inl (ValueError ''GroupUpdate group_id mismatch'')
      else if gu_epoch_id u \<noteq> g_epoch_id g + 1 then Inl (ValueError ''Out of order update'')
      else case get_node (g_tree g) (2 * gu_committer_index u) of
        Some (Leaf committer) \<Rightarrow>
          bindR (verify_leaves C (g_group_id g) (gu_tree u) (map int [0..<nat (num_leaves (gu_tree u))])) (\<lambda>_.
          case get_node (g_tree g) (2 * g_my_index g) of
            Some (Leaf my_kp) \<Rightarrow>
              bindR (make_group_context (g_group_id g) (gu_epoch_id u) (gu_tree u) (g_interim_transcript_hash g)) (\<lambda>ctx.
              bindR (make_kp_ref (LeafNode_key_package my_kp)) (\<lambda>r.
              bindR (path_commit_secret C g u ctx) (\<lambda>found.
              bindR (case found of Some s \<Rightarrow> Inr s | None \<Rightarrow> legacy_commit_secret C g u ctx r) (\<lambda>secret.
              bindR (GroupUpdate_body_bytes u) (\<lambda>content.
              let framed = framed_commit g (gu_committer_index u) content in
              bindR (FramedContent_to_bytes framed) (\<lambda>fb.
              bindR (verify_commit_signature C g committer framed (gu_signature u)) (\<lambda>tbs. Inr (secret, fb, tbs))))))))
          | _ \<Rightarrow> Inl (ValueError ''My leaf node not found in tree''))
      | _ \<Rightarrow> Inl (ValueError ''Invalid committer index''))"

definition commit_tags :: "MLSGroup \<Rightarrow> GroupUpdate \<Rightarrow> bytes \<times> bytes \<times> bytes \<Rightarrow> MLSGroup res" where
  "commit_tags g u = (\<lambda>(secret, fb, tbs).
     case gu_membership_tag u of
       None \<Rightarrow> Inl (ValueError ''membership_tag absent'')
     | Some mem_tag \<Rightarrow>
         if hmac_digest sha256 (membership_key (g_schedule g)) tbs \<noteq> mem_tag
         then Inl (ValueError ''Membership tag mismatch'')
         else
           bindR (confirmed_transcript_hash_input fb (gu_signature u)) (\<lambda>confirmed_input.
           let th = compute_confirmed_transcript_hash (g_interim_transcript_hash g) confirmed_input in
           bindR (provisional_tag g (gu_epoch_id u) (gu_tree u) secret th) (\<lambda>conf_tag.
           case gu_confirmation_tag u of
             None \<Rightarrow> Inl (ValueError ''Confirmation tag absent'')
           | Some tag \<Rightarrow>
               if conf_tag \<noteq> tag then Inl (ValueError ''Confirmation tag mismatch'')
               else
                 bindR (make_group_context (g_group_id g) (gu_epoch_id u) (gu_tree u) th) (\<lambda>ctx_verify.
                 bindR (GroupContext_to_bytes ctx_verify) (\<lambda>ctx_bytes.
                 bindR (advance_epoch (g_state g) secret (gu_tree u) ctx_bytes None) (\<lambda>next_state.
                 Inr (MLSGroup_init next_state (g_my_index g) (g_my_sig_key g) (g_my_kem_key g)
                   (compute_interim_transcript_hash th conf_tag))))))))"

lemma process_commit_parts: "process_commit C g u = bindR (commit_front C g u) (commit_tags g u)"
  unfolding process_commit_def commit_front_def commit_tags_def Let_def
  by (simp add: bindR_assoc split: option.split Node.split)

lemma tag_frame:
  "gu_epoch_id (u\<lparr>gu_membership_tag := m\<rparr>) = gu_epoch_id u" "gu_tree (u\<lparr>gu_membership_tag := m\<rparr>) = gu_tree u"
  "gu_encrypted_commit_secrets (u\<lparr>gu_membership_tag := m\<rparr>) = gu_encrypted_commit_secrets u" "gu_committer_index (u\<lparr>gu_membership_tag := m\<rparr>) = gu_committer_index u"
  "gu_signature (u\<lparr>gu_membership_tag := m\<rparr>) = gu_signature u" "gu_group_id (u\<lparr>gu_membership_tag := m\<rparr>) = gu_group_id u"
  "gu_update_path (u\<lparr>gu_membership_tag := m\<rparr>) = gu_update_path u"
  "gu_epoch_id (u\<lparr>gu_confirmation_tag := m\<rparr>) = gu_epoch_id u" "gu_tree (u\<lparr>gu_confirmation_tag := m\<rparr>) = gu_tree u"
  "gu_encrypted_commit_secrets (u\<lparr>gu_confirmation_tag := m\<rparr>) = gu_encrypted_commit_secrets u" "gu_committer_index (u\<lparr>gu_confirmation_tag := m\<rparr>) = gu_committer_index u"
  "gu_signature (u\<lparr>gu_confirmation_tag := m\<rparr>) = gu_signature u" "gu_group_id (u\<lparr>gu_confirmation_tag := m\<rparr>) = gu_group_id u"
  "gu_update_path (u\<lparr>gu_confirmation_tag := m\<rparr>) = gu_update_path u"
  by simp_all

lemma commit_front_tags [simp]:
  "commit_front C g (u\<lparr>gu_membership_tag := m\<rparr>) = commit_front C g u"
  "commit_front C g (u\<lparr>gu_confirmation_tag := m\<rparr>) = commit_front C g u"
  unfolding commit_front_def path_commit_secret_def legacy_commit_secret_def GroupUpdate_body_bytes_def tag_frame
  by (rule refl)+

text \<open>The tags of an accepted commit are what the member computes: any other value is refused.\<close>

lemma accepted_tags:
  assumes "process_commit C g u = Inr g'"
  shows "gu_membership_tag u \<noteq> None" "gu_confirmation_tag u \<noteq> None"
    "m \<noteq> gu_membership_tag u \<Longrightarrow> process_commit C g (u\<lparr>gu_membership_tag := m\<rparr>)
       = Inl (ValueError (if m = None then ''membership_tag absent'' else ''Membership tag mismatch''))"
    "m \<noteq> gu_confirmation_tag u \<Longrightarrow> process_commit C g (u\<lparr>gu_confirmation_tag := m\<rparr>)
       = Inl (ValueError (if m = None then ''Confirmation tag absent'' else ''Confirmation tag mismatch''))"
proof -
  from assms obtain s fb tbs where f: "commit_front C g u = Inr (s, fb, tbs)" and t: "commit_tags g u (s, fb, tbs) = Inr g'"
    by (auto simp: process_commit_parts)
  from t obtain mem ci ct where T: "gu_membership_tag u = Some mem" "hmac_digest sha256 (membership_key (g_schedule g)) tbs = mem"
    "confirmed_transcript_hash_input fb (gu_signature u) = Inr ci" "gu_confirmation_tag u = Some ct"
    "provisional_tag g (gu_epoch_id u) (gu_tree u) s (compute_confirmed_transcript_hash (g_interim_transcript_hash g) ci) = Inr ct"
    by (auto simp: commit_tags_def Let_def split: option.split_asm if_split_asm)
  show "gu_membership_tag u \<noteq> None" "gu_confirmation_tag u \<noteq> None" using T(1,4) by simp_all
  show "m \<noteq> gu_membership_tag u \<Longrightarrow> process_commit C g (u\<lparr>gu_membership_tag := m\<rparr>)
       = Inl (ValueError (if m = None then ''membership_tag absent'' else ''Membership tag mismatch''))"
    using f T(1,2) by (cases m) (auto simp: process_commit_parts commit_tags_def)
  show "m \<noteq> gu_confirmation_tag u \<Longrightarrow> process_commit C g (u\<lparr>gu_confirmation_tag := m\<rparr>)
       = Inl (ValueError (if m = None then ''Confirmation tag absent'' else ''Confirmation tag mismatch''))"
    using f T by (cases m) (auto simp: process_commit_parts commit_tags_def)
qed

lemma accepted_epoch:
  assumes "process_commit C g u = Inr g'"
  shows "gu_group_id u = g_group_id g" "gu_epoch_id u = g_epoch_id g + 1" "g_epoch_id g' = g_epoch_id g + 1" "g_group_id g' = g_group_id g"
proof -
  from assms obtain s fb tbs where f: "commit_front C g u = Inr (s, fb, tbs)" and t: "commit_tags g u (s, fb, tbs) = Inr g'"
    by (auto simp: process_commit_parts)
  from f show "gu_group_id u = g_group_id g" "gu_epoch_id u = g_epoch_id g + 1" by (auto simp: commit_front_def split: if_split_asm)
  from t show "g_epoch_id g' = g_epoch_id g + 1" "g_group_id g' = g_group_id g"
    by (auto simp: commit_tags_def Let_def MLSGroup_init_def advance_epoch_def EpochState_init_def split: option.split_asm if_split_asm)
qed

lemma direct_path_diverges: "2 \<le> i \<Longrightarrow> i < 2 ^ 31 \<Longrightarrow> direct_path (RatchetTree_init 2) (2 * i) = Inl Nontermination"
proof -
  assume i: "2 \<le> i" "i < 2 ^ 31"
  have r: "tree_root 2 = 1" by code_simp
  then have "tree_parent 2 (2 * i) = Inl Nontermination" using parent_outside [of 2 "2 * i"] i by simp
  with r show ?thesis using i by (simp add: direct_path_def direct_path_loop.simps RatchetTree_init_def)
qed

lemma blank_two: "tree_shape (RatchetTree_init 2) 1" "get_node (RatchetTree_init 2) x = None"
  by (auto simp: tree_shape_def RatchetTree_init_def get_node_def nth_Cons split: nat.splits)

lemma verify_blank: "verify_leaves C gid (RatchetTree_init 2) is = Inr ()"
  by (induction "is") (simp_all add: blank_two)

section \<open>Properties\<close>

text \<open>C3: a commit is accepted as it was sent or not at all. Of a commit a member accepts, every version
  with another or no membership tag, another or no confirmation tag, another group or another epoch
  is refused with a ValueError, and the member is unchanged; and after the commit was accepted, the
  same commit is refused by the new state, which is one epoch further.\<close>

theorem commit_tampering_refused:
  assumes "fst (process_update C g u) = Inr g'"
  shows "(\<forall>m. m \<noteq> gu_membership_tag u \<longrightarrow> (\<exists>s. process_update C g (u\<lparr>gu_membership_tag := m\<rparr>) = (Inl (ValueError s), g)))
   \<and> (\<forall>m. m \<noteq> gu_confirmation_tag u \<longrightarrow> (\<exists>s. process_update C g (u\<lparr>gu_confirmation_tag := m\<rparr>) = (Inl (ValueError s), g)))
   \<and> (\<forall>i. i \<noteq> gu_group_id u \<longrightarrow> process_update C g (u\<lparr>gu_group_id := i\<rparr>) = (Inl (ValueError ''GroupUpdate group_id mismatch''), g))
   \<and> (\<forall>e. e \<noteq> gu_epoch_id u \<longrightarrow> process_update C g (u\<lparr>gu_epoch_id := e\<rparr>) = (Inl (ValueError ''Out of order update''), g))
   \<and> process_update C g' u = (Inl (ValueError ''Out of order update''), g') \<and> g_epoch_id g' = g_epoch_id g + 1"
proof -
  have a: "process_commit C g u = Inr g'" using assms by (simp add: process_update_def split: sum.splits)
  note t = accepted_tags(3,4) [OF a] and e = accepted_epoch [OF a]
  have n: "process_commit C g' u = Inl (ValueError ''Out of order update'')" using e by (simp add: process_commit_def)
  have i: "process_commit C g (u\<lparr>gu_group_id := i\<rparr>) = Inl (ValueError ''GroupUpdate group_id mismatch'')" if "i \<noteq> gu_group_id u" for i
    using that e(1) by (simp add: process_commit_def)
  have ep: "process_commit C g (u\<lparr>gu_epoch_id := k\<rparr>) = Inl (ValueError ''Out of order update'')" if "k \<noteq> gu_epoch_id u" for k
    using that e(1,2) by (simp add: process_commit_def)
  show ?thesis using e(3) by (simp add: process_update_def t n i ep)
qed

theorem commit_tampering_refused_witness:
  "\<exists>g u g'. fst (process_update demo_crypto g u) = Inr g' \<and> process_update demo_crypto g' u = (Inl (ValueError ''Out of order update''), g')
     \<and> (\<exists>s. process_update demo_crypto g (u\<lparr>gu_confirmation_tag := None\<rparr>) = (Inl (ValueError s), g))"
proof -
  obtain a bs a' where "receives_commit demo_crypto a bs a'" by (rule demo_trio)
  then obtain v where v: "fst (process_update demo_crypto a v) = Inr a'" by (auto simp: receives_commit_def)
  then have "gu_confirmation_tag v \<noteq> None" using accepted_tags(2) by (auto simp: process_update_def split: sum.splits)
  with v commit_tampering_refused [OF v] show ?thesis by (metis (no_types))
qed

text \<open>C9: a key package is used once. After a call of \<open>add_member\<close> with a key package whose reference
  can be computed, whether the call returned or raised, the same member object refuses the key package,
  and so do the groups that this call and all later calls of \<open>add_member\<close>, \<open>update_key\<close> and
  \<open>remove_member\<close> return; an object that refuses is unchanged. A commit of another member, however,
  leaves a member that has forgotten all key packages.\<close>

theorem key_package_used_once:
  assumes "make_kp_ref kp = Inr ref" "add_member C ent g kp = (r, g1)"
  shows "refuses_package C kp g1
   \<and> (\<forall>g' w u. r = Inr (g', w, u) \<longrightarrow> refuses_package C kp g')
   \<and> (\<forall>h. refuses_package C kp h \<longrightarrow>
        (\<forall>e kp' g' w u. fst (add_member C e h kp') = Inr (g', w, u) \<longrightarrow> refuses_package C kp g')
      \<and> (\<forall>e g' u. fst (update_key C e h) = Inr (g', u) \<longrightarrow> refuses_package C kp g')
      \<and> (\<forall>e i g' u. fst (remove_member C e h i) = Inr (g', u) \<longrightarrow> refuses_package C kp g')
      \<and> (\<forall>u g'. fst (process_update C h u) = Inr g' \<longrightarrow> g_consumed_key_packages g' = {}))"
proof -
  have w: "g_consumed_key_packages (wipe_secret_tree x) = g_consumed_key_packages x" for x
    by (simp add: wipe_secret_tree_def split: option.split)
  have "ref \<in> g_consumed_key_packages g1"
    using assms by (auto simp: add_member_def Let_def w split: if_splits sum.splits)
  moreover have "ref \<in> g_consumed_key_packages g'" if r: "r = Inr (g', w', u)" for g' w' u
  proof -
    have "add_commit C ent (g\<lparr>g_consumed_key_packages := insert ref (g_consumed_key_packages g)\<rparr>) kp = Inr (g', w', u)"
      using assms r by (auto simp: add_member_def Let_def split: if_splits sum.splits)
    then show ?thesis by (auto simp: add_commit_def Let_def next_group_def)
  qed
  ultimately show ?thesis
    unfolding refuses_package_iff [OF assms(1)]
    by (auto dest: commits_keep_consumed(1,2) process_update_keeps(1) subsetD [OF commits_keep_consumed(3)])
qed

theorem key_package_used_once_witness:
  "\<exists>g kp ref r g1. make_kp_ref kp = Inr ref \<and> add_member demo_crypto demo_ent g kp = (r, g1)
     \<and> refuses_package demo_crypto kp g1"
proof -
  obtain kp ref where kp: "newcomer_keys demo_crypto kp (skey 3) demo_kem" "make_kp_ref kp = Inr ref" by (rule demo_package)
  obtain g where "create demo_crypto demo_kem [1] (skey 1) demo_kem = Inr g" by (rule demo_created)
  obtain r g1 where a: "add_member demo_crypto demo_ent g kp = (r, g1)" by (cases "add_member demo_crypto demo_ent g kp")
  from key_package_used_once [OF kp(2) a, THEN conjunct1] kp(2) a show ?thesis by blast
qed

text \<open>C11: a newcomer reaches the group, with the key of its Welcome. A member in order adds the signed key
  package of a newcomer whose signature key is not in the tree yet; then \<open>join\<close> with the key that
  opens the Welcome returns a member in the same epoch, at a leaf of its own that carries its signature
  key and the leaf key of its key package. The KEM key it keeps is the init key: when the key package
  has two different keys, as RFC 9420 demands, the newcomer does not hold the key of its leaf.\<close>

theorem joiner_keeps_init_key:
  assumes "crypto_laws C" "member_ok C A" "num_leaves (g_tree A) < 2 ^ 31" "fst (add_member C ent A kp) = Inr (A', w, u)"
    and "leaf_node_source (leaf_node kp) = LEAF_NODE_SOURCE_KEY_PACKAGE" "signature_key (leaf_node kp) = sig_public_bytes C sk"
    and "init_key_pub kp = kem_public_bytes C init"
    and "\<forall>x l. get_node (g_tree A) x = Some (Leaf l) \<longrightarrow> signature_key l \<noteq> sig_public_bytes C sk"
  shows "\<exists>n l. join C w sk init None None = Inr n \<and> same_epoch A' n \<and> g_my_index n \<noteq> g_my_index A' \<and> g_my_kem_key n = init
     \<and> get_node (g_tree n) (2 * g_my_index n) = Some (Leaf l) \<and> signature_key l = sig_public_bytes C (g_my_sig_key n)
     \<and> encryption_key l = encryption_key (leaf_node kp)
     \<and> (holds_leaf C (g_tree n) n \<longleftrightarrow> encryption_key (leaf_node kp) = init_key_pub kp)"
proof -
  obtain n l where n: "join C w sk init None None = Inr n" "same_epoch A' n" "g_my_index n \<noteq> g_my_index A'"
    "0 \<le> g_my_index n" "g_my_index n < num_leaves (g_tree n)"
    "get_node (g_tree n) (2 * g_my_index n) = Some (Leaf l)" "encryption_key l = encryption_key (leaf_node kp)"
    "signature_key l = sig_public_bytes C sk" "g_my_sig_key n = sk" "g_my_kem_key n = init"
    by (rule added_state [OF assms(2,1,4,3,5-8)])
  then have "holds_leaf C (g_tree n) n \<longleftrightarrow> encryption_key (leaf_node kp) = init_key_pub kp"
    using assms(7) by (simp add: holds_leaf_def)
  with n show ?thesis by blast
qed

theorem joiner_keeps_init_key_witness:
  "\<exists>w init n. join demo_crypto w (skey 3) init None None = Inr n \<and> \<not> holds_leaf demo_crypto (g_tree n) n"
proof -
  let ?init = "\<lparr>kem_private = replicate 32 8\<rparr> :: KemKey"
  obtain kp ref where kp: "own_key_package demo_crypto (skey 3) demo_kem ?init = Inr kp" "leaf_node_source (leaf_node kp) = LEAF_NODE_SOURCE_KEY_PACKAGE"
    "signature_key (leaf_node kp) = pkey 3" "encryption_key (leaf_node kp) = kem_public_bytes demo_crypto demo_kem"
    "init_key_pub kp = kem_public_bytes demo_crypto ?init" "package_room demo_crypto kp" "KeyPackage_verify_signature demo_crypto kp = Inr ()"
    "make_kp_ref kp = Inr ref" by (rule fresh_package [OF demo_working(1)])
  have ne: "kem_public_bytes demo_crypto demo_kem \<noteq> kem_public_bytes demo_crypto ?init"
    by (simp add: kem_public_bytes_def demo_crypto_def demo_kem_def pad_to_def)
  obtain g where g: "demo_member g" "num_leaves (g_tree g) = 1" "g_consumed_key_packages g = {}"
    "\<forall>x l. get_node (g_tree g) x = Some (Leaf l) \<longrightarrow> signature_key l = pkey 1" by (rule demo_created)
  then have ok: "member_ok demo_crypto g" "group_room demo_crypto g" "num_leaves (g_tree g) \<le> 2048" "num_leaves (g_tree g) < 2 ^ 31"
    "ref \<notin> g_consumed_key_packages g" by (simp_all add: demo_member_def)
  obtain g' w u where a: "fst (add_member demo_crypto demo_ent g kp) = Inr (g', w, u)"
    by (rule add_member_ok [OF demo_working(1) ok(2,1) demo_working(3) ok(3) kp(6,7,2,8) ok(5)])
  have "\<forall>x l. get_node (g_tree g) x = Some (Leaf l) \<longrightarrow> signature_key l \<noteq> pkey 3"
    using g(4) pkey_neq(2) by auto
  from joiner_keeps_init_key [OF demo_working(2) ok(1,4) a kp(2,3,5) this] kp(4,5) ne show ?thesis by metis
qed

text \<open>C18: where a new member goes. In a well-formed tree of fewer than \<open>2 ^ 31\<close> leaves, \<open>add_member\<close> puts the
  leaf of the key package at the leftmost blank leaf. The number of leaves stays when there is a blank
  leaf and doubles exactly when there is none. The direct path of the new leaf is blank afterwards;
  every other node of the tree is as before.\<close>

theorem place_member_correct:
  assumes "tree_wf t" "num_leaves t < 2 ^ 31"
  shows "\<exists>t' i dp. place_member t l = Inr t' \<and> tree_wf t' \<and> 0 \<le> i \<and> i < num_leaves t'
     \<and> num_leaves t' = (if \<exists>j. 0 \<le> j \<and> j < num_leaves t \<and> get_node t (2 * j) = None then num_leaves t else 2 * num_leaves t)
     \<and> get_node t (2 * i) = None \<and> (\<forall>j. 0 \<le> j \<and> j < i \<longrightarrow> get_node t (2 * j) \<noteq> None)
     \<and> direct_path t' (2 * i) = Inr dp \<and> 2 * i \<notin> set dp
     \<and> (\<forall>x. get_node t' x = (if x = 2 * i then Some (Leaf l) else if x \<in> set dp then None else get_node t x))"
  using place_member_exact [OF assms, of l] by (elim exE conjE) (intro exI conjI; (assumption | auto))

theorem place_member_correct_witness:
  "\<exists>t l t1 t2. tree_wf t \<and> num_leaves t = 1 \<and> place_member t l = Inr t1 \<and> num_leaves t1 = 2 \<and> get_node t1 2 = Some (Leaf l)
     \<and> place_member (RatchetTree_init 2) l = Inr t2 \<and> num_leaves t2 = 2 \<and> get_node t2 0 = Some (Leaf l)"
proof -
  obtain g where g: "create demo_crypto demo_kem [1] (skey 1) demo_kem = Inr g" "demo_member g" "num_leaves (g_tree g) = 1"
    by (rule demo_created)
  let ?t = "g_tree g" and ?b = "RatchetTree_init 2"
  have wf: "tree_wf ?t" "num_leaves ?t < 2 ^ 31" using g(2,3) by (simp_all add: demo_member_def member_ok_def tree_good_def)
  obtain l where l: "get_node ?t 0 = Some (Leaf l)"
  proof -
    have "0 \<le> g_my_index g" "g_my_index g < 1" "\<exists>l. get_node ?t (2 * g_my_index g) = Some (Leaf l)"
      using g(2,3) by (auto simp: demo_member_def member_ok_def holds_leaf_def)
    moreover from this have "g_my_index g = 0" by simp
    ultimately show ?thesis using that by auto
  qed
  have full: "\<not> (\<exists>j. 0 \<le> j \<and> j < num_leaves ?t \<and> get_node ?t (2 * j) = None)"
  proof
    assume "\<exists>j. 0 \<le> j \<and> j < num_leaves ?t \<and> get_node ?t (2 * j) = None"
    then obtain j where "0 \<le> j" "j < 1" "get_node ?t (2 * j) = None" using g(3) by auto
    moreover from this have "j = 0" by simp
    ultimately show False using l by simp
  qed
  obtain t1 i where t1: "place_member ?t l = Inr t1" "0 \<le> i" "i < num_leaves t1" "num_leaves t1 = 2 * num_leaves ?t"
    "get_node ?t (2 * i) = None" "get_node t1 (2 * i) = Some (Leaf l)"
    using place_member_correct [OF wf, of l] unfolding if_not_P [OF full] by metis
  have i: "i = 1" using t1(2-5) g(3) l by (cases "i = 0") auto
  have "tree_typed (nodes ?b)" by (simp add: RatchetTree_init_def tree_typed_def)
  then have "tree_wf ?b" unfolding tree_wf_def using blank_two(1) by (intro conjI exI [of _ 1]) simp_all
  then have b: "tree_wf ?b" "num_leaves ?b < 2 ^ 31" "num_leaves ?b = 2" "get_node ?b x = None" for x
    using blank_two(2) by simp_all (simp_all add: RatchetTree_init_def)
  have blank: "\<exists>j. 0 \<le> j \<and> j < num_leaves ?b \<and> get_node ?b (2 * j) = None" using b(3,4) by (intro exI [of _ 0]) simp
  obtain t2 k where t2: "place_member ?b l = Inr t2" "0 \<le> k" "num_leaves t2 = num_leaves ?b"
    "\<forall>j. 0 \<le> j \<and> j < k \<longrightarrow> get_node ?b (2 * j) \<noteq> None" "get_node t2 (2 * k) = Some (Leaf l)"
    using place_member_correct [OF b(1,2), of l] unfolding if_P [OF blank] by metis
  have "k = 0" using t2(2) t2(4) [rule_format, of 0] b(4) by (cases "k = 0") auto
  with t1 t2 i wf(1) g(3) b(3) show ?thesis by (intro exI [of _ ?t] exI [of _ l] exI [of _ t1] exI [of _ t2]) simp
qed

text \<open>C12: a forged commit hangs a member. A message that names the group, the next epoch and an occupied
  leaf \<open>i >= 2\<close> as committer, and carries a blank tree of two leaves and an update path, makes
  \<open>process_update\<close> run forever, whatever its signature and its tags are: the path of the committer is
  followed in the tree of the message before anything is authenticated.\<close>

theorem forged_commit_hangs:
  assumes "group_room C g" "member_ok C g" "get_node (g_tree g) (2 * i) = Some (Leaf l)" "2 \<le> i"
    and "gu_group_id u = g_group_id g" "gu_epoch_id u = g_epoch_id g + 1" "gu_committer_index u = i"
    and "gu_tree u = RatchetTree_init 2" "gu_update_path u = Some p" "up_nodes p \<noteq> []"
  shows "fst (process_update C g u) = Inl Nontermination"
proof -
  obtain mine where m: "get_node (g_tree g) (2 * g_my_index g) = Some (Leaf mine)" using assms(2) by (auto simp: member_ok_def holds_leaf_def)
  have r: "length (g_group_id g) \<le> 1000" "0 \<le> g_epoch_id g + 1" "g_epoch_id g + 1 < 2 ^ 64" "length (g_interim_transcript_hash g) \<le> 255"
    and room: "tree_room C (g_tree g)" using assms(1) by (simp_all add: group_room_def)
  have "node_room C (Leaf mine)" using room m by (auto simp: tree_room_def)
  then obtain ref where ref: "make_kp_ref (LeafNode_key_package mine) = Inr ref" by (rule leaf_ref_ok)
  have "tree_room C (RatchetTree_init 2)" by (simp add: tree_room_def blank_two) (simp add: RatchetTree_init_def)
  from context_ok [OF this blank_two(1) r] obtain ctx where
    ctx: "make_group_context (g_group_id g) (g_epoch_id g + 1) (RatchetTree_init 2) (g_interim_transcript_hash g) = Inr ctx" by blast
  have "tree_wf (g_tree g)" using assms(2) by (simp add: member_ok_def tree_good_def)
  then have "i < 2 ^ 31" using assms(3) room wf_leaves [of "g_tree g"] by (auto simp: get_node_def tree_room_def split: if_splits)
  then have "path_commit_secret C g u ctx = Inl Nontermination"
    using direct_path_diverges [OF assms(4)] by (simp add: path_commit_secret_def assms(7-10))
  then show ?thesis using assms(3,5-8) m ref ctx by (simp add: process_update_def process_commit_def verify_blank)
qed

theorem forged_commit_hangs_witness:
  "\<exists>g i l u. group_room demo_crypto g \<and> member_ok demo_crypto g \<and> get_node (g_tree g) (2 * i) = Some (Leaf l) \<and> gu_signature u = []
     \<and> gu_membership_tag u = None \<and> fst (process_update demo_crypto g u) = Inl Nontermination"
proof -
  obtain a' b' d where t: "demo_member b'" "members_in_step demo_crypto b' a'" "members_in_step demo_crypto b' d" "members_in_step demo_crypto a' d"
    by (rule demo_trio)
  have ok: "group_room demo_crypto b'" "member_ok demo_crypto b'" using t(1) by (simp_all add: demo_member_def)
  have h: "\<exists>l. get_node (g_tree b') (2 * g_my_index x) = Some (Leaf l)" "0 \<le> g_my_index x"
    if "x = b' \<or> members_in_step demo_crypto b' x" for x
  proof -
    from that ok(2) have "holds_leaf demo_crypto (g_tree b') x"
      by (auto simp: members_in_step_def same_epoch_def member_ok_def intro: holds_leaf_equiv tree_equiv_sym)
    then show "\<exists>l. get_node (g_tree b') (2 * g_my_index x) = Some (Leaf l)" "0 \<le> g_my_index x" by (auto simp: holds_leaf_def)
  qed
  have "g_my_index a' \<noteq> g_my_index b'" "g_my_index a' \<noteq> g_my_index d" "g_my_index b' \<noteq> g_my_index d"
    using t(2-4) by (auto simp: members_in_step_def)
  with h(2) [of a'] h(2) [of b'] h(2) [of d] t(2,3) have "2 \<le> g_my_index a' \<or> 2 \<le> g_my_index b' \<or> 2 \<le> g_my_index d" by auto
  with h(1) t(2,3) obtain i l where i: "2 \<le> i" "get_node (g_tree b') (2 * i) = Some (Leaf l)" by metis
  let ?u = "\<lambda>p. GroupUpdate_init (g_epoch_id b' + 1) (RatchetTree_init 2) [] i [] (g_group_id b') (Some p)"
  obtain kp where "newcomer_keys demo_crypto kp (skey 3) demo_kem" by (rule demo_package)
  then obtain p :: UpdatePath where p: "up_nodes p \<noteq> []"
    by (intro that [of "\<lparr>up_leaf_key_package = kp, up_nodes = [\<lparr>upn_new_public_key = [], upn_encrypted_path_secret = []\<rparr>]\<rparr>"]) simp
  have "fst (process_update demo_crypto b' (?u p)) = Inl Nontermination"
    by (rule forged_commit_hangs [OF ok i(2,1)]) (use p in \<open>simp_all add: GroupUpdate_init_def\<close>)
  moreover have "gu_signature (?u p) = []" "gu_membership_tag (?u p) = None" by (simp_all add: GroupUpdate_init_def)
  ultimately show ?thesis using ok i(2) by blast
qed

end
