(* ===== verification/JoinReturns.thy ===== *)
theory JoinReturns
  imports GroupRuns
begin

text \<open>
  Joining returns on every input: the loops over a Welcome and over what it decrypts to, all chosen by
  the sender, come to an end.
\<close>

section \<open>Lemmas\<close>

named_theorems ret_intros \<open>facts that a call returns or raises\<close>

definition ret :: "'a res \<Rightarrow> bool" where
  "ret r \<longleftrightarrow> r \<noteq> Inl Nontermination"

lemma ret_Inr [ret_intros]: "ret (Inr x)"
  and ret_Inl [ret_intros]: "e \<noteq> Nontermination \<Longrightarrow> ret (Inl e)"
  by (simp_all add: ret_def)

lemma ret_bind [ret_intros]: "ret m \<Longrightarrow> (\<And>x. m = Inr x \<Longrightarrow> ret (f x)) \<Longrightarrow> ret (bindR m f)"
  by (cases m) (simp_all add: ret_def)

lemma ret_if [ret_intros]: "(c \<Longrightarrow> ret a) \<Longrightarrow> (\<not> c \<Longrightarrow> ret b) \<Longrightarrow> ret (if c then a else b)"
  by simp

lemma ret_option [ret_intros]: "ret a \<Longrightarrow> (\<And>x. y = Some x \<Longrightarrow> ret (f x)) \<Longrightarrow> ret (case y of None \<Rightarrow> a | Some x \<Rightarrow> f x)"
  by (cases y) simp_all

lemma ret_prod [ret_intros]: "(\<And>a b. p = (a, b) \<Longrightarrow> ret (f a b)) \<Longrightarrow> ret (case p of (a, b) \<Rightarrow> f a b)"
  by (cases p) simp

lemma ret_Node [ret_intros]: "(\<And>x. ret (f x)) \<Longrightarrow> (\<And>x. ret (g x)) \<Longrightarrow> ret (case n of Leaf x \<Rightarrow> f x | Parent x \<Rightarrow> g x)"
  by (cases n) simp_all

lemma ret_cat [ret_intros]: "ret (cat_res [])" "ret e \<Longrightarrow> ret (cat_res es) \<Longrightarrow> ret (cat_res (e # es))"
  by (auto intro: ret_intros)

lemma ret_cat_map: "(\<And>x. ret (f x)) \<Longrightarrow> ret (cat_res (map f xs))"
  by (induction xs) (auto intro: ret_intros simp del: cat_res.simps(2))

lemma ret_reads: "halts d \<Longrightarrow> ret (d buf off)"
  by (simp add: ret_def haltsD)

lemma ret_loop: "progresses d \<Longrightarrow> halts d \<Longrightarrow> ret (returned (while_read d buf stop off))"
  by (simp add: ret_def while_read_no_divergence)

lemmas ret_readers [ret_intros] = halts_ints [THEN ret_reads] halts_opaques [THEN ret_reads] halts_extension [THEN ret_reads]

lemma ret_ints [ret_intros]: "ret (struct_pack n v)" "ret (int_to_bytes n v)" "ret (bytes_of_int v)" "ret (byte_at buf off)"
  by (simp_all add: ret_def struct_pack_def int_to_bytes_def bytes_of_int_def byte_at_def)

lemma ret_writers [ret_intros]: "ret (tls_u8 v)" "ret (tls_u16 v)" "ret (tls_u32 v)" "ret (tls_u64 v)" "ret (tls_varint v)" "ret (tls_opaque b)"
  unfolding tls_u8_def tls_u16_def tls_u32_def tls_u64_def tls_varint_def tls_opaque_def
  by (intro ret_intros; simp)+

text \<open>Key derivation.\<close>

lemma ret_expand_loop: "ret (expand_loop hf prk info is t okm)"
  by (induction "is" arbitrary: t okm) (auto intro!: ret_intros simp: Let_def)

lemma ret_hkdf [ret_intros]: "ret (hkdf_expand prk info n hf)" "ret (expand_with_label s l c n hf)" "ret (derive_secret s l hf)"
  unfolding derive_secret_def expand_with_label_def hkdf_label_def hkdf_expand_def Let_def
  by (auto intro!: ret_intros ret_expand_loop simp del: cat_res.simps)

lemma ret_hpke [ret_intros]: "ret (hpke_key_nonce dh kc info seq)"
  unfolding hpke_key_nonce_def hpke_kem_expand_def hpke_labeled_expand_def hpke_xor_nonce_def Let_def
  by (auto intro!: ret_intros)

lemma ret_dh [ret_intros]: "ret (dh_exchange C k pk)"
  by (auto simp: dh_exchange_def ret_def split: option.splits)

lemma ret_psk [ret_intros]: "ret (psk_secret ps)"
proof -
  have "ret (PreSharedKeyID_to_bytes k)" for k
    unfolding PreSharedKeyID_to_bytes_def varint_encode_eq by (intro ret_intros)
  then have "ret (psk_chain i n xs acc)" for i n xs acc
    by (induction i n xs acc rule: psk_chain.induct) (auto intro!: ret_intros simp: psk_round_def Let_def simp del: cat_res.simps)
  then show ?thesis unfolding psk_secret_def by (intro ret_intros)
qed

lemma ret_schedule [ret_intros]: "ret (joiner_schedule j c ps)" "ret (derive_welcome_key j p)" "ret (derive_welcome_nonce j p)"
  unfolding joiner_schedule_def from_epoch_secret_def derive_welcome_key_def derive_welcome_nonce_def Let_def
  by (intro ret_intros)+

text \<open>The tree hash.\<close>

lemma ret_extensions [ret_intros]: "ret (tls_extensions es)"
  unfolding tls_extensions_def tls_extension_def by (intro ret_intros ret_cat_map)

lemma ret_nodes [ret_intros]: "ret (Node_to_bytes nd)"
proof -
  have "ret (Capabilities_marshal c)" for c
    unfolding Capabilities_marshal_def tls_vec_varint_def Let_def by (auto intro!: ret_intros ret_cat_map simp del: cat_res.simps)
  then have "ret (LeafNode_to_bytes l)" for l
    unfolding LeafNode_to_bytes_def leaf_select_bytes_def Credential_to_bytes_def Let_def
    by (auto intro!: ret_intros ret_cat_map simp del: cat_res.simps split: option.split)
  moreover have "ret (ParentNode_to_bytes p)" for p
    unfolding ParentNode_to_bytes_def unmerged_leaves_bytes_def Let_def by (auto intro!: ret_intros ret_cat_map simp del: cat_res.simps)
  ultimately show ?thesis by (cases nd) simp_all
qed

lemma ret_descend: "ret (descend_right w r)"
proof (induction w r rule: descend_right.induct)
  case (1 w r)
  show ?case by (subst descend_right.simps) (auto intro!: ret_intros 1 simp: shift_pred_def)
qed

lemma ret_node_hash: "ret (node_hash t x)"
proof (induction t x rule: node_hash.induct)
  case (1 t x)
  have s: "ret (shift_pred a k)" for a k by (simp add: shift_pred_def ret_def)
  show ?case
    by (subst node_hash.simps, unfold Let_def) (intro ret_intros s ret_descend 1; (rule refl | assumption)?)
qed

lemma ret_tree_hash [ret_intros]: "ret (tree_hash t)"
  unfolding tree_hash_def by (intro ret_intros ret_node_hash)

text \<open>The parts of \<open>join\<close>.\<close>

lemma ret_find_tree: "ret (returned (find_tree_extension raw off))"
proof (induction "length raw - off" arbitrary: off rule: less_induct)
  case less
  show ?case
  proof (cases "off < length raw \<and> (\<exists>e off'. read_extension raw off = Inr (e, off') \<and> fst e \<noteq> 0x0002)")
    case True
    then obtain e off' where e: "read_extension raw off = Inr (e, off')" "fst e \<noteq> 0x0002" by blast
    have "off < off'" by (rule progressesD [OF progresses_extension e(1)])
    with True have "length raw - off' < length raw - off" by arith
    from less [OF this] e True show ?thesis by (subst find_tree_extension.simps) simp
  next
    case False
    have "ret (read_extension raw off)" by (intro ret_intros)
    moreover have "ret (RatchetTree_parse b)" for b using parse_halts by (simp add: ret_def)
    then have "ret (RatchetTree_from_bytes b)" for b
      unfolding RatchetTree_from_bytes_def RatchetTree_from_bytes_at_def by (intro ret_intros)
    ultimately show ?thesis using False
      by (subst find_tree_extension.simps) (auto simp: ret_def bindR_eq_Inl split: sum.split)
  qed
qed

lemma ret_welcome: "ret (Welcome_from_bytes REGISTRY data None)"
proof -
  have d: "ret (decode_vector StandardStrategy b off)" for b off
    unfolding StandardStrategy_def SerializerStrategy.simps standard_decode_vector_def Let_def by (intro ret_intros; simp)
  have l: "ret (returned (while_read EncryptedGroupSecrets_from_bytes b (length b) 0))" for b
    by (rule ret_loop [OF progresses_EncryptedGroupSecrets halts_EncryptedGroupSecrets])
  have p: "ret (py_index xs k)" for xs :: "bytes list" and k unfolding py_index_def py_pos_def Let_def by (intro ret_intros; simp)
  have g: "get_dialect REGISTRY ''standard'' = Inr StandardStrategy" by (simp add: get_dialect_def REGISTRY_def)
  show ?thesis unfolding Welcome_from_bytes_def Let_def option.case g bindR.simps by (intro ret_intros d l p)
qed

lemma ret_group_secrets: "ret (GroupSecrets_from_bytes b)"
  unfolding GroupSecrets_from_bytes_def Let_def
  by (intro ret_intros ret_loop [OF progresses_PreSharedKeyID halts_PreSharedKeyID])

lemma ret_group_info: "ret (GroupInfo_from_bytes b)" "ret (GroupContext_to_bytes gc)" "ret (GroupInfo_verify C gi k)"
  unfolding GroupInfo_verify_def GroupInfo_payload_def GroupInfo_tbs_bytes_def GroupInfo_from_bytes_def GroupContext_from_bytes_at_def
    GroupContext_to_bytes_def Let_def by (intro ret_intros; simp)+

lemma ret_match_psks: "ret (match_psks r ps)"
proof -
  have "ret (resolve_psks m xs)" for m xs
    by (induction m xs rule: resolve_psks.induct) (auto intro!: ret_intros)
  then show ?thesis unfolding match_psks_def by (intro ret_intros; simp)
qed

lemma ret_open_candidates:
  assumes "\<And>k n c a. ret (gcm_decrypt C k n c a)"
  shows "ret (open_candidates C kem egi cs)"
proof (induction cs)
  case (Cons c cs)
  have "ret (bindR (egs_info egi) (\<lambda>info. hpke_open C kem (egs_kem_output c) (egs_ciphertext c) [] 0 info))"
    unfolding egs_info_def make_hpke_info_def hpke_open_def Let_def by (intro ret_intros assms)
  with Cons show ?case by (auto simp: ret_def split: sum.split py_error.split)
qed (simp add: ret_def)

lemma ret_decrypt_group_info:
  assumes "\<And>k n c a. ret (gcm_decrypt C k n c a)"
  shows "ret (decrypt_group_info C j p ct)"
proof -
  have "ret (welcome_decrypt C j q ct)" for q unfolding welcome_decrypt_def by (intro ret_intros assms)
  from this [of p] this [of "replicate 32 0"] show ?thesis
    unfolding decrypt_group_info_def Let_def by (auto simp: ret_def split: sum.split py_error.split)
qed

lemma ret_join_group_info: "ret (join_group_info C sk kem j ps rt gb)"
proof -
  have f: "ret (case rt of Some t \<Rightarrow> Inr (Some t) | None \<Rightarrow> returned (find_tree_extension raw 0))" for raw
    by (intro ret_intros ret_find_tree)
  have v: "ret (case GroupInfo_verify C gi k of Inl e \<Rightarrow> Inl (if e = Nontermination then e else ValueError s) | Inr _ \<Rightarrow> x)"
    if "ret x" for gi k s and x :: "MLSGroup res"
    using ret_group_info(3) [of C gi k] that by (auto simp: ret_def split: sum.split)
  show ?thesis unfolding join_group_info_def Let_def
    by (intro ret_intros ret_group_info f v; simp)
qed

section \<open>Properties\<close>

text \<open>C13: joining returns. For every byte string given as a Welcome and every byte strings it decrypts
  to, \<open>join\<close> returns a member or raises: none of its loops runs forever, as long as the decryption
  primitive returns.\<close>

theorem join_terminates:
  assumes "\<forall>k n c a. gcm_decrypt C k n c a \<noteq> Inl Nontermination"
  shows "join_bytes C REGISTRY data sk kem psks rt \<noteq> Inl Nontermination"
proof -
  have g: "ret (gcm_decrypt C k n c a)" for k n c a using assms by (simp add: ret_def)
  have j: "ret (join C w sk kem psks rt)" for w
    unfolding join_def by (intro ret_intros ret_open_candidates ret_group_secrets ret_match_psks ret_decrypt_group_info ret_join_group_info g; simp)
  from j ret_welcome [of data] show ?thesis by (auto simp: join_bytes_def ret_def split: sum.split)
qed

theorem join_terminates_witness:
  "join_bytes demo_crypto REGISTRY [0, 1, 255] (skey 1) demo_kem None None \<noteq> Inl Nontermination"
  by (rule join_terminates) (simp add: demo_crypto_def)

end
