(* ===== verification/GroupChat.thy ===== *)
theory GroupChat
  imports Persistence
begin

text \<open>
  Application messages of a whole group, in any order. Every member of the epoch sends, the network
  loses, repeats and reorders the payloads of all senders. What \<open>decrypt_application_message\<close> makes of
  such a delivery is specified by a window per sender: the generation of the last message opened.
  The theorems: a member refines the windows; a member restored from storage has forgotten them.
\<close>

section \<open>Specification\<close>

text \<open>A message on its way: the leaf of its sender, its generation, the payload and the plaintext.\<close>

record sent_message =
  sm_leaf :: int
  sm_gen :: int
  sm_payload :: bytes
  sm_plaintext :: bytes

text \<open>The message was encrypted by a member in the epoch of \<open>B\<close>, after any calls of that member.\<close>

definition sent_in_epoch :: "crypto \<Rightarrow> MLSGroup \<Rightarrow> sent_message \<Rightarrow> bool" where
  "sent_in_epoch C B m \<longleftrightarrow> (\<exists>A0 A A'. same_epoch A0 B \<and> g_secret_tree A0 = None \<and> g_my_index A0 < num_leaves (g_tree A0)
     \<and> chat_run C A0 A \<and> sm_leaf m = g_my_index A0 \<and> sm_gen m = own_gen A
     \<and> encrypt_application_message C A (sm_plaintext m) = (Inr (sm_payload m), A'))"

text \<open>The windows of a receiver: a message behind the window of its sender is refused, any other is
  opened and moves the window to its generation.\<close>

fun windowed :: "(int \<Rightarrow> int) \<Rightarrow> sent_message list \<Rightarrow> bytes res list" where
  "windowed seen [] = []"
| "windowed seen (m # ms) =
     (if sm_gen m < seen (sm_leaf m) then Inl (ValueError ''SecretTree'') # windowed seen ms
      else Inr (sm_plaintext m) # windowed (seen(sm_leaf m := sm_gen m)) ms)"

section \<open>Lemmas\<close>

lemma tip_other_leaf:
  assumes "leaf' \<noteq> leaf"
  shows "tip (snd (get_key_and_nonce_for_gen st leaf gen ty)) leaf' ty' = tip st leaf' ty'"
proof -
  have "snd (get_key_and_nonce_for_gen st leaf gen ty) = snd (get_ratchet_secret st leaf gen ty)"
    by (cases "get_ratchet_secret st leaf gen ty") (auto simp: get_key_and_nonce_for_gen_def split: sum.splits)
  moreover have "st_leaf_cache (snd (get_ratchet_secret st leaf gen ty)) leaf' = st_leaf_cache st leaf'"
    using assms by (simp add: get_ratchet_secret_def Let_def split: prod.split sum.split)
  ultimately show ?thesis by (simp add: tip_def cached_def)
qed

text \<open>A refused request leaves the tip where it was.\<close>

lemma tip_refused:
  assumes "0 \<le> gen" "gen < tip st leaf ty"
  shows "tip (snd (get_key_and_nonce_for_gen st leaf gen ty)) leaf' ty' = tip st leaf' ty'"
proof (cases "leaf' = leaf")
  case True
  have c: "st_leaf_cache (snd (get_ratchet_secret st leaf gen ty)) leaf =
      Some (case st_leaf_cache st leaf of None \<Rightarrow> Map.empty | Some c \<Rightarrow> c)"
    using assms by (auto simp: get_ratchet_secret_def tip_def cached_def Let_def split: option.splits prod.splits)
  have "snd (get_key_and_nonce_for_gen st leaf gen ty) = snd (get_ratchet_secret st leaf gen ty)"
    by (cases "get_ratchet_secret st leaf gen ty") (auto simp: get_key_and_nonce_for_gen_def split: sum.splits)
  with True c show ?thesis by (cases "st_leaf_cache st leaf") (simp_all add: tip_def cached_def)
qed (rule tip_other_leaf)

text \<open>A message that was sent moves at most the window of its sender.\<close>

lemma decrypt_windows:
  assumes "ratchets_ok g" "message_header C g bs = Inr (ad, leaf, gen, ct)"
  shows "leaf' \<noteq> leaf \<Longrightarrow> seen_gen (snd (decrypt_application_message C g bs)) leaf' = seen_gen g leaf'"
    and "0 \<le> gen \<Longrightarrow> gen < seen_gen g leaf \<Longrightarrow> seen_gen (snd (decrypt_application_message C g bs)) = seen_gen g"
proof -
  obtain x st where x: "get_key_and_nonce_for_gen (ratchets g) leaf gen ''application'' = (x, st)" by fastforce
  have d: "snd (decrypt_application_message C g bs) = g\<lparr>g_secret_tree := Some st\<rparr>"
    using x assms(2) by (auto simp: decrypt_application_message_def get_secret_tree_ratchets split: sum.splits prod.splits)
  show "seen_gen (snd (decrypt_application_message C g bs)) leaf' = seen_gen g leaf'" if "leaf' \<noteq> leaf"
    using tip_other_leaf [OF that, of "ratchets g" gen "''application''" "''application''"] x by (simp add: d seen_gen_def)
  show "seen_gen (snd (decrypt_application_message C g bs)) = seen_gen g" if "0 \<le> gen" "gen < seen_gen g leaf"
    using tip_refused [of gen "ratchets g" leaf "''application''" _ "''application''"] that x by (simp add: fun_eq_iff d seen_gen_def)
qed

lemma sent_in_epoch_same: "same_epoch B B' \<Longrightarrow> sent_in_epoch C B m \<Longrightarrow> sent_in_epoch C B' m"
  unfolding sent_in_epoch_def by (elim exE conjE) (intro exI conjI; (assumption | rule same_epoch_trans))

lemma sent_sealed:
  assumes "sent_in_epoch C B m"
  obtains A k n where "same_epoch A B" "g_my_index A < num_leaves (g_tree A)" "sm_leaf m = g_my_index A"
    "message_key A (g_my_index A) (sm_gen m) = Inr (k, n)" "seal_message C A k n (sm_gen m) (sm_plaintext m) = Inr (sm_payload m)"
    "0 \<le> sm_gen m"
proof -
  from assms obtain A0 A A' where a: "same_epoch A0 B" "g_secret_tree A0 = None" "g_my_index A0 < num_leaves (g_tree A0)"
    "chat_run C A0 A" "sm_leaf m = g_my_index A0" "sm_gen m = own_gen A"
    "encrypt_application_message C A (sm_plaintext m) = (Inr (sm_payload m), A')" by (auto simp: sent_in_epoch_def)
  note r = chat_run_epoch [OF a(4) ratchets_fresh [OF a(2)]]
  have "same_epoch A B" by (rule same_epoch_trans [OF same_epoch_sym [OF r(4)] a(1)])
  moreover from sealed_by_encrypt [OF r(1) a(7)] obtain k n where
    "message_key A (g_my_index A) (own_gen A) = Inr (k, n)" "seal_message C A k n (own_gen A) (sm_plaintext m) = Inr (sm_payload m)"
    by blast
  moreover have "0 \<le> own_gen A" using encrypt_spec(3) [OF r(1) a(7)] .
  ultimately show ?thesis using that a(3,5,6) r(2,3) by simp
qed

text \<open>One message.\<close>

lemma decrypt_sent:
  assumes "gcm_decrypts C" "ratchets_ok B" "sent_in_epoch C B m" "decrypt_application_message C B (sm_payload m) = (r, B')"
  shows "ratchets_ok B'" "same_epoch B B'"
    "sm_gen m < seen_gen B (sm_leaf m) \<Longrightarrow> r = Inl (ValueError ''SecretTree'') \<and> seen_gen B' = seen_gen B"
    "seen_gen B (sm_leaf m) \<le> sm_gen m \<Longrightarrow> r = Inr (sm_plaintext m) \<and> seen_gen B' = (seen_gen B)(sm_leaf m := sm_gen m)"
proof -
  obtain A k n where s: "same_epoch A B" "g_my_index A < num_leaves (g_tree A)" "sm_leaf m = g_my_index A"
    "message_key A (g_my_index A) (sm_gen m) = Inr (k, n)" "seal_message C A k n (sm_gen m) (sm_plaintext m) = Inr (sm_payload m)"
    "0 \<le> sm_gen m" by (rule sent_sealed [OF assms(3)])
  note k = decrypt_keeps [OF assms(2,4)]
  show "ratchets_ok B'" by (rule k(1))
  obtain t where "B' = B\<lparr>g_secret_tree := t\<rparr>" using k(2) by blast
  then show "same_epoch B B'" by (simp add: same_epoch_def)
  obtain ad ct where h: "message_header C B (sm_payload m) = Inr (ad, g_my_index A, sm_gen m, ct)"
    by (rule message_header_parts [OF assms(1) s(1,2,5)]) (metis that)
  note w = decrypt_windows [OF assms(2) h] and o = decrypt_sealed [OF assms(1) s(1,2,5,4) assms(2)]
  show "r = Inl (ValueError ''SecretTree'') \<and> seen_gen B' = seen_gen B" if "sm_gen m < seen_gen B (sm_leaf m)"
    using w(2) o(1) that s(3,6) assms(4) by simp
  show "r = Inr (sm_plaintext m) \<and> seen_gen B' = (seen_gen B)(sm_leaf m := sm_gen m)" if "seen_gen B (sm_leaf m) \<le> sm_gen m"
    using w(1) o(2) that s(3) assms(4) by (auto simp: fun_eq_iff)
qed

lemma receive_windowed:
  assumes "gcm_decrypts C" "ratchets_ok B" "\<forall>m\<in>set ms. sent_in_epoch C B m"
  shows "fst (receive_all C B (map sm_payload ms)) = windowed (seen_gen B) ms"
  using assms(2,3)
proof (induction ms arbitrary: B)
  case (Cons m ms)
  obtain r B' where d: "decrypt_application_message C B (sm_payload m) = (r, B')" by fastforce
  from Cons.prems(2) have m: "sent_in_epoch C B m" by simp
  note s = decrypt_sent [OF assms(1) Cons.prems(1) m d]
  have "\<forall>x\<in>set ms. sent_in_epoch C B' x" using Cons.prems(2) sent_in_epoch_same [OF s(2)] by simp
  then have "fst (receive_all C B' (map sm_payload ms)) = windowed (seen_gen B') ms" by (rule Cons.IH [OF s(1)])
  then show ?case using s(3,4) d
    by (cases "sm_gen m < seen_gen B (sm_leaf m)"; cases "receive_all C B' (map sm_payload ms)") simp_all
qed simp

section \<open>Properties\<close>

text \<open>C17: messages in any order. A member of an epoch, after any sequence of calls of its own, is given any list of
  payloads that members of the epoch encrypted, lost, repeated, reordered and mixed in any way. It
  opens exactly those the windows of a specification open, each to its plaintext, and refuses all
  others: a message is refused if and only if a later message of the same sender was opened before
  it; the senders do not influence each other; only the message opened last can be opened again.\<close>

theorem deliveries_follow_windows:
  assumes "gcm_decrypts C" "g_secret_tree B0 = None" "chat_run C B0 B" "\<forall>m\<in>set ms. sent_in_epoch C B0 m"
  shows "fst (receive_all C B (map sm_payload ms)) = windowed (seen_gen B) ms"
proof -
  note r = chat_run_epoch [OF assms(3) ratchets_fresh [OF assms(2)]]
  have "\<forall>m\<in>set ms. sent_in_epoch C B m" using assms(4) sent_in_epoch_same [OF r(4)] by blast
  then show ?thesis using receive_windowed [OF assms(1) r(1)] by blast
qed

text \<open>C27: a restored member opens old messages again. A member that has moved past a message of a
  sender refuses it; written and restored it opens that message.\<close>

theorem restored_member_opens_replay:
  assumes "gcm_decrypts C" "g_secret_tree B0 = None" "chat_run C B0 B" "sent_in_epoch C B0 m" "sm_gen m < seen_gen B (sm_leaf m)"
    and "persistable B" "MLSGroup_to_bytes B = Inr bs" "MLSGroup_from_bytes bs = Inr B'"
  shows "fst (decrypt_application_message C B (sm_payload m)) = Inl (ValueError ''SecretTree'')
       \<and> fst (decrypt_application_message C B' (sm_payload m)) = Inr (sm_plaintext m)"
proof -
  note r = chat_run_epoch [OF assms(3) ratchets_fresh [OF assms(2)]]
  have B': "B' = reloaded B" using restore_written [OF assms(6,7)] assms(8) by simp
  then have f: "g_secret_tree B' = None" "same_epoch B B'" by (simp_all add: reloaded_epoch)
  have w: "seen_gen B' l = -1" for l
    using f(1) by (simp add: seen_gen_def ratchets_def get_secret_tree_def SecretTree_init_def tip_def cached_def Let_def)
  note s1 = sent_in_epoch_same [OF r(4) assms(4)]
  note s = s1 sent_in_epoch_same [OF f(2) s1]
  obtain x X where x: "decrypt_application_message C B (sm_payload m) = (x, X)" by fastforce
  obtain y Y where y: "decrypt_application_message C B' (sm_payload m) = (y, Y)" by fastforce
  have "0 \<le> sm_gen m" by (rule sent_sealed [OF s(1)])
  with decrypt_sent(3) [OF assms(1) r(1) s(1) x assms(5)] decrypt_sent(4) [OF assms(1) ratchets_fresh [OF f(1)] s(2) y] x y w
  show ?thesis by simp
qed

section \<open>Witnesses\<close>

text \<open>Two messages of the first member of the example.\<close>

lemma demo_two_sent:
  obtains m1 m2 where "sent_in_epoch demo_crypto (demo_chat 1) m1" "sent_in_epoch demo_crypto (demo_chat 1) m2"
    "sm_leaf m1 = 0" "sm_gen m1 = 0" "sm_plaintext m1 = [42]" "sm_leaf m2 = 0" "sm_gen m2 = 1" "sm_plaintext m2 = [42]"
proof -
  obtain bs1 A1 where A1: "encrypt_application_message demo_crypto (demo_chat 0) [42] = (Inr bs1, A1)"
    "chat_run demo_crypto (demo_chat 0) A1" "own_gen A1 = 1" "seen_gen A1 0 = 0"
    by (rule demo_encrypts [OF chat_run.start]) simp_all
  obtain bs2 A2 where A2: "encrypt_application_message demo_crypto A1 [42] = (Inr bs2, A2)"
    by (rule demo_encrypts [OF A1(2)]) (use A1 in simp_all)
  have e: "same_epoch (demo_chat 0) (demo_chat 1)" by simp
  have "sent_in_epoch demo_crypto (demo_chat 1) \<lparr>sm_leaf = 0, sm_gen = 0, sm_payload = bs1, sm_plaintext = [42]\<rparr>"
    unfolding sent_in_epoch_def
    by (rule exI [of _ "demo_chat 0"], rule exI [of _ "demo_chat 0"], rule exI [of _ A1]) (use A1(1) e chat_run.start in simp)
  moreover have "sent_in_epoch demo_crypto (demo_chat 1) \<lparr>sm_leaf = 0, sm_gen = 1, sm_payload = bs2, sm_plaintext = [42]\<rparr>"
    unfolding sent_in_epoch_def
    by (rule exI [of _ "demo_chat 0"], rule exI [of _ A1], rule exI [of _ A2]) (use A1(2,3) A2 e in simp)
  ultimately show ?thesis using that by fastforce
qed

theorem deliveries_follow_windows_witness:
  "\<exists>m1 m2. sent_in_epoch demo_crypto (demo_chat 1) m1 \<and> sent_in_epoch demo_crypto (demo_chat 1) m2
     \<and> fst (receive_all demo_crypto (demo_chat 1) (map sm_payload [m2, m1, m2])) = [Inr [42], Inl (ValueError ''SecretTree''), Inr [42]]"
proof -
  obtain m1 m2 where m: "sent_in_epoch demo_crypto (demo_chat 1) m1" "sent_in_epoch demo_crypto (demo_chat 1) m2"
    "sm_leaf m1 = 0" "sm_gen m1 = 0" "sm_leaf m2 = 0" "sm_gen m2 = 1" "sm_plaintext m2 = [42]" by (rule demo_two_sent)
  have "\<forall>m\<in>set [m2, m1, m2]. sent_in_epoch demo_crypto (demo_chat 1) m" using m(1,2) by simp
  from deliveries_follow_windows [OF demo_crypto_laws(3) _ chat_run.start this] m show ?thesis
    by - (rule exI [of _ m1], rule exI [of _ m2], simp)
qed

theorem restored_member_opens_replay_witness:
  "\<exists>B B' (m :: sent_message). fst (decrypt_application_message demo_crypto B (sm_payload m)) = Inl (ValueError ''SecretTree'')
     \<and> fst (decrypt_application_message demo_crypto B' (sm_payload m)) = Inr [42]"
proof -
  obtain m1 m2 where m: "sent_in_epoch demo_crypto (demo_chat 1) m1" "sent_in_epoch demo_crypto (demo_chat 1) m2"
    "sm_leaf m1 = 0" "sm_gen m1 = 0" "sm_plaintext m1 = [42]" "sm_leaf m2 = 0" "sm_gen m2 = 1" by (rule demo_two_sent)
  obtain r B where B: "decrypt_application_message demo_crypto (demo_chat 1) (sm_payload m2) = (r, B)" by fastforce
  have ok: "ratchets_ok (demo_chat 1)" by (rule ratchets_fresh) simp
  have seen: "sm_gen m1 < seen_gen B (sm_leaf m1)" using decrypt_sent(4) [OF demo_crypto_laws(3) ok m(2) B] m by simp
  obtain s where s: "B = (demo_chat 1)\<lparr>g_secret_tree := s\<rparr>" using decrypt_keeps(2) [OF ok B] by blast
  obtain bs where "MLSGroup_to_bytes (demo_chat 1) = Inr bs" using demo_persisted by blast
  then have bs: "MLSGroup_to_bytes B = Inr bs" by (simp add: s MLSGroup_to_bytes_def)
  have p: "persistable B" using demo_persistable [of 1] by (simp add: s persistable_def)
  have "g_secret_tree (demo_chat 1) = None" by simp
  note w = restored_member_opens_replay [OF demo_crypto_laws(3) this chat_run.decrypt [OF chat_run.start B] m(1) seen p bs restore_written [OF p bs]]
  show ?thesis
    by (rule exI [of _ B], rule exI [of _ "reloaded B"], rule exI [of _ m1]) (use w in \<open>simp only: m(5)\<close>)
qed

end
