(* ===== verification/Validation.thy ===== *)
theory Validation
  imports GroupRuns GroupChat FileSystem
begin

text \<open>
  \<open>scripts/validate_ietf_vectors.py\<close>: the checks of the library against test vectors, the self tests,
  and the verdict of the script. The contents of the file are the dictionary of lists of dictionaries
  that \<open>json\<close> makes of it; reading and downloading the file are not modelled, their outcome is an
  argument. The theorems: the self tests,
  among them a whole group of two members that talk, always pass; what the verdict depends on.
\<close>

section \<open>Model\<close>

text \<open>JSON values without floating-point numbers; a vector is a dictionary. Strings are ASCII.\<close>

datatype json =
    JNull
  | JBool bool
  | JInt int
  | JStr string
  | JList "json list"
  | JDict "(string \<times> json) list"

type_synonym vector = "string \<rightharpoonup> json"

definition TARGET_CIPHER_SUITE :: int where "TARGET_CIPHER_SUITE = 0x0001"

text \<open>\<open>vec.get(key, default)\<close> and \<open>vec[key]\<close>.\<close>

definition json_get :: "vector \<Rightarrow> string \<Rightarrow> json \<Rightarrow> json" where
  "json_get vec key dflt = (case vec key of None \<Rightarrow> dflt | Some v \<Rightarrow> v)"

definition json_item :: "vector \<Rightarrow> string \<Rightarrow> json res" where
  "json_item vec key = (case vec key of None \<Rightarrow> Inl KeyError | Some v \<Rightarrow> Inr v)"

text \<open>\<open>v == n\<close>: booleans are integers in Python.\<close>

fun json_is_int :: "json \<Rightarrow> int \<Rightarrow> bool" where
  "json_is_int (JInt m) n = (m = n)"
| "json_is_int (JBool b) n = (of_bool b = n)"
| "json_is_int _ n = False"

definition targeted :: "vector \<Rightarrow> bool" where
  "targeted vec = json_is_int (json_get vec ''cipher_suite'' (JInt 0)) TARGET_CIPHER_SUITE"

text \<open>\<open>bytes.fromhex\<close>: pairs of hexadecimal digits, with white space between pairs.\<close>

definition hex_value :: "char \<Rightarrow> nat option" where
  "hex_value c = (let n = of_char c :: nat in
     if 48 \<le> n \<and> n \<le> 57 then Some (n - 48)
     else if 97 \<le> n \<and> n \<le> 102 then Some (n - 87)
     else if 65 \<le> n \<and> n \<le> 70 then Some (n - 55)
     else None)"

definition hex_space :: "char \<Rightarrow> bool" where
  "hex_space c = (let n = of_char c :: nat in n = 32 \<or> 9 \<le> n \<and> n \<le> 13)"

fun fromhex :: "string \<Rightarrow> bytes res" where
  "fromhex [] = Inr []"
| "fromhex [c] = (if hex_space c then Inr [] else Inl (ValueError ''non-hexadecimal number found in fromhex() arg''))"
| "fromhex (c # d # ds) =
     (if hex_space c then fromhex (d # ds)
      else case (hex_value c, hex_value d) of
        (Some a, Some b) \<Rightarrow> bindR (fromhex ds) (\<lambda>bs. Inr (word_of_nat (16 * a + b) # bs))
      | _ \<Rightarrow> Inl (ValueError ''non-hexadecimal number found in fromhex() arg''))"

fun hex2b :: "json \<Rightarrow> bytes res" where
  "hex2b (JStr s) = fromhex s"
| "hex2b _ = Inl (TypeError ''fromhex() argument must be str'')"

text \<open>\<open>expand_with_label\<close> called with JSON values for the label and the length.\<close>

fun expand_json :: "bytes \<Rightarrow> json \<Rightarrow> bytes \<Rightarrow> json \<Rightarrow> bytes res" where
  "expand_json secret (JStr label) context (JInt n) =
     (if n < 0 then Inl OverflowError else expand_with_label secret label context (nat n) sha256)"
| "expand_json secret (JStr label) context (JBool b) = expand_with_label secret label context (of_bool b) sha256"
| "expand_json secret label context len = Inl AttributeError"

text \<open>The \<open>try\<close> block of each runner: it passes, fails or raises.\<close>

definition check_key_schedule :: "vector \<Rightarrow> bool res" where
  "check_key_schedule vec =
     bindR (hex2b (json_get vec ''commit_secret'' (JStr (replicate 64 CHR ''0'')))) (\<lambda>commit_secret.
     bindR (hex2b (json_get vec ''init_secret'' (JStr (replicate 64 CHR ''0'')))) (\<lambda>init_secret.
     bindR (expand_with_label init_secret ''joiner'' commit_secret 32 sha256) (\<lambda>joiner_secret.
     bindR (hex2b (json_get vec ''joiner_secret'' (JStr []))) (\<lambda>expected_joiner.
     Inr (\<not> (expected_joiner \<noteq> [] \<and> joiner_secret \<noteq> expected_joiner))))))"

definition check_hkdf :: "vector \<Rightarrow> bool res" where
  "check_hkdf vec =
     bindR (bindR (json_item vec ''secret'') hex2b) (\<lambda>secret.
     bindR (json_item vec ''label'') (\<lambda>label.
     bindR (hex2b (json_get vec ''context'' (JStr []))) (\<lambda>context.
     bindR (json_item vec ''length'') (\<lambda>len.
     bindR (bindR (json_item vec ''out'') hex2b) (\<lambda>expected.
     bindR (expand_json secret label context len) (\<lambda>result.
     Inr (result = expected)))))))"

definition check_welcome :: "vector \<Rightarrow> bool res" where
  "check_welcome vec =
     bindR (bindR (json_item vec ''joiner_secret'') hex2b) (\<lambda>joiner_secret.
     bindR (hex2b (json_get vec ''welcome_key'' (JStr []))) (\<lambda>expected_key.
     bindR (expand_with_label joiner_secret ''welcome'' [] 16 sha256) (\<lambda>computed_key.
     Inr (\<not> (expected_key \<noteq> [] \<and> computed_key \<noteq> expected_key)))))"

text \<open>The loop the three runners share; every exception is caught and counts as a failure.\<close>

fun count_vectors :: "(vector \<Rightarrow> bool res) \<Rightarrow> vector list \<Rightarrow> nat \<times> nat \<times> nat \<Rightarrow> nat \<times> nat \<times> nat" where
  "count_vectors check [] (p, f, s) = (p, f, s)"
| "count_vectors check (vec # vecs) (p, f, s) =
     (if \<not> targeted vec then count_vectors check vecs (p, f, s + 1)
      else case check vec of
        Inr True \<Rightarrow> count_vectors check vecs (p + 1, f, s)
      | Inr False \<Rightarrow> count_vectors check vecs (p, f + 1, s)
      | Inl e \<Rightarrow> count_vectors check vecs (p, f + 1, s))"

definition run_key_schedule_vectors :: "vector list \<Rightarrow> nat \<times> nat \<times> nat" where
  "run_key_schedule_vectors vecs = count_vectors check_key_schedule vecs (0, 0, 0)"

definition run_hkdf_vectors :: "vector list \<Rightarrow> nat \<times> nat \<times> nat" where
  "run_hkdf_vectors vecs = count_vectors check_hkdf vecs (0, 0, 0)"

definition run_welcome_vectors :: "vector list \<Rightarrow> nat \<times> nat \<times> nat" where
  "run_welcome_vectors vecs = count_vectors check_welcome vecs (0, 0, 0)"

text \<open>What the self tests draw at random.\<close>

record self_test_draws =
  sd_c_sig :: SignatureKey
  sd_c_kem :: KemKey
  sd_j_sig :: SignatureKey
  sd_j_kem :: KemKey
  sd_init_kem :: KemKey
  sd_entropy :: entropy

text \<open>The third self test: a group, a newcomer, a message from one to the other.\<close>

definition end_to_end :: "crypto \<Rightarrow> self_test_draws \<Rightarrow> unit res" where
  "end_to_end C w =
     (let j_sig = sd_j_sig w; j_kem = sd_j_kem w in
      bindR (create C (sd_init_kem w) (encode_str ''ietf-test-group'') (sd_c_sig w) (sd_c_kem w)) (\<lambda>group.
      bindR (KeyPackage_create (kem_public_bytes C j_kem) (kem_public_bytes C j_kem) (sig_public_bytes C j_sig)
               (sig_public_bytes C j_sig) (sig_sign C j_sig)) (\<lambda>kp.
      bindR (fst (add_member C (sd_entropy w) group kp)) (\<lambda>(new_group, welcome, update).
      bindR (join C welcome j_sig j_kem None None) (\<lambda>joiner.
      bindR (guard (g_epoch_id joiner = g_epoch_id new_group) AssertionError) (\<lambda>_.
      bindR (fst (encrypt_application_message C new_group (encode_str ''hello interop''))) (\<lambda>ct.
      bindR (fst (decrypt_application_message C joiner ct)) (\<lambda>pt.
      guard (pt = encode_str ''hello interop'') AssertionError))))))))"

text \<open>The fields of the dataclass \<open>KeySchedule\<close>, for \<open>hasattr\<close>.\<close>

definition KeySchedule_attributes :: "string list" where
  "KeySchedule_attributes =
     [''joiner_secret'', ''epoch_secret'', ''sender_data_secret'', ''encryption_secret'', ''exporter_secret'',
      ''epoch_authenticator'', ''external_secret'', ''resumption_psk_secret'', ''confirmation_key'', ''membership_key'',
      ''init_secret'']"

definition required_fields :: "string list" where
  "required_fields =
     [''joiner_secret'', ''epoch_authenticator'', ''sender_data_secret'', ''encryption_secret'', ''exporter_secret'',
      ''membership_key'', ''resumption_psk_secret'', ''init_secret'', ''confirmation_key'']"

definition run_self_consistency_tests :: "crypto \<Rightarrow> self_test_draws \<Rightarrow> (nat \<times> nat) res" where
  "run_self_consistency_tests C w =
     (let s = replicate 32 0x01 in
      bindR (expand_with_label s ''test'' [0xab, 0xcd] 32 sha256) (\<lambda>a.
      bindR (expand_with_label s ''test'' [0xab, 0xcd] 32 sha256) (\<lambda>b.
      let (p1, f1) = (if a = b then (1, 0) else (0, 1)) in
      bindR (KeySchedule_derive (replicate 32 0x00) (replicate 32 0x01) [] None) (\<lambda>ks.
      let present = filter (\<lambda>field. field \<in> set KeySchedule_attributes) required_fields;
          p2 = p1 + length present; f2 = f1 + (length required_fields - length present) in
      Inr (case end_to_end C w of Inr _ \<Rightarrow> (p2 + 1, f2) | Inl e \<Rightarrow> (p2, f2 + 1))))))"

text \<open>\<open>main\<close> after argument parsing. \<open>vectors\<close> is what \<open>load_vectors\<close> or the download returned or raised: an
  exception of either is caught and leaves an empty dictionary. The result is the exit status with
  the three totals.\<close>

fun add_counts :: "nat \<times> nat \<times> nat \<Rightarrow> nat \<times> nat \<times> nat \<Rightarrow> nat \<times> nat \<times> nat" where
  "add_counts (p, f, s) (p', f', s') = (p + p', f + f', s + s')"

fun run_category :: "(string \<rightharpoonup> vector list) \<Rightarrow> string \<times> (vector list \<Rightarrow> nat \<times> nat \<times> nat) \<Rightarrow> nat \<times> nat \<times> nat \<Rightarrow> nat \<times> nat \<times> nat" where
  "run_category vectors_data (cat_key, runner) totals =
     (case vectors_data cat_key of
        None \<Rightarrow> totals
      | Some vecs \<Rightarrow> if vecs = [] then totals else add_counts totals (runner vecs))"

definition categories :: "(string \<times> (vector list \<Rightarrow> nat \<times> nat \<times> nat)) list" where
  "categories = [(''key_schedule'', run_key_schedule_vectors), (''expand_with_label'', run_hkdf_vectors),
     (''welcome'', run_welcome_vectors)]"

definition validate_main :: "crypto \<Rightarrow> self_test_draws \<Rightarrow> bool \<Rightarrow> (string \<rightharpoonup> vector list) res \<Rightarrow> (int \<times> nat \<times> nat \<times> nat) res" where
  "validate_main C w no_download vectors =
     bindR (run_self_consistency_tests C w) (\<lambda>(sc_pass, sc_fail).
     let total0 = (sc_pass, sc_fail, 0);
         vectors_data = (case vectors of Inl e \<Rightarrow> Map.empty | Inr d \<Rightarrow> d);
         (total_passed, total_failed, total_skipped) =
           (if no_download then total0 else fold (run_category vectors_data) categories total0) in
     Inr (if total_failed = 0 then 0 else 1, total_passed, total_failed, total_skipped))"

section \<open>Lemmas\<close>

text \<open>The counts of a runner.\<close>

definition passes :: "(vector \<Rightarrow> bool res) \<Rightarrow> vector \<Rightarrow> bool" where
  "passes check vec \<longleftrightarrow> check vec = Inr True"

lemma count_vectors_eq:
  "count_vectors check vecs (p, f, s) =
     (p + length (filter (\<lambda>v. targeted v \<and> passes check v) vecs), f + length (filter (\<lambda>v. targeted v \<and> \<not> passes check v) vecs),
      s + length (filter (\<lambda>v. \<not> targeted v) vecs))"
  by (induction check vecs "(p, f, s)" arbitrary: p f s rule: count_vectors.induct)
    (auto simp: passes_def split: sum.split bool.split)

text \<open>The checks of the three categories, and the vectors of a category.\<close>

definition category_checks :: "(string \<times> (vector \<Rightarrow> bool res)) list" where
  "category_checks = [(''key_schedule'', check_key_schedule), (''expand_with_label'', check_hkdf), (''welcome'', check_welcome)]"

definition vectors_of :: "(string \<rightharpoonup> vector list) res \<Rightarrow> string \<Rightarrow> vector list" where
  "vectors_of vectors key = (case vectors of Inl e \<Rightarrow> [] | Inr d \<Rightarrow> (case d key of None \<Rightarrow> [] | Some vecs \<Rightarrow> vecs))"

lemma run_category_eq:
  assumes "\<And>vecs. runner vecs = count_vectors check vecs (0, 0, 0)"
    and "d = (case vectors of Inl e \<Rightarrow> Map.empty | Inr d \<Rightarrow> d)"
  shows "run_category d (key, runner) totals = count_vectors check (vectors_of vectors key) totals"
  by (cases totals; cases vectors)
    (auto simp: assms vectors_of_def count_vectors_eq split: option.split)

lemma categories_eq:
  assumes "d = (case vectors of Inl e \<Rightarrow> Map.empty | Inr d \<Rightarrow> d)"
  shows "fold (run_category d) categories totals = fold (\<lambda>(key, check). count_vectors check (vectors_of vectors key)) category_checks totals"
  by (simp add: categories_def category_checks_def run_category_eq [OF run_key_schedule_vectors_def assms]
      run_category_eq [OF run_hkdf_vectors_def assms] run_category_eq [OF run_welcome_vectors_def assms] del: run_category.simps)

text \<open>Hexadecimal digits are read back.\<close>

lemma hex_value_digit: "n < 16 \<Longrightarrow> hex_value (hex_digit n) = Some n" "n < 16 \<Longrightarrow> \<not> hex_space (hex_digit n)"
proof -
  have "\<forall>n\<in>set [0..<16]. hex_value (hex_digit n) = Some n \<and> \<not> hex_space (hex_digit n)" by code_simp
  then show "n < 16 \<Longrightarrow> hex_value (hex_digit n) = Some n" "n < 16 \<Longrightarrow> \<not> hex_space (hex_digit n)" by simp_all
qed

lemma fromhex_bytes_hex [simp]: "fromhex (bytes_hex bs) = Inr bs"
proof (induction bs)
  case (Cons b bs)
  have "unat b < 256" using unsigned_less [of b, where ?'a = nat] by simp
  then have d: "unat b div 16 < 16" "unat b mod 16 < 16" by auto
  have "(word_of_nat (16 * (unat b div 16) + unat b mod 16) :: byte) = b" by simp
  then show ?case using Cons hex_value_digit [OF d(1)] hex_value_digit [OF d(2)] by (simp add: bytes_hex_def)
qed (simp add: bytes_hex_def)

text \<open>The life of the third self test.\<close>

lemma end_to_end_returns:
  assumes C: "working_crypto C" and ent: "length (ent_leaf_path_secret (sd_entropy w)) = 32"
    and keys: "sig_public_bytes C (sd_j_sig w) \<noteq> sig_public_bytes C (sd_c_sig w)"
  shows "end_to_end C w = Inr ()"
proof -
  have laws: "crypto_laws C" "signatures_verify C" "gcm_decrypts C" "primitives_return C"
    using C by (simp_all add: working_crypto_def crypto_laws_def)
  have l: "length (encode_str ''ietf-test-group'') \<le> 1000" by simp
  obtain g where g: "create C (sd_init_kem w) (encode_str ''ietf-test-group'') (sd_c_sig w) (sd_c_kem w) = Inr g" "group_room C g"
    by (rule create_ok [OF C l])
  note f = create_facts [OF g(1) laws(2)]
  obtain kp ref where kp: "own_key_package C (sd_j_sig w) (sd_j_kem w) (sd_j_kem w) = Inr kp" "newcomer_keys C kp (sd_j_sig w) (sd_j_kem w)"
    "package_room C kp" "KeyPackage_verify_signature C kp = Inr ()" "make_kp_ref kp = Inr ref"
    by (rule fresh_package [OF C, of "sd_j_sig w" "sd_j_kem w" "sd_j_kem w"]) (simp add: newcomer_keys_def)
  have src: "leaf_node_source (leaf_node kp) = LEAF_NODE_SOURCE_KEY_PACKAGE" using kp(2) by (simp add: newcomer_keys_def)
  have n: "num_leaves (g_tree g) \<le> 2048" "num_leaves (g_tree g) < 2 ^ 31" "ref \<notin> g_consumed_key_packages g" using f(5,6) by simp_all
  obtain g' wel u where a: "fst (add_member C (sd_entropy w) g kp) = Inr (g', wel, u)" "g_epoch_id g + 2 < 2 ^ 64 \<longrightarrow> group_room C g'"
    by (rule add_member_ok [OF C g(2) f(1) ent n(1) kp(3,4) src kp(5) n(3)])
  have new: "\<forall>x l. get_node (g_tree g) x = Some (Leaf l) \<longrightarrow> signature_key l \<noteq> sig_public_bytes C (sd_j_sig w)"
    using f(7) keys by auto
  obtain j where j: "join C wel (sd_j_sig w) (sd_j_kem w) None None = Inr j" "members_in_step C g' j"
    using added_joined [OF f(1) laws(1) a(1) n(2) kp(2) new] by blast
  have room: "group_room C g'" using a(2) f(2) by simp
  have none: "g_secret_tree g' = None" "g_secret_tree j = None"
    by (rule add_member_log [OF a(1) f(1) laws(2) n(2) src]) (simp add: next_group_def MLSGroup_init_def, rule join_no_secret_tree [OF j(1)])
  have st: "same_epoch g' j" "member_ok C g'" "g_epoch_id j = g_epoch_id g'" using j(2) by (simp_all add: members_in_step_def same_epoch_def)
  then have i: "0 \<le> g_my_index g'" "g_my_index g' < num_leaves (g_tree g')" "tree_wf (g_tree g')"
    by (simp_all add: member_ok_def holds_leaf_def tree_good_def)
  then obtain d where d: "tree_shape (g_tree g') d" by (auto simp: tree_wf_def)
  have d12: "(2 :: int) ^ d \<le> 4096" using room shape_leaves [OF d] by (simp add: group_room_def tree_room_def)
  have "d \<le> 31"
  proof (rule ccontr)
    assume "\<not> d \<le> 31"
    then have "(2 :: int) ^ 31 \<le> 2 ^ d" by (intro power_increasing) simp_all
    with d12 show False by simp
  qed
  have gen: "own_gen g' = 0" "seen_gen g' x = -1" "seen_gen j x = -1" for x
    using none by (simp_all add: own_gen_def seen_gen_def ratchets_def get_secret_tree_def SecretTree_init_def next_gen_def
        tip_def cached_def Let_def)
  have size: "length (nodes (g_tree g')) = 2 * 2 ^ d - 1"
  proof -
    have "(1 :: nat) \<le> 2 * 2 ^ d" by simp
    then have "int (length (nodes (g_tree g'))) = int (2 * 2 ^ d - 1)" using shape_size [OF d] by (simp add: of_nat_diff)
    then show ?thesis by (simp only: of_nat_eq_iff)
  qed
  let ?m = "encode_str ''hello interop''"
  have "\<exists>bs. fst (encrypt_application_message C g' ?m) = Inr bs \<and> length bs = length ?m + 42"
    by (rule encrypt_ok [OF laws(4) ratchets_fresh [OF none(1)] _ _ _ size \<open>d \<le> 31\<close>])
      (use gen i room d shape_leaves [OF d] in \<open>simp_all add: group_room_def tree_shape_def\<close>)
  then obtain ct g2 where e: "encrypt_application_message C g' ?m = (Inr ct, g2)" by (metis prod.collapse)
  have "fst (receive_all C j (map fst [(ct, ?m)])) = map (\<lambda>(bs, pt). Inr pt) [(ct, ?m)]"
    by (rule receive_sent [OF laws(3), where A = g' and pts = "[?m]" and bss = "[ct]" and A' = g2])
      (use e st i gen ratchets_fresh none in simp_all)
  then have "fst (decrypt_application_message C j ct) = Inr ?m" by (simp split: prod.splits)
  then show ?thesis
    using g(1) kp(1) a(1) j(1) st(3) e by (simp add: end_to_end_def own_key_package_def Let_def guard_def)
qed

lemma self_tests_run:
  assumes "working_crypto C" "length (ent_leaf_path_secret (sd_entropy w)) = 32"
    and "sig_public_bytes C (sd_j_sig w) \<noteq> sig_public_bytes C (sd_c_sig w)"
  shows "run_self_consistency_tests C w = Inr (11, 0)"
proof -
  obtain a where a: "expand_with_label (replicate 32 0x01) ''test'' [0xab, 0xcd] 32 sha256 = Inr a"
    using expand_with_label_sha256 [of "''test''" "[0xab, 0xcd]" 32 "replicate 32 0x01"] by auto
  obtain k where k: "KeySchedule_derive (replicate 32 0x00) (replicate 32 0x01) [] None = Inr k"
    using KeySchedule_derive_ok [of "[]" None] by (auto simp: psks_ok_def)
  have "filter (\<lambda>field. field \<in> set KeySchedule_attributes) required_fields = required_fields" "length required_fields = 9"
    by code_simp+
  with a k end_to_end_returns [OF assms] show ?thesis by (simp add: run_self_consistency_tests_def)
qed

section \<open>Properties\<close>

text \<open>C37: the self tests pass. Over primitives that keep their laws and return, with any keys of the two
  members whose signature keys differ and any 32-byte path secret, the script counts eleven passed
  and no failed self test: in particular creating a group, adding a member, joining from the Welcome,
  encrypting and decrypting all return, and the plaintext arrives.\<close>

theorem self_consistency_passes:
  assumes "working_crypto C" "length (ent_leaf_path_secret (sd_entropy w)) = 32"
    and "sig_public_bytes C (sd_j_sig w) \<noteq> sig_public_bytes C (sd_c_sig w)"
  shows "end_to_end C w = Inr () \<and> run_self_consistency_tests C w = Inr (11, 0)"
  using end_to_end_returns [OF assms] self_tests_run [OF assms] by blast

text \<open>C38: the verdict of the script. It exits with 0 exactly when every vector of the target suite in the three
  categories it knows passes its check, and every vector is counted once; without vectors, whether
  they were not asked for, the file could not be read or the download failed, it exits with 0.\<close>

theorem validator_verdict:
  assumes "working_crypto C" "length (ent_leaf_path_secret (sd_entropy w)) = 32"
    and "sig_public_bytes C (sd_j_sig w) \<noteq> sig_public_bytes C (sd_c_sig w)"
  shows "\<exists>v p f s. validate_main C w no_download vectors = Inr (v, p, f, s)
     \<and> (v = 0 \<longleftrightarrow> no_download \<or> (\<forall>(key, check)\<in>set category_checks. \<forall>vec\<in>set (vectors_of vectors key). targeted vec \<longrightarrow> check vec = Inr True))
     \<and> p + f + s = 11 + (if no_download then 0 else (\<Sum>(key, check)\<leftarrow>category_checks. length (vectors_of vectors key)))
     \<and> (isl vectors \<longrightarrow> (v, p, f, s) = (0, 11, 0, 0))"
proof -
  have c: "validate_main C w no_download vectors = Inr (if f = 0 then 0 else 1, p, f, s)"
    if "(if no_download then (11, 0, 0) else fold (\<lambda>(key, check). count_vectors check (vectors_of vectors key)) category_checks (11, 0, 0)) = (p, f, s)"
    for p f s
    using that by (simp add: validate_main_def self_tests_run [OF assms] categories_eq [OF refl] split: if_splits)
  have n: "length (filter (\<lambda>v. targeted v \<and> P v) vs) + length (filter (\<lambda>v. targeted v \<and> \<not> P v) vs) + length (filter (\<lambda>v. \<not> targeted v) vs) = length vs"
    for P and vs :: "vector list" by (induction vs) auto
  show ?thesis
  proof (cases no_download)
    case True
    then show ?thesis using c [of 11 0 0] by simp
  next
    case False
    let ?v = "vectors_of vectors"
    have v: "isl vectors \<Longrightarrow> ?v key = []" for key by (cases vectors) (simp_all add: vectors_of_def)
    from False c show ?thesis
      using n [of "passes check_key_schedule" "?v ''key_schedule''"] n [of "passes check_hkdf" "?v ''expand_with_label''"]
        n [of "passes check_welcome" "?v ''welcome''"]
      by (simp add: category_checks_def count_vectors_eq v filter_empty_conv) (auto simp: passes_def)
  qed
qed

text \<open>A vector for \<open>ExpandWithLabel\<close> passes exactly when the library computes what it says.\<close>

theorem hkdf_vectors_compare:
  assumes "vec ''secret'' = Some (JStr (bytes_hex secret))" "vec ''label'' = Some (JStr label)" "vec ''context'' = Some (JStr (bytes_hex context))"
    and "vec ''length'' = Some (JInt (int len))" "vec ''out'' = Some (JStr (bytes_hex out))"
  shows "check_hkdf vec = Inr True \<longleftrightarrow> expand_with_label secret label context len sha256 = Inr out"
  by (cases "expand_with_label secret label context len sha256") (simp_all add: assms check_hkdf_def json_item_def json_get_def)

section \<open>Witnesses\<close>

definition demo_draws :: self_test_draws where
  "demo_draws = \<lparr>sd_c_sig = skey 1, sd_c_kem = demo_kem, sd_j_sig = skey 2, sd_j_kem = demo_kem, sd_init_kem = demo_kem, sd_entropy = demo_ent\<rparr>"

lemma demo_draws_facts: "length (ent_leaf_path_secret (sd_entropy demo_draws)) = 32"
  "sig_public_bytes demo_crypto (sd_j_sig demo_draws) \<noteq> sig_public_bytes demo_crypto (sd_c_sig demo_draws)"
  using pkey_neq(1) demo_working(3) by (simp_all add: demo_draws_def)

theorem self_consistency_passes_witness:
  "end_to_end demo_crypto demo_draws = Inr () \<and> run_self_consistency_tests demo_crypto demo_draws = Inr (11, 0)"
  by (rule self_consistency_passes [OF demo_working(1) demo_draws_facts])

text \<open>A vector of the target suite without any data fails; it is refused by the verdict.\<close>

theorem validator_verdict_witness:
  "\<exists>v p f s. validate_main demo_crypto demo_draws False (Inr [''expand_with_label'' \<mapsto> [[''cipher_suite'' \<mapsto> JInt 1]]]) = Inr (v, p, f, s)
     \<and> v \<noteq> 0 \<and> p + f + s = 12"
proof -
  let ?v = "Inr [''expand_with_label'' \<mapsto> [[''cipher_suite'' \<mapsto> JInt 1]]] :: (string \<rightharpoonup> vector list) res"
  have "\<not> (\<forall>(key, check)\<in>set category_checks. \<forall>vec\<in>set (vectors_of ?v key). targeted vec \<longrightarrow> check vec = Inr True)"
    by (simp add: category_checks_def vectors_of_def targeted_def json_get_def TARGET_CIPHER_SUITE_def check_hkdf_def json_item_def)
  moreover have "11 + (if False then 0 else (\<Sum>(key, check)\<leftarrow>category_checks. length (vectors_of ?v key))) = 12"
    by (simp add: category_checks_def vectors_of_def)
  moreover note validator_verdict [OF demo_working(1) demo_draws_facts, of False ?v]
  ultimately show ?thesis by (metis (no_types, lifting))
qed

theorem hkdf_vectors_compare_witness:
  "\<exists>vec out. check_hkdf vec = Inr True \<and> vec ''out'' = Some (JStr (bytes_hex out)) \<and> length out = 32"
proof -
  obtain out where out: "expand_with_label [1] ''test'' [2] 32 sha256 = Inr out" "length out = 32"
    using expand_with_label_sha256 [of "''test''" "[2]" 32 "[1]"] by auto
  let ?vec = "[''secret'' \<mapsto> JStr (bytes_hex [1]), ''label'' \<mapsto> JStr ''test'', ''context'' \<mapsto> JStr (bytes_hex [2]),
     ''length'' \<mapsto> JInt (int 32), ''out'' \<mapsto> JStr (bytes_hex out)] :: vector"
  have v: "?vec ''out'' = Some (JStr (bytes_hex out))" by simp
  have "check_hkdf ?vec = Inr True"
    by (subst hkdf_vectors_compare [of ?vec "[1]" "''test''" "[2]" 32 out]) (use out in simp_all)
  with v out(2) show ?thesis by blast
qed

end
