(* ===== verification/Spec2Isabelle.thy ===== *)
theory Spec2Isabelle
  imports GroupRuns AppMessages Persistence Proposals Storage CommandLine CommitSafety JoinReturns GroupChat Validation
begin

text \<open>
  Verification of pure-mls, an implementation of Messaging Layer Security (RFC 9420) in Python. The
  program is the package \<open>src/src/pure_mls\<close>; file names below are relative to it.

  \<^bold>\<open>The program.\<close> A group is a set of members that share the secrets of an epoch. Each member holds an
  \<open>MLSGroup\<close> (\<open>group.py\<close>): a ratchet tree of public keys with one leaf per member (\<open>tree.py\<close>), the key
  schedule of the epoch (\<open>keyschedule.py\<close>), both together in an \<open>EpochState\<close> (\<open>epoch.py\<close>), transcript
  hashes, its own leaf index and keys (\<open>keys.py\<close>), the secret tree for application messages
  (\<open>secret_tree.py\<close>) and the key packages it has consumed. A member changes the group by a commit
  (\<open>add_member\<close>, \<open>remove_member\<close>, \<open>update_key\<close>): it replaces the keys on the path of its leaf, seals the
  commit secret to the other members by HPKE (\<open>hpke.py\<close> over \<open>hkdf.py\<close>), signs and authenticates the
  message and moves to the next epoch; the others follow by \<open>process_update\<close>, a newcomer by \<open>join\<close> from
  a Welcome. Everything is written in the TLS presentation language (\<open>tls.py\<close>, \<open>extensions.py\<close>,
  \<open>proposals.py\<close>), a Welcome in one of three dialects (\<open>codecs.py\<close>). \<open>storage.py\<close> keeps members in
  encrypted files, \<open>cli.py\<close> runs single operations over files. The script
  \<open>src/scripts/validate_ietf_vectors.py\<close> runs self tests of the library and compares it with test vectors.

  \<^bold>\<open>The theories\<close>, from the bottom up, each with the part of the program it models.

  \<^item> \<open>Prelude\<close>: byte strings, exceptions, results (\<open>py_error + 'a\<close>), big-endian integers, slices, and the
    theory of wire formats: what it means that a reader reads back what a writer wrote (\<open>roundtrips\<close>),
    that it moves forward (\<open>progresses\<close>), that it ends (\<open>halts\<close>) and how large an encoding is
    (\<open>fits\<close>), each with composition rules; the locale \<open>wire_codec\<close>, which every component
    interprets for its structures.
  \<^item> \<open>Hashlib\<close>: SHA-256 and HMAC of the standard library, executable. \<open>Hkdf\<close>: \<open>hkdf.py\<close>.
    \<open>Tls\<close>: \<open>tls.py\<close>. \<open>Extensions\<close>: \<open>extensions.py\<close>. \<open>Keys\<close>: \<open>keys.py\<close>. \<open>Hpke\<close>: \<open>hpke.py\<close>.
    \<open>Codecs\<close>: \<open>codecs.py\<close>, with the locale \<open>dialect\<close> interpreted for the three strategies.
    \<open>Proposals\<close>: \<open>proposals.py\<close>.
  \<^item> \<open>TreeMath\<close>: the index arithmetic of \<open>tree.py\<close> and that of \<open>secret_tree.py\<close>, two implementations
    of one locale \<open>tree_navigation\<close>. \<open>TreeNodes\<close> and \<open>RatchetTrees\<close>: the nodes and the array of nodes of
    \<open>tree.py\<close>, with the locale \<open>node_store\<close> for its writes. \<open>TreeHash\<close>: the tree hash of \<open>tree.py\<close> and
    \<open>crypto.py\<close>. \<open>TreeEquiv\<close>: trees that differ only by a passage over the wire.
  \<^item> \<open>KeySchedules\<close>: \<open>keyschedule.py\<close>. \<open>Epochs\<close>: \<open>epoch.py\<close>. \<open>SecretTrees\<close>: \<open>secret_tree.py\<close>.
  \<^item> \<open>GroupInfos\<close> and \<open>Commits\<close>: the messages of \<open>group.py\<close>. \<open>Committing\<close> and \<open>Receiving\<close>: the class
    \<open>MLSGroup\<close>, one definition per method and per block of the long methods, composed as in the code; what
    a method does to the member object is the second component of its value. \<open>AppMessages\<close>: application
    messages. \<open>Persistence\<close>: the persisted form of a member.
  \<^item> \<open>CommitFacts\<close>, \<open>ReceiveFacts\<close>, \<open>Members\<close>: lemmas on what the blocks of a commit do, what its
    receiver reaches, and what holds of a member in order (\<open>member_ok\<close>, \<open>same_epoch\<close>,
    \<open>members_in_step\<close>). \<open>Protocol\<close>: the locale \<open>group_protocol\<close> of fit members, commits sent and
    commits received, with the lemmas on lists of members proved from it, interpreted on the
    operations of \<open>MLSGroup\<close> over encoded messages. \<open>Removals\<close>: its extension
    \<open>removing_protocol\<close> by removals, with its interpretation. \<open>Liveness\<close>: bounds from keys up to whole messages,
    so that operations return. \<open>GroupRuns\<close>: groups over time. \<open>CommitSafety\<close>: misuse and adversaries.
    \<open>JoinReturns\<close>: joining ends on every input.
  \<^item> \<open>FileSystem\<close>, \<open>Storage\<close>: \<open>storage.py\<close> over a map from paths to contents and modes; a call of the
    store is a task that makes one file access per step, so that calls can be interleaved; the locale
    \<open>key_value_store\<close> is interpreted on it. \<open>CommandLine\<close>: the seven commands of \<open>cli.py\<close>.
  \<^item> \<open>GroupChat\<close>: application messages of all members of an epoch, delivered in any order, against a
    specification that keeps one window per sender. \<open>Validation\<close>: the script
    \<open>validate_ietf_vectors.py\<close>.

  \<^bold>\<open>What is shown.\<close>

  \<^item> Groups over time. In every run of a group in which commits and Welcomes are delivered, all members
    are in the same epoch with the same secrets and transcript, each with a leaf that carries its keys
    (\<open>group_stays_in_step\<close>); every commit a member encodes is accepted by all others and every
    invitation joined (\<open>group_run_progress\<close>); commits return while the group has room
    (\<open>commits_return\<close>); what a removal does (\<open>removal_agreed\<close>). The run relation \<open>group_run\<close> has creation, key updates, invitations and removals. The
    code leaves a remover with a KEM key that does not fit its new leaf, so that it could not open the
    next commit of another member; in a run a removal is followed by a key update of the remover,
    which does not need that key. The other conditions on the steps of a run: an invited newcomer has a
    key package with source KEY_PACKAGE, one KEM key as init key and leaf key, and a signature key that
    is new in the tree, which has fewer than 2 ^ 31 leaves (\<open>sends_invitation\<close>); references of leaves
    identify their KEM keys (\<open>refs_identify\<close>, in \<open>on_wire\<close>).
  \<^item> Adversaries and misuse. A commit with other tags, another group or another epoch is refused, and so is
    a commit received twice (\<open>commit_tampering_refused\<close>); signed bytes bind what they protect; the tree hash binds the tree;
    a key package is used once by the operations of a member (and can be used again after a commit of
    somebody else). Six theorems show
    weaknesses: a forged commit with a committer outside its tree hangs the receiver
    (\<open>forged_commit_hangs\<close>), a forged generation blocks honest messages (\<open>forged_generation_blocks\<close>), a
    restored member uses a nonce again (\<open>restored_member_reuses_nonce\<close>)
    and opens replayed messages (\<open>restored_member_opens_replay\<close>), a newcomer whose key package has two
    different keys does not hold the key of its leaf (\<open>joiner_keeps_init_key\<close>), an interrupted save loses the
    group (\<open>interrupted_save_loses_group\<close>).
  \<^item> Messages. A conversation within an epoch arrives, with messages lost but not reordered. Payloads of
    all members in any order, lost and repeated, are opened exactly as the windows of the
    specification say (\<open>deliveries_follow_windows\<close>); in every interleaving of requests the cached secret tree
    hands out the keys of the ratchets without a cache, and no sending generation twice.
  \<^item> Trees. The two implementations of the index arithmetic agree; \<open>_parent\<close> returns exactly on the
    indices up to twice that of the root, the array when the number of leaves is a power of two; a
    new member takes the leftmost blank leaf and the tree doubles exactly when there is none; writes keep the tree well-formed; a commit reaches every other member; both
    tree hashes agree.
  \<^item> Formats. Every structure is read back as written, at any place of any buffer, in every dialect; the
    readers of vectors end on every input.
  \<^item> Storage and commands. The store is a dictionary of members; concurrent calls on different groups do
    not disturb each other; commands change the files they should; an invitation by files, from
    \<open>add-member\<close> over \<open>join-group\<close> to \<open>apply-commit\<close> of all members, returns and leaves all state files in one epoch
    (\<open>cli_invitation_joined\<close>).
  \<^item> Validator. The self tests of the script pass over any provider that keeps its laws
    (\<open>self_consistency_passes\<close>); the verdict is 0 exactly when all vectors of the suite pass, also when
    there are none (\<open>validator_verdict\<close>).

  \<^bold>\<open>Assumptions.\<close> The package \<open>cryptography\<close> is not part of the repository: its primitives are the fields
  of the record \<open>crypto\<close>, an argument of every definition that needs them. What is relied on is its
  documented behaviour, stated by the predicates of \<open>Keys\<close> (\<open>crypto_laws\<close>: a signature verifies under
  the signer's public key, both sides of a Diffie-Hellman exchange agree, decryption undoes encryption,
  public keys have 32 bytes; \<open>primitives_return\<close>: calls return on inputs of the documented sizes). The
  closed witnesses use \<open>demo_crypto\<close>, a concrete provider for which the laws are proved. No claim says
  that a secret is hidden from somebody: the statements on adversaries are about what is accepted and
  what encodings determine; where hashes enter, the alternative is a collision of SHA-256 on the inputs
  named.

  \<^bold>\<open>Loops and bounds.\<close> Structural loops are recursive functions. A loop that may run forever is a
  \<open>partial_function (option)\<close>, and \<open>None\<close> becomes the error value \<open>Nontermination\<close>, which no Python
  exception is mapped to; that a loop returns is therefore a statement that this value is not
  reached. The level of a node is searched up to the bit 32 as in the code, so the tree theorems
  ask for fewer than 2 ^ 31 leaves where it matters. \<open>Liveness\<close> assumes at most 4096 leaves whose nodes
  are encoded in at most 1000 bytes (\<open>group_room\<close>): with these numbers every length stays below the
  2 ^ 30 of a variable-length integer and the 2 ^ 32 of a four-byte prefix, and the next member has room
  again. Integers are Python's unbounded ones; the widths are those of \<open>struct.pack\<close>, whose range errors
  are values of the model.

  \<^bold>\<open>Randomness.\<close> Fresh keys, nonces and secrets are arguments (the record of entropy of a commit, the
  ephemeral key of a sealed message). The theorems hold for every value of them, repeated ones included.

  \<^bold>\<open>Errors.\<close> A method that raises in the middle leaves what it did to the member object before, which is
  the second component of its value: a consumed reference, a moved ratchet. The trees a commit writes to
  are new objects of the call, made by the constructor, by \<open>remove_leaf\<close> or by parsing, so that they are lost with
  the exception; they are passed as values here.

  \<^bold>\<open>Not modelled.\<close> \<open>__init__.py\<close> (re-exports); \<open>__repr__\<close> methods, deprecated names that only warn and
  typing protocols; argument parsing, printed text and exit codes of \<open>cli.py\<close>; errors of the operating
  system while writing (full disk, missing rights): every directory exists and every write is
  complete; memory wiping beyond the fields that are overwritten. Of the validator: how the file of
  vectors is read, downloaded and parsed (the outcome is an argument: a dictionary of lists of
  dictionaries, without floating-point numbers and with ASCII strings) and what is printed.
  \<open>src/scratch\<close> holds experiments that print intermediate values of one published vector each, with
  no state and no callers; the functions of the library they call are modelled. The shell scripts and
  the tests are not modelled either.

  \<^bold>\<open>Open.\<close> Runs in which another member commits between a removal and the next key update of the
  remover: the code leaves the remover without the key of its leaf, so it follows such a commit only
  if nothing it needs is sealed to that leaf.
\<close>

end
